(* ===== verification/Quantity.thy ===== *)
theory Quantity
  imports "HOL-Library.Monad_Syntax" H3s_Prelude
begin

text \<open>
  Kubernetes resource quantities (\<^verbatim>\<open>crates/h3s-api/src/quantity.rs\<close>): the syntax check of
  \<^verbatim>\<open>Quantity::parse\<close>, the fixed-point conversion \<^verbatim>\<open>scaled\<close> in checked 128-bit arithmetic, and the
  two readings \<^verbatim>\<open>as_milli_cpu\<close> and \<^verbatim>\<open>as_bytes\<close>.
\<close>

record quantity =
  raw :: string

subsection \<open>The code\<close>

definition numeric_char :: "char \<Rightarrow> bool" where
  "numeric_char c \<longleftrightarrow> is_digit c \<or> c = CHR ''.''"

definition split_quantity :: "string \<Rightarrow> string \<times> string \<times> string \<times> bool" where
  "split_quantity s =
     (let n = takeWhile numeric_char s; suffix = dropWhile numeric_char s;
          (whole, decimals) = (case split_once CHR ''.'' n of None \<Rightarrow> (n, []) | Some p \<Rightarrow> p)
      in (whole, decimals, suffix, CHR ''.'' \<in> set n))"

definition syntax_valid :: "string \<Rightarrow> bool" where
  "syntax_valid s =
     (if s = [] \<or> starts_with ''-'' s then False
      else (case split_quantity s of (whole, decimals, suffix, fraction) \<Rightarrow>
        if whole = [] \<or> (fraction \<and> decimals = []) \<or> length decimals > 9 \<or> \<not> list_all is_digit decimals
        then False
        else suffix \<in> {'''', ''m'', ''u'', ''n'', ''Ki'', ''Mi'', ''Gi'', ''Ti'', ''k'', ''K'', ''M'', ''G''}))"

definition suffix_scale :: "string \<Rightarrow> (int \<times> int) option" where
  "suffix_scale suffix =
     (if suffix = '''' then Some (1, 1)
      else if suffix = ''m'' then Some (1, 1000)
      else if suffix = ''u'' then Some (1, 1000000)
      else if suffix = ''n'' then Some (1, 1000000000)
      else if suffix = ''Ki'' then Some (1024, 1)
      else if suffix = ''Mi'' then Some (1024 * 1024, 1)
      else if suffix = ''Gi'' then Some (1024 * 1024 * 1024, 1)
      else if suffix = ''Ti'' then Some (1024 ^ 4, 1)
      else if suffix = ''k'' \<or> suffix = ''K'' then Some (1000, 1)
      else if suffix = ''M'' then Some (1000000, 1)
      else if suffix = ''G'' then Some (1000000000, 1)
      else None)"

definition scaled :: "string \<Rightarrow> bool \<Rightarrow> int option" where
  "scaled s cpu =
     (case split_quantity s of (whole, decimals, suffix, _) \<Rightarrow>
      let scale = 10 ^ length decimals in
      do {
        x \<leftarrow> parse_i128 whole;
        y \<leftarrow> checked_i128 (x * scale);
        f \<leftarrow> (if decimals = [] then Some 0 else parse_i128 decimals);
        base \<leftarrow> checked_i128 (y + f);
        (mul, dv) \<leftarrow> suffix_scale suffix;
        if cpu \<and> suffix \<in> {''Ki'', ''Mi'', ''Gi'', ''Ti'', ''k'', ''K'', ''M'', ''G''} then None
        else if \<not> cpu \<and> suffix \<in> {''u'', ''n''} then None
        else do {
          z \<leftarrow> checked_i128 (base * mul);
          numerator \<leftarrow> checked_i128 (z * (if cpu then 1000 else 1));
          (let denominator = scale * dv in
           checked_i64 (numerator div denominator + (if numerator mod denominator \<noteq> 0 then 1 else 0)))
        }
      })"

definition parse_quantity :: "string \<Rightarrow> quantity option" where
  "parse_quantity s = (if \<not> syntax_valid s then None else Some \<lparr>raw = s\<rparr>)"

definition as_milli_cpu :: "quantity \<Rightarrow> int option" where
  "as_milli_cpu q = scaled (raw q) True"

definition as_bytes :: "quantity \<Rightarrow> int option" where
  "as_bytes q = scaled (raw q) False"

end
