(* ===== verification/Quantity_Exact.thy ===== *)
theory Quantity_Exact
  imports Quantity Complex_Main
begin

text \<open>
  The fixed-point conversion of a quantity is the ceiling of the rational number the text denotes,
  and absent exactly where the checked arithmetic overflows.
\<close>

subsection \<open>The value a quantity denotes\<close>

definition quantity_value :: "string \<Rightarrow> rat" where
  "quantity_value s =
     (case split_quantity s of (whole, decimals, suffix, _) \<Rightarrow>
      (case suffix_scale suffix of None \<Rightarrow> 0 | Some (mul, dv) \<Rightarrow>
         of_nat (digits_value 0 (whole @ decimals)) / 10 ^ length decimals * of_int mul / of_int dv))"

definition cpu_dimension :: "string \<Rightarrow> bool" where
  "cpu_dimension s \<longleftrightarrow> dropWhile numeric_char s \<in> {'''', ''m'', ''u'', ''n''}"

definition byte_dimension :: "string \<Rightarrow> bool" where
  "byte_dimension s \<longleftrightarrow> dropWhile numeric_char s \<notin> {''u'', ''n''}"

lemma digits_value_shift: "digits_value n xs = n * 10 ^ length xs + digits_value 0 xs"
proof (induction xs arbitrary: n)
  case Nil
  then show ?case by simp
next
  case (Cons c cs)
  have "digits_value (10 * n + digit_val c) cs
      = (10 * n + digit_val c) * 10 ^ length cs + digits_value 0 cs"
    by (rule Cons.IH)
  moreover have "digits_value (digit_val c) cs = digit_val c * 10 ^ length cs + digits_value 0 cs"
    by (rule Cons.IH)
  ultimately show ?case by (simp add: algebra_simps)
qed

lemma digits_value_bound: "list_all is_digit xs \<Longrightarrow> digits_value 0 xs < 10 ^ length xs"
proof (induction xs)
  case Nil
  then show ?case by simp
next
  case (Cons c cs)
  then have "digit_val c \<le> 9" and "digits_value 0 cs < 10 ^ length cs"
    by (auto simp: is_digit_def digit_val_def)
  then have "digit_val c * 10 ^ length cs + digits_value 0 cs < 9 * 10 ^ length cs + 10 ^ length cs"
    by (intro add_le_less_mono mult_right_mono) auto
  then show ?case using digits_value_shift [of "digit_val c" cs] by simp
qed

lemma parse_i128_digits:
  assumes "list_all is_digit s" and "s \<noteq> []"
  shows "parse_i128 s = checked_i128 (int (digits_value 0 s))"
proof -
  obtain c cs where s: "s = c # cs" using assms(2) by (cases s) auto
  have "is_digit c" using assms(1) s by simp
  then have "c \<noteq> CHR ''-''" "c \<noteq> CHR ''+''" using digit_not_special by auto
  then show ?thesis
    using assms by (simp add: s parse_i128_def parse_signed_def parse_nat_def checked_i128_def)
qed

text \<open>What a syntactically valid quantity splits into.\<close>

lemma syntax_valid_split:
  assumes "syntax_valid s" and "split_quantity s = (whole, decimals, suffix, fraction)"
  shows "whole \<noteq> []" "list_all is_digit whole" "list_all is_digit decimals" "length decimals \<le> 9"
    "\<exists>mul dv. suffix_scale suffix = Some (mul, dv) \<and> 0 < mul \<and> 0 < dv \<and> dv \<le> 1000000000"
    "suffix = dropWhile numeric_char s"
proof -
  from assms show "whole \<noteq> []" "list_all is_digit decimals" "length decimals \<le> 9"
    by (auto simp: syntax_valid_def split: if_splits)
  show suffix: "suffix = dropWhile numeric_char s"
    using assms(2) by (auto simp: split_quantity_def Let_def split: prod.splits)
  have "suffix \<in> {'''', ''m'', ''u'', ''n'', ''Ki'', ''Mi'', ''Gi'', ''Ti'', ''k'', ''K'', ''M'', ''G''}"
    using assms by (auto simp: syntax_valid_def split: if_splits)
  then show "\<exists>mul dv. suffix_scale suffix = Some (mul, dv) \<and> 0 < mul \<and> 0 < dv \<and> dv \<le> 1000000000"
    by (auto simp: suffix_scale_def)
  let ?n = "takeWhile numeric_char s"
  have num: "\<And>c. c \<in> set ?n \<Longrightarrow> is_digit c \<or> c = CHR ''.''"
    using set_takeWhileD by (fastforce simp: numeric_char_def)
  have "CHR ''.'' \<notin> set whole \<and> set whole \<subseteq> set ?n"
  proof (cases "split_once CHR ''.'' ?n")
    case None
    with assms(2) have "whole = ?n" by (auto simp: split_quantity_def Let_def)
    with None show ?thesis by (simp add: split_once_None)
  next
    case (Some p)
    obtain a b where p: "p = (a, b)" by force
    with assms(2) Some have "whole = a" by (auto simp: split_quantity_def Let_def)
    with split_once_Some [OF Some [unfolded p]] show ?thesis
      by (metis Un_iff set_append subsetI)
  qed
  with num show "list_all is_digit whole" by (auto simp: list_all_iff)
qed

lemma ceiling_ratio:
  assumes "0 < d"
  shows "\<lceil>(of_int n :: rat) / of_int d\<rceil> = n div d + (if n mod d \<noteq> 0 then 1 else 0)"
  using assms by (simp add: ceiling_divide_eq_div zdiv_zminus1_eq_if)

text \<open>
  The overflow checks on the way refuse nothing that the final range check would accept: the
  denominator is at most \<open>10 ^ 18\<close>, so a numerator outside 128 bits is a result outside 64 bits.
\<close>

lemma ceiling_ratio_overflow:
  fixes n d :: int
  assumes "2 ^ 127 \<le> n" and "0 < d" and "d \<le> 10 ^ 18"
  shows "2 ^ 63 \<le> n div d + (if n mod d \<noteq> 0 then 1 else 0)"
proof -
  have "(2::int) ^ 63 * d \<le> 2 ^ 63 * 10 ^ 18" using assms(3) by simp
  also have "\<dots> \<le> n" using assms(1) by simp
  finally have "2 ^ 63 * d div d \<le> n div d" using assms(2) by (intro zdiv_mono1) auto
  with assms(2) show ?thesis by simp
qed

lemma scaled_eq:
  assumes valid: "syntax_valid s" and split: "split_quantity s = (whole, decimals, suffix, fraction)"
    and scale: "suffix_scale suffix = Some (mul, dv)"
    and dim: "if cpu then suffix \<in> {'''', ''m'', ''u'', ''n''} else suffix \<notin> {''u'', ''n''}"
  defines "num \<equiv> int (digits_value 0 (whole @ decimals)) * mul * (if cpu then 1000 else 1)"
    and "den \<equiv> 10 ^ length decimals * dv"
  shows "scaled s cpu = checked_i64 (num div den + (if num mod den \<noteq> 0 then 1 else 0))"
proof -
  note facts = syntax_valid_split [OF valid split]
  let ?w = "int (digits_value 0 whole)" and ?f = "int (digits_value 0 decimals)"
    and ?sc = "(10::int) ^ length decimals"
  have pos: "0 < mul" "0 < dv" "dv \<le> 1000000000" using facts(5) scale by auto
  have base: "int (digits_value 0 (whole @ decimals)) = ?w * ?sc + ?f"
    using digits_value_shift [of "digits_value 0 whole" decimals] by (simp add: digits_value_append)
  have sc: "1 \<le> ?sc" "?sc \<le> 10 ^ 9"
    using power_increasing [OF facts(4), of "10 :: int"] by auto
  have den: "0 < den" "den \<le> 10 ^ 18"
  proof -
    have "?sc * dv \<le> 10 ^ 9 * 10 ^ 9" using sc pos by (intro mult_mono) auto
    with sc pos show "0 < den" "den \<le> 10 ^ 18" by (auto simp: den_def)
  qed
  have pf: "(if decimals = [] then Some 0 else parse_i128 decimals) = Some ?f"
  proof (cases "decimals = []")
    case False
    have "digits_value 0 decimals < 10 ^ length decimals" using facts(3) by (rule digits_value_bound)
    then have "?f < ?sc" by (metis of_nat_less_iff of_nat_numeral of_nat_power)
    then have "?f < 10 ^ 9" using sc(2) by (rule less_le_trans)
    then have "in_i128 ?f" by (simp add: in_i128_def)
    with False show ?thesis by (simp add: parse_i128_digits [OF facts(3)])
  qed simp
  let ?r = "num div den + (if num mod den \<noteq> 0 then 1 else 0)"
  let ?b = "?w * ?sc + ?f"
  have up: "x \<le> x * k" if "0 \<le> x" "1 \<le> k" for x k :: int
    using mult_left_mono [OF that(2,1)] by simp
  have "0 \<le> ?w * ?sc" using sc(1) by simp
  then have b: "0 \<le> ?b" "?w * ?sc \<le> ?b" by auto
  have bm: "?b \<le> ?b * mul" "0 \<le> ?b * mul" using up [OF b(1), of mul] b(1) pos(1) by auto
  have "?b * mul \<le> num" unfolding num_def base using up [OF bm(2), of 1000] by auto
  with up [of ?w ?sc] sc(1) b bm
  have order: "0 \<le> ?w" "?w \<le> ?w * ?sc" "?w * ?sc \<le> ?b" "?b \<le> ?b * mul" "?b * mul \<le> num"
    by auto
  show ?thesis
  proof (cases "num < 2 ^ 127")
    case True
    with order have "in_i128 ?w" "in_i128 (?w * ?sc)" "in_i128 (?w * ?sc + ?f)"
      "in_i128 ((?w * ?sc + ?f) * mul)" "in_i128 num"
      unfolding in_i128_def by linarith+
    then show ?thesis
      using dim pf scale parse_i128_digits [OF facts(2,1)]
      by (auto simp: scaled_def split Let_def checked_i128_def num_def base den_def split: if_splits)
  next
    case False
    then have big: "2 ^ 127 \<le> num" by simp
    have "2 ^ 63 \<le> ?r" using big den by (rule ceiling_ratio_overflow)
    then have none: "checked_i64 ?r = None" by (simp add: checked_i64_def in_i64_def)
    have "\<not> in_i128 num" using big by (simp add: in_i128_def)
    then have "scaled s cpu = None"
      using dim pf scale parse_i128_digits [OF facts(2,1)]
      by (auto simp: scaled_def split Let_def checked_i128_def num_def base
          split: if_splits option.splits bind_splits)
    with none show ?thesis by simp
  qed
qed

lemma quantity_value_ratio:
  assumes split: "split_quantity s = (whole, decimals, suffix, fraction)"
    and scale: "suffix_scale suffix = Some (mul, dv)" and "0 < dv"
  shows "of_int k * quantity_value s =
    of_int (int (digits_value 0 (whole @ decimals)) * mul * k) / of_int (10 ^ length decimals * dv)"
  using assms by (simp add: quantity_value_def field_simps)

lemma scaled_ceiling:
  assumes valid: "syntax_valid s"
    and dim: "if cpu then cpu_dimension s else byte_dimension s"
  shows "scaled s cpu = checked_i64 \<lceil>of_int (if cpu then 1000 else 1) * quantity_value s\<rceil>"
proof -
  obtain whole decimals suffix fraction where split: "split_quantity s = (whole, decimals, suffix, fraction)"
    by (metis prod_cases4)
  note facts = syntax_valid_split [OF valid split]
  obtain mul dv where scale: "suffix_scale suffix = Some (mul, dv)" and pos: "0 < dv"
    using facts(5) by auto
  have dim': "if cpu then suffix \<in> {'''', ''m'', ''u'', ''n''} else suffix \<notin> {''u'', ''n''}"
    using dim facts(6) by (auto simp: cpu_dimension_def byte_dimension_def split: if_splits)
  have den: "0 < (10::int) ^ length decimals * dv" using pos by simp
  show ?thesis
    unfolding scaled_eq [OF valid split scale dim'] quantity_value_ratio [OF split scale pos]
      ceiling_ratio [OF den] by (simp add: mult.assoc)
qed

lemma scaled_wrong_dimension:
  assumes valid: "syntax_valid s"
    and dim: "\<not> (if cpu then cpu_dimension s else byte_dimension s)"
  shows "scaled s cpu = None"
proof -
  obtain whole decimals suffix fraction where split: "split_quantity s = (whole, decimals, suffix, fraction)"
    by (metis prod_cases4)
  note facts = syntax_valid_split [OF valid split]
  have "suffix \<in> {'''', ''m'', ''u'', ''n'', ''Ki'', ''Mi'', ''Gi'', ''Ti'', ''k'', ''K'', ''M'', ''G''}"
    using valid split by (auto simp: syntax_valid_def split: if_splits)
  with dim facts(6)
  have bad: "if cpu then suffix \<in> {''Ki'', ''Mi'', ''Gi'', ''Ti'', ''k'', ''K'', ''M'', ''G''} else suffix \<in> {''u'', ''n''}"
    by (auto simp: cpu_dimension_def byte_dimension_def split: if_splits)
  show ?thesis
  proof (rule ccontr)
    assume "scaled s cpu \<noteq> None"
    then obtain r where "scaled s cpu = Some r" by auto
    with bad show False
      by (auto simp: scaled_def split Let_def split: if_splits bind_splits)
  qed
qed

lemma quantity_value_nonneg:
  assumes "syntax_valid s"
  shows "0 \<le> quantity_value s"
proof -
  obtain whole decimals suffix fraction where split: "split_quantity s = (whole, decimals, suffix, fraction)"
    by (metis prod_cases4)
  from syntax_valid_split(5) [OF assms split] show ?thesis
    by (auto simp: quantity_value_def split)
qed

lemma scaled_exact:
  fixes cpu :: bool
  assumes valid: "syntax_valid s"
  defines "v \<equiv> \<lceil>of_int (if cpu then 1000 else 1) * quantity_value s\<rceil>"
  shows "scaled s cpu =
    (if (if cpu then cpu_dimension s else byte_dimension s) \<and> v < 2 ^ 63 then Some v else None)"
proof (cases "if cpu then cpu_dimension s else byte_dimension s")
  case True
  have "0 \<le> v" using quantity_value_nonneg [OF valid] by (simp add: v_def zero_le_ceiling)
  with scaled_ceiling [OF valid True] True show ?thesis
    unfolding v_def [symmetric] checked_i64_def in_i64_def by simp
next
  case False
  with scaled_wrong_dimension [OF valid False] show ?thesis by simp
qed

lemma parse_quantity_Some: "parse_quantity s = Some q \<Longrightarrow> syntax_valid s \<and> raw q = s"
  by (auto simp: parse_quantity_def split: if_splits)

text \<open>
  \<^verbatim>\<open>as_milli_cpu\<close> of a parsed quantity is the exact ceiling of 1000 times the rational the
  quantity denotes, whenever the suffix is a CPU suffix and that ceiling fits an \<^verbatim>\<open>i64\<close>; in every
  other case it is \<^verbatim>\<open>None\<close>.  No intermediate 128-bit overflow check refuses a representable value.
\<close>

theorem milli_cpu_exact:
  assumes "parse_quantity s = Some q"
  shows "as_milli_cpu q =
    (if cpu_dimension s \<and> \<lceil>1000 * quantity_value s\<rceil> < 2 ^ 63
     then Some \<lceil>1000 * quantity_value s\<rceil> else None)"
  using scaled_exact [of s True] parse_quantity_Some [OF assms] by (simp add: as_milli_cpu_def)

theorem milli_cpu_exact_witness:
  "as_milli_cpu \<lparr>raw = ''0.0001''\<rparr> = Some 1"
proof -
  have parsed: "parse_quantity ''0.0001'' = Some \<lparr>raw = ''0.0001''\<rparr>" by code_simp
  have dim: "cpu_dimension ''0.0001''" by code_simp
  have "\<lceil>1000 * quantity_value ''0.0001''\<rceil> = 1" by code_simp
  with milli_cpu_exact [OF parsed] dim show ?thesis by simp
qed

text \<open>
  \<^verbatim>\<open>as_bytes\<close> of a parsed quantity is the exact ceiling of the rational it denotes, for every
  suffix but the two CPU-only ones, whenever that ceiling fits an \<^verbatim>\<open>i64\<close>; otherwise \<^verbatim>\<open>None\<close>.
\<close>

theorem bytes_exact:
  assumes "parse_quantity s = Some q"
  shows "as_bytes q =
    (if byte_dimension s \<and> \<lceil>quantity_value s\<rceil> < 2 ^ 63 then Some \<lceil>quantity_value s\<rceil> else None)"
  using scaled_exact [of s False] parse_quantity_Some [OF assms] by (simp add: as_bytes_def)

theorem bytes_exact_witness:
  "as_bytes \<lparr>raw = ''1.5Gi''\<rparr> = Some 1610612736"
proof -
  have parsed: "parse_quantity ''1.5Gi'' = Some \<lparr>raw = ''1.5Gi''\<rparr>" by code_simp
  have dim: "byte_dimension ''1.5Gi''" by code_simp
  have "\<lceil>quantity_value ''1.5Gi''\<rceil> = 1610612736" by code_simp
  with bytes_exact [OF parsed] dim show ?thesis by simp
qed

end
