(* ===== verification/Store.thy ===== *)
theory Store
  imports H3s_Prelude
begin

text \<open>
  The durable registry (\<^verbatim>\<open>crates/h3s-storage/src/lib.rs\<close> and \<^verbatim>\<open>sqlite.rs\<close>): a log of object
  versions with one global revision counter, a compaction floor and a table of leases.

  The three SQL tables are the record \<open>registry\<close>: \<^verbatim>\<open>registry_meta\<close> is \<open>revision\<close> and
  \<open>compacted\<close>, \<^verbatim>\<open>registry_versions\<close> the list \<open>versions\<close> and \<^verbatim>\<open>registry_leases\<close> the list
  \<open>leases\<close>.  A statement is its relational meaning over these lists.  A transaction is a function
  that returns the new tables or an error; on an error the tables stay as they were.  The custody
  of Secret payloads is a parameter (\<open>sealer\<close>), because the cipher is not part of the program.
\<close>

named_theorems store_simps \<open>equations of the registry operations\<close>

subsection \<open>Data\<close>

datatype store_error =
    Invalid string
  | AlreadyExists string
  | NotFound string
  | Conflict nat nat
  | Compacted nat nat
  | FutureRevision nat nat
  | LeaseExpired nat
  | ForeignDatabase
  | SchemaVersion int
  | Database
  | Worker
  | Custody string

record stored_object =
  okey :: string
  ovalue :: string
  orevision :: nat

datatype event_kind = Added | Modified | Deleted | Bookmark

record watch_event =
  previous :: "stored_object option"
  ekind :: event_kind
  erevision :: nat
  eobject :: "stored_object option"

record list_select =
  lprefix :: string
  at_revision :: "nat option"
  start_after :: "string option"
  limit :: nat

record object_list =
  litems :: "stored_object list"
  lrevision :: nat
  next_after :: "string option"

record sealer =
  seal_with :: "string \<Rightarrow> (store_error, string) result"
  open_with :: "string \<Rightarrow> (store_error, string) result"

record version_row =
  vkey :: string
  vrevision :: nat
  vvalue :: string
  vkind :: nat

record lease_row =
  lease_id :: nat
  ttl_ms :: int
  expires_ms :: int

record registry =
  revision :: nat
  compacted :: nat
  versions :: "version_row list"
  leases :: "lease_row list"
  last_lease :: nat

definition Unsealed :: sealer where
  "Unsealed = \<lparr>seal_with = Inr, open_with = Inr\<rparr>"

definition empty_registry :: registry where
  "empty_registry = \<lparr>revision = 0, compacted = 0, versions = [], leases = [], last_lease = 0\<rparr>"

subsection \<open>Keys and prefixes\<close>

definition segment_char :: "char \<Rightarrow> bool" where
  "segment_char b \<longleftrightarrow> is_alnum b \<or> b \<in> set ''-._:''"

definition valid_segment :: "string \<Rightarrow> bool" where
  "valid_segment s \<longleftrightarrow> s \<noteq> [] \<and> s \<noteq> ''.'' \<and> s \<noteq> ''..'' \<and> list_all segment_char s"

text \<open>\<^verbatim>\<open>StoreKey::new\<close>: \<^verbatim>\<open>/registry/{resource}/{name}\<close> or \<^verbatim>\<open>/registry/{resource}/{namespace}/{name}\<close>.\<close>

definition new_store_key :: "string \<Rightarrow> (store_error, string) result" where
  "new_store_key v =
     (let parts = split_on CHR ''/'' v
      in if \<not> (length parts = 4 \<or> length parts = 5)
            \<or> parts ! 0 \<noteq> [] \<or> parts ! 1 \<noteq> ''registry''
            \<or> list_ex (\<lambda>p. \<not> valid_segment p) (drop 2 parts)
         then Inl (Invalid v) else Inr v)"

definition validate_prefix :: "string \<Rightarrow> (store_error, unit) result" where
  "validate_prefix p =
     (case strip_prefix ''/registry/'' p of
        None \<Rightarrow> Inl (Invalid p)
      | Some tail \<Rightarrow>
          if tail = [] then Inr ()
          else (case strip_suffix ''/'' tail of
              None \<Rightarrow> Inl (Invalid p)
            | Some body \<Rightarrow>
                let segments = split_on CHR ''/'' body
                in if length segments > 2 \<or> list_ex (\<lambda>s. \<not> valid_segment s) segments
                   then Inl (Invalid p) else Inr ()))"

definition is_secret_key :: "string \<Rightarrow> bool" where
  "is_secret_key key =
     (case strip_prefix ''/registry/'' key of
        None \<Rightarrow> False
      | Some tail \<Rightarrow> hd (split_on CHR ''/'' tail) = ''secrets'')"

definition GEO_ENVELOPE :: string where
  "GEO_ENVELOPE = ''H3SGEO1:''"

definition decode_row_value :: "sealer \<Rightarrow> string \<Rightarrow> (store_error, string) result" where
  "decode_row_value s v = (if starts_with GEO_ENVELOPE v then open_with s v else Inr v)"

subsection \<open>Selection over the version table\<close>

text \<open>\<^verbatim>\<open>ORDER BY revision DESC LIMIT 1\<close>.\<close>

fun newest :: "version_row list \<Rightarrow> version_row option" where
  "newest [] = None"
| "newest (v # vs) =
     (case newest vs of
        None \<Rightarrow> Some v
      | Some w \<Rightarrow> if vrevision v < vrevision w then Some w else Some v)"

definition latest :: "registry \<Rightarrow> string \<Rightarrow> version_row option" where
  "latest db k = newest (filter (\<lambda>v. vkey v = k) (versions db))"

definition latest_at :: "registry \<Rightarrow> nat \<Rightarrow> string \<Rightarrow> version_row option" where
  "latest_at db r k = newest (filter (\<lambda>v. vkey v = k \<and> vrevision v \<le> r) (versions db))"

definition row_object :: "version_row \<Rightarrow> stored_object" where
  "row_object v = \<lparr>okey = vkey v, ovalue = vvalue v, orevision = vrevision v\<rparr>"

definition get_current :: "registry \<Rightarrow> string \<Rightarrow> stored_object option" where
  "get_current db k =
     (case latest db k of
        None \<Rightarrow> None
      | Some v \<Rightarrow> if vkind v \<noteq> 2 then Some (row_object v) else None)"

fun kind_number :: "event_kind \<Rightarrow> nat option" where
  "kind_number Added = Some 0"
| "kind_number Modified = Some 1"
| "kind_number Deleted = Some 2"
| "kind_number Bookmark = None"

definition revision_i64 :: "nat \<Rightarrow> (store_error, nat) result" where
  "revision_i64 r = (if r < 2 ^ 63 then Inr r else Inl (Invalid ''revision exceeds backend range''))"

definition validate_revision :: "nat \<Rightarrow> nat \<Rightarrow> nat \<Rightarrow> (store_error, unit) result" where
  "validate_revision r current floor =
     (if r < floor then Inl (Compacted r floor)
      else if r > current then Inl (FutureRevision r current)
      else Inr ())"

subsection \<open>Reading and writing\<close>

definition get :: "sealer \<Rightarrow> registry \<Rightarrow> string \<Rightarrow> (store_error, stored_object option) result" where
  "get s db k =
     (case get_current db k of
        None \<Rightarrow> Inr None
      | Some ob \<Rightarrow> andThen (decode_row_value s (ovalue ob)) (\<lambda>v. Inr (Some (ob\<lparr>ovalue := v\<rparr>))))"

text \<open>The compare-and-set guard at the head of the write transaction.\<close>

definition cas_guard ::
  "string \<Rightarrow> nat option \<Rightarrow> stored_object option \<Rightarrow> (store_error, unit) result" where
  "cas_guard k expected prev =
     (case (expected, prev) of
        (None, Some _) \<Rightarrow> Inl (AlreadyExists k)
      | (Some _, None) \<Rightarrow> Inl (NotFound k)
      | (Some e, Some old) \<Rightarrow> if e \<noteq> orevision old then Inl (Conflict e (orevision old)) else Inr ()
      | (None, None) \<Rightarrow> Inr ())"

text \<open>
  The row insertion with the table's constraints: the primary key, the unique revision and the
  range of \<^verbatim>\<open>kind\<close>.
\<close>

definition insert_version :: "version_row \<Rightarrow> registry \<Rightarrow> (store_error, registry) result" where
  "insert_version v db =
     (if list_ex (\<lambda>w. vrevision w = vrevision v) (versions db) \<or> vkind v > 2 then Inl Database
      else Inr (db\<lparr>versions := versions db @ [v]\<rparr>))"

text \<open>
  The write transaction of \<^verbatim>\<open>mutate\<close>, from the immediate lock to the commit.  \<open>del\<close> with no
  existing object is the code's panic, which the worker reports as an error.
\<close>

definition mutate_tx ::
  "sealer \<Rightarrow> stored_object \<Rightarrow> nat option \<Rightarrow> bool \<Rightarrow> registry
     \<Rightarrow> (store_error, stored_object \<times> registry) result" where
  "mutate_tx s ob expected del db =
     (let prev = get_current db (okey ob);
          kind = (if del then Deleted else if prev \<noteq> None then Modified else Added)
      in andThen (cas_guard (okey ob) expected prev) (\<lambda>_.
         andThen (if del then (case prev of None \<Rightarrow> Inl Worker | Some old \<Rightarrow> Inr (ovalue old))
                  else if is_secret_key (okey ob) then seal_with s (ovalue ob)
                  else Inr (ovalue ob)) (\<lambda>value.
         let new_revision = revision db + 1 in
         andThen (ensure (new_revision < 2 ^ 63) Database) (\<lambda>_.
         andThen (if del then Inr value else decode_row_value s value) (\<lambda>returned_value.
         andThen (revision_i64 new_revision) (\<lambda>r.
         andThen (ok_or Worker (kind_number kind)) (\<lambda>k.
         andThen (insert_version \<lparr>vkey = okey ob, vrevision = r, vvalue = value, vkind = k\<rparr>
                    (db\<lparr>revision := new_revision\<rparr>)) (\<lambda>db'.
         Inr (ob\<lparr>ovalue := returned_value\<rparr>, db')))))))))"

text \<open>
  After the commit the statement outside the transaction reads the revision the object is
  reported with.
\<close>

definition stored_revision :: "registry \<Rightarrow> string \<Rightarrow> (store_error, nat) result" where
  "stored_revision db k = map_err (\<lambda>_. Database) (ok_or () (map_option vrevision (latest db k)))"

definition mutate ::
  "sealer \<Rightarrow> stored_object \<Rightarrow> nat option \<Rightarrow> bool \<Rightarrow> registry
     \<Rightarrow> (store_error, stored_object) result \<times> registry" where
  "mutate s ob expected del db =
     (case mutate_tx s ob expected del db of
        Inl e \<Rightarrow> (Inl e, db)
      | Inr (ob', db') \<Rightarrow>
          (andThen (stored_revision db' (okey ob)) (\<lambda>r. Inr (ob'\<lparr>orevision := r\<rparr>)), db'))"

definition create :: "sealer \<Rightarrow> stored_object \<Rightarrow> registry
    \<Rightarrow> (store_error, stored_object) result \<times> registry" where
  "create s ob db = mutate s ob None False db"

definition update :: "sealer \<Rightarrow> stored_object \<Rightarrow> nat \<Rightarrow> registry
    \<Rightarrow> (store_error, stored_object) result \<times> registry" where
  "update s ob rv db = mutate s ob (Some rv) False db"

definition delete :: "sealer \<Rightarrow> string \<Rightarrow> nat \<Rightarrow> registry
    \<Rightarrow> (store_error, unit) result \<times> registry" where
  "delete s k rv db =
     (case mutate s \<lparr>okey = k, ovalue = [], orevision = 0\<rparr> (Some rv) True db of
        (r, db') \<Rightarrow> (andThen r (\<lambda>_. Inr ()), db'))"

subsection \<open>Listing\<close>

definition list_rows :: "registry \<Rightarrow> string \<Rightarrow> string \<Rightarrow> nat \<Rightarrow> version_row list" where
  "list_rows db p after r =
     sort_key vkey (filter (\<lambda>v. starts_with p (vkey v) \<and> after < vkey v \<and> vkind v \<noteq> 2
       \<and> map_option vrevision (latest_at db r (vkey v)) = Some (vrevision v)) (versions db))"

definition decode_row :: "sealer \<Rightarrow> version_row \<Rightarrow> (store_error, stored_object) result" where
  "decode_row s v =
     andThen (decode_row_value s (vvalue v)) (\<lambda>x. Inr ((row_object v)\<lparr>ovalue := x\<rparr>))"

definition list_page :: "sealer \<Rightarrow> list_select \<Rightarrow> registry \<Rightarrow> (store_error, object_list) result" where
  "list_page s sel db =
     andThen (validate_prefix (lprefix sel)) (\<lambda>_.
     if limit sel = 0 \<or> limit sel > 4096 then Inl (Invalid ''LIST limit must be 1..4096'')
     else if (case start_after sel of None \<Rightarrow> False | Some k \<Rightarrow> \<not> starts_with (lprefix sel) k)
     then Inl (Invalid ''continuation key is outside the selection'')
     else
       let r = (case at_revision sel of None \<Rightarrow> revision db | Some q \<Rightarrow> if q \<noteq> 0 then q else revision db)
       in andThen (validate_revision r (revision db) (compacted db)) (\<lambda>_.
          andThen (revision_i64 r) (\<lambda>ri.
          let raw = take (limit sel + 1) (list_rows db (lprefix sel)
                      (case start_after sel of None \<Rightarrow> '''' | Some k \<Rightarrow> k) ri)
          in andThen (try_map (decode_row s) raw) (\<lambda>objects.
             if length objects > limit sel
             then (let page = butlast objects
                   in Inr \<lparr>litems = page, lrevision = r,
                        next_after = (if page = [] then None else Some (okey (last page)))\<rparr>)
             else Inr \<lparr>litems = objects, lrevision = r, next_after = None\<rparr>))))"

subsection \<open>Watching\<close>

definition event_of_kind :: "nat \<Rightarrow> event_kind" where
  "event_of_kind k = (if k = 0 then Added else if k = 1 then Modified else Deleted)"

text \<open>The row joined as \<open>p\<close>: the newest version of the same key before this one.\<close>

definition prior_row :: "registry \<Rightarrow> version_row \<Rightarrow> version_row option" where
  "prior_row db v = newest (filter (\<lambda>w. vkey w = vkey v \<and> vrevision w < vrevision v) (versions db))"

definition change_event :: "sealer \<Rightarrow> registry \<Rightarrow> version_row \<Rightarrow> (store_error, watch_event) result" where
  "change_event s db v =
     andThen (decode_row_value s (vvalue v)) (\<lambda>value.
     andThen (case prior_row db v of
                None \<Rightarrow> Inr None
              | Some w \<Rightarrow>
                  if vkind w = 0 \<or> vkind w = 1
                  then andThen (if is_secret_key (vkey v) \<and> starts_with GEO_ENVELOPE (vvalue w)
                                then open_with s (vvalue w) else Inr (vvalue w))
                         (\<lambda>b. Inr (Some \<lparr>okey = vkey v, ovalue = b, orevision = vrevision w\<rparr>))
                  else Inr None) (\<lambda>prev.
     Inr \<lparr>previous = prev, ekind = event_of_kind (vkind v), erevision = vrevision v,
          eobject = Some \<lparr>okey = vkey v, ovalue = value, orevision = vrevision v\<rparr>\<rparr>))"

definition change_rows :: "registry \<Rightarrow> string \<Rightarrow> nat \<Rightarrow> version_row list" where
  "change_rows db p after =
     take 256 (sort_key vrevision
       (filter (\<lambda>v. after < vrevision v \<and> starts_with p (vkey v)) (versions db)))"

definition changes ::
  "sealer \<Rightarrow> string \<Rightarrow> nat \<Rightarrow> registry \<Rightarrow> (store_error, watch_event list \<times> nat) result" where
  "changes s p after db =
     andThen (validate_revision after (revision db) (compacted db)) (\<lambda>_.
     andThen (revision_i64 after) (\<lambda>a.
     andThen (try_map (change_event s db) (change_rows db p a)) (\<lambda>events.
     Inr (events, if length events = 256 then erevision (last events) else revision db))))"

text \<open>The first step of \<^verbatim>\<open>watch\<close>: the requested anchor (None and zero mean a fresh snapshot).\<close>

definition watch_requested :: "nat option \<Rightarrow> nat option" where
  "watch_requested after = (case after of None \<Rightarrow> None | Some r \<Rightarrow> if r \<noteq> 0 then Some r else None)"

definition watch_anchor :: "string \<Rightarrow> nat option \<Rightarrow> bool \<Rightarrow> registry \<Rightarrow> (store_error, nat) result" where
  "watch_anchor p after zero_interval db =
     andThen (validate_prefix p) (\<lambda>_.
     if zero_interval then Inl (Invalid ''bookmark interval must be positive'')
     else
       let r = (case watch_requested after of None \<Rightarrow> revision db | Some q \<Rightarrow> q)
       in andThen (validate_revision r (revision db) (compacted db)) (\<lambda>_. Inr r))"

definition snapshot_event :: "stored_object \<Rightarrow> watch_event" where
  "snapshot_event ob =
     \<lparr>previous = None, ekind = Added, erevision = orevision ob, eobject = Some ob\<rparr>"

definition bookmark :: "nat \<Rightarrow> watch_event" where
  "bookmark r = \<lparr>previous = None, ekind = Bookmark, erevision = r, eobject = None\<rparr>"

subsection \<open>Compaction\<close>

definition baseline :: "registry \<Rightarrow> nat \<Rightarrow> version_row \<Rightarrow> bool" where
  "baseline db r v \<longleftrightarrow>
     list_ex (\<lambda>w. map_option vrevision (latest_at db r (vkey w)) = Some (vrevision v)) (versions db)"

definition compact :: "nat \<Rightarrow> registry \<Rightarrow> (store_error, registry) result" where
  "compact r db =
     (if r > revision db then Inl (FutureRevision r (revision db))
      else if r \<le> compacted db then Inr db
      else andThen (revision_i64 r) (\<lambda>ri.
        Inr (db\<lparr>versions := filter (\<lambda>v. \<not> (vrevision v < ri \<and> \<not> baseline db ri v)) (versions db),
                compacted := ri\<rparr>)))"

definition maintenance_revision :: "nat \<Rightarrow> nat \<Rightarrow> nat \<Rightarrow> nat option" where
  "maintenance_revision current floor window =
     (if window > current then None
      else (let target = current - window
            in if target > floor \<and> target < current then Some target else None))"

subsection \<open>Leases and maintenance\<close>

definition lease_grant :: "int \<Rightarrow> int \<Rightarrow> registry \<Rightarrow> (store_error, nat \<times> registry) result" where
  "lease_grant now ttl db =
     (if \<not> in_i64 ttl then Inl (Invalid ''lease TTL too large'')
      else if ttl \<le> 0 then Inl (Invalid ''lease TTL must be at least 1ms'')
      else andThen (ok_or (Invalid ''lease expiry overflow'') (checked_i64 (now + ttl))) (\<lambda>expires.
        let i = last_lease db + 1
        in Inr (i, db\<lparr>leases := leases db @ [\<lparr>lease_id = i, ttl_ms = ttl, expires_ms = expires\<rparr>],
                     last_lease := i\<rparr>)))"

definition lease_live :: "int \<Rightarrow> nat \<Rightarrow> lease_row \<Rightarrow> bool" where
  "lease_live now i l \<longleftrightarrow> lease_id l = i \<and> expires_ms l > now"

definition lease_keepalive :: "int \<Rightarrow> nat \<Rightarrow> registry \<Rightarrow> (store_error, registry) result" where
  "lease_keepalive now i db =
     andThen (revision_i64 i) (\<lambda>i'.
     if list_ex (lease_live now i') (leases db)
     then Inr (db\<lparr>leases := map (\<lambda>l. if lease_live now i' l then l\<lparr>expires_ms := now + ttl_ms l\<rparr> else l)
                  (leases db)\<rparr>)
     else Inl (LeaseExpired i))"

definition purge_leases :: "int \<Rightarrow> registry \<Rightarrow> nat \<times> registry" where
  "purge_leases now db =
     (let kept = filter (\<lambda>l. \<not> expires_ms l \<le> now) (leases db)
      in (length (leases db) - length kept, db\<lparr>leases := kept\<rparr>))"

definition maintain :: "int \<Rightarrow> nat \<Rightarrow> registry \<Rightarrow> (store_error, nat) result \<times> registry" where
  "maintain now window db =
     (case (case maintenance_revision (revision db) (compacted db) window of
              None \<Rightarrow> Inr db
            | Some r \<Rightarrow> compact r db) of
        Inl e \<Rightarrow> (Inl e, db)
      | Inr db' \<Rightarrow> (case purge_leases now db' of (n, db'') \<Rightarrow> (Inr n, db'')))"

subsection \<open>Opening\<close>

definition APPLICATION_ID :: int where
  "APPLICATION_ID = 0x48335331"

text \<open>
  The check before anything is created: the schema version, the application mark and the number of
  objects the file already has.
\<close>

definition open_check :: "int \<Rightarrow> int \<Rightarrow> nat \<Rightarrow> (store_error, unit) result" where
  "open_check version application objects =
     (if version \<noteq> 0 \<and> version \<noteq> 1 then Inl (SchemaVersion version)
      else if version = 0 then
        (if objects \<noteq> 0 \<or> application \<noteq> 0 then Inl ForeignDatabase else Inr ())
      else if application \<noteq> APPLICATION_ID then Inl ForeignDatabase
      else Inr ())"

definition open_backend :: "string \<Rightarrow> string \<Rightarrow> (store_error, string) result" where
  "open_backend backend path =
     (if backend = ''sqlite'' then Inr path
      else if backend = ''memory'' then Inr '':memory:''
      else Inl (Invalid (''--store='' @ backend @ '' is not implemented; supported backends are sqlite (default) and memory'')))"

end
