(* ===== verification/Store_Laws.thy ===== *)
theory Store_Laws
  imports Store
begin

text \<open>
  The contract of the registry of theory \<^verbatim>\<open>Store\<close>: its invariant, the exact outcome of every
  write, the stability of snapshots under later writes, compaction and maintenance, and the
  uniqueness of a compare-and-set winner.  The abstraction is \<open>snapshot\<close>: the object a key holds at
  a revision.
\<close>

subsection \<open>Snapshots\<close>

definition live_object :: "version_row option \<Rightarrow> stored_object option" where
  "live_object v =
     (case v of None \<Rightarrow> None | Some w \<Rightarrow> if vkind w \<noteq> 2 then Some (row_object w) else None)"

definition snapshot :: "registry \<Rightarrow> nat \<Rightarrow> string \<Rightarrow> stored_object option" where
  "snapshot db r k = live_object (latest_at db r k)"

lemma live_object_simps [simp, store_simps]:
  "live_object None = None"
  "live_object (Some v) = (if vkind v \<noteq> 2 then Some (row_object v) else None)"
  by (simp_all add: live_object_def)

lemma row_object_simps [simp, store_simps]:
  "okey (row_object v) = vkey v" "ovalue (row_object v) = vvalue v" "orevision (row_object v) = vrevision v"
  by (simp_all add: row_object_def)

subsection \<open>The newest row\<close>

lemma newest_None_iff [simp]: "newest xs = None \<longleftrightarrow> xs = []"
  by (cases xs) (auto split: option.splits)

lemma newest_SomeD: "newest xs = Some v \<Longrightarrow> v \<in> set xs \<and> (\<forall>w \<in> set xs. vrevision w \<le> vrevision v)"
proof (induction xs arbitrary: v)
  case Nil
  then show ?case by simp
next
  case (Cons x xs)
  show ?case
  proof (cases "newest xs")
    case None
    with Cons.prems show ?thesis by simp
  next
    case (Some w)
    with Cons.IH [OF Some] Cons.prems show ?thesis
      by (auto split: if_splits)
  qed
qed

lemma newest_eqI:
  assumes "inj_on vrevision (set xs)" and "v \<in> set xs" and "\<And>w. w \<in> set xs \<Longrightarrow> vrevision w \<le> vrevision v"
  shows "newest xs = Some v"
proof (cases "newest xs")
  case None
  with assms(2) show ?thesis by simp
next
  case (Some w)
  have "vrevision w = vrevision v"
    using newest_SomeD [OF Some] assms(2,3) by (metis le_antisym)
  with newest_SomeD [OF Some] assms(1,2) have "w = v" by (metis inj_onD)
  with Some show ?thesis by simp
qed

lemma newest_cong_max:
  assumes "newest xs = Some v" and "set ys \<subseteq> set xs" and "v \<in> set ys" and "inj_on vrevision (set xs)"
  shows "newest ys = Some v"
  using assms newest_SomeD [OF assms(1)] by (intro newest_eqI) (auto intro: inj_on_subset)

lemma newest_snoc:
  assumes "\<And>w. w \<in> set xs \<Longrightarrow> vrevision w < vrevision v"
  shows "newest (xs @ [v]) = Some v"
  using assms by (induction xs) auto

subsection \<open>The invariant\<close>

definition row_ok :: "registry \<Rightarrow> version_row \<Rightarrow> bool" where
  "row_ok db v \<longleftrightarrow> 0 < vrevision v \<and> vrevision v \<le> revision db \<and> vkind v \<le> 2
     \<and> is_ok (new_store_key (vkey v))"

text \<open>Above the floor, a row is an addition exactly when its key was not live before it.\<close>

definition kind_ok :: "registry \<Rightarrow> version_row \<Rightarrow> bool" where
  "kind_ok db v \<longleftrightarrow> (compacted db < vrevision v \<longrightarrow> (vkind v = 0 \<longleftrightarrow> live_object (prior_row db v) = None))"

definition leases_ok :: "registry \<Rightarrow> bool" where
  "leases_ok db \<longleftrightarrow> sorted_wrt (<) (map lease_id (leases db))
     \<and> list_all (\<lambda>l. lease_id l \<le> last_lease db \<and> 0 < ttl_ms l) (leases db)"

definition wf_registry :: "registry \<Rightarrow> bool" where
  "wf_registry db \<longleftrightarrow> compacted db \<le> revision db \<and> revision db < 2 ^ 63
     \<and> sorted_wrt (<) (map vrevision (versions db))
     \<and> list_all (row_ok db) (versions db) \<and> list_all (kind_ok db) (versions db) \<and> leases_ok db"

lemma wf_registryD:
  assumes "wf_registry db"
  shows "compacted db \<le> revision db" "revision db < 2 ^ 63"
    "sorted_wrt (<) (map vrevision (versions db))"
    "\<And>v. v \<in> set (versions db) \<Longrightarrow> row_ok db v" "\<And>v. v \<in> set (versions db) \<Longrightarrow> kind_ok db v"
    "leases_ok db"
  using assms by (simp_all add: wf_registry_def list_all_iff)

lemma wf_empty: "wf_registry empty_registry"
  by (simp add: wf_registry_def empty_registry_def leases_ok_def)

lemma sorted_revisions_inj: "sorted_wrt (<) (map vrevision vs) \<Longrightarrow> inj_on vrevision (set vs)"
  by (simp add: strict_sorted_iff distinct_map)

lemma wf_inj: "wf_registry db \<Longrightarrow> inj_on vrevision (set (versions db))"
  by (simp add: sorted_revisions_inj wf_registryD)

lemma latest_at_SomeD:
  assumes "latest_at db r k = Some v"
  shows "v \<in> set (versions db)" "vkey v = k" "vrevision v \<le> r"
    "\<And>w. w \<in> set (versions db) \<Longrightarrow> vkey w = k \<Longrightarrow> vrevision w \<le> r \<Longrightarrow> vrevision w \<le> vrevision v"
  using newest_SomeD [OF assms [unfolded latest_at_def]] by auto

lemma latest_at_None_iff:
  "latest_at db r k = None \<longleftrightarrow> (\<forall>v \<in> set (versions db). vkey v = k \<longrightarrow> r < vrevision v)"
  by (auto simp: latest_at_def filter_empty_conv not_le)

lemma latest_at_eqI:
  assumes "wf_registry db" and "v \<in> set (versions db)" and "vkey v = k" and "vrevision v \<le> r"
    and "\<And>w. w \<in> set (versions db) \<Longrightarrow> vkey w = k \<Longrightarrow> vrevision w \<le> r \<Longrightarrow> vrevision w \<le> vrevision v"
  shows "latest_at db r k = Some v"
  unfolding latest_at_def using assms wf_inj [OF assms(1)]
  by (intro newest_eqI) (auto intro: inj_on_subset)

lemma latest_is_latest_at: "wf_registry db \<Longrightarrow> latest db k = latest_at db (revision db) k"
  unfolding latest_def latest_at_def
  by (rule arg_cong [of _ _ newest]) (auto intro!: filter_cong dest: wf_registryD(4) simp: row_ok_def)

lemma get_current_snapshot: "wf_registry db \<Longrightarrow> get_current db k = snapshot db (revision db) k"
  by (simp add: get_current_def snapshot_def latest_is_latest_at live_object_def)

lemma snapshot_SomeD:
  assumes "snapshot db r k = Some ob"
  shows "okey ob = k" "orevision ob \<le> r"
    "\<exists>v \<in> set (versions db). ob = row_object v \<and> vkind v \<noteq> 2"
  using assms latest_at_SomeD
  by (auto simp: snapshot_def live_object_def split: option.splits if_splits)

subsection \<open>The effect of a committed write\<close>

definition add_version :: "version_row \<Rightarrow> registry \<Rightarrow> registry" where
  "add_version v db = db\<lparr>revision := Suc (revision db), versions := versions db @ [v]\<rparr>"

lemma add_version_simps [simp, store_simps]:
  "revision (add_version v db) = Suc (revision db)"
  "compacted (add_version v db) = compacted db"
  "versions (add_version v db) = versions db @ [v]"
  "leases (add_version v db) = leases db"
  "last_lease (add_version v db) = last_lease db"
  by (simp_all add: add_version_def)

lemma mutate_tx_Inr_form:
  assumes "mutate_tx s ob expected del db = Inr (ob', db')"
  shows "\<exists>c. db' = add_version \<lparr>vkey = okey ob, vrevision = Suc (revision db), vvalue = c,
        vkind = (if del then 2 else if get_current db (okey ob) \<noteq> None then 1 else 0)\<rparr> db
    \<and> Suc (revision db) < 2 ^ 63 \<and> cas_guard (okey ob) expected (get_current db (okey ob)) = Inr ()
    \<and> ob' = ob\<lparr>ovalue := ovalue ob'\<rparr>
    \<and> (\<not> del \<longrightarrow> decode_row_value s c = Inr (ovalue ob')
        \<and> (if is_secret_key (okey ob) then seal_with s (ovalue ob) else Inr (ovalue ob)) = Inr c)"
  using assms
  by (auto simp: mutate_tx_def Let_def andThen_Inr_iff insert_version_def add_version_def revision_i64_def
      split: if_splits option.splits)

lemma mutate_tx_InrD:
  assumes "mutate_tx s ob expected del db = Inr (ob', db')"
  obtains v where "db' = add_version v db" "vkey v = okey ob" "vrevision v = Suc (revision db)"
    "Suc (revision db) < 2 ^ 63"
    "vkind v = (if del then 2 else if get_current db (okey ob) \<noteq> None then 1 else 0)"
    "cas_guard (okey ob) expected (get_current db (okey ob)) = Inr ()"
    "ob' = ob\<lparr>ovalue := ovalue ob'\<rparr>"
    "\<not> del \<Longrightarrow> decode_row_value s (vvalue v) = Inr (ovalue ob')"
    "\<not> del \<Longrightarrow> (if is_secret_key (okey ob) then seal_with s (ovalue ob) else Inr (ovalue ob)) = Inr (vvalue v)"
proof -
  from mutate_tx_Inr_form [OF assms] obtain c where
    f: "db' = add_version \<lparr>vkey = okey ob, vrevision = Suc (revision db), vvalue = c,
        vkind = (if del then 2 else if get_current db (okey ob) \<noteq> None then 1 else 0)\<rparr> db"
    "Suc (revision db) < 2 ^ 63" "cas_guard (okey ob) expected (get_current db (okey ob)) = Inr ()"
    "ob' = ob\<lparr>ovalue := ovalue ob'\<rparr>"
    "\<not> del \<Longrightarrow> decode_row_value s c = Inr (ovalue ob')"
    "\<not> del \<Longrightarrow> (if is_secret_key (okey ob) then seal_with s (ovalue ob) else Inr (ovalue ob)) = Inr c"
    by blast
  show ?thesis by (rule that [OF f(1)]) (use f(2-) in simp_all)
qed

lemma latest_at_add_old:
  assumes "q \<le> revision db" and "vrevision v = Suc (revision db)"
  shows "latest_at (add_version v db) q k = latest_at db q k"
  using assms by (simp add: latest_at_def)

lemma latest_at_add_new:
  assumes wf: "wf_registry db" and v: "vrevision v = Suc (revision db)" and q: "Suc (revision db) \<le> q"
  shows "latest_at (add_version v db) q k = (if k = vkey v then Some v else latest_at db (revision db) k)"
proof (cases "k = vkey v")
  case True
  have "newest (filter (\<lambda>w. vkey w = k \<and> vrevision w \<le> q) (versions db) @ [v]) = Some v"
    using wf_registryD(4) [OF wf] v by (intro newest_snoc) (force simp: row_ok_def)
  with True v q show ?thesis by (simp add: latest_at_def)
next
  case False
  have "filter (\<lambda>w. vkey w = k \<and> vrevision w \<le> q) (versions db)
      = filter (\<lambda>w. vkey w = k \<and> vrevision w \<le> revision db) (versions db)"
    using wf_registryD(4) [OF wf] q by (intro filter_cong) (force simp: row_ok_def)+
  with False show ?thesis by (simp add: latest_at_def)
qed

lemma snapshot_add_old:
  "q \<le> revision db \<Longrightarrow> vrevision v = Suc (revision db) \<Longrightarrow> snapshot (add_version v db) q = snapshot db q"
  by (rule ext) (simp add: snapshot_def latest_at_add_old)

lemma snapshot_add_new:
  assumes "wf_registry db" and "vrevision v = Suc (revision db)"
  shows "snapshot (add_version v db) (Suc (revision db)) =
    (snapshot db (revision db)) (vkey v := live_object (Some v))"
  by (rule ext) (simp add: snapshot_def latest_at_add_new assms)

lemma prior_row_add_old:
  "vrevision w \<le> revision db \<Longrightarrow> vrevision v = Suc (revision db) \<Longrightarrow> prior_row (add_version v db) w = prior_row db w"
  by (simp add: prior_row_def)

lemma prior_row_add_new:
  assumes "wf_registry db" and "vrevision v = Suc (revision db)"
  shows "prior_row (add_version v db) v = latest db (vkey v)"
proof -
  have "vrevision w < vrevision v" if "w \<in> set (versions db)" for w
    using wf_registryD(4) [OF assms(1) that] assms(2) by (simp add: row_ok_def)
  then show ?thesis
    unfolding prior_row_def latest_def by (intro arg_cong [of _ _ newest]) (auto intro: filter_cong)
qed

lemma get_current_live: "get_current db k = live_object (latest db k)"
  by (simp add: get_current_def live_object_def)

lemma wf_add_version:
  assumes wf: "wf_registry db" and v: "vrevision v = Suc (revision db)" and room: "Suc (revision db) < 2 ^ 63"
    and kind: "vkind v \<le> 2" "vkind v = 0 \<longleftrightarrow> get_current db (vkey v) = None"
    and key: "is_ok (new_store_key (vkey v))"
  shows "wf_registry (add_version v db)"
proof -
  have rows: "row_ok (add_version v db) w" "kind_ok (add_version v db) w" if "w \<in> set (versions db)" for w
    using wf_registryD(4,5) [OF wf that] v by (auto simp: row_ok_def kind_ok_def prior_row_add_old)
  have "kind_ok (add_version v db) v"
    using kind prior_row_add_new [OF wf v] by (simp add: kind_ok_def get_current_live)
  moreover have "row_ok (add_version v db) v" using v kind key by (simp add: row_ok_def)
  moreover have "sorted_wrt (<) (map vrevision (versions db @ [v]))"
    using wf_registryD(3,4) [OF wf] v by (fastforce simp: sorted_wrt_append row_ok_def)
  ultimately show ?thesis
    using wf_registryD(1,2,6) [OF wf] rows room
    by (simp add: wf_registry_def list_all_iff leases_ok_def)
qed

lemma cas_guard_Inr_iff:
  "cas_guard k expected cur = Inr u \<longleftrightarrow>
     (case expected of None \<Rightarrow> cur = None | Some e \<Rightarrow> \<exists>old. cur = Some old \<and> orevision old = e)"
  by (auto simp: cas_guard_def split: option.splits)

lemma mutate_of_tx:
  assumes wf: "wf_registry db" and key: "is_ok (new_store_key (okey ob))"
    and del: "del \<Longrightarrow> expected \<noteq> None" and tx: "mutate_tx s ob expected del db = Inr (ob', db')"
  shows "mutate s ob expected del db = (Inr (ob'\<lparr>orevision := Suc (revision db)\<rparr>), db')" "wf_registry db'"
proof -
  obtain v where v: "db' = add_version v db" "vkey v = okey ob" "vrevision v = Suc (revision db)"
    "Suc (revision db) < 2 ^ 63" "vkind v = (if del then 2 else if get_current db (okey ob) \<noteq> None then 1 else 0)"
    "cas_guard (okey ob) expected (get_current db (okey ob)) = Inr ()"
    using mutate_tx_InrD [OF tx] by metis
  have "vkind v = 0 \<longleftrightarrow> get_current db (vkey v) = None"
    using v(2,5,6) del by (auto simp: cas_guard_Inr_iff split: option.splits)
  then show wf': "wf_registry db'"
    using wf_add_version [OF wf v(3,4)] v(1,2,5) key by simp
  have "latest db' (okey ob) = Some v"
    using latest_is_latest_at [OF wf'] latest_at_add_new [OF wf v(3)] v(1,2) by simp
  then show "mutate s ob expected del db = (Inr (ob'\<lparr>orevision := Suc (revision db)\<rparr>), db')"
    using v(3) by (simp add: mutate_def tx stored_revision_def)
qed

text \<open>Every write either leaves the tables as they were or adds one row.\<close>

lemma mutate_cases:
  assumes wf: "wf_registry db" and key: "is_ok (new_store_key (okey ob))"
    and del: "del \<Longrightarrow> expected \<noteq> None" and run: "mutate s ob expected del db = (r, db')"
  obtains (refused) e where "mutate_tx s ob expected del db = Inl e" "r = Inl e" "db' = db"
  | (committed) v ob' where "mutate_tx s ob expected del db = Inr (ob', db')" "db' = add_version v db"
      "vkey v = okey ob" "vrevision v = Suc (revision db)" "Suc (revision db) < 2 ^ 63"
      "vkind v = (if del then 2 else if get_current db (okey ob) \<noteq> None then 1 else 0)"
      "cas_guard (okey ob) expected (get_current db (okey ob)) = Inr ()"
      "r = Inr (ob'\<lparr>orevision := Suc (revision db)\<rparr>)" "wf_registry db'"
proof (cases "mutate_tx s ob expected del db")
  case (Inl e)
  then have "r = Inl e" "db' = db" using run by (auto simp: mutate_def)
  with Inl show ?thesis by (rule refused)
next
  case (Inr p)
  obtain ob' db1 where p: "p = (ob', db1)" by force
  note tx = Inr [unfolded p]
  obtain v where v: "db1 = add_version v db" "vkey v = okey ob" "vrevision v = Suc (revision db)"
    "Suc (revision db) < 2 ^ 63" "vkind v = (if del then 2 else if get_current db (okey ob) \<noteq> None then 1 else 0)"
    "cas_guard (okey ob) expected (get_current db (okey ob)) = Inr ()"
    using mutate_tx_InrD [OF tx] by metis
  have out: "r = Inr (ob'\<lparr>orevision := Suc (revision db)\<rparr>)" "db' = db1"
    using mutate_of_tx(1) [OF wf key del tx] run by auto
  have wf': "wf_registry db'" using mutate_of_tx(2) [OF wf key del tx] out(2) by simp
  show ?thesis
    by (rule committed [OF tx [folded out(2)] v(1) [folded out(2)] v(2-6) out(1) wf'])
qed

subsection \<open>Compaction\<close>

definition compacted_to :: "nat \<Rightarrow> registry \<Rightarrow> registry" where
  "compacted_to r db = db\<lparr>versions := filter (\<lambda>v. \<not> (vrevision v < r \<and> \<not> baseline db r v)) (versions db),
     compacted := r\<rparr>"

lemma compact_cases:
  assumes "compact r db = Inr db'"
  obtains (kept) "r \<le> compacted db" "db' = db"
  | (moved) "compacted db < r" "r \<le> revision db" "db' = compacted_to r db"
  using assms
  by (auto simp: compact_def compacted_to_def andThen_Inr_iff revision_i64_def not_le split: if_splits)

lemma baseline_iff:
  assumes wf: "wf_registry db" and v: "v \<in> set (versions db)"
  shows "baseline db r v \<longleftrightarrow> latest_at db r (vkey v) = Some v"
proof
  assume "baseline db r v"
  then obtain w :: version_row where
    "map_option vrevision (latest_at db r (vkey w)) = Some (vrevision v)"
    unfolding baseline_def list_ex_iff by blast
  then obtain u where u: "latest_at db r (vkey w) = Some u" "vrevision u = vrevision v"
    by blast
  with latest_at_SomeD [OF u(1)] v wf_inj [OF wf] have "u = v" by (metis inj_onD)
  with u(1) latest_at_SomeD(2) [OF u(1)] show "latest_at db r (vkey v) = Some v" by simp
next
  assume "latest_at db r (vkey v) = Some v"
  with v show "baseline db r v" by (auto simp: baseline_def list_ex_iff)
qed

lemma compacted_to_simps [simp, store_simps]:
  "revision (compacted_to r db) = revision db"
  "compacted (compacted_to r db) = r"
  "leases (compacted_to r db) = leases db"
  "last_lease (compacted_to r db) = last_lease db"
  by (simp_all add: compacted_to_def)

lemma versions_compacted_to:
  "wf_registry db \<Longrightarrow> versions (compacted_to r db)
     = filter (\<lambda>v. r \<le> vrevision v \<or> latest_at db r (vkey v) = Some v) (versions db)"
  by (auto simp: compacted_to_def baseline_iff not_less intro!: filter_cong)

lemma latest_at_compacted_to:
  assumes wf: "wf_registry db" and q: "r \<le> q"
  shows "latest_at (compacted_to r db) q k = latest_at db q k"
proof (cases "latest_at db q k")
  case None
  then have "latest_at (compacted_to r db) q k = None"
    by (auto simp: latest_at_None_iff versions_compacted_to [OF wf])
  with None show ?thesis by simp
next
  case (Some v)
  note v = latest_at_SomeD [OF Some]
  have "latest_at db r k = Some v" if "vrevision v < r"
    using v that q by (intro latest_at_eqI [OF wf]) (auto simp: order_trans)
  then have "v \<in> set (versions (compacted_to r db))"
    using v(1,2) unfolding versions_compacted_to [OF wf] by (simp add: not_less) (metis not_less)
  with v have "v \<in> set (filter (\<lambda>v. vkey v = k \<and> vrevision v \<le> q) (versions (compacted_to r db)))"
    by simp
  then have "newest (filter (\<lambda>v. vkey v = k \<and> vrevision v \<le> q) (versions (compacted_to r db))) = Some v"
    using Some [unfolded latest_at_def] wf_inj [OF wf] unfolding versions_compacted_to [OF wf]
    by (elim newest_cong_max) (auto intro: inj_on_subset)
  with Some show ?thesis by (simp add: latest_at_def)
qed

lemma prior_row_latest_at: "0 < vrevision v \<Longrightarrow> prior_row db v = latest_at db (vrevision v - 1) (vkey v)"
  unfolding prior_row_def latest_at_def by (rule arg_cong [of _ _ newest]) (auto intro!: filter_cong)

lemma wf_compacted_to:
  assumes wf: "wf_registry db" and r: "compacted db < r" "r \<le> revision db"
  shows "wf_registry (compacted_to r db)"
proof -
  have sub: "set (versions (compacted_to r db)) \<subseteq> set (versions db)"
    by (auto simp: versions_compacted_to [OF wf])
  have "row_ok (compacted_to r db) v" if "v \<in> set (versions (compacted_to r db))" for v
    using wf_registryD(4) [OF wf] sub that by (auto simp: row_ok_def)
  moreover have "kind_ok (compacted_to r db) v" if v: "v \<in> set (versions (compacted_to r db))" for v
  proof -
    have "prior_row (compacted_to r db) v = prior_row db v" if "r < vrevision v"
      using that by (simp add: prior_row_latest_at latest_at_compacted_to [OF wf])
    moreover have "kind_ok db v" using wf_registryD(5) [OF wf] sub v by blast
    ultimately show ?thesis using r(1) by (auto simp: kind_ok_def)
  qed
  moreover have "sorted_wrt (<) (map vrevision (versions (compacted_to r db)))"
    using wf_registryD(3) [OF wf] unfolding versions_compacted_to [OF wf] sorted_wrt_map
    by (rule sorted_wrt_filter)
  ultimately show ?thesis
    using wf_registryD(2,6) [OF wf] r(2) by (simp add: wf_registry_def list_all_iff leases_ok_def)
qed

subsection \<open>Leases\<close>

lemma wf_leases:
  assumes wf: "wf_registry db" and same: "revision db' = revision db" "compacted db' = compacted db"
    "versions db' = versions db" and ok: "leases_ok db'"
  shows "wf_registry db'"
  using wf ok same
  by (simp add: wf_registry_def row_ok_def [abs_def] kind_ok_def [abs_def] prior_row_def)

lemma leases_ok_grant:
  assumes "leases_ok db" and "lease_grant now ttl db = Inr (i, db')"
  shows "leases_ok db'"
  using assms
  by (fastforce simp: lease_grant_def leases_ok_def andThen_Inr_iff Let_def list_all_iff sorted_wrt_append
      split: if_splits)

lemma leases_ok_keepalive:
  assumes "leases_ok db" and "lease_keepalive now i db = Inr db'"
  shows "leases_ok db'"
proof -
  obtain j where db': "db' = db\<lparr>leases := map (\<lambda>l. if lease_live now j l then l\<lparr>expires_ms := now + ttl_ms l\<rparr> else l) (leases db)\<rparr>"
    using assms(2) by (auto simp: lease_keepalive_def andThen_Inr_iff split: if_splits)
  have ids: "map lease_id (leases db') = map lease_id (leases db)" by (auto simp: db')
  have "list_all (\<lambda>l. lease_id l \<le> last_lease db' \<and> 0 < ttl_ms l) (leases db')"
    using assms(1) by (auto simp: leases_ok_def db' list_all_iff)
  with ids assms(1) show ?thesis by (simp add: leases_ok_def)
qed

lemma leases_ok_purge: "leases_ok db \<Longrightarrow> leases_ok (snd (purge_leases now db))"
  by (auto simp: leases_ok_def purge_leases_def Let_def list_all_iff sorted_wrt_map intro: sorted_wrt_filter)

subsection \<open>The registry as a transition system\<close>

inductive registry_step :: "registry \<Rightarrow> registry \<Rightarrow> bool" where
  step_create: "is_ok (new_store_key (okey ob)) \<Longrightarrow> create s ob db = (r, db') \<Longrightarrow> registry_step db db'"
| step_update: "is_ok (new_store_key (okey ob)) \<Longrightarrow> update s ob rv db = (r, db') \<Longrightarrow> registry_step db db'"
| step_delete: "is_ok (new_store_key k) \<Longrightarrow> delete s k rv db = (r', db') \<Longrightarrow> registry_step db db'"
| step_compact: "compact rv db = Inr db' \<Longrightarrow> registry_step db db'"
| step_grant: "lease_grant now ttl db = Inr (i, db') \<Longrightarrow> registry_step db db'"
| step_keepalive: "lease_keepalive now i db = Inr db' \<Longrightarrow> registry_step db db'"
| step_maintain: "maintain now window db = (n, db') \<Longrightarrow> registry_step db db'"

text \<open>What one step can do to the tables.\<close>

lemma registry_step_effect:
  assumes step: "registry_step db db'" and wf: "wf_registry db"
  obtains (same) "db' = db"
  | (wrote) v where "db' = add_version v db" "vrevision v = Suc (revision db)" "wf_registry db'"
  | (trimmed) r where "revision db' = revision db" "versions db' = versions (compacted_to r db)"
      "compacted db' = r" "compacted db < r" "r \<le> revision db" "wf_registry db'"
  | (leased) "revision db' = revision db" "versions db' = versions db" "compacted db' = compacted db"
      "wf_registry db'"
  using step
proof cases
  case (step_create ob s r)
  from mutate_cases [OF wf step_create(1) _ step_create(2) [unfolded create_def]] same wrote
  show ?thesis by metis
next
  case (step_update ob s rv r)
  from mutate_cases [OF wf step_update(1) _ step_update(2) [unfolded update_def]] same wrote
  show ?thesis by metis
next
  case (step_delete k s rv r)
  then obtain r' where run: "mutate s \<lparr>okey = k, ovalue = [], orevision = 0\<rparr> (Some rv) True db = (r', db')"
    by (auto simp: delete_def split: prod.splits)
  have key: "is_ok (new_store_key (okey \<lparr>okey = k, ovalue = [], orevision = 0\<rparr>))"
    using step_delete(1) by simp
  from mutate_cases [OF wf key _ run] same wrote show ?thesis by (metis option.discI)
next
  case (step_compact rv)
  then show ?thesis
  proof (cases rule: compact_cases)
    case kept
    with same show ?thesis by simp
  next
    case moved
    with wf_compacted_to [OF wf] show ?thesis by (intro trimmed [of rv]) auto
  qed
next
  case (step_grant now ttl i)
  then have "revision db' = revision db" "versions db' = versions db" "compacted db' = compacted db"
    by (auto simp: lease_grant_def andThen_Inr_iff Let_def split: if_splits)
  with leases_ok_grant [OF wf_registryD(6) [OF wf] step_grant] wf show ?thesis
    by (metis leased wf_leases)
next
  case (step_keepalive now i)
  then have "revision db' = revision db" "versions db' = versions db" "compacted db' = compacted db"
    by (auto simp: lease_keepalive_def andThen_Inr_iff split: if_splits)
  with leases_ok_keepalive [OF wf_registryD(6) [OF wf] step_keepalive] wf show ?thesis
    by (metis leased wf_leases)
next
  case (step_maintain now window n)
  let ?c = "case maintenance_revision (revision db) (compacted db) window of None \<Rightarrow> Inr db | Some r \<Rightarrow> compact r db"
  show ?thesis
  proof (cases ?c)
    case (Inl e)
    with step_maintain same show ?thesis by (auto simp: maintain_def)
  next
    case (Inr d)
    with step_maintain have db': "db' = snd (purge_leases now d)"
      by (auto simp: maintain_def split: prod.splits)
    have keep: "revision db' = revision d" "versions db' = versions d" "compacted db' = compacted d"
      by (simp_all add: db' purge_leases_def Let_def)
    have ok: "leases_ok d \<Longrightarrow> leases_ok db'" by (simp add: db' leases_ok_purge)
    show ?thesis
    proof (cases "d = db")
      case True
      with keep ok wf show ?thesis by (metis leased wf_leases wf_registryD(6))
    next
      case False
      with Inr obtain r where "compact r db = Inr d"
        by (auto split: option.splits)
      then show ?thesis
      proof (cases rule: compact_cases)
        case kept
        with False show ?thesis by simp
      next
        case moved
        then have "wf_registry d" using wf_compacted_to [OF wf] by simp
        with keep ok moved have "wf_registry db'" by (metis wf_leases wf_registryD(6))
        with keep moved show ?thesis by (intro trimmed [of r]) auto
      qed
    qed
  qed
qed

lemma registry_step_wf: "registry_step db db' \<Longrightarrow> wf_registry db \<Longrightarrow> wf_registry db'"
  by (erule registry_step_effect) auto

lemma registry_steps_wf: "registry_step\<^sup>*\<^sup>* db db' \<Longrightarrow> wf_registry db \<Longrightarrow> wf_registry db'"
  by (induction rule: rtranclp_induct) (auto intro: registry_step_wf)

lemma registry_step_mono:
  assumes "registry_step db db'" and "wf_registry db"
  shows "revision db \<le> revision db' \<and> compacted db \<le> compacted db'"
  using assms by (elim registry_step_effect) auto

lemma registry_steps_mono:
  "registry_step\<^sup>*\<^sup>* db db' \<Longrightarrow> wf_registry db \<Longrightarrow> revision db \<le> revision db' \<and> compacted db \<le> compacted db'"
proof (induction rule: rtranclp_induct)
  case base
  then show ?case by simp
next
  case (step y z)
  with registry_step_mono [OF step(2)] registry_steps_wf [OF step(1)] show ?case by force
qed

lemma latest_at_versions: "versions db = versions db' \<Longrightarrow> latest_at db = latest_at db'"
  by (intro ext) (simp add: latest_at_def)

lemma registry_step_latest_at:
  assumes step: "registry_step db db'" and wf: "wf_registry db" and q: "compacted db' \<le> q" "q \<le> revision db"
  shows "latest_at db' q k = latest_at db q k"
  using step wf
proof (cases rule: registry_step_effect)
  case (wrote v)
  with q show ?thesis by (simp add: latest_at_add_old)
next
  case (trimmed r)
  with q latest_at_compacted_to [OF wf, of r q k] latest_at_versions [OF trimmed(2)] show ?thesis by simp
next
  case leased
  then show ?thesis using latest_at_versions by metis
qed simp

lemma registry_steps_latest_at:
  assumes "registry_step\<^sup>*\<^sup>* db db'" and "wf_registry db" and "compacted db' \<le> q" and "q \<le> revision db"
  shows "latest_at db' q k = latest_at db q k"
  using assms
proof (induction rule: rtranclp_induct)
  case base
  then show ?case by simp
next
  case (step y z)
  have wf: "wf_registry y" using step by (metis registry_steps_wf)
  have "compacted y \<le> compacted z" using registry_step_mono [OF step(2) wf] by simp
  moreover have "q \<le> revision y" using registry_steps_mono [OF step(1)] step.prems by force
  ultimately show ?case
    using registry_step_latest_at [OF step(2) wf, of q k] step by simp
qed

lemma registry_steps_latest:
  assumes steps: "registry_step\<^sup>*\<^sup>* db db'" and wf: "wf_registry db" and now: "latest db k = Some v"
  shows "\<exists>w. latest db' k = Some w \<and> vrevision v \<le> vrevision w"
proof -
  have wf': "wf_registry db'" using registry_steps_wf [OF steps wf] .
  note l = latest_is_latest_at [OF wf] latest_is_latest_at [OF wf']
  have mono: "revision db \<le> revision db'" using registry_steps_mono [OF steps wf] by simp
  have "\<exists>w. latest_at db' (revision db') k = Some w \<and> vrevision v \<le> vrevision w"
    using steps wf now [unfolded l]
  proof (induction rule: rtranclp_induct)
    case base
    then show ?case by auto
  next
    case (step y z)
    have wfy: "wf_registry y" using step by (metis registry_steps_wf)
    obtain w where w: "latest_at y (revision y) k = Some w" "vrevision v \<le> vrevision w"
      using step by blast
    show ?case using step(2) wfy
    proof (cases rule: registry_step_effect)
      case same
      with w show ?thesis by auto
    next
      case (wrote u)
      with w latest_at_add_new [OF wfy wrote(2) le_refl, of k] latest_at_SomeD(3) [OF w(1)]
      show ?thesis by auto
    next
      case (trimmed r)
      with w latest_at_compacted_to [OF wfy, of r "revision y" k] latest_at_versions [OF trimmed(2)]
      show ?thesis by auto
    next
      case leased
      with w latest_at_versions [OF leased(2)] show ?thesis by auto
    qed
  qed
  then show ?thesis using l by simp
qed

subsection \<open>Custody\<close>

text \<open>
  What the registry relies on of the custody of Secret payloads: a sealed payload is read back as
  the payload.  \<open>decode_row_value\<close> opens what carries the envelope mark and nothing else, so the
  law covers custody without a cipher as well.
\<close>

locale custody =
  fixes s :: sealer
  assumes sealed_reads_back: "seal_with s p = Inr c \<Longrightarrow> decode_row_value s c = Inr p"
begin

lemma write_returns_payload:
  assumes "mutate_tx s ob expected False db = Inr (ob', db')"
    and "is_secret_key (okey ob) \<or> \<not> starts_with GEO_ENVELOPE (ovalue ob)"
  shows "ob' = ob"
proof -
  obtain c where
    v: "decode_row_value s c = Inr (ovalue ob')"
      "(if is_secret_key (okey ob) then seal_with s (ovalue ob) else Inr (ovalue ob)) = Inr c"
      "ob' = ob\<lparr>ovalue := ovalue ob'\<rparr>"
    using mutate_tx_Inr_form [OF assms(1)] by blast
  have "ovalue ob' = ovalue ob"
  proof (cases "is_secret_key (okey ob)")
    case True
    with v(1,2) sealed_reads_back show ?thesis by simp
  next
    case False
    with v(1,2) assms(2) show ?thesis by (simp add: decode_row_value_def)
  qed
  with v(3) show ?thesis by simp
qed

end

interpretation plain: custody Unsealed
  by unfold_locales (auto simp: Unsealed_def decode_row_value_def)

subsection \<open>Properties\<close>

text \<open>
  C4: every table state reachable from the empty registry by creates, updates, deletes,
  compactions, lease operations and maintenance satisfies the registry invariant: revisions are
  unique and increasing in insertion order, lie below the head and in the range of \<^verbatim>\<open>i64\<close>, keys are
  valid, and above the floor a row is an addition exactly if its key was not live before.
\<close>

theorem registry_invariant:
  assumes "registry_step\<^sup>*\<^sup>* empty_registry db"
  shows "wf_registry db"
  using registry_steps_wf [OF assms wf_empty] .

definition demo_key :: string where
  "demo_key = ''/registry/pods/ns/a''"

definition demo_registry :: registry where
  "demo_registry = snd (update Unsealed \<lparr>okey = demo_key, ovalue = ''v2'', orevision = 0\<rparr> 1
     (snd (create Unsealed \<lparr>okey = demo_key, ovalue = ''v1'', orevision = 0\<rparr> empty_registry)))"

lemma demo_steps: "registry_step\<^sup>*\<^sup>* empty_registry demo_registry"
proof -
  have key: "is_ok (new_store_key demo_key)" by code_simp
  let ?o = "\<lambda>v. \<lparr>okey = demo_key, ovalue = v, orevision = 0\<rparr>"
  let ?d = "snd (create Unsealed (?o ''v1'') empty_registry)"
  have "registry_step empty_registry ?d"
    by (rule step_create [of "?o ''v1''" Unsealed _ "fst (create Unsealed (?o ''v1'') empty_registry)"])
      (use key in simp_all)
  moreover have "registry_step ?d demo_registry"
    unfolding demo_registry_def
    by (rule step_update [of "?o ''v2''" Unsealed 1 _ "fst (update Unsealed (?o ''v2'') 1 ?d)"])
      (use key in simp_all)
  ultimately show ?thesis by (meson converse_rtranclp_into_rtranclp rtranclp.rtrancl_refl)
qed

theorem registry_invariant_witness: "wf_registry demo_registry"
  by (rule registry_invariant [OF demo_steps])



text \<open>
  A snapshot is stable.  Whatever writes, compactions and maintenance happen later, a revision
  that is still at or above the compaction floor shows every key exactly as it did when it was
  the head: list pages and watches at a fixed revision never see a later change.
\<close>

theorem snapshot_stable:
  assumes "registry_step\<^sup>*\<^sup>* db db'" and "wf_registry db"
    and "compacted db' \<le> q" and "q \<le> revision db"
  shows "snapshot db' q = snapshot db q"
  using registry_steps_latest_at [OF assms] by (simp add: snapshot_def fun_eq_iff)

theorem snapshot_stable_witness:
  "snapshot demo_registry 0 = snapshot empty_registry 0"
  by (rule snapshot_stable [OF demo_steps wf_empty]) code_simp+

text \<open>
  A compare-and-set has one winner.  Once an update or delete that expected revision \<open>rv\<close> of a
  key has succeeded, every later update or delete of that key expecting \<open>rv\<close> fails without an
  effect, whatever happened in between: with the current, larger revision, or because the key is
  gone.  No update is lost.
\<close>

theorem cas_single_winner:
  assumes wf: "wf_registry db" and key: "is_ok (new_store_key (okey ob))"
    and first: "mutate s ob (Some rv) del db = (Inr ob1, db1)"
    and steps: "registry_step\<^sup>*\<^sup>* db1 db2" and same: "okey ob' = okey ob"
  shows "mutate s' ob' (Some rv) del' db2 = (Inl (NotFound (okey ob)), db2)
    \<or> (\<exists>actual > rv. mutate s' ob' (Some rv) del' db2 = (Inl (Conflict rv actual), db2))"
proof -
  obtain v where
    v: "db1 = add_version v db" "vkey v = okey ob" "vrevision v = Suc (revision db)" "wf_registry db1"
      "cas_guard (okey ob) (Some rv) (get_current db (okey ob)) = Inr ()"
    by (rule mutate_cases [OF wf key _ first]) auto
  from v(5) have rv: "rv \<le> revision db"
    using get_current_snapshot [OF wf] by (auto simp: cas_guard_Inr_iff dest: snapshot_SomeD(2))
  have "latest db1 (okey ob) = Some v"
    using latest_is_latest_at [OF v(4)] latest_at_add_new [OF wf v(3) le_refl] v(1,2) by simp
  from registry_steps_latest [OF steps v(4) this] obtain w where
    w: "latest db2 (okey ob) = Some w" "Suc (revision db) \<le> vrevision w" using v(3) by auto
  have refuse: "mutate s' ob' (Some rv) del' db2 = (Inl e, db2)"
    if "cas_guard (okey ob) (Some rv) (get_current db2 (okey ob)) = Inl e" for e
    using that same by (simp add: mutate_def mutate_tx_def Let_def)
  show ?thesis
  proof (cases "vkind w = 2")
    case True
    with w(1) refuse show ?thesis by (simp add: get_current_def cas_guard_def)
  next
    case False
    with w rv have "cas_guard (okey ob) (Some rv) (get_current db2 (okey ob)) = Inl (Conflict rv (vrevision w))"
      by (simp add: get_current_def cas_guard_def)
    moreover have "rv < vrevision w" using w(2) rv by simp
    ultimately show ?thesis using refuse by blast
  qed
qed

theorem cas_single_winner_witness:
  "\<not> is_ok (fst (mutate Unsealed \<lparr>okey = demo_key, ovalue = ''late'', orevision = 0\<rparr> (Some 1) False demo_registry))"
proof -
  let ?o = "\<lambda>v. \<lparr>okey = demo_key, ovalue = v, orevision = 0\<rparr>"
  let ?d = "snd (create Unsealed (?o ''v1'') empty_registry)"
  have key: "is_ok (new_store_key demo_key)" by code_simp
  have "registry_step empty_registry ?d"
    by (rule step_create [of "?o ''v1''" Unsealed _ "fst (create Unsealed (?o ''v1'') empty_registry)"])
      (use key in simp_all)
  then have wf: "wf_registry ?d" using wf_empty registry_step_wf by blast
  have "fst (mutate Unsealed (?o ''v2'') (Some 1) False ?d) = Inr \<lparr>okey = demo_key, ovalue = ''v2'', orevision = 2\<rparr>"
    by code_simp
  then have first: "mutate Unsealed (?o ''v2'') (Some 1) False ?d
      = (Inr \<lparr>okey = demo_key, ovalue = ''v2'', orevision = 2\<rparr>, demo_registry)"
    by (simp add: demo_registry_def update_def prod_eq_iff)
  from cas_single_winner [OF wf _ first rtranclp.rtrancl_refl, of "?o ''late''" Unsealed False] key
  show ?thesis by auto
qed

end
