(* ===== verification/Store_Watch.thy ===== *)
theory Store_Watch
  imports Store_Laws
begin

text \<open>
  Listing and watching the registry.  A list page is a slice of the sorted live keys of one
  snapshot, and the pages of a listing put together are the whole snapshot.  The events of a poll,
  replayed over the snapshot at the cursor, give the snapshot at the next cursor; a client that
  lists and then watches holds exactly the registry's contents at its cursor, whatever the other
  clients do in between.
\<close>

subsection \<open>Decoded views\<close>

definition decoded :: "sealer \<Rightarrow> stored_object \<Rightarrow> stored_object option" where
  "decoded s ob = (case decode_row_value s (ovalue ob) of Inl e \<Rightarrow> None | Inr v \<Rightarrow> Some (ob\<lparr>ovalue := v\<rparr>))"

text \<open>What a client selecting the prefix \<open>p\<close> sees of a key at a revision.\<close>

definition view :: "sealer \<Rightarrow> string \<Rightarrow> registry \<Rightarrow> nat \<Rightarrow> string \<Rightarrow> stored_object option" where
  "view s p db r k = (if starts_with p k then Option.bind (snapshot db r k) (decoded s) else None)"

text \<open>The keys live at a revision under a prefix and after a continuation key, in order.\<close>

definition live_keys :: "registry \<Rightarrow> string \<Rightarrow> string \<Rightarrow> nat \<Rightarrow> string list" where
  "live_keys db p after r = sorted_list_of_set
     (set (filter (\<lambda>k. starts_with p k \<and> after < k \<and> snapshot db r k \<noteq> None) (map vkey (versions db))))"

subsection \<open>The rows of a page\<close>

lemma map_option_latest_at:
  assumes wf: "wf_registry db" and v: "v \<in> set (versions db)"
  shows "map_option vrevision (latest_at db r k) = Some (vrevision v) \<longleftrightarrow> latest_at db r k = Some v"
  using latest_at_SomeD(1) [of db r k] wf_inj [OF wf] v by (auto dest: inj_onD)

lemma set_list_rows:
  assumes "wf_registry db"
  shows "set (list_rows db p a r) = {v \<in> set (versions db). starts_with p (vkey v) \<and> a < vkey v
    \<and> vkind v \<noteq> 2 \<and> latest_at db r (vkey v) = Some v}"
  using map_option_latest_at [OF assms] by (auto simp: list_rows_def)

lemma list_rows_distinct_keys:
  assumes wf: "wf_registry db"
  shows "distinct (map vkey (list_rows db p a r))"
proof -
  have "distinct (versions db)"
    using wf_registryD(3) [OF wf] by (metis distinct_map strict_sorted_iff)
  then have "distinct (list_rows db p a r)" by (simp add: list_rows_def)
  moreover have "inj_on vkey (set (list_rows db p a r))"
    unfolding set_list_rows [OF wf] by (rule inj_onI) (metis (mono_tags) mem_Collect_eq option.inject)
  ultimately show ?thesis by (simp add: distinct_map)
qed

lemma map_vkey_list_rows:
  assumes wf: "wf_registry db"
  shows "map vkey (list_rows db p a r) = live_keys db p a r"
proof -
  have "set (map vkey (list_rows db p a r))
      = set (filter (\<lambda>k. starts_with p k \<and> a < k \<and> snapshot db r k \<noteq> None) (map vkey (versions db)))"
    unfolding set_map set_list_rows [OF wf]
  proof (intro equalityI subsetI)
    fix k
    assume "k \<in> set (filter (\<lambda>k. starts_with p k \<and> a < k \<and> snapshot db r k \<noteq> None) (map vkey (versions db)))"
    then have k: "starts_with p k" "a < k" "snapshot db r k \<noteq> None" by auto
    then obtain v where v: "latest_at db r k = Some v" "vkind v \<noteq> 2"
      by (auto simp: snapshot_def live_object_def split: option.splits if_splits)
    with k latest_at_SomeD [OF v(1)]
    show "k \<in> vkey ` {v \<in> set (versions db). starts_with p (vkey v) \<and> a < vkey v \<and> vkind v \<noteq> 2
        \<and> latest_at db r (vkey v) = Some v}"
      by (intro image_eqI [of _ _ v]) auto
  qed (auto simp: snapshot_def)
  moreover have "sorted (map vkey (list_rows db p a r))" by (simp add: list_rows_def)
  ultimately show ?thesis
    unfolding live_keys_def using list_rows_distinct_keys [OF wf]
    by (metis sorted_list_of_set.idem_if_sorted_distinct)
qed

lemma row_of_live_key:
  assumes wf: "wf_registry db" and v: "v \<in> set (list_rows db p a r)"
  shows "snapshot db r (vkey v) = Some (row_object v)"
  using v unfolding set_list_rows [OF wf] by (simp add: snapshot_def)

lemma list_all2_decode_rows:
  assumes wf: "wf_registry db" and rows: "set vs \<subseteq> set (list_rows db p a r)"
    and dec: "list_all2 (\<lambda>v ob. decode_row s v = Inr ob) vs obs"
  shows "map (\<lambda>k. view s p db r k) (map vkey vs) = map Some obs"
  using dec rows
proof (induction rule: list_all2_induct)
  case Nil
  then show ?case by simp
next
  case (Cons v vs ob obs)
  have "snapshot db r (vkey v) = Some (row_object v)" "starts_with p (vkey v)"
    using Cons.prems row_of_live_key [OF wf] set_list_rows [OF wf] by auto
  moreover have "decoded s (row_object v) = Some ob"
    using Cons.hyps(1) by (auto simp: decode_row_def decoded_def andThen_Inr_iff)
  ultimately show ?case using Cons.IH Cons.prems by (simp add: view_def)
qed

lemma okey_decode_row: "decode_row s v = Inr ob \<Longrightarrow> okey ob = vkey v"
  by (auto simp: decode_row_def andThen_Inr_iff)

lemma list_all2_okey: "list_all2 (\<lambda>v ob. decode_row s v = Inr ob) vs obs \<Longrightarrow> map okey obs = map vkey vs"
  by (induction rule: list_all2_induct) (auto dest: okey_decode_row)

definition page_revision :: "list_select \<Rightarrow> registry \<Rightarrow> nat" where
  "page_revision sel db =
     (case at_revision sel of None \<Rightarrow> revision db | Some q \<Rightarrow> if q \<noteq> 0 then q else revision db)"

definition page_after :: "list_select \<Rightarrow> string" where
  "page_after sel = (case start_after sel of None \<Rightarrow> '''' | Some k \<Rightarrow> k)"

lemma list_page_exact:
  assumes wf: "wf_registry db" and page: "list_page s sel db = Inr page"
  defines "r \<equiv> page_revision sel db"
    and "keys \<equiv> live_keys db (lprefix sel) (page_after sel) (page_revision sel db)"
  shows "lrevision page = r" "compacted db \<le> r" "r \<le> revision db" "0 < limit sel"
    "map Some (litems page) = map (view s (lprefix sel) db r) (take (limit sel) keys)"
    "next_after page = (if limit sel < length keys then Some (keys ! (limit sel - 1)) else None)"
proof -
  let ?n = "limit sel" and ?rows = "list_rows db (lprefix sel) (page_after sel) r"
  have keys: "map vkey ?rows = keys" by (simp add: keys_def map_vkey_list_rows [OF wf] r_def)
  from page obtain obs where
    n: "?n \<noteq> 0" and v: "compacted db \<le> r" "r \<le> revision db"
    and dec: "list_all2 (\<lambda>v ob. decode_row s v = Inr ob) (take (?n + 1) ?rows) obs"
    and out: "page = (if length obs > ?n
        then \<lparr>litems = butlast obs, lrevision = r,
          next_after = (if butlast obs = [] then None else Some (okey (last (butlast obs))))\<rparr>
        else \<lparr>litems = obs, lrevision = r, next_after = None\<rparr>)"
    by (auto simp: list_page_def r_def page_revision_def page_after_def andThen_Inr_iff Let_def
        validate_revision_def revision_i64_def try_map_Inr_iff not_less split: if_splits)
  show "lrevision page = r" "compacted db \<le> r" "r \<le> revision db" "0 < ?n"
    using v n out by auto
  have len: "length obs = min (?n + 1) (length keys)"
    using list_all2_lengthD [OF dec] keys by (metis length_map length_take min.commute)
  have "set (take (?n + 1) ?rows) \<subseteq> set (list_rows db (lprefix sel) (page_after sel) r)"
    by (simp add: set_take_subset)
  from list_all2_decode_rows [OF wf this dec]
  have views: "map Some obs = map (view s (lprefix sel) db r) (take (?n + 1) keys)"
    unfolding keys [symmetric] take_map by simp
  have okeys: "map okey obs = take (?n + 1) keys"
    using list_all2_okey [OF dec] unfolding keys [symmetric] take_map .
  show "map Some (litems page) = map (view s (lprefix sel) db r) (take ?n keys)"
    "next_after page = (if ?n < length keys then Some (keys ! (?n - 1)) else None)"
  proof -
    show "map Some (litems page) = map (view s (lprefix sel) db r) (take ?n keys)"
    proof (cases "?n < length keys")
      case True
      then have "litems page = take ?n obs" using out len by (simp add: butlast_conv_take)
      then show ?thesis using arg_cong [OF views, of "take ?n"] by (simp add: take_map min_def)
    next
      case False
      then have "litems page = obs" using out len by simp
      with views False show ?thesis by simp
    qed
    show "next_after page = (if ?n < length keys then Some (keys ! (?n - 1)) else None)"
    proof (cases "?n < length keys")
      case True
      with len have l: "length obs = Suc ?n" by simp
      then have ne: "butlast obs \<noteq> []" using n by (cases obs) (auto simp: butlast_conv_take)
      have "last (butlast obs) = obs ! (?n - 1)"
        using ne l n by (simp add: last_conv_nth nth_butlast)
      moreover have "okey (obs ! (?n - 1)) = keys ! (?n - 1)"
      proof -
        have "okey (obs ! (?n - 1)) = map okey obs ! (?n - 1)" using l n by simp
        also have "\<dots> = keys ! (?n - 1)" unfolding okeys using n by simp
        finally show ?thesis .
      qed
      ultimately show ?thesis using out l ne True by simp
    next
      case False
      with len out show ?thesis by simp
    qed
  qed
qed

subsection \<open>All pages of a listing\<close>

text \<open>
  The paging loop at the head of \<^verbatim>\<open>watch\<close>: pages of 256 at the anchor revision until there is no
  continuation key.  \<open>dbs i\<close> are the tables the \<open>i\<close>-th page is read from; other clients may write
  between two pages.  The fuel bounds the number of pages.
\<close>

fun read_pages :: "nat \<Rightarrow> sealer \<Rightarrow> string \<Rightarrow> nat \<Rightarrow> string option \<Rightarrow> (nat \<Rightarrow> registry)
    \<Rightarrow> (store_error, stored_object list) result option" where
  "read_pages 0 s p anchor cont dbs = None"
| "read_pages (Suc n) s p anchor cont dbs =
     (case list_page s \<lparr>lprefix = p, at_revision = Some anchor, start_after = cont, limit = 256\<rparr> (dbs 0) of
        Inl e \<Rightarrow> Some (Inl e)
      | Inr page \<Rightarrow>
          (case next_after page of
             None \<Rightarrow> Some (Inr (litems page))
           | Some k \<Rightarrow> map_option (\<lambda>r. andThen r (\<lambda>obs. Inr (litems page @ obs)))
               (read_pages n s p anchor (Some k) (\<lambda>i. dbs (Suc i)))))"

lemma live_keys_after:
  assumes "k = live_keys db p a r ! n" and "n < length (live_keys db p a r)"
  shows "live_keys db p k r = drop (Suc n) (live_keys db p a r)"
proof -
  let ?l = "live_keys db p a r"
  let ?A = "set (filter (\<lambda>k. starts_with p k \<and> a < k \<and> snapshot db r k \<noteq> None) (map vkey (versions db)))"
  have sorted: "sorted_wrt (<) ?l" and set: "set ?l = ?A" by (simp_all add: live_keys_def)
  have k: "k \<in> ?A" using assms set by (metis nth_mem)
  have split: "?l = take n ?l @ k # drop (Suc n) ?l" using assms by (metis id_take_nth_drop)
  then have order: "\<forall>j \<in> set (take n ?l). j < k" "\<forall>j \<in> set (drop (Suc n) ?l). k < j"
    using sorted by (metis sorted_wrt_append list.set_intros(1), metis sorted_wrt_append sorted_wrt.simps(2))
  have members: "set ?l = set (take n ?l) \<union> {k} \<union> set (drop (Suc n) ?l)"
    by (subst split) (simp only: set_append list.set, blast)
  have "set (drop (Suc n) ?l) = {j \<in> set ?l. k < j}"
    unfolding members using order by (auto dest: less_asym)
  also have "\<dots> = set (filter (\<lambda>j. starts_with p j \<and> k < j \<and> snapshot db r j \<noteq> None) (map vkey (versions db)))"
    unfolding set using k by auto
  finally have "set (drop (Suc n) ?l)
      = set (filter (\<lambda>j. starts_with p j \<and> k < j \<and> snapshot db r j \<noteq> None) (map vkey (versions db)))" .
  moreover have "sorted_wrt (<) (drop (Suc n) ?l)" using sorted by (metis append_take_drop_id sorted_wrt_append)
  ultimately show ?thesis
    unfolding live_keys_def [of db p k] by (metis sorted_list_of_set.idem_if_sorted_distinct strict_sorted_iff)
qed

lemma live_keys_stable:
  assumes steps: "registry_step\<^sup>*\<^sup>* db db'" and wf: "wf_registry db"
    and q: "compacted db' \<le> q" "q \<le> revision db"
  shows "live_keys db' p a q = live_keys db p a q"
proof -
  have stable: "snapshot db' q = snapshot db q"
    by (rule ext) (simp add: snapshot_def registry_steps_latest_at [OF steps wf q])
  have mem: "k \<in> vkey ` set (versions d)" if "snapshot d q k \<noteq> None" for k d
  proof -
    from that obtain v where "latest_at d q k = Some v"
      by (auto simp: snapshot_def live_object_def split: option.splits)
    from latest_at_SomeD(1,2) [OF this] show ?thesis by blast
  qed
  have "set (filter (\<lambda>k. starts_with p k \<and> a < k \<and> snapshot db' q k \<noteq> None) (map vkey (versions db')))
      = set (filter (\<lambda>k. starts_with p k \<and> a < k \<and> snapshot db q k \<noteq> None) (map vkey (versions db)))"
    using mem [of db'] mem [of db] unfolding stable by fastforce
  then show ?thesis unfolding live_keys_def by simp
qed

lemma view_stable:
  assumes "registry_step\<^sup>*\<^sup>* db db'" and "wf_registry db" and "compacted db' \<le> q" and "q \<le> revision db"
  shows "view s p db' q = view s p db q"
  using registry_steps_latest_at [OF assms] by (simp add: view_def snapshot_def fun_eq_iff)

lemma read_pages_exact:
  assumes wf: "wf_registry db" and anchor: "0 < anchor" "anchor \<le> revision db"
    and later: "\<And>i. registry_step\<^sup>*\<^sup>* db (dbs i)"
    and fin: "read_pages n s p anchor cont dbs = Some (Inr obs)"
  shows "map Some obs = map (view s p db anchor)
    (live_keys db p (case cont of None \<Rightarrow> '''' | Some k \<Rightarrow> k) anchor)"
  using later fin
proof (induction n arbitrary: cont dbs obs)
  case 0
  then show ?case by simp
next
  case (Suc n)
  let ?sel = "\<lparr>lprefix = p, at_revision = Some anchor, start_after = cont, limit = 256\<rparr>"
  let ?after = "case cont of None \<Rightarrow> '''' | Some k \<Rightarrow> k"
  let ?keys = "live_keys db p ?after anchor"
  from Suc.prems(2) obtain page where page: "list_page s ?sel (dbs 0) = Inr page"
    by (auto split: sum.splits)
  have wf0: "wf_registry (dbs 0)" using registry_steps_wf [OF Suc.prems(1) wf] .
  have sel: "page_revision ?sel (dbs 0) = anchor" "page_after ?sel = ?after"
    using anchor by (simp_all add: page_revision_def page_after_def)
  note exact = list_page_exact [OF wf0 page, unfolded sel, simplified]
  have same: "live_keys (dbs 0) p a anchor = live_keys db p a anchor" "view s p (dbs 0) anchor = view s p db anchor" for a
    using live_keys_stable [OF Suc.prems(1) wf exact(2) anchor(2)]
      view_stable [OF Suc.prems(1) wf exact(2) anchor(2)] by auto
  have got: "map Some (litems page) = map (view s p db anchor) (take 256 ?keys)"
    using exact(5) same by simp
  show ?case
  proof (cases "256 < length ?keys")
    case False
    then have "next_after page = None" using exact(6) same by simp
    with Suc.prems(2) page got False show ?thesis by simp
  next
    case True
    let ?k = "?keys ! 255"
    have more_pages: "next_after page = Some ?k" using exact(6) same True by simp
    with Suc.prems(2) page obtain more where
      more: "read_pages n s p anchor (Some ?k) (\<lambda>i. dbs (Suc i)) = Some (Inr more)"
        "obs = litems page @ more"
      by (auto simp: andThen_Inr_iff)
    have "map Some more = map (view s p db anchor) (live_keys db p ?k anchor)"
      using Suc.IH [OF _ more(1)] Suc.prems(1) by simp
    moreover have "live_keys db p ?k anchor = drop 256 ?keys"
      using live_keys_after [of ?k db p ?after anchor 255] True by simp
    ultimately show ?thesis
      using more(2) got by simp (metis append_take_drop_id map_append)
  qed
qed

subsection \<open>Replaying the events of a poll\<close>

fun apply_event :: "watch_event \<Rightarrow> (string \<Rightarrow> stored_object option) \<Rightarrow> string \<Rightarrow> stored_object option" where
  "apply_event e f =
     (case eobject e of
        None \<Rightarrow> f
      | Some ob \<Rightarrow> f(okey ob := (if ekind e = Deleted then None else Some ob)))"

definition apply_row :: "sealer \<Rightarrow> version_row \<Rightarrow> (string \<Rightarrow> stored_object option) \<Rightarrow> string \<Rightarrow> stored_object option" where
  "apply_row s v f = f(vkey v := Option.bind (live_object (Some v)) (decoded s))"

lemma fold_apply_row:
  assumes "sorted_wrt (<) (map vrevision vs)"
  shows "fold (apply_row s) vs f k =
    (case newest (filter (\<lambda>v. vkey v = k) vs) of None \<Rightarrow> f k | Some v \<Rightarrow> Option.bind (live_object (Some v)) (decoded s))"
  using assms
proof (induction vs rule: rev_induct)
  case Nil
  then show ?case by simp
next
  case (snoc v vs)
  then have low: "\<forall>w \<in> set vs. vrevision w < vrevision v" and IH: "fold (apply_row s) vs f k =
    (case newest (filter (\<lambda>v. vkey v = k) vs) of None \<Rightarrow> f k | Some v \<Rightarrow> Option.bind (live_object (Some v)) (decoded s))"
    by (auto simp: sorted_wrt_append)
  show ?case
  proof (cases "vkey v = k")
    case True
    have "newest (filter (\<lambda>v. vkey v = k) vs @ [v]) = Some v"
      using low by (intro newest_snoc) auto
    with True show ?thesis by (simp add: apply_row_def)
  next
    case False
    then have "apply_row s v g k = g k" for g by (simp add: apply_row_def)
    with IH False show ?thesis by simp
  qed
qed

text \<open>The rows a poll reads, up to a revision.\<close>

definition rows_between :: "registry \<Rightarrow> string \<Rightarrow> nat \<Rightarrow> nat \<Rightarrow> version_row list" where
  "rows_between db p a b = filter (\<lambda>v. a < vrevision v \<and> vrevision v \<le> b \<and> starts_with p (vkey v)) (versions db)"

lemma sorted_rows_between:
  "wf_registry db \<Longrightarrow> sorted_wrt (<) (map vrevision (rows_between db p a b))"
  unfolding rows_between_def sorted_wrt_map
  by (rule sorted_wrt_filter) (simp add: wf_registryD(3) [unfolded sorted_wrt_map])

lemma replay_rows:
  assumes wf: "wf_registry db" and ab: "a \<le> b"
  shows "fold (apply_row s) (rows_between db p a b) (view s p db a) = view s p db b"
proof
  fix k
  let ?new = "filter (\<lambda>v. vkey v = k) (rows_between db p a b)"
  show "fold (apply_row s) (rows_between db p a b) (view s p db a) k = view s p db b k"
  proof (cases "newest ?new")
    case None
    then have none: "?new = []" by simp
    have "view s p db a k = view s p db b k"
    proof (cases "starts_with p k")
      case True
      with none have "\<forall>v \<in> set (versions db). vkey v = k \<and> vrevision v \<le> b \<longrightarrow> vrevision v \<le> a"
        by (auto simp: rows_between_def filter_empty_conv not_less)
      then have "latest_at db a k = latest_at db b k"
        unfolding latest_at_def using ab by (intro arg_cong [of _ _ newest] filter_cong) auto
      then show ?thesis by (simp add: view_def snapshot_def)
    qed (simp add: view_def)
    with None show ?thesis by (simp add: fold_apply_row [OF sorted_rows_between [OF wf]])
  next
    case (Some v)
    note v = newest_SomeD [OF Some]
    then have m: "v \<in> set (versions db)" "vkey v = k" "a < vrevision v" "vrevision v \<le> b" "starts_with p k"
      by (auto simp: rows_between_def)
    have "latest_at db b k = Some v"
    proof (rule latest_at_eqI [OF wf])
      fix w
      assume w: "w \<in> set (versions db)" "vkey w = k" "vrevision w \<le> b"
      show "vrevision w \<le> vrevision v"
      proof (cases "a < vrevision w")
        case True
        with w m(5) v show ?thesis by (auto simp: rows_between_def)
      next
        case False
        with m(3) show ?thesis by simp
      qed
    qed (use m in auto)
    with Some m(5) show ?thesis
      by (simp add: fold_apply_row [OF sorted_rows_between [OF wf]] view_def snapshot_def)
  qed
qed

lemma change_rows_between:
  assumes wf: "wf_registry db"
  shows "change_rows db p a = take 256 (rows_between db p a (revision db))"
proof -
  have "filter (\<lambda>v. a < vrevision v \<and> starts_with p (vkey v)) (versions db) = rows_between db p a (revision db)"
    using wf_registryD(4) [OF wf] by (auto simp: rows_between_def row_ok_def intro!: filter_cong)
  moreover have "sort_key vrevision (rows_between db p a (revision db)) = rows_between db p a (revision db)"
    using sorted_rows_between [OF wf] by (intro sort_key_id_if_sorted) (simp add: strict_sorted_iff)
  ultimately show ?thesis by (simp add: change_rows_def)
qed

lemma take_rows_between:
  assumes wf: "wf_registry db" and n: "0 < n" "n \<le> length (rows_between db p a b)"
  defines "last_rev \<equiv> vrevision (rows_between db p a b ! (n - 1))"
  shows "take n (rows_between db p a b) = rows_between db p a last_rev" "a < last_rev" "last_rev \<le> b"
proof -
  let ?R = "rows_between db p a b"
  let ?L = "take n ?R" and ?H = "drop n ?R"
  have inR: "?R ! (n - 1) \<in> set ?R" using n by simp
  then show bounds: "a < last_rev" "last_rev \<le> b" by (auto simp: last_rev_def rows_between_def)
  have sorted: "sorted_wrt (\<lambda>v w. vrevision v < vrevision w) ?R"
    using sorted_rows_between [OF wf] by (simp add: sorted_wrt_map)
  have low: "vrevision v \<le> last_rev" if "v \<in> set ?L" for v
  proof -
    from that obtain i where i: "i < n" "i < length ?R" "v = ?R ! i" by (auto simp: in_set_conv_nth)
    show ?thesis
    proof (cases "i = n - 1")
      case False
      with i n sorted have "vrevision (?R ! i) < vrevision (?R ! (n - 1))"
        by (simp add: sorted_wrt_iff_nth_less)
      with i show ?thesis by (simp add: last_rev_def)
    qed (use i in \<open>simp add: last_rev_def\<close>)
  qed
  have high: "last_rev < vrevision v" if "v \<in> set ?H" for v
  proof -
    from that obtain i where "i < length ?H" "v = ?H ! i" by (metis in_set_conv_nth)
    then have "n + i < length ?R" "v = ?R ! (n + i)" using n by auto
    with n sorted show ?thesis by (simp add: sorted_wrt_iff_nth_less last_rev_def)
  qed
  have "rows_between db p a last_rev = filter (\<lambda>v. vrevision v \<le> last_rev) ?R"
    using bounds by (auto simp: rows_between_def intro!: filter_cong)
  also have "\<dots> = filter (\<lambda>v. vrevision v \<le> last_rev) (?L @ ?H)" by simp
  also have "\<dots> = ?L"
    unfolding filter_append using low high by (simp add: filter_empty_conv filter_id_conv not_le)
  finally show "?L = rows_between db p a last_rev" by simp
qed

lemma change_event_facts:
  assumes "change_event s db v = Inr e" and "wf_registry db"
  shows "erevision e = vrevision v" "ekind e = event_of_kind (vkind v)"
    "\<exists>x. decode_row_value s (vvalue v) = Inr x
       \<and> eobject e = Some \<lparr>okey = vkey v, ovalue = x, orevision = vrevision v\<rparr>"
    "(previous e = None) = (live_object (prior_row db v) = None)"
proof -
  have low: "vkind w \<le> 2" if "prior_row db v = Some w" for w
    using newest_SomeD [OF that [unfolded prior_row_def]] wf_registryD(4) [OF assms(2)]
    by (auto simp: row_ok_def)
  show "erevision e = vrevision v" "ekind e = event_of_kind (vkind v)"
    "\<exists>x. decode_row_value s (vvalue v) = Inr x
       \<and> eobject e = Some \<lparr>okey = vkey v, ovalue = x, orevision = vrevision v\<rparr>"
    using assms(1) by (auto simp: change_event_def andThen_Inr_iff)
  show "(previous e = None) = (live_object (prior_row db v) = None)"
    using assms(1) low
    by (cases "prior_row db v") (fastforce simp: change_event_def andThen_Inr_iff split: if_splits)+
qed

lemma apply_change_event:
  assumes "change_event s db v = Inr e" and "wf_registry db" and "vkind v \<le> 2"
  shows "apply_event e f = apply_row s v f"
  using change_event_facts [OF assms(1,2)] assms(3)
  by (auto simp: apply_row_def decoded_def event_of_kind_def row_object_def split: if_splits)

lemma apply_change_events:
  assumes "list_all2 (\<lambda>v e. change_event s db v = Inr e) vs es" and "wf_registry db" and "\<forall>v \<in> set vs. vkind v \<le> 2"
  shows "fold apply_event es f = fold (apply_row s) vs f"
  using assms
proof (induction arbitrary: f rule: list_all2_induct)
  case (Cons v vs e es)
  then have "apply_event e f = apply_row s v f" by (intro apply_change_event) auto
  with Cons show ?case by (simp del: apply_event.simps)
qed simp

lemma changes_rows:
  assumes wf: "wf_registry db" and ok: "changes s p a db = Inr (es, b)"
  shows "list_all2 (\<lambda>v e. change_event s db v = Inr e) (rows_between db p a b) es"
    "compacted db \<le> a" "a \<le> b" "b \<le> revision db" "length es = 256 \<or> b = revision db"
    "length es = 256 \<Longrightarrow> a < b"
proof -
  let ?R = "rows_between db p a (revision db)"
  from ok have v: "compacted db \<le> a" "a \<le> revision db"
    and es: "list_all2 (\<lambda>v e. change_event s db v = Inr e) (take 256 ?R) es"
    and b: "b = (if length es = 256 then erevision (last es) else revision db)"
    by (auto simp: changes_def andThen_Inr_iff validate_revision_def revision_i64_def
        try_map_Inr_iff change_rows_between [OF wf] not_less split: if_splits)
  show "compacted db \<le> a" by (rule v(1))
  show "length es = 256 \<or> b = revision db" using b by auto
  have len: "length es = min 256 (length ?R)" using list_all2_lengthD [OF es] by simp
  have facts: "list_all2 (\<lambda>v e. change_event s db v = Inr e) (rows_between db p a b) es \<and> a \<le> b \<and> b \<le> revision db
    \<and> (length es = 256 \<longrightarrow> a < b)"
  proof (cases "length es = 256")
    case True
    then have n: "256 \<le> length ?R" "es \<noteq> []" using len by auto
    have "change_event s db (?R ! 255) = Inr (es ! 255)"
      using list_all2_nthD [OF es, of 255] True n by simp
    moreover have "last es = es ! 255" using True n(2) by (simp add: last_conv_nth)
    ultimately have "b = vrevision (?R ! (256 - 1))" using b True change_event_facts(1) [OF _ wf] by simp
    with take_rows_between [OF wf, of 256 p a "revision db"] n es show ?thesis by simp
  next
    case False
    then have "take 256 ?R = ?R" using len by simp
    with False b es v show ?thesis by simp
  qed
  then show "list_all2 (\<lambda>v e. change_event s db v = Inr e) (rows_between db p a b) es" "a \<le> b" "b \<le> revision db"
    "length es = 256 \<Longrightarrow> a < b"
    by auto
qed

lemma changes_replay:
  assumes wf: "wf_registry db" and ok: "changes s p a db = Inr (es, b)"
  shows "fold apply_event es (view s p db a) = view s p db b"
proof -
  have "\<forall>v \<in> set (rows_between db p a b). vkind v \<le> 2"
    using wf_registryD(4) [OF wf] by (auto simp: rows_between_def row_ok_def)
  from apply_change_events [OF changes_rows(1) [OF wf ok] wf this] replay_rows [OF wf changes_rows(3) [OF wf ok]]
  show ?thesis by simp
qed

subsection \<open>The stream of a watch\<close>

text \<open>
  What \<^verbatim>\<open>watch\<close> yields: without a start revision first the objects at the anchor as additions and a
  bookmark, then in every round the changes since the cursor, and a bookmark when the interval is over
  (\<open>due\<close>).
\<close>

definition watch_start :: "nat \<Rightarrow> sealer \<Rightarrow> string \<Rightarrow> nat option \<Rightarrow> nat \<Rightarrow> (nat \<Rightarrow> registry)
    \<Rightarrow> (store_error, watch_event list) result option" where
  "watch_start n s p requested anchor dbs =
     (if requested = None then
        (if anchor > 0
         then map_option (\<lambda>r. andThen r (\<lambda>obs. Inr (map snapshot_event obs @ [bookmark anchor])))
                (read_pages n s p anchor None dbs)
         else Some (Inr [bookmark anchor]))
      else Some (Inr []))"

definition watch_round :: "sealer \<Rightarrow> string \<Rightarrow> nat \<Rightarrow> bool \<Rightarrow> registry
    \<Rightarrow> (store_error, watch_event list \<times> nat) result" where
  "watch_round s p cursor due db =
     andThen (changes s p cursor db) (\<lambda>(events, c).
     Inr (events @ (if due then [bookmark c] else []), c))"

lemma eobject_bookmark [simp]: "eobject (bookmark r) = None"
  by (simp add: bookmark_def)

lemma watch_round_replay:
  assumes "watch_round s p c due db = Inr (es, c')"
  obtains es' where "changes s p c db = Inr (es', c')" "fold apply_event es f = fold apply_event es' f"
  using assms by (auto simp: watch_round_def andThen_Inr_iff split: if_splits)

subsection \<open>A client that lists and then watches\<close>

text \<open>
  The registry together with one watching client: its cursor and the objects it holds.  The server
  may take any registry step; the client receives a round of its watch and applies the events in
  order.
\<close>

inductive informer_step :: "sealer \<Rightarrow> string
    \<Rightarrow> registry \<times> nat \<times> (string \<Rightarrow> stored_object option)
    \<Rightarrow> registry \<times> nat \<times> (string \<Rightarrow> stored_object option) \<Rightarrow> bool"
  for s :: sealer and p :: string where
  server: "registry_step db db' \<Longrightarrow> informer_step s p (db, c, f) (db', c, f)"
| round: "watch_round s p c due db = Inr (es, c') \<Longrightarrow> informer_step s p (db, c, f) (db, c', fold apply_event es f)"

inductive_cases informer_stepE: "informer_step s p (db, c, f) t"

definition synced :: "sealer \<Rightarrow> string \<Rightarrow> registry \<times> nat \<times> (string \<Rightarrow> stored_object option) \<Rightarrow> bool" where
  "synced s p t \<longleftrightarrow> (case t of (db, c, f) \<Rightarrow>
     wf_registry db \<and> c \<le> revision db \<and> (compacted db \<le> c \<longrightarrow> f = view s p db c))"

lemma synced_step:
  assumes "informer_step s p t u" and "synced s p t"
  shows "synced s p u"
  using assms
proof cases
  case (server db db' c f)
  with assms(2) have t: "wf_registry db" "c \<le> revision db" "compacted db \<le> c \<longrightarrow> f = view s p db c"
    by (auto simp: synced_def)
  note mono = registry_step_mono [OF server(3) t(1)]
  have "f = view s p db' c" if "compacted db' \<le> c"
    using t that mono view_stable [OF r_into_rtranclp [where r = registry_step, OF server(3)] t(1) that t(2)] by simp
  with mono t registry_step_wf [OF server(3) t(1)] server(2) show ?thesis by (simp add: synced_def)
next
  case (round c due db es c' f)
  with assms(2) have t: "wf_registry db" "c \<le> revision db" "compacted db \<le> c \<longrightarrow> f = view s p db c"
    by (auto simp: synced_def)
  obtain es' where es': "changes s p c db = Inr (es', c')" "fold apply_event es f = fold apply_event es' f"
    by (rule watch_round_replay [OF round(3)])
  note facts = changes_rows [OF t(1) es'(1)]
  with t changes_replay [OF t(1) es'(1)] round(2) es'(2) show ?thesis by (simp add: synced_def)
qed

lemma synced_steps:
  "(informer_step s p)\<^sup>*\<^sup>* t u \<Longrightarrow> synced s p t \<Longrightarrow> synced s p u"
  by (induction rule: rtranclp_induct) (auto intro: synced_step)

text \<open>The objects of a listing, as the map a client builds from them.\<close>

definition held :: "stored_object list \<Rightarrow> string \<Rightarrow> stored_object option" where
  "held obs = map_of (map (\<lambda>ob. (okey ob, ob)) obs)"

lemma view_SomeD:
  assumes "view s p db r k = Some ob"
  shows "okey ob = k" "starts_with p k" "snapshot db r k \<noteq> None"
proof -
  from assms obtain o0 v where f: "starts_with p k" "snapshot db r k = Some o0" "ob = o0\<lparr>ovalue := v\<rparr>"
    by (auto simp: view_def decoded_def split: if_splits sum.splits bind_splits)
  with snapshot_SomeD(1) [OF f(2)] show "okey ob = k" "starts_with p k" "snapshot db r k \<noteq> None" by simp_all
qed

lemma held_pages:
  assumes wf: "wf_registry db" and p: "p \<noteq> ''''"
    and obs: "map Some obs = map (view s p db r) (live_keys db p '''' r)"
  shows "held obs = view s p db r"
proof
  fix k
  have okeys: "map okey obs = live_keys db p '''' r"
  proof -
    have "list_all2 (\<lambda>ob k. view s p db r k = Some ob) obs (live_keys db p '''' r)"
      using obs unfolding list_all2_conv_all_nth by (metis length_map nth_map)
    then have "list_all2 (\<lambda>ob k. okey ob = k) obs (live_keys db p '''' r)"
      by (rule list_all2_mono) (rule view_SomeD(1))
    then show ?thesis by (simp add: list.rel_map list.rel_eq [symmetric])
  qed
  have distinct: "distinct (map fst (map (\<lambda>ob. (okey ob, ob)) obs))"
    using okeys by (simp add: comp_def live_keys_def)
  have all: "Some ob \<in> Some ` set obs \<longleftrightarrow> (\<exists>k \<in> set (live_keys db p '''' r). view s p db r k = Some ob)" for ob
    using arg_cong [OF obs, of set] by (auto simp: image_iff) (metis imageI image_iff)+
  show "held obs k = view s p db r k"
  proof (cases "view s p db r k")
    case None
    have "held obs k = None"
    proof (rule ccontr)
      assume "held obs k \<noteq> None"
      then obtain ob where "ob \<in> set obs" "okey ob = k"
        by (auto simp: held_def dest!: map_of_SomeD)
      with all [of ob] None view_SomeD(1) show False by force
    qed
    with None show ?thesis by simp
  next
    case (Some ob)
    note d = view_SomeD [OF Some]
    then obtain v where v: "latest_at db r k = Some v"
      by (auto simp: snapshot_def live_object_def split: option.splits)
    have "'''' < k" using d(2) p by (cases k) (auto simp: starts_with_def)
    moreover have "k \<in> vkey ` set (versions db)" using latest_at_SomeD(1,2) [OF v] by blast
    ultimately have "k \<in> set (live_keys db p '''' r)" using d by (auto simp: live_keys_def)
    with all [of ob] Some have "ob \<in> set obs" by auto
    with distinct d(1) show ?thesis
      by (simp add: Some held_def) (metis (mono_tags, lifting) image_eqI map_of_is_SomeI set_map)
  qed
qed

lemma okeys_of_pages:
  assumes obs: "map Some obs = map (view s p db r) (live_keys db p a r)"
  shows "map okey obs = live_keys db p a r"
proof -
  have "list_all2 (\<lambda>ob k. view s p db r k = Some ob) obs (live_keys db p a r)"
    using obs unfolding list_all2_conv_all_nth by (metis length_map nth_map)
  then have "list_all2 (\<lambda>ob k. okey ob = k) obs (live_keys db p a r)"
    by (rule list_all2_mono) (rule view_SomeD(1))
  then show ?thesis by (simp add: list.rel_map list.rel_eq [symmetric])
qed

lemma fold_snapshot_events:
  assumes "distinct (map okey obs)"
  shows "fold apply_event (map snapshot_event obs) f k = (case held obs k of None \<Rightarrow> f k | Some ob \<Rightarrow> Some ob)"
  using assms
proof (induction obs arbitrary: f)
  case Nil
  then show ?case by (simp add: held_def)
next
  case (Cons ob obs)
  have "held obs (okey ob) = None"
    using Cons.prems by (force simp: held_def map_of_eq_None_iff)
  moreover have "held (ob # obs) k = (if k = okey ob then Some ob else held obs k)" by (simp add: held_def)
  ultimately show ?case
    using Cons by (simp add: snapshot_event_def split: option.split)
qed

lemma view_zero: "wf_registry db \<Longrightarrow> view s p db 0 = Map.empty"
proof -
  assume wf: "wf_registry db"
  have "latest_at db 0 k = None" for k
    using wf_registryD(4) [OF wf] by (auto simp: latest_at_None_iff row_ok_def)
  then show ?thesis by (simp add: view_def snapshot_def fun_eq_iff)
qed

lemma watch_start_view:
  assumes wf: "wf_registry db" and p: "p \<noteq> ''''" and anchor: "anchor \<le> revision db"
    and later: "\<And>i. registry_step\<^sup>*\<^sup>* db (dbs i)"
    and run: "watch_start n s p None anchor dbs = Some (Inr es)"
  shows "fold apply_event es Map.empty = view s p db anchor"
proof (cases "anchor = 0")
  case True
  with run view_zero [OF wf] show ?thesis by (auto simp: watch_start_def)
next
  case False
  with run obtain obs where pages: "read_pages n s p anchor None dbs = Some (Inr obs)"
    and es: "es = map snapshot_event obs @ [bookmark anchor]"
    by (auto simp: watch_start_def andThen_Inr_iff)
  have obs: "map Some obs = map (view s p db anchor) (live_keys db p '''' anchor)"
    using read_pages_exact [OF wf _ anchor later pages] False by simp
  have "distinct (map okey obs)" using okeys_of_pages [OF obs] by (simp add: live_keys_def)
  then have "fold apply_event es Map.empty = held obs"
    using fold_snapshot_events [of obs Map.empty] by (simp add: es fun_eq_iff split: option.split)
  with held_pages [OF wf p obs] show ?thesis by simp
qed

subsection \<open>Properties\<close>

text \<open>
  A listing is exact.  Reading pages of 256 at an anchor revision, with arbitrary writes by other
  clients between the pages, yields (if no page is refused) exactly the decoded objects under the
  prefix at the anchor, in strictly increasing key order, no key missing and none twice.
\<close>

theorem pages_are_the_snapshot:
  assumes "wf_registry db" and "0 < anchor" and "anchor \<le> revision db"
    and "\<And>i. registry_step\<^sup>*\<^sup>* db (dbs i)"
    and "read_pages n s p anchor None dbs = Some (Inr obs)"
  shows "map Some obs = map (view s p db anchor) (live_keys db p '''' anchor)"
  using read_pages_exact [OF assms] by simp

theorem pages_are_the_snapshot_witness:
  "map Some [\<lparr>okey = demo_key, ovalue = ''v2'', orevision = 2\<rparr>]
     = map (view Unsealed ''/registry/pods/'' demo_registry 2) (live_keys demo_registry ''/registry/pods/'' '''' 2)"
proof -
  have wf: "wf_registry demo_registry" using registry_steps_wf [OF demo_steps wf_empty] .
  have r: "revision demo_registry = 2" by code_simp
  have "read_pages 1 Unsealed ''/registry/pods/'' 2 None (\<lambda>_. demo_registry)
      = Some (Inr [\<lparr>okey = demo_key, ovalue = ''v2'', orevision = 2\<rparr>])" by code_simp
  from pages_are_the_snapshot [OF wf _ _ _ this] r show ?thesis by simp
qed



text \<open>
  The events of one poll.  A successful poll reports, in strictly increasing revision order, one
  event for every version under the prefix after the cursor and up to the next cursor; \<^verbatim>\<open>Added\<close>
  is reported exactly when the key was not live just before, and only then is there no previous
  object; a full batch moves the cursor, and a batch that is not full brings it to the head.
\<close>

theorem poll_events_exact:
  assumes wf: "wf_registry db" and ok: "changes s p a db = Inr (es, b)"
  shows "map erevision es = map vrevision (rows_between db p a b)
    \<and> sorted_wrt (<) (map erevision es)
    \<and> list_all (\<lambda>e. (ekind e = Added) = (previous e = None) \<and> ekind e \<noteq> Bookmark) es
    \<and> (if length es = 256 then a < b \<and> b \<le> revision db else b = revision db)"
proof -
  note rows = changes_rows [OF wf ok]
  have "list_all2 (\<lambda>v e. vrevision v = erevision e) (rows_between db p a b) es"
    using rows(1) by (rule list_all2_mono) (simp add: change_event_facts(1) [OF _ wf])
  then have revs: "map erevision es = map vrevision (rows_between db p a b)"
    by (induction rule: list_all2_induct) auto
  have kinds: "(ekind e = Added) = (previous e = None) \<and> ekind e \<noteq> Bookmark" if "e \<in> set es" for e
  proof -
    from that rows(1) obtain v where v: "v \<in> set (rows_between db p a b)" "change_event s db v = Inr e"
      by (auto simp: list_all2_conv_all_nth in_set_conv_nth) (metis nth_mem)
    then have "v \<in> set (versions db)" "compacted db < vrevision v"
      using rows(2) by (auto simp: rows_between_def)
    with wf_registryD(5) [OF wf] have "vkind v = 0 \<longleftrightarrow> live_object (prior_row db v) = None"
      by (simp add: kind_ok_def)
    with change_event_facts [OF v(2) wf] show ?thesis by (auto simp: event_of_kind_def split: if_splits)
  qed
  show ?thesis
    using revs sorted_rows_between [OF wf, of p a b] kinds rows(4-6) by (auto simp: list_all_iff)
qed

theorem poll_events_exact_witness:
  "map vrevision (rows_between demo_registry ''/registry/'' 0 2) = [1, 2]"
proof -
  let ?o = "\<lambda>v r. \<lparr>okey = demo_key, ovalue = v, orevision = r\<rparr>"
  let ?es = "[\<lparr>previous = None, ekind = Added, erevision = 1, eobject = Some (?o ''v1'' 1)\<rparr>,
     \<lparr>previous = Some (?o ''v1'' 1), ekind = Modified, erevision = 2, eobject = Some (?o ''v2'' 2)\<rparr>]"
  have wf: "wf_registry demo_registry" using registry_steps_wf [OF demo_steps wf_empty] .
  have run: "changes Unsealed ''/registry/'' 0 demo_registry = Inr (?es, 2)" by code_simp
  from poll_events_exact [OF wf run] show ?thesis by simp
qed

end
