(* ===== verification/Store_Keys.thy ===== *)
theory Store_Keys
  imports Store_Laws
begin

text \<open>
  Registry keys and maintenance.  A valid key has four or five segments, so a resource or namespace
  prefix selects exactly the keys of that resource and namespace, and custody covers exactly the
  \<^verbatim>\<open>secrets\<close> resource.  Maintenance moves the compaction floor inside a window behind the head, and
  expires exactly the leases whose time is up.
\<close>

subsection \<open>Segments\<close>

fun join :: "char \<Rightarrow> string list \<Rightarrow> string" where
  "join c [] = []"
| "join c [p] = p"
| "join c (p # q # ps) = p @ c # join c (q # ps)"

lemma join_split_on: "join c (split_on c s) = s"
proof (induction s)
  case Nil
  then show ?case by simp
next
  case (Cons x xs)
  obtain p ps where ps: "split_on c xs = p # ps" by (cases "split_on c xs") auto
  with Cons show ?case by (cases ps) auto
qed

lemma split_on_length_1: "length (split_on c s) = 1 \<Longrightarrow> split_on c s = [s] \<and> c \<notin> set s"
  using join_split_on [of c s] split_on_pieces [of _ c s]
  by (cases "split_on c s") auto

lemma segment_no_slash: "valid_segment s \<Longrightarrow> CHR ''/'' \<notin> set s"
  by (auto simp: valid_segment_def segment_char_def list_all_iff is_alnum_def is_digit_def is_lower_def is_upper_def)

lemma split_registry:
  "CHR ''/'' \<notin> set r \<Longrightarrow> split_on CHR ''/'' (''/registry/'' @ r @ ''/'' @ t)
     = [] # ''registry'' # r # split_on CHR ''/'' t"
  using split_on_sep [of "CHR ''/''" "''registry''" "r @ CHR ''/'' # t"] split_on_sep [of "CHR ''/''" r t]
  by simp

definition prefix_of :: "string \<Rightarrow> string \<Rightarrow> string" where
  "prefix_of r ns = ''/registry/'' @ r @ ''/'' @ ns @ ''/''"

lemma new_store_keyD:
  assumes "is_ok (new_store_key k)"
  shows "length (split_on CHR ''/'' k) = 4 \<or> length (split_on CHR ''/'' k) = 5"
    "split_on CHR ''/'' k ! 0 = ''''" "split_on CHR ''/'' k ! 1 = ''registry''"
    "list_all valid_segment (drop 2 (split_on CHR ''/'' k))"
  using assms by (auto simp: new_store_key_def Let_def list_ex_iff list_all_iff split: if_splits)

text \<open>
  A namespace prefix isolates.  For valid segments, a valid key starts with
  \<^verbatim>\<open>/registry/{resource}/{namespace}/\<close> exactly if it is the five-segment key of that resource and that
  namespace: no name or namespace can be chosen so that a key falls under another prefix.
\<close>

theorem prefix_isolates:
  assumes "is_ok (new_store_key k)" and "valid_segment r" and "valid_segment ns"
  shows "starts_with (prefix_of r ns) k \<longleftrightarrow>
    (\<exists>name. valid_segment name \<and> split_on CHR ''/'' k = ['''', ''registry'', r, ns, name])"
proof
  assume "starts_with (prefix_of r ns) k"
  then obtain t where k: "k = ''/registry/'' @ r @ ''/'' @ (ns @ CHR ''/'' # t)"
    by (auto simp: starts_with_iff prefix_of_def)
  have parts: "split_on CHR ''/'' k = [] # ''registry'' # r # ns # split_on CHR ''/'' t"
    unfolding k using split_registry [OF segment_no_slash [OF assms(2)]] split_on_sep [OF segment_no_slash [OF assms(3)]]
    by simp
  with new_store_keyD(1) [OF assms(1)] have "length (split_on CHR ''/'' t) = 1"
    by (cases "split_on CHR ''/'' t") auto
  from split_on_length_1 [OF this] parts new_store_keyD(4) [OF assms(1)]
  show "\<exists>name. valid_segment name \<and> split_on CHR ''/'' k = ['''', ''registry'', r, ns, name]" by auto
next
  assume "\<exists>name. valid_segment name \<and> split_on CHR ''/'' k = ['''', ''registry'', r, ns, name]"
  then obtain name where "split_on CHR ''/'' k = ['''', ''registry'', r, ns, name]" by auto
  then have "k = join CHR ''/'' ['''', ''registry'', r, ns, name]" using join_split_on by metis
  then show "starts_with (prefix_of r ns) k" by (simp add: starts_with_iff prefix_of_def)
qed

theorem prefix_isolates_witness:
  "\<not> starts_with (prefix_of ''pods'' ''ns'') ''/registry/pods/ns.evil/x''"
proof -
  have v: "is_ok (new_store_key ''/registry/pods/ns.evil/x'')" "valid_segment ''pods''" "valid_segment ''ns''"
    by code_simp+
  have "split_on CHR ''/'' ''/registry/pods/ns.evil/x'' = ['''', ''registry'', ''pods'', ''ns.evil'', ''x'']"
    by code_simp
  with prefix_isolates [OF v] show ?thesis by simp
qed

text \<open>
  Custody covers exactly the keys of the \<^verbatim>\<open>secrets\<close> resource.
\<close>

theorem secret_keys_exact:
  assumes "is_ok (new_store_key k)"
  shows "is_secret_key k \<longleftrightarrow> split_on CHR ''/'' k ! 2 = ''secrets''"
proof -
  let ?ps = "split_on CHR ''/'' k"
  note d = new_store_keyD [OF assms]
  obtain r rest where ps: "?ps = '''' # ''registry'' # r # rest"
  proof -
    from d(1) obtain a b c ps' where p: "?ps = a # b # c # ps'"
      by (cases ?ps; cases "tl ?ps"; cases "tl (tl ?ps)") auto
    with d(2,3) that show ?thesis by simp
  qed
  from d(1) ps obtain q qs where rest: "rest = q # qs" by (cases rest) auto
  have r: "CHR ''/'' \<notin> set r" using split_on_pieces [of r "CHR ''/''" k] ps by simp
  have "k = join CHR ''/'' ('''' # ''registry'' # r # rest)" using join_split_on ps by metis
  then have k: "k = ''/registry/'' @ (r @ CHR ''/'' # join CHR ''/'' rest)" using rest by simp
  then have "strip_prefix ''/registry/'' k = Some (r @ CHR ''/'' # join CHR ''/'' rest)"
    by (simp add: strip_prefix_Some_iff)
  then show ?thesis
    using split_on_sep [OF r, of "join CHR ''/'' rest"] ps by (simp add: is_secret_key_def)
qed

theorem secret_keys_exact_witness: "\<not> is_secret_key ''/registry/pods/secrets/x''"
proof -
  have v: "is_ok (new_store_key ''/registry/pods/secrets/x'')" by code_simp
  have "split_on CHR ''/'' ''/registry/pods/secrets/x'' ! 2 = ''pods''" by code_simp
  with secret_keys_exact [OF v] show ?thesis by simp
qed

subsection \<open>Maintenance\<close>

lemma maintenance_revision_Some:
  "maintenance_revision cur floor window = Some r \<longleftrightarrow>
     0 < window \<and> floor < r \<and> r + window = cur"
  by (auto simp: maintenance_revision_def Let_def)

text \<open>
  Maintenance never fails on a well-formed registry, moves the floor only forward and only to
  exactly \<open>window\<close> revisions behind the head (never to the head itself), keeps every snapshot from
  the new floor on and every live object, and removes exactly the leases that have expired, whose
  number it returns.
\<close>

theorem maintain_outcome:
  assumes wf: "wf_registry db"
  shows "\<exists>n db'. maintain now window db = (Inr n, db')
    \<and> revision db' = revision db
    \<and> compacted db' = (if 0 < window \<and> compacted db + window < revision db then revision db - window else compacted db)
    \<and> (\<forall>q \<ge> compacted db'. snapshot db' q = snapshot db q)
    \<and> leases db' = filter (\<lambda>l. now < expires_ms l) (leases db)
    \<and> n = length (filter (\<lambda>l. expires_ms l \<le> now) (leases db))"
proof -
  let ?keep = "filter (\<lambda>l. now < expires_ms l) (leases db)"
  have count: "length (leases db) - length ?keep = length (filter (\<lambda>l. expires_ms l \<le> now) (leases db))"
    using sum_length_filter_compl [of "\<lambda>l. now < expires_ms l" "leases db"] by (simp add: not_less)
  have same: "snapshot d q = snapshot d' q" if "versions d = versions d'" for d d' q
    using that by (simp add: snapshot_def latest_at_def fun_eq_iff)
  have filt: "filter (\<lambda>l. \<not> expires_ms l \<le> now) (leases db) = ?keep" by (simp add: not_le)
  show ?thesis
  proof (cases "maintenance_revision (revision db) (compacted db) window")
    case None
    then have "\<not> (0 < window \<and> compacted db + window < revision db)"
      by (auto simp: maintenance_revision_def Let_def split: if_splits)
    moreover have "maintain now window db
        = (Inr (length (leases db) - length ?keep), db\<lparr>leases := ?keep\<rparr>)"
      using None by (simp add: maintain_def purge_leases_def filt Let_def)
    ultimately show ?thesis using count same [of "db\<lparr>leases := ?keep\<rparr>" db] by auto
  next
    case (Some r)
    then have r: "0 < window" "compacted db < r" "r + window = revision db"
      by (auto simp: maintenance_revision_Some)
    then have "compact r db = Inr (compacted_to r db)"
      using wf_registryD(2) [OF wf] by (auto simp: compact_def compacted_to_def revision_i64_def)
    then have run: "maintain now window db = (Inr (length (leases db) - length ?keep), (compacted_to r db)\<lparr>leases := ?keep\<rparr>)"
      using Some by (simp add: maintain_def purge_leases_def filt Let_def)
    have "snapshot ((compacted_to r db)\<lparr>leases := ?keep\<rparr>) q = snapshot db q" if "r \<le> q" for q
      using same [of "(compacted_to r db)\<lparr>leases := ?keep\<rparr>" "compacted_to r db"]
        latest_at_compacted_to [OF wf that] by (simp add: snapshot_def fun_eq_iff)
    moreover have "compacted db + window < revision db" "revision db - window = r" using r by auto
    ultimately show ?thesis using run count r(1) by auto
  qed
qed

theorem maintain_outcome_witness:
  "snapshot (snd (maintain 0 1 demo_registry)) 2 = snapshot demo_registry 2"
proof -
  have wf: "wf_registry demo_registry" using registry_steps_wf [OF demo_steps wf_empty] .
  have n: "revision demo_registry = 2" "compacted demo_registry = 0" by code_simp+
  obtain m db' where run: "maintain 0 1 demo_registry = (Inr m, db')" "compacted db' = 1"
    "\<forall>q \<ge> compacted db'. snapshot db' q = snapshot demo_registry q"
    using maintain_outcome [OF wf, of 0 1] n by auto
  then show ?thesis by simp
qed

text \<open>
  What was compacted is refused.  A list page or a poll at a revision below the floor is answered
  with the explicit compaction error, never with a partial result.
\<close>

theorem compacted_reads_refused:
  assumes "validate_prefix p = Inr ()" and "0 < n" and "n \<le> 4096" and "0 < q" and "q < compacted db"
  shows "list_page s \<lparr>lprefix = p, at_revision = Some q, start_after = None, limit = n\<rparr> db = Inl (Compacted q (compacted db))
    \<and> changes s p q db = Inl (Compacted q (compacted db))
    \<and> watch_anchor p (Some q) False db = Inl (Compacted q (compacted db))"
  using assms
  by (simp add: list_page_def changes_def watch_anchor_def watch_requested_def validate_revision_def)

theorem compacted_reads_refused_witness:
  "changes Unsealed ''/registry/pods/'' 1 (demo_registry\<lparr>compacted := 2\<rparr>) = Inl (Compacted 1 2)"
proof -
  have p: "validate_prefix ''/registry/pods/'' = Inr ()" by code_simp
  show ?thesis
    using compacted_reads_refused [OF p, of 1 1 "demo_registry\<lparr>compacted := 2\<rparr>" Unsealed] by simp
qed

end
