(* ===== verification/Store_Postgres.thy ===== *)
theory Store_Postgres
  imports Store_Watch
begin

text \<open>
  The Postgres backend (\<^verbatim>\<open>crates/h3s-storage/src/postgres.rs\<close>) over the same tables.  Its statements
  run at the server's default isolation (read committed): a transaction does not fix a snapshot, each
  statement sees what is committed when it runs, and a row lock is taken by the first \<^verbatim>\<open>UPDATE\<close>.  An
  operation that issues several statements therefore takes the tables of each of them: \<open>db\<close> for the
  first, \<open>db'\<close> for the next.  Without another server in between the two are the same and the
  operations are those of the SQLite backend.  With one in between they are not: the last theorems
  show the interleavings.
\<close>

subsection \<open>The operations\<close>

text \<open>\<open>txt\<close> is the text of an error, which the program prints with \<^verbatim>\<open>to_string\<close>.\<close>

definition open_row_value :: "(store_error \<Rightarrow> string) \<Rightarrow> sealer \<Rightarrow> string \<Rightarrow> (store_error, string) result" where
  "open_row_value txt s v =
     (if starts_with GEO_ENVELOPE v then map_err (\<lambda>e. Custody (txt e)) (open_with s v) else Inr v)"

definition pg_seal :: "sealer \<Rightarrow> string \<Rightarrow> string \<Rightarrow> (store_error, string) result" where
  "pg_seal s k v = (if is_secret_key k then seal_with s v else Inr v)"

definition pg_get :: "(store_error \<Rightarrow> string) \<Rightarrow> sealer \<Rightarrow> registry \<Rightarrow> string
    \<Rightarrow> (store_error, stored_object option) result" where
  "pg_get txt s db k =
     (case latest db k of
        None \<Rightarrow> Inr None
      | Some v \<Rightarrow>
          if vkind v = 2 then Inr None
          else andThen (open_row_value txt s (vvalue v)) (\<lambda>x.
            Inr (Some \<lparr>okey = k, ovalue = x, orevision = vrevision v\<rparr>)))"

text \<open>
  A write up to the statement that locks the meta row: the guard, the kind and the sealed payload,
  computed from the rows the transaction saw first.
\<close>

definition pg_check :: "sealer \<Rightarrow> stored_object \<Rightarrow> nat option \<Rightarrow> bool \<Rightarrow> registry
    \<Rightarrow> (store_error, event_kind \<times> string) result" where
  "pg_check s ob expected del db =
     (let prev = get_current db (okey ob) in
      andThen (cas_guard (okey ob) expected prev) (\<lambda>_.
      andThen (if del then ok_or Worker (map_option ovalue prev) else pg_seal s (okey ob) (ovalue ob)) (\<lambda>v.
      Inr (if del then Deleted else if prev \<noteq> None then Modified else Added, v))))"

text \<open>From the row lock to the commit: the revision, the payload to return and the insertion.\<close>

definition pg_commit :: "(store_error \<Rightarrow> string) \<Rightarrow> sealer \<Rightarrow> stored_object \<Rightarrow> bool \<Rightarrow> event_kind \<times> string
    \<Rightarrow> registry \<Rightarrow> (store_error, stored_object \<times> registry) result" where
  "pg_commit txt s ob del w db =
     (let r = revision db + 1 in
      andThen (ensure (r < 2 ^ 63) Worker) (\<lambda>_.
      andThen (if del then Inr (snd w) else open_row_value txt s (snd w)) (\<lambda>returned.
      andThen (revision_i64 r) (\<lambda>ri.
      andThen (ok_or Worker (kind_number (fst w))) (\<lambda>k.
      andThen (map_err (\<lambda>_. Worker) (insert_version
          \<lparr>vkey = okey ob, vrevision = ri, vvalue = snd w, vkind = k\<rparr> (db\<lparr>revision := r\<rparr>))) (\<lambda>db'.
      Inr (ob\<lparr>ovalue := returned, orevision := r\<rparr>, db')))))))"

definition pg_mutate :: "(store_error \<Rightarrow> string) \<Rightarrow> sealer \<Rightarrow> stored_object \<Rightarrow> nat option \<Rightarrow> bool
    \<Rightarrow> registry \<Rightarrow> registry \<Rightarrow> (store_error, stored_object) result \<times> registry" where
  "pg_mutate txt s ob expected del db db' =
     (case andThen (pg_check s ob expected del db) (\<lambda>w. pg_commit txt s ob del w db') of
        Inl e \<Rightarrow> (Inl e, db')
      | Inr (ob', db'') \<Rightarrow> (Inr ob', db''))"

text \<open>The head is read by one statement, the rows by the next.\<close>

definition pg_decode_row :: "(store_error \<Rightarrow> string) \<Rightarrow> sealer \<Rightarrow> version_row \<Rightarrow> (store_error, stored_object) result" where
  "pg_decode_row txt s v =
     andThen (open_row_value txt s (vvalue v)) (\<lambda>x. Inr ((row_object v)\<lparr>ovalue := x\<rparr>))"

definition pg_list :: "(store_error \<Rightarrow> string) \<Rightarrow> sealer \<Rightarrow> list_select \<Rightarrow> registry \<Rightarrow> registry
    \<Rightarrow> (store_error, object_list) result" where
  "pg_list txt s sel db db' =
     andThen (validate_prefix (lprefix sel)) (\<lambda>_.
     if limit sel = 0 \<or> limit sel > 4096 then Inl (Invalid ''LIST limit must be 1..4096'')
     else if (case start_after sel of None \<Rightarrow> False | Some k \<Rightarrow> \<not> starts_with (lprefix sel) k)
     then Inl (Invalid ''continuation key is outside the selection'')
     else
       let r = (case at_revision sel of None \<Rightarrow> revision db | Some q \<Rightarrow> if q \<noteq> 0 then q else revision db)
       in andThen (validate_revision r (revision db) (compacted db)) (\<lambda>_.
          andThen (revision_i64 r) (\<lambda>ri.
          let raw = take (limit sel + 1) (list_rows db' (lprefix sel)
                      (case start_after sel of None \<Rightarrow> '''' | Some k \<Rightarrow> k) ri)
          in andThen (try_map (pg_decode_row txt s) raw) (\<lambda>objects.
             if length objects > limit sel
             then (let page = butlast objects
                   in Inr \<lparr>litems = page, lrevision = r,
                        next_after = (if page = [] then None else Some (okey (last page)))\<rparr>)
             else Inr \<lparr>litems = objects, lrevision = r, next_after = None\<rparr>))))"

definition pg_change_event :: "(store_error \<Rightarrow> string) \<Rightarrow> sealer \<Rightarrow> registry \<Rightarrow> version_row
    \<Rightarrow> (store_error, watch_event) result" where
  "pg_change_event txt s db v =
     andThen (open_row_value txt s (vvalue v)) (\<lambda>x.
     andThen (case prior_row db v of
                None \<Rightarrow> Inr None
              | Some w \<Rightarrow>
                  if vkind w = 0 \<or> vkind w = 1
                  then andThen (open_row_value txt s (vvalue w))
                         (\<lambda>b. Inr (Some \<lparr>okey = vkey v, ovalue = b, orevision = vrevision w\<rparr>))
                  else Inr None) (\<lambda>prev.
     Inr \<lparr>previous = prev, ekind = event_of_kind (vkind v), erevision = vrevision v,
          eobject = Some \<lparr>okey = vkey v, ovalue = x, orevision = vrevision v\<rparr>\<rparr>))"

definition pg_changes :: "(store_error \<Rightarrow> string) \<Rightarrow> sealer \<Rightarrow> string \<Rightarrow> nat \<Rightarrow> registry \<Rightarrow> registry
    \<Rightarrow> (store_error, watch_event list \<times> nat) result" where
  "pg_changes txt s p after db db' =
     andThen (validate_revision after (revision db) (compacted db)) (\<lambda>_.
     andThen (revision_i64 after) (\<lambda>a.
     andThen (try_map (pg_change_event txt s db') (change_rows db' p a)) (\<lambda>events.
     Inr (events, if length events = 256 then erevision (last events) else revision db))))"

text \<open>
  The replay at the head of \<^verbatim>\<open>watch\<close>: every page is asked for at the anchor, also an anchor of zero,
  which the listing reads as the current revision.  The result is the items and the revision of the
  bookmark, the revision of the first page.
\<close>

fun pg_replay :: "nat \<Rightarrow> (store_error \<Rightarrow> string) \<Rightarrow> sealer \<Rightarrow> string \<Rightarrow> nat \<Rightarrow> string option \<Rightarrow> nat option
    \<Rightarrow> (nat \<Rightarrow> registry) \<Rightarrow> (store_error, stored_object list \<times> nat) result option" where
  "pg_replay 0 txt s p anchor cont first dbs = None"
| "pg_replay (Suc n) txt s p anchor cont first dbs =
     (case pg_list txt s \<lparr>lprefix = p, at_revision = Some anchor, start_after = cont, limit = 256\<rparr> (dbs 0) (dbs 0) of
        Inl e \<Rightarrow> Some (Inl e)
      | Inr page \<Rightarrow>
          (let first' = (case first of None \<Rightarrow> lrevision page | Some r \<Rightarrow> r) in
           case next_after page of
             None \<Rightarrow> Some (Inr (litems page, first'))
           | Some k \<Rightarrow> map_option (\<lambda>r. andThen r (\<lambda>(obs, b). Inr (litems page @ obs, b)))
               (pg_replay n txt s p anchor (Some k) (Some first') (\<lambda>i. dbs (Suc i)))))"

subsection \<open>Without another server: one contract, two backends\<close>

definition with_custody_error :: "(store_error \<Rightarrow> string) \<Rightarrow> sealer \<Rightarrow> sealer" where
  "with_custody_error txt s = s\<lparr>open_with := (\<lambda>v. map_err (\<lambda>e. Custody (txt e)) (open_with s v))\<rparr>"

lemma open_row_value_decode: "open_row_value txt s v = decode_row_value (with_custody_error txt s) v"
  by (simp add: open_row_value_def decode_row_value_def with_custody_error_def)

lemma open_row_value_Inr_iff: "open_row_value txt s v = Inr x \<longleftrightarrow> decode_row_value s v = Inr x"
  by (simp add: open_row_value_def decode_row_value_def)

lemma open_row_value_ok: "decode_row_value s v = Inr x \<Longrightarrow> open_row_value txt s v = Inr x"
  by (simp add: open_row_value_Inr_iff)

lemma pg_list_eq: "pg_list txt s sel db db = list_page (with_custody_error txt s) sel db"
proof -
  have "pg_decode_row txt s = decode_row (with_custody_error txt s)"
    by (simp add: fun_eq_iff pg_decode_row_def decode_row_def open_row_value_decode)
  then show ?thesis by (simp add: pg_list_def list_page_def)
qed

lemma pg_mutate_Inr:
  assumes "pg_mutate txt s ob expected del db db' = (Inr ob', db'')"
  shows "\<exists>w. pg_check s ob expected del db = Inr w \<and> pg_commit txt s ob del w db' = Inr (ob', db'')"
  using assms
  by (cases "pg_check s ob expected del db")
    (auto simp: pg_mutate_def split: sum.splits)

lemma pg_mutate_tx:
  assumes "mutate_tx s ob expected del db = Inr (ob', db')"
  shows "pg_mutate txt s ob expected del db db = (Inr (ob'\<lparr>orevision := Suc (revision db)\<rparr>), db')"
  using assms
  by (auto simp: mutate_tx_def pg_mutate_def pg_check_def pg_commit_def pg_seal_def Let_def andThen_Inr_iff
      open_row_value_ok revision_i64_def split: if_splits option.splits)

lemma pg_tx_mutate:
  assumes "pg_mutate txt s ob expected del db db = (Inr ob', db')"
  shows "\<exists>ob0. mutate_tx s ob expected del db = Inr (ob0, db') \<and> ob' = ob0\<lparr>orevision := Suc (revision db)\<rparr>"
  using pg_mutate_Inr [OF assms]
  by (auto simp: mutate_tx_def pg_check_def pg_commit_def pg_seal_def Let_def andThen_Inr_iff
      open_row_value_Inr_iff revision_i64_def split: if_splits option.splits)



subsection \<open>With another server in between\<close>

lemma pg_mutate_commits:
  assumes guard: "cas_guard (okey ob) expected (get_current db (okey ob)) = Inr ()"
    and plain: "\<not> is_secret_key (okey ob)" "\<not> starts_with GEO_ENVELOPE (ovalue ob)"
    and room: "Suc (revision db') < 2 ^ 63" and wf: "wf_registry db'"
  shows "\<exists>db''. pg_mutate txt s ob expected False db db' = (Inr (ob\<lparr>orevision := Suc (revision db')\<rparr>), db'')
    \<and> (\<exists>v. db'' = add_version v db' \<and> vkey v = okey ob \<and> vvalue v = ovalue ob \<and> vrevision v = Suc (revision db')
      \<and> vkind v = (if get_current db (okey ob) \<noteq> None then 1 else 0))"
proof -
  have fresh: "\<not> list_ex (\<lambda>w. vrevision w = Suc (revision db')) (versions db')"
    using wf_registryD(4) [OF wf] by (fastforce simp: list_ex_iff row_ok_def)
  show ?thesis
    using guard plain room fresh
    by (auto simp: pg_mutate_def pg_check_def pg_commit_def pg_seal_def Let_def open_row_value_def
        revision_i64_def insert_version_def add_version_def)
qed

text \<open>
  C21: the race of two Postgres servers.  When two servers update the same object at the same expected
  revision and both read it before either takes the lock on the meta row, both updates succeed: the
  second overwrites the first, whose writer has been told that it won.  The guard is not repeated
  under the lock.
\<close>

theorem postgres_lost_update:
  assumes wf: "wf_registry db" and room: "Suc (Suc (revision db)) < 2 ^ 63"
    and key: "is_ok (new_store_key k)" "\<not> is_secret_key k" and live: "get_current db k = Some old"
    and a: "\<not> starts_with GEO_ENVELOPE a" and b: "\<not> starts_with GEO_ENVELOPE b"
  shows "\<exists>db1 db2.
      pg_mutate txt s \<lparr>okey = k, ovalue = a, orevision = 0\<rparr> (Some (orevision old)) False db db
        = (Inr \<lparr>okey = k, ovalue = a, orevision = Suc (revision db)\<rparr>, db1)
    \<and> pg_mutate txt s \<lparr>okey = k, ovalue = b, orevision = 0\<rparr> (Some (orevision old)) False db db1
        = (Inr \<lparr>okey = k, ovalue = b, orevision = Suc (Suc (revision db))\<rparr>, db2)
    \<and> get_current db2 k = Some \<lparr>okey = k, ovalue = b, orevision = Suc (Suc (revision db))\<rparr>"
proof -
  let ?a = "\<lparr>okey = k, ovalue = a, orevision = 0\<rparr>" and ?b = "\<lparr>okey = k, ovalue = b, orevision = 0\<rparr>"
  have guard: "cas_guard k (Some (orevision old)) (get_current db k) = Inr ()"
    using live by (simp add: cas_guard_Inr_iff)
  obtain db1 v where first: "pg_mutate txt s ?a (Some (orevision old)) False db db
        = (Inr \<lparr>okey = k, ovalue = a, orevision = Suc (revision db)\<rparr>, db1)"
    and v: "db1 = add_version v db" "vkey v = k" "vrevision v = Suc (revision db)" "vkind v = 1"
    using pg_mutate_commits [of ?a "Some (orevision old)" db db "txt" s] guard key a room wf live by auto
  have wf1: "wf_registry db1"
    unfolding v(1) using v room key live by (intro wf_add_version [OF wf]) auto
  have room1: "Suc (revision db1) < 2 ^ 63" using room v(1) by simp
  obtain db2 w where second: "pg_mutate txt s ?b (Some (orevision old)) False db db1
        = (Inr \<lparr>okey = k, ovalue = b, orevision = Suc (Suc (revision db))\<rparr>, db2)"
    and w: "db2 = add_version w db1" "vkey w = k" "vvalue w = b" "vrevision w = Suc (revision db1)" "vkind w = 1"
    using pg_mutate_commits [of ?b "Some (orevision old)" db db1 "txt" s] guard key b room1 wf1 live v(1) by auto
  have wf2: "wf_registry db2"
  proof -
    have "get_current db1 k \<noteq> None"
      using get_current_snapshot [OF wf1] snapshot_add_new [OF wf v(3)] v by simp
    then show ?thesis unfolding w(1) using w room1 key by (intro wf_add_version [OF wf1]) auto
  qed
  have "get_current db2 k = Some \<lparr>okey = k, ovalue = b, orevision = Suc (Suc (revision db))\<rparr>"
    using get_current_snapshot [OF wf2] snapshot_add_new [OF wf1 w(4)] w v by (simp add: row_object_def)
  with first second show ?thesis by blast
qed

theorem postgres_lost_update_witness:
  "fst (pg_mutate (\<lambda>_. '''') Unsealed \<lparr>okey = demo_key, ovalue = ''A'', orevision = 0\<rparr> (Some 2) False demo_registry demo_registry)
     = Inr \<lparr>okey = demo_key, ovalue = ''A'', orevision = 3\<rparr>"
proof -
  have wf: "wf_registry demo_registry" using registry_steps_wf [OF demo_steps wf_empty] .
  have r: "revision demo_registry = 2" by code_simp
  have key: "is_ok (new_store_key demo_key)" "\<not> is_secret_key demo_key" by code_simp+
  have live: "get_current demo_registry demo_key = Some \<lparr>okey = demo_key, ovalue = ''v2'', orevision = 2\<rparr>" by code_simp
  have e: "\<not> starts_with GEO_ENVELOPE ''A''" by code_simp
  from postgres_lost_update [OF wf _ key live e e, of "\<lambda>_. ''''" Unsealed] r show ?thesis by auto
qed

text \<open>
  A watch of an empty Postgres registry without a start revision.  The anchor is 0, which the
  listing takes as \<^verbatim>\<open>current\<close>: an object created after the anchor was taken is replayed at the later
  revision and announced again by the poll from the anchor, together with the versions before it.
\<close>

theorem postgres_zero_anchor_repeats:
  "pg_replay 1 (\<lambda>_. '''') Unsealed ''/registry/'' 0 None None (\<lambda>_. demo_registry)
      = Some (Inr ([\<lparr>okey = demo_key, ovalue = ''v2'', orevision = 2\<rparr>], 2))
   \<and> map_err (\<lambda>_. ()) (andThen (pg_changes (\<lambda>_. '''') Unsealed ''/registry/'' 0 demo_registry demo_registry)
        (\<lambda>(es, c). Inr (map erevision es, c))) = Inr ([1, 2], 2)"
  by code_simp

text \<open>
  The race of two connections to one SQLite file.  The revision a write reports is read after the
  commit, outside the transaction.  If another connection commits an update of the same key in
  between, the first writer is told that its own payload is stored at the other writer's revision; a
  further write that expects the reported revision passes the guard and replaces the other payload
  unseen.
\<close>

theorem sqlite_readback_race:
  assumes wf: "wf_registry db" and key: "is_ok (new_store_key (okey a))" and same: "okey b = okey a"
    and first: "mutate_tx s a (Some r) False db = Inr (a', db1)"
    and other: "mutate s b (Some r') False db1 = (Inr b', db2)"
  shows "stored_revision db2 (okey a) = Inr (orevision b') \<and> orevision b' = Suc (Suc (revision db))
    \<and> cas_guard (okey a) (Some (orevision b')) (get_current db2 (okey a)) = Inr ()"
proof -
  have wf1: "wf_registry db1" and rev1: "revision db1 = Suc (revision db)"
    using mutate_of_tx(2) [OF wf key _ first] mutate_tx_Inr_form [OF first] by auto
  have key': "is_ok (new_store_key (okey b))" using key same by simp
  obtain v ob0 where v: "db2 = add_version v db1" "vkey v = okey a" "vrevision v = Suc (revision db1)" "vkind v \<noteq> 2"
    "Inr b' = (Inr (ob0\<lparr>orevision := Suc (revision db1)\<rparr>) :: (store_error, stored_object) result)" "wf_registry db2"
    by (rule mutate_cases [OF wf1 key' _ other]) (auto simp: same)
  have "latest db2 (okey a) = Some v"
    using latest_is_latest_at [OF v(6)] latest_at_add_new [OF wf1 v(3) le_refl] v(1,2) by simp
  with v rev1 show ?thesis by (simp add: stored_revision_def cas_guard_Inr_iff get_current_def)
qed

theorem sqlite_readback_race_witness:
  "stored_revision (snd (mutate Unsealed \<lparr>okey = demo_key, ovalue = ''B'', orevision = 0\<rparr> (Some 3) False
      (snd (mutate Unsealed \<lparr>okey = demo_key, ovalue = ''A'', orevision = 0\<rparr> (Some 2) False demo_registry)))) demo_key
    = Inr 4"
proof -
  let ?a = "\<lparr>okey = demo_key, ovalue = ''A'', orevision = 0\<rparr>" and ?b = "\<lparr>okey = demo_key, ovalue = ''B'', orevision = 0\<rparr>"
  let ?db1 = "snd (mutate Unsealed ?a (Some 2) False demo_registry)"
  let ?db2 = "snd (mutate Unsealed ?b (Some 3) False ?db1)"
  have wf: "wf_registry demo_registry" using registry_steps_wf [OF demo_steps wf_empty] .
  have key: "is_ok (new_store_key (okey ?a))" by code_simp
  have same: "okey ?b = okey ?a" by simp
  have "map_err (\<lambda>_. ()) (andThen (mutate_tx Unsealed ?a (Some 2) False demo_registry) (\<lambda>p. Inr (fst p))) = Inr ?a"
    by code_simp
  then obtain d where d: "mutate_tx Unsealed ?a (Some 2) False demo_registry = Inr (?a, d)"
    by (auto simp: andThen_Inr_iff)
  have "d = ?db1" using mutate_of_tx(1) [OF wf key _ d] by simp
  note first = d [unfolded this]
  have "fst (mutate Unsealed ?b (Some 3) False ?db1) = Inr (?b\<lparr>orevision := 4\<rparr>)" by code_simp
  then have other: "mutate Unsealed ?b (Some 3) False ?db1 = (Inr (?b\<lparr>orevision := 4\<rparr>), ?db2)"
    by (metis prod.collapse)
  from sqlite_readback_race [OF wf key same first other] show ?thesis by simp
qed

end
