(* ===== verification/Registry_Api.thy ===== *)
theory Registry_Api
  imports Store_Laws
begin

text \<open>
  The registry as its clients see it (the \<^verbatim>\<open>Storage\<close> trait): reading a key, writing it with an
  expected revision, and time passing while others write.  The laws are the contract every client
  rests on, a read-modify-write that succeeds was atomic is the lemma they use, and the SQLite model
  satisfies them.
\<close>

locale registry_api =
  fixes read_key :: "'db \<Rightarrow> string \<Rightarrow> stored_object option"
    and write_key :: "'db \<Rightarrow> string \<Rightarrow> string \<Rightarrow> nat option \<Rightarrow> (store_error, stored_object) result \<times> 'db"
    and sound :: "'db \<Rightarrow> bool"
    and evolves :: "'db \<Rightarrow> 'db \<Rightarrow> bool"
    and key_ok :: "string \<Rightarrow> bool"
  assumes read_names_key: "read_key db k = Some ob \<Longrightarrow> okey ob = k"
    and write_refused: "write_key db k v e = (Inl err, db') \<Longrightarrow> db' = db"
    and write_done: "sound db \<Longrightarrow> key_ok k \<Longrightarrow> write_key db k v e = (Inr ob, db') \<Longrightarrow>
          ovalue ob = v \<and> read_key db' k = Some ob \<and> (\<forall>j. j \<noteq> k \<longrightarrow> read_key db' j = read_key db j)
          \<and> e = map_option orevision (read_key db k)"
    and write_evolves: "sound db \<Longrightarrow> key_ok k \<Longrightarrow> write_key db k v e = (r, db') \<Longrightarrow> evolves db db'"
    and evolves_refl: "evolves db db"
    and evolves_trans: "evolves a b \<Longrightarrow> evolves b c \<Longrightarrow> evolves a c"
    and evolves_sound: "sound db \<Longrightarrow> evolves db db' \<Longrightarrow> sound db'"
    and revision_fixes_object: "sound db \<Longrightarrow> evolves db db' \<Longrightarrow> read_key db k = Some ob \<Longrightarrow>
          read_key db' k = Some ob' \<Longrightarrow> orevision ob' = orevision ob \<Longrightarrow> ob' = ob"
begin

text \<open>
  A write that expects the revision a client read earlier, and succeeds, found exactly the object
  the client read.
\<close>

lemma read_modify_write_atomic:
  assumes "sound db" and "key_ok k" and "read_key db k = Some ob" and "evolves db db1"
    and "write_key db1 k v (Some (orevision ob)) = (Inr ob', db2)"
  shows "read_key db1 k = Some ob" "read_key db2 k = Some ob'" "ovalue ob' = v" "sound db2"
proof -
  have s: "sound db1" using assms(1,4) by (rule evolves_sound)
  note w = write_done [OF s assms(2,5)]
  then obtain cur where cur: "read_key db1 k = Some cur" "orevision cur = orevision ob"
    by (cases "read_key db1 k") auto
  with revision_fixes_object [OF assms(1,4,3)] show "read_key db1 k = Some ob" by simp
  show "read_key db2 k = Some ob'" "ovalue ob' = v" using w by auto
  show "sound db2" using write_evolves [OF s assms(2,5)] s by (rule evolves_sound [rotated])
qed

lemma create_found_nothing:
  assumes "sound db" and "key_ok k" and "write_key db k v None = (Inr ob, db')"
  shows "read_key db k = None"
  using write_done [OF assms] by (cases "read_key db k") auto

end

subsection \<open>The SQLite model provides it\<close>

definition read_object :: "registry \<Rightarrow> string \<Rightarrow> stored_object option" where
  "read_object db k = (case get Unsealed db k of Inl e \<Rightarrow> None | Inr x \<Rightarrow> x)"

definition write_object :: "registry \<Rightarrow> string \<Rightarrow> string \<Rightarrow> nat option
    \<Rightarrow> (store_error, stored_object) result \<times> registry" where
  "write_object db k v e =
     (case e of None \<Rightarrow> create Unsealed \<lparr>okey = k, ovalue = v, orevision = 0\<rparr> db
      | Some rv \<Rightarrow> update Unsealed \<lparr>okey = k, ovalue = v, orevision = 0\<rparr> rv db)"

definition valid_key :: "string \<Rightarrow> bool" where
  "valid_key k = is_ok (new_store_key k)"

lemma decode_Unsealed [simp]: "decode_row_value Unsealed v = Inr v"
  by (simp add: decode_row_value_def Unsealed_def)

lemma seal_Unsealed [simp]: "seal_with Unsealed v = Inr v"
  by (simp add: Unsealed_def)

lemma read_object_eq: "read_object db k = get_current db k"
  by (simp add: read_object_def get_def split: option.split)

lemma write_object_mutate:
  "write_object db k v e = mutate Unsealed \<lparr>okey = k, ovalue = v, orevision = 0\<rparr> e False db"
  by (simp add: write_object_def create_def update_def split: option.split)

lemma write_object_cases:
  assumes "wf_registry db" and "valid_key k" and "write_object db k v e = (Inr ob, db')"
  obtains "ob = \<lparr>okey = k, ovalue = v, orevision = Suc (revision db)\<rparr>"
    "cas_guard k e (get_current db k) = Inr ()" "wf_registry db'"
    "get_current db' = (get_current db) (k := Some ob)" "registry_step db db'"
proof -
  let ?o = "\<lparr>okey = k, ovalue = v, orevision = 0\<rparr>"
  have key: "is_ok (new_store_key (okey ?o))" using assms(2) by (simp add: valid_key_def)
  obtain w o1 where tx: "mutate_tx Unsealed ?o e False db = Inr (o1, db')"
    and w: "db' = add_version w db" "vkey w = k" "vrevision w = Suc (revision db)" "vkind w \<noteq> 2"
      "cas_guard k e (get_current db k) = Inr ()" "ob = o1\<lparr>orevision := Suc (revision db)\<rparr>" "wf_registry db'"
    by (rule mutate_cases [OF assms(1) key _ assms(3) [unfolded write_object_mutate]]) auto
  from mutate_tx_Inr_form [OF tx] obtain c where c: "o1 = ?o\<lparr>ovalue := ovalue o1\<rparr>" "c = ovalue o1" "c = v"
    "db' = add_version \<lparr>vkey = k, vrevision = Suc (revision db), vvalue = c,
        vkind = (if get_current db k \<noteq> None then 1 else 0)\<rparr> db"
    by (auto split: if_splits)
  have "ob = ?o\<lparr>ovalue := v, orevision := Suc (revision db)\<rparr>"
    unfolding w(6) by (subst c(1)) (use c(2,3) in simp)
  then have ob: "ob = \<lparr>okey = k, ovalue = v, orevision = Suc (revision db)\<rparr>" by simp
  have "last (versions db') = w" unfolding w(1) by simp
  moreover have "vvalue (last (versions db')) = v" unfolding c(4) using c(3) by simp
  ultimately have vv: "row_object w = ob" using w(2,3) ob by (simp add: row_object_def)
  have cur: "get_current db' = (get_current db) (k := Some ob)"
    unfolding get_current_snapshot [OF w(7), THEN ext] get_current_snapshot [OF assms(1), THEN ext]
    using snapshot_add_new [OF assms(1) w(3)] w(1,2,4) vv by (simp add: fun_eq_iff)
  have "registry_step db db'"
  proof (cases e)
    case None
    with assms(3) show ?thesis
      by (intro step_create [of ?o Unsealed db "Inr ob"]) (use key in \<open>auto simp: write_object_def\<close>)
  next
    case (Some rv)
    with assms(3) show ?thesis
      by (intro step_update [of ?o Unsealed rv db "Inr ob"]) (use key in \<open>auto simp: write_object_def\<close>)
  qed
  with that ob w(5,7) cur show ?thesis by blast
qed

lemma registry_step_old_rows:
  assumes "registry_step db db'" and wf: "wf_registry db" and "v \<in> set (versions db')" and "vrevision v \<le> revision db"
  shows "v \<in> set (versions db)"
  using assms(1) wf
proof (cases rule: registry_step_effect)
  case (trimmed r)
  with assms(3) show ?thesis by (simp add: versions_compacted_to [OF wf])
qed (use assms(3,4) in auto)

lemma registry_steps_old_rows:
  assumes "registry_step\<^sup>*\<^sup>* db db'" and "wf_registry db" and "v \<in> set (versions db')" and "vrevision v \<le> revision db"
  shows "v \<in> set (versions db)"
  using assms
proof (induction rule: rtranclp_induct)
  case base
  then show ?case by simp
next
  case (step y z)
  have "wf_registry y" "revision db \<le> revision y"
    using registry_steps_wf [OF step(1)] registry_steps_mono [OF step(1)] step.prems by auto
  with registry_step_old_rows [OF step(2)] step show ?case by force
qed

lemma get_current_row:
  assumes "wf_registry db" and "get_current db k = Some ob"
  shows "\<exists>v \<in> set (versions db). ob = row_object v \<and> vkey v = k \<and> vrevision v \<le> revision db"
  using assms(2) snapshot_SomeD [of db "revision db" k ob]
  unfolding get_current_snapshot [OF assms(1)] by auto

interpretation sqlite: registry_api read_object write_object wf_registry "registry_step\<^sup>*\<^sup>*" valid_key
proof unfold_locales
  fix db db' :: registry and k v :: string and e err r ob ob'
  show "okey ob = k" if "read_object db k = Some ob"
    using that by (auto simp: read_object_eq get_current_def row_object_def latest_def
        dest!: newest_SomeD split: option.splits if_splits)
  show "db' = db" if "write_object db k v e = (Inl err, db')"
  proof (cases "mutate_tx Unsealed \<lparr>okey = k, ovalue = v, orevision = 0\<rparr> e False db")
    case (Inl x)
    with that show ?thesis by (simp add: write_object_mutate mutate_def)
  next
    case (Inr p)
    obtain o1 d where p: "p = (o1, d)" by force
    from mutate_tx_Inr_form [OF Inr [unfolded p]] have "latest d k \<noteq> None"
      by (auto simp: latest_def add_version_def)
    with that Inr p show ?thesis by (auto simp: write_object_mutate mutate_def stored_revision_def)
  qed
  show "ovalue ob = v \<and> read_object db' k = Some ob \<and> (\<forall>j. j \<noteq> k \<longrightarrow> read_object db' j = read_object db j)
      \<and> e = map_option orevision (read_object db k)"
    if "wf_registry db" "valid_key k" "write_object db k v e = (Inr ob, db')"
    using that by (rule write_object_cases) (auto simp: read_object_eq cas_guard_Inr_iff split: option.splits)
  show "registry_step\<^sup>*\<^sup>* db db'" if wf: "wf_registry db" and k: "valid_key k" and w: "write_object db k v e = (r, db')"
  proof (cases e)
    case None
    with k w have "registry_step db db'"
      by (intro step_create [of "\<lparr>okey = k, ovalue = v, orevision = 0\<rparr>" Unsealed db r])
        (auto simp: write_object_def valid_key_def)
    then show ?thesis by simp
  next
    case (Some rv)
    with k w have "registry_step db db'"
      by (intro step_update [of "\<lparr>okey = k, ovalue = v, orevision = 0\<rparr>" Unsealed rv db r])
        (auto simp: write_object_def valid_key_def)
    then show ?thesis by simp
  qed
  show "wf_registry db'" if "wf_registry db" "registry_step\<^sup>*\<^sup>* db db'"
    using that(2,1) by (rule registry_steps_wf)
  show "ob' = ob" if wf: "wf_registry db" and st: "registry_step\<^sup>*\<^sup>* db db'"
    and r: "read_object db k = Some ob" "read_object db' k = Some ob'" and rv: "orevision ob' = orevision ob"
  proof -
    obtain v where v: "v \<in> set (versions db)" "ob = row_object v" "vrevision v \<le> revision db"
      using get_current_row [OF wf] r(1) by (auto simp: read_object_eq)
    obtain w where w: "w \<in> set (versions db')" "ob' = row_object w"
      using get_current_row [OF registry_steps_wf [OF st wf]] r(2) by (auto simp: read_object_eq)
    have "vrevision w = vrevision v" using v w rv by simp
    with registry_steps_old_rows [OF st wf w(1)] v wf_inj [OF wf] have "w = v" by (auto dest: inj_onD)
    with v w show ?thesis by simp
  qed
qed auto

text \<open>
  C3: a read-modify-write over the registry is atomic.  If a client reads a key, other clients do
  anything, and the client's update expecting the revision it read then succeeds, the key still held
  exactly the object the client had read, and holds the new payload afterwards.
\<close>

theorem read_modify_write:
  assumes "wf_registry db" and "valid_key k" and "read_object db k = Some ob" and "registry_step\<^sup>*\<^sup>* db db1"
    and "write_object db1 k v (Some (orevision ob)) = (Inr ob', db2)"
  shows "read_object db1 k = Some ob \<and> read_object db2 k = Some ob' \<and> ovalue ob' = v"
  using sqlite.read_modify_write_atomic [OF assms] by simp

theorem read_modify_write_witness:
  "read_object (snd (write_object demo_registry demo_key ''v3'' (Some 2))) demo_key
     = Some \<lparr>okey = demo_key, ovalue = ''v3'', orevision = 3\<rparr>"
proof -
  have wf: "wf_registry demo_registry" using registry_steps_wf [OF demo_steps wf_empty] .
  have k: "valid_key demo_key" by code_simp
  have r: "read_object demo_registry demo_key = Some \<lparr>okey = demo_key, ovalue = ''v2'', orevision = 2\<rparr>" by code_simp
  have "fst (write_object demo_registry demo_key ''v3'' (Some 2)) = Inr \<lparr>okey = demo_key, ovalue = ''v3'', orevision = 3\<rparr>"
    by code_simp
  then have w: "write_object demo_registry demo_key ''v3'' (Some (orevision \<lparr>okey = demo_key, ovalue = ''v2'', orevision = 2\<rparr>))
      = (Inr \<lparr>okey = demo_key, ovalue = ''v3'', orevision = 3\<rparr>, snd (write_object demo_registry demo_key ''v3'' (Some 2)))"
    by (simp add: prod_eq_iff)
  from read_modify_write [OF wf k r rtranclp.rtrancl_refl w] show ?thesis by simp
qed

end
