(* ===== verification/Json.thy ===== *)
theory Json
  imports H3s_Prelude
begin

text \<open>
  The JSON documents every component exchanges: \<^verbatim>\<open>serde_json::Value\<close> with the constructors the
  sources match on, and the documented accessors they call on it.

  An object is the association list of its members in key order, which is how
  \<^verbatim>\<open>serde_json::Map\<close> (a \<^verbatim>\<open>BTreeMap\<close> here: the workspace does not enable \<^verbatim>\<open>preserve_order\<close>)
  iterates; \<open>key_sorted\<close> is the invariant, kept by \<open>put\<close> and \<open>del\<close>, under which equality of
  lists is equality of maps.  An integer number is \<open>JInt\<close>, in the union of the \<^verbatim>\<open>u64\<close> and \<^verbatim>\<open>i64\<close>
  ranges; a floating-point number is kept as its text, since no modelled code computes with one.
\<close>

named_theorems json_simps \<open>accessor and update equations of JSON values\<close>

datatype json =
    JNull
  | JBool bool
  | JInt int
  | JFloat string
  | JStr string
  | JArr "json list"
  | JObj "(string \<times> json) list"

type_synonym jmap = "(string \<times> json) list"

subsection \<open>Object members\<close>

fun put :: "string \<Rightarrow> 'a \<Rightarrow> (string \<times> 'a) list \<Rightarrow> (string \<times> 'a) list" where
  "put k v [] = [(k, v)]"
| "put k v ((k', v') # m) =
     (if k < k' then (k, v) # (k', v') # m
      else if k = k' then (k, v) # m
      else (k', v') # put k v m)"

definition del :: "string \<Rightarrow> (string \<times> 'a) list \<Rightarrow> (string \<times> 'a) list" where
  "del k m = filter (\<lambda>(k', _). k' \<noteq> k) m"

definition key_sorted :: "(string \<times> 'a) list \<Rightarrow> bool" where
  "key_sorted m \<longleftrightarrow> sorted_wrt (<) (map fst m)"

definition has_key :: "string \<Rightarrow> (string \<times> 'a) list \<Rightarrow> bool" where
  "has_key k m \<longleftrightarrow> map_of m k \<noteq> None"

lemma map_of_put [simp, json_simps]: "map_of (put k v m) k' = (if k' = k then Some v else map_of m k')"
  by (induction m) auto

lemma map_of_del [simp, json_simps]: "map_of (del k m) k' = (if k' = k then None else map_of m k')"
  unfolding del_def by (induction m) auto

lemma set_put_keys: "fst ` set (put k v m) = insert k (fst ` set m)"
  unfolding dom_map_of_conv_image_fst [symmetric] by (auto simp: dom_def)

lemma put_split:
  "map_of m k = None \<Longrightarrow> \<exists>xs ys. m = xs @ ys \<and> put k v m = xs @ (k, v) # ys"
proof (induction m)
  case Nil
  then show ?case by auto
next
  case (Cons p m)
  obtain k' v' where p: "p = (k', v')" by force
  show ?case
  proof (cases "k < k'")
    case True
    then show ?thesis by (metis append_Nil p put.simps(2))
  next
    case False
    with Cons p obtain xs ys where "m = xs @ ys" "put k v m = xs @ (k, v) # ys" "k \<noteq> k'"
      by (auto split: if_splits)
    then have "p # m = (p # xs) @ ys \<and> put k v (p # m) = (p # xs) @ (k, v) # ys"
      using False p by simp
    then show ?thesis by blast
  qed
qed

lemma key_sorted_Nil [simp]: "key_sorted []"
  by (simp add: key_sorted_def)

lemma key_sorted_put [simp, intro]: "key_sorted m \<Longrightarrow> key_sorted (put k v m)"
proof (induction m)
  case Nil
  then show ?case by (simp add: key_sorted_def)
next
  case (Cons p m)
  obtain k' v' where p: "p = (k', v')" by force
  have tail: "key_sorted m" and low: "\<forall>y \<in> fst ` set m. k' < y"
    using Cons.prems by (auto simp: p key_sorted_def)
  have "\<forall>y \<in> fst ` set (put k v m). k' < y" if "k' < k"
    using low that by (simp add: set_put_keys)
  with Cons.IH [OF tail] Cons.prems show ?case
    by (auto simp: p key_sorted_def)
qed

lemma key_sorted_del [simp, intro]: "key_sorted m \<Longrightarrow> key_sorted (del k m)"
  unfolding key_sorted_def del_def
  by (induction m) (auto simp: sorted_wrt_map)

lemma key_sorted_distinct: "key_sorted m \<Longrightarrow> distinct (map fst m)"
  by (simp add: key_sorted_def strict_sorted_iff)

lemma key_sorted_ext:
  assumes "key_sorted m" and "key_sorted n" and "map_of m = map_of n"
  shows "m = n"
proof -
  have sets: "set m = set n"
    using assms by (metis key_sorted_distinct map_of_inject_set)
  then have "set (map fst m) = set (map fst n)" by simp
  then have keys: "map fst m = map fst n"
    using assms(1,2) by (metis key_sorted_def strict_sorted_equal)
  show ?thesis
  proof (rule nth_equalityI)
    show len: "length m = length n" using keys by (metis length_map)
    fix i
    assume i: "i < length m"
    have "map_of n (fst (m ! i)) = Some (snd (m ! i))"
      using assms(1,3) i by (metis key_sorted_distinct map_of_is_SomeI nth_mem prod.collapse)
    moreover have "map_of n (fst (n ! i)) = Some (snd (n ! i))"
      using assms(2) i len by (metis key_sorted_distinct map_of_is_SomeI nth_mem prod.collapse)
    moreover have "fst (m ! i) = fst (n ! i)"
      using keys i len by (metis nth_map)
    ultimately show "m ! i = n ! i" by (simp add: prod_eq_iff)
  qed
qed

text \<open>
  The interface of an ordered map: what its clients (JSON documents, the reservation ledger)
  rely on.  Updates at different keys commute, and an update overwrites an earlier one.
\<close>

locale ordered_map =
  fixes lookup :: "'m \<Rightarrow> string \<Rightarrow> 'v option"
    and insert_key :: "string \<Rightarrow> 'v \<Rightarrow> 'm \<Rightarrow> 'm"
    and remove_key :: "string \<Rightarrow> 'm \<Rightarrow> 'm"
    and invar :: "'m \<Rightarrow> bool"
  assumes lookup_insert_key: "lookup (insert_key k v m) j = (if j = k then Some v else lookup m j)"
    and lookup_remove_key: "lookup (remove_key k m) j = (if j = k then None else lookup m j)"
    and invar_insert_key: "invar m \<Longrightarrow> invar (insert_key k v m)"
    and invar_remove_key: "invar m \<Longrightarrow> invar (remove_key k m)"
    and extensional: "invar m \<Longrightarrow> invar n \<Longrightarrow> lookup m = lookup n \<Longrightarrow> m = n"
begin

lemma insert_twice: "invar m \<Longrightarrow> insert_key k v (insert_key k w m) = insert_key k v m"
  by (rule extensional) (auto simp: invar_insert_key lookup_insert_key fun_eq_iff)

lemma insert_commute:
  "invar m \<Longrightarrow> j \<noteq> k \<Longrightarrow> insert_key j v (insert_key k w m) = insert_key k w (insert_key j v m)"
  by (rule extensional) (auto simp: invar_insert_key lookup_insert_key fun_eq_iff)

lemma insert_lookup_same: "invar m \<Longrightarrow> lookup m k = Some v \<Longrightarrow> insert_key k v m = m"
  by (rule extensional) (auto simp: invar_insert_key lookup_insert_key fun_eq_iff)

lemma remove_insert_fresh:
  "invar m \<Longrightarrow> lookup m k = None \<Longrightarrow> remove_key k (insert_key k v m) = m"
  by (rule extensional)
    (auto simp: invar_insert_key invar_remove_key lookup_insert_key lookup_remove_key fun_eq_iff)

end

interpretation members: ordered_map "map_of :: (string \<times> 'a) list \<Rightarrow> string \<Rightarrow> 'a option" put del key_sorted
  by unfold_locales (auto intro: key_sorted_ext)

subsection \<open>Accessors\<close>

fun as_str :: "json \<Rightarrow> string option" where
  "as_str (JStr s) = Some s"
| "as_str _ = None"

fun as_i64 :: "json \<Rightarrow> int option" where
  "as_i64 (JInt i) = (if in_i64 i then Some i else None)"
| "as_i64 _ = None"

fun as_u64 :: "json \<Rightarrow> int option" where
  "as_u64 (JInt i) = (if in_u64 i then Some i else None)"
| "as_u64 _ = None"

fun as_bool :: "json \<Rightarrow> bool option" where
  "as_bool (JBool b) = Some b"
| "as_bool _ = None"

fun as_array :: "json \<Rightarrow> json list option" where
  "as_array (JArr xs) = Some xs"
| "as_array _ = None"

fun as_object :: "json \<Rightarrow> jmap option" where
  "as_object (JObj m) = Some m"
| "as_object _ = None"

fun is_null :: "json \<Rightarrow> bool" where
  "is_null JNull = True"
| "is_null _ = False"

fun is_object :: "json \<Rightarrow> bool" where
  "is_object (JObj m) = True"
| "is_object _ = False"

fun is_array :: "json \<Rightarrow> bool" where
  "is_array (JArr xs) = True"
| "is_array _ = False"

fun is_string :: "json \<Rightarrow> bool" where
  "is_string (JStr s) = True"
| "is_string _ = False"

fun is_boolean :: "json \<Rightarrow> bool" where
  "is_boolean (JBool b) = True"
| "is_boolean _ = False"

fun is_number :: "json \<Rightarrow> bool" where
  "is_number (JInt i) = True"
| "is_number (JFloat s) = True"
| "is_number _ = False"

text \<open>\<^verbatim>\<open>v.get(k)\<close>, \<^verbatim>\<open>v[k]\<close> (null where there is no such member) and \<^verbatim>\<open>v[k1][k2]...\<close>.\<close>

fun getf :: "json \<Rightarrow> string \<Rightarrow> json option" where
  "getf (JObj m) k = map_of m k"
| "getf _ k = None"

definition idx :: "json \<Rightarrow> string \<Rightarrow> json" where
  "idx v k = (case getf v k of None \<Rightarrow> JNull | Some x \<Rightarrow> x)"

fun at :: "json \<Rightarrow> string list \<Rightarrow> json" where
  "at v [] = v"
| "at v (k # ks) = at (idx v k) ks"

text \<open>\<^verbatim>\<open>v.as_array().into_iter().flatten()\<close>: the items, none for a value that is no array.\<close>

fun items :: "json \<Rightarrow> json list" where
  "items (JArr xs) = xs"
| "items _ = []"

subsection \<open>Updates\<close>

text \<open>
  \<^verbatim>\<open>v[k1][k2]... = x\<close> through \<^verbatim>\<open>IndexMut\<close>: a null on the way becomes an object, a missing member
  is inserted, and any other value panics (\<open>None\<close>).
\<close>

fun set_at :: "json \<Rightarrow> string list \<Rightarrow> json \<Rightarrow> json option" where
  "set_at v [] x = Some x"
| "set_at v (k # ks) x =
     (case v of
        JNull \<Rightarrow> map_option (\<lambda>c. JObj [(k, c)]) (set_at JNull ks x)
      | JObj m \<Rightarrow> map_option (\<lambda>c. JObj (put k c m)) (set_at (idx v k) ks x)
      | _ \<Rightarrow> None)"

text \<open>\<^verbatim>\<open>v.as_object_mut().map(|m| m.remove(k))\<close>.\<close>

fun remove_member :: "json \<Rightarrow> string \<Rightarrow> json" where
  "remove_member (JObj m) k = JObj (del k m)"
| "remove_member v k = v"

lemma idx_simps [simp, json_simps]:
  "idx (JObj m) k = (case map_of m k of None \<Rightarrow> JNull | Some x \<Rightarrow> x)"
  "idx JNull k = JNull"
  "idx (JBool b) k = JNull"
  "idx (JInt i) k = JNull"
  "idx (JFloat s) k = JNull"
  "idx (JStr s) k = JNull"
  "idx (JArr xs) k = JNull"
  by (simp_all add: idx_def)

lemma is_null_iff [simp]: "is_null v \<longleftrightarrow> v = JNull"
  by (cases v) auto

lemma as_str_Some_iff: "as_str v = Some s \<longleftrightarrow> v = JStr s"
  by (cases v) auto

lemma as_i64_Some_iff: "as_i64 v = Some i \<longleftrightarrow> v = JInt i \<and> in_i64 i"
  by (cases v) auto

lemma as_u64_Some_iff: "as_u64 v = Some i \<longleftrightarrow> v = JInt i \<and> in_u64 i"
  by (cases v) auto

lemma as_array_Some_iff: "as_array v = Some xs \<longleftrightarrow> v = JArr xs"
  by (cases v) auto

lemma as_object_Some_iff: "as_object v = Some m \<longleftrightarrow> v = JObj m"
  by (cases v) auto

lemma is_object_iff: "is_object v \<longleftrightarrow> (\<exists>m. v = JObj m)"
  by (cases v) auto

lemma at_append: "at v (ks @ js) = at (at v ks) js"
  by (induction ks arbitrary: v) auto

lemma at_null [simp]: "at JNull ks = JNull"
  by (induction ks) auto

lemma set_at_null: "\<exists>x'. set_at JNull ks x = Some x'"
  by (induction ks) auto

lemma at_set_at: "set_at v ks x = Some w \<Longrightarrow> at w ks = x"
proof (induction ks arbitrary: v w)
  case Nil
  then show ?case by simp
next
  case (Cons k ks)
  then show ?case by (cases v) auto
qed

text \<open>Writing one member leaves every other member of the same object as it was.\<close>

lemma idx_set_at_other:
  assumes "set_at v (k # ks) x = Some w" and "j \<noteq> k"
  shows "idx w j = idx v j"
  using assms by (cases v) (auto simp: map_of_eq_None_iff split: if_splits)

lemma idx_set_at_same:
  assumes "set_at v (k # ks) x = Some w"
  shows "set_at (idx v k) ks x = Some (idx w k)"
  using assms by (cases v) auto

lemma at_set_at_diverge:
  assumes "set_at v (ps @ k # ks) x = Some w" and "j \<noteq> k"
  shows "at w (ps @ j # js) = at v (ps @ j # js)"
  using assms
proof (induction ps arbitrary: v w)
  case Nil
  then show ?case using idx_set_at_other [of v k ks x w j] by simp
next
  case (Cons p ps)
  from Cons.prems(1) have "set_at (idx v p) (ps @ k # ks) x = Some (idx w p)"
    using idx_set_at_same [of v p "ps @ k # ks" x w] by simp
  with Cons.IH Cons.prems(2) show ?case by simp
qed

lemma set_at_object: "set_at v (k # ks) x = Some w \<Longrightarrow> is_object w"
  by (cases v) auto

lemma set_at_one: "is_object v \<or> is_null v \<Longrightarrow> \<exists>w. set_at v [k] x = Some w"
  by (cases v) auto

subsection \<open>Well-formed documents\<close>

fun wf_json :: "json \<Rightarrow> bool" where
  "wf_json (JArr xs) = list_all wf_json xs"
| "wf_json (JObj m) = (key_sorted m \<and> list_all (\<lambda>(k, v). wf_json v) m)"
| "wf_json (JInt i) = (in_i64 i \<or> in_u64 i)"
| "wf_json _ = True"

lemma wf_json_lookup: "wf_json (JObj m) \<Longrightarrow> map_of m k = Some v \<Longrightarrow> wf_json v"
  by (auto simp: list_all_iff dest: map_of_SomeD)

lemma wf_json_idx [intro]: "wf_json v \<Longrightarrow> wf_json (idx v k)"
  by (cases v) (auto simp: list_all_iff split: option.splits dest!: map_of_SomeD)

lemma wf_json_put:
  assumes "wf_json (JObj m)" and "wf_json v"
  shows "wf_json (JObj (put k v m))"
proof -
  have "list_all (\<lambda>(k, v). wf_json v) (put k v m)"
    using assms by (induction m) (auto simp: key_sorted_def)
  with assms show ?thesis by auto
qed

lemma wf_json_del: "wf_json (JObj m) \<Longrightarrow> wf_json (JObj (del k m))"
  by (auto simp: del_def list_all_iff intro: key_sorted_del [unfolded del_def])

lemma wf_json_set_at: "wf_json v \<Longrightarrow> wf_json x \<Longrightarrow> set_at v ks x = Some w \<Longrightarrow> wf_json w"
proof (induction ks arbitrary: v w)
  case Nil
  then show ?case by simp
next
  case (Cons k ks)
  show ?case
  proof (cases v)
    case JNull
    with Cons obtain c where "set_at JNull ks x = Some c" "w = JObj [(k, c)]" by auto
    with Cons.IH [of JNull c] Cons.prems(2) show ?thesis by (auto simp: key_sorted_def)
  next
    case (JObj m)
    with Cons.prems(3) obtain c where c: "set_at (idx v k) ks x = Some c" "w = JObj (put k c m)"
      by auto
    have "wf_json c" using Cons.IH c(1) Cons.prems(1,2) by blast
    with c(2) JObj Cons.prems(1) show ?thesis by (metis wf_json_put)
  qed (use Cons.prems in auto)
qed

lemma wf_json_remove_member: "wf_json v \<Longrightarrow> wf_json (remove_member v k)"
  by (cases v) (auto simp: wf_json_del [simplified])

end
