(* ===== verification/Ipv4.thy ===== *)
theory Ipv4
  imports H3s_Prelude
begin

text \<open>
  IPv4 addresses as the standard library has them (an address is its \<^verbatim>\<open>u32\<close>), and the interface of
  the \<^verbatim>\<open>ipnet\<close> crate.  The crate is not part of the repository: the network operations the sources
  call are a record of functions whose documented laws are the locale \<open>ipv4_networks\<close>.  The record
  \<open>block_networks\<close>, which computes networks by their block arithmetic, shows that the laws can hold.
\<close>

subsection \<open>Addresses\<close>

definition octet :: "string \<Rightarrow> nat option" where
  "octet s =
     (if length s \<le> 3 \<and> (length s > 1 \<longrightarrow> hd s \<noteq> CHR ''0'') then
        (case parse_nat s of None \<Rightarrow> None | Some n \<Rightarrow> if n < 256 then Some n else None)
      else None)"

definition ipv4_of :: "nat \<Rightarrow> nat \<Rightarrow> nat \<Rightarrow> nat \<Rightarrow> nat" where
  "ipv4_of a b c d = ((a * 256 + b) * 256 + c) * 256 + d"

text \<open>\<^verbatim>\<open>str::parse::<Ipv4Addr>()\<close> and \<^verbatim>\<open>to_string\<close>.\<close>

definition parse_ipv4 :: "string \<Rightarrow> nat option" where
  "parse_ipv4 s =
     (case split_on CHR ''.'' s of
        [a, b, c, d] \<Rightarrow>
          (case (octet a, octet b, octet c, octet d) of
             (Some w, Some x, Some y, Some z) \<Rightarrow> Some (ipv4_of w x y z)
           | _ \<Rightarrow> None)
      | _ \<Rightarrow> None)"

definition show_ipv4 :: "nat \<Rightarrow> string" where
  "show_ipv4 n =
     show_nat (n div 256 div 256 div 256) @ ''.'' @ show_nat (n div 256 div 256 mod 256) @ ''.''
       @ show_nat (n div 256 mod 256) @ ''.'' @ show_nat (n mod 256)"

definition is_private :: "nat \<Rightarrow> bool" where
  "is_private n \<longleftrightarrow>
     (let a = n div 256 div 256 div 256; b = n div 256 div 256 mod 256
      in a = 10 \<or> (a = 172 \<and> 16 \<le> b \<and> b \<le> 31) \<or> (a = 192 \<and> b = 168))"

lemma digit_char_0: "digit_char 0 = CHR ''0''"
  by code_simp

lemma show_nat_snoc:
  assumes "list_all is_digit s" and "s \<noteq> []" and "length s > 1 \<longrightarrow> hd s \<noteq> CHR ''0''"
  shows "show_nat (digits_value 0 s) = s"
  using assms
proof (induction s rule: rev_induct)
  case Nil
  then show ?case by simp
next
  case (snoc c s)
  have c: "digit_val c < 10" "digit_char (digit_val c) = c"
    using snoc.prems(1) by (auto simp: is_digit_def digit_val_def digit_char_def)
  show ?case
  proof (cases "s = []")
    case True
    with c show ?thesis by (subst show_nat.simps) simp
  next
    case False
    have hd: "hd s \<noteq> CHR ''0''" using snoc.prems(3) False by (simp add: hd_append)
    have IH: "show_nat (digits_value 0 s) = s" using snoc.IH snoc.prems(1) False hd by simp
    have "digits_value 0 s \<noteq> 0"
    proof
      assume "digits_value 0 s = 0"
      with IH have "s = show_nat 0" by simp
      also have "show_nat 0 = ''0''" by (subst show_nat.simps) (simp add: digit_char_0)
      finally show False using hd by simp
    qed
    moreover have v: "digits_value 0 (s @ [c]) = 10 * digits_value 0 s + digit_val c"
      by (simp add: digits_value_append)
    ultimately show ?thesis
      using c IH by (subst show_nat.simps) simp
  qed
qed

lemma octet_show:
  assumes "octet s = Some n"
  shows "show_nat n = s" "n < 256"
proof -
  from assms have "list_all is_digit s" "s \<noteq> []" "length s > 1 \<longrightarrow> hd s \<noteq> CHR ''0''" "n = digits_value 0 s" "n < 256"
    by (auto simp: octet_def parse_nat_def split: if_splits option.splits)
  with show_nat_snoc show "show_nat n = s" "n < 256" by auto
qed

lemma show_nat_no_lead_zero: "length (show_nat n) > 1 \<Longrightarrow> hd (show_nat n) \<noteq> CHR ''0''"
proof (induction n rule: show_nat.induct)
  case (1 n)
  show ?case
  proof (cases "n < 10")
    case True
    then show ?thesis using "1.prems" by (subst (asm) show_nat.simps) simp
  next
    case False
    have eq: "show_nat n = show_nat (n div 10) @ [digit_char (n mod 10)]"
      using False by (subst show_nat.simps) simp
    have hd: "hd (show_nat n) = hd (show_nat (n div 10))" using eq by (simp add: hd_append)
    show ?thesis
    proof (cases "length (show_nat (n div 10)) > 1")
      case True
      with "1.IH" [OF False] hd show ?thesis by simp
    next
      case short: False
      have small: "n div 10 < 10"
      proof (rule ccontr)
        assume "\<not> n div 10 < 10"
        then have "show_nat (n div 10) = show_nat (n div 10 div 10) @ [digit_char (n div 10 mod 10)]"
          by (subst show_nat.simps) simp
        with short show False by (cases "show_nat (n div 10 div 10)") auto
      qed
      then have "show_nat (n div 10) = [digit_char (n div 10)]" by (subst show_nat.simps) simp
      with hd have "hd (show_nat n) = digit_char (n div 10)" by simp
      moreover have "digit_char (n div 10) \<noteq> digit_char 0"
        using small False by (subst digit_char_inj) auto
      ultimately show ?thesis by (simp add: digit_char_0)
    qed
  qed
qed

lemma show_nat_length_3:
  assumes "n < 256"
  shows "length (show_nat n) \<le> 3"
proof -
  have step: "length (show_nat m) \<le> Suc k" if "m div 10 < j" "\<And>i. i < j \<Longrightarrow> length (show_nat i) \<le> k" "0 < k" for m k j
    using that by (subst show_nat.simps) auto
  have one: "length (show_nat i) \<le> 1" if "i < 10" for i using that by (subst show_nat.simps) simp
  have two: "length (show_nat i) \<le> 2" if "i < 100" for i
    using step [of i 10 1] one that by (simp add: div_less_iff_less_mult numeral_2_eq_2)
  show ?thesis using step [of n 100 2] two assms by (simp add: div_less_iff_less_mult numeral_3_eq_3)
qed

lemma octet_show_nat [simp]: "n < 256 \<Longrightarrow> octet (show_nat n) = Some n"
  using show_nat_length_3 [of n] show_nat_no_lead_zero [of n] by (simp add: octet_def)

lemma split_dots:
  "CHR ''.'' \<notin> set a \<Longrightarrow> CHR ''.'' \<notin> set b \<Longrightarrow> CHR ''.'' \<notin> set c \<Longrightarrow> CHR ''.'' \<notin> set d
    \<Longrightarrow> split_on CHR ''.'' (a @ CHR ''.'' # b @ CHR ''.'' # c @ CHR ''.'' # d) = [a, b, c, d]"
  by (simp add: split_on_sep split_on_no_sep)

lemma parse_show_ipv4:
  assumes "n < 2 ^ 32"
  shows "parse_ipv4 (show_ipv4 n) = Some n"
proof -
  have "n div 256 div 256 div 256 < 256"
    using assms by (simp add: div_mult2_eq [symmetric] less_mult_imp_div_less)
  moreover have "ipv4_of (n div 256 div 256 div 256) (n div 256 div 256 mod 256) (n div 256 mod 256) (n mod 256) = n"
    by (simp add: ipv4_of_def)
  ultimately show ?thesis
    unfolding parse_ipv4_def show_ipv4_def
    using split_dots [of "show_nat (n div 256 div 256 div 256)" "show_nat (n div 256 div 256 mod 256)"
        "show_nat (n div 256 mod 256)" "show_nat (n mod 256)"] show_nat_not_special(1)
    by simp
qed

lemma ipv4_of_digits:
  assumes "a < 256" "b < 256" "c < 256" "d < 256"
  shows "ipv4_of a b c d mod 256 = d" "ipv4_of a b c d div 256 mod 256 = c"
    "ipv4_of a b c d div 256 div 256 mod 256 = b" "ipv4_of a b c d div 256 div 256 div 256 = a"
    "ipv4_of a b c d < 2 ^ 32"
proof -
  have base: "(x * 256 + e) mod 256 = e" "(x * 256 + e) div 256 = x" if "e < 256" for x e :: nat
    using that by simp_all
  show "ipv4_of a b c d mod 256 = d" "ipv4_of a b c d div 256 mod 256 = c"
    "ipv4_of a b c d div 256 div 256 mod 256 = b" "ipv4_of a b c d div 256 div 256 div 256 = a"
    unfolding ipv4_of_def by (simp_all only: base assms)
  show "ipv4_of a b c d < 2 ^ 32" using assms by (simp add: ipv4_of_def)
qed

lemma split_on_dots_inv:
  assumes "split_on c s = [a, b, d, e]"
  shows "s = a @ c # b @ c # d @ c # e"
proof -
  have first: "split_on c t = p # ps \<Longrightarrow> ps \<noteq> [] \<Longrightarrow> \<exists>r. t = p @ c # r \<and> split_on c r = ps" for t p ps
  proof (induction t arbitrary: p ps)
    case Nil
    then show ?case by simp
  next
    case (Cons x t)
    show ?case
    proof (cases "x = c")
      case True
      with Cons.prems show ?thesis by auto
    next
      case False
      obtain q qs where q: "split_on c t = q # qs" by (cases "split_on c t") auto
      with Cons.prems False have "p = x # q" "ps = qs" by auto
      with Cons.IH [OF q] Cons.prems(2) show ?thesis by auto
    qed
  qed
  have last: "split_on c t = [p] \<Longrightarrow> t = p" for t p
  proof (induction t arbitrary: p)
    case (Cons x t)
    then show ?case by (auto split: if_splits list.splits)
  qed simp
  from first [OF assms] obtain r where r: "s = a @ c # r" "split_on c r = [b, d, e]" by auto
  from first [OF r(2)] obtain r' where r': "r = b @ c # r'" "split_on c r' = [d, e]" by auto
  from first [OF r'(2)] obtain r'' where r'': "r' = d @ c # r''" "split_on c r'' = [e]" by auto
  from last [OF r''(2)] r r' r'' show ?thesis by simp
qed

lemma show_parse_ipv4:
  assumes "parse_ipv4 s = Some n"
  shows "show_ipv4 n = s" "n < 2 ^ 32"
proof -
  from assms obtain a b c d w x y z where
    parts: "split_on CHR ''.'' s = [a, b, c, d]"
    and oct: "octet a = Some w" "octet b = Some x" "octet c = Some y" "octet d = Some z"
    and n: "n = ipv4_of w x y z"
    by (auto simp: parse_ipv4_def split: list.splits option.splits)
  note lt = octet_show(2) [OF oct(1)] octet_show(2) [OF oct(2)] octet_show(2) [OF oct(3)] octet_show(2) [OF oct(4)]
  note sh = octet_show(1) [OF oct(1)] octet_show(1) [OF oct(2)] octet_show(1) [OF oct(3)] octet_show(1) [OF oct(4)]
  show "n < 2 ^ 32" unfolding n using lt by (rule ipv4_of_digits(5))
  show "show_ipv4 n = s"
    unfolding n show_ipv4_def ipv4_of_digits [OF lt] sh split_on_dots_inv [OF parts] by simp
qed

text \<open>
  Parsing and printing of addresses are inverse: exactly the canonical dotted form is accepted.
\<close>

theorem ipv4_text_canonical:
  assumes "n < 2 ^ 32"
  shows "parse_ipv4 s = Some n \<longleftrightarrow> s = show_ipv4 n"
  using parse_show_ipv4 [OF assms] show_parse_ipv4(1) by metis

theorem ipv4_text_canonical_witness: "parse_ipv4 ''10.43.0.010'' \<noteq> Some 170590218"
proof -
  have shown: "show_ipv4 170590218 = ''10.43.0.10''" by code_simp
  have small: "(170590218 :: nat) < 2 ^ 32" by simp
  have differ: "''10.43.0.010'' \<noteq> ''10.43.0.10''" by simp
  show ?thesis
    unfolding ipv4_text_canonical [OF small] shown by (rule differ)
qed

subsection \<open>Networks\<close>

record 'n ipnet =
  parse_net :: "string \<Rightarrow> 'n option"
  show_net :: "'n \<Rightarrow> string"
  net_addr :: "'n \<Rightarrow> nat"
  net_prefix :: "'n \<Rightarrow> nat"
  net_network :: "'n \<Rightarrow> nat"
  net_broadcast :: "'n \<Rightarrow> nat"
  net_subnets :: "'n \<Rightarrow> nat \<Rightarrow> 'n list option"

definition net_contains :: "'n ipnet \<Rightarrow> 'n \<Rightarrow> nat \<Rightarrow> bool" where
  "net_contains ip n a \<longleftrightarrow> net_network ip n \<le> a \<and> a \<le> net_broadcast ip n"

definition canonical_subnet :: "'n ipnet \<Rightarrow> 'n \<Rightarrow> nat \<Rightarrow> 'n \<Rightarrow> bool" where
  "canonical_subnet ip n p m \<longleftrightarrow>
     net_prefix ip m = p \<and> net_addr ip m = net_network ip m \<and> net_contains ip n (net_network ip m)"

text \<open>
  What the sources rely on: printing and parsing are inverse on what was parsed or enumerated, and
  \<^verbatim>\<open>subnets\<close> enumerates, without repetition, exactly the networks of the given prefix length inside
  the network.
\<close>

locale ipv4_networks =
  fixes ip :: "'n ipnet" and valid_net :: "'n \<Rightarrow> bool"
  assumes parsed_valid: "parse_net ip s = Some n \<Longrightarrow> valid_net n"
    and parse_shown: "valid_net n \<Longrightarrow> parse_net ip (show_net ip n) = Some n"
    and subnets_exact: "valid_net n \<Longrightarrow> net_prefix ip n \<le> p \<Longrightarrow> p \<le> 32 \<Longrightarrow>
          \<exists>ms. net_subnets ip n p = Some ms \<and> distinct ms \<and> length ms = 2 ^ (p - net_prefix ip n)
            \<and> set ms = {m. valid_net m \<and> canonical_subnet ip n p m}"
begin

lemma show_inj: "valid_net m \<Longrightarrow> valid_net n \<Longrightarrow> show_net ip m = show_net ip n \<Longrightarrow> m = n"
  by (metis option.inject parse_shown)

lemma subnets_count:
  assumes "valid_net n" and "net_prefix ip n \<le> p" and "p \<le> 32"
  shows "card {m. valid_net m \<and> canonical_subnet ip n p m} = 2 ^ (p - net_prefix ip n)"
    "finite {m. valid_net m \<and> canonical_subnet ip n p m}"
proof -
  from subnets_exact [OF assms] obtain ms where
    ms: "distinct ms" "length ms = 2 ^ (p - net_prefix ip n)" "set ms = {m. valid_net m \<and> canonical_subnet ip n p m}"
    by blast
  from ms(2) distinct_card [OF ms(1)] show "card {m. valid_net m \<and> canonical_subnet ip n p m} = 2 ^ (p - net_prefix ip n)"
    by (simp add: ms(3))
  show "finite {m. valid_net m \<and> canonical_subnet ip n p m}" unfolding ms(3) [symmetric] by simp
qed

end

subsection \<open>Block arithmetic\<close>

text \<open>A network as its address and prefix length.\<close>

definition block_size :: "nat \<Rightarrow> nat" where
  "block_size p = 2 ^ (32 - p)"

definition block_parse :: "string \<Rightarrow> (nat \<times> nat) option" where
  "block_parse s =
     (case split_once CHR ''/'' s of
        None \<Rightarrow> None
      | Some (a, p) \<Rightarrow>
          (case (parse_ipv4 a, octet p) of
             (Some x, Some q) \<Rightarrow> if q \<le> 32 then Some (x, q) else None
           | _ \<Rightarrow> None))"

definition block_network :: "nat \<times> nat \<Rightarrow> nat" where
  "block_network n = fst n div block_size (snd n) * block_size (snd n)"

definition block_networks :: "(nat \<times> nat) ipnet" where
  "block_networks = \<lparr>parse_net = block_parse,
     show_net = (\<lambda>(a, p). show_ipv4 a @ ''/'' @ show_nat p),
     net_addr = fst, net_prefix = snd, net_network = block_network,
     net_broadcast = (\<lambda>n. block_network n + block_size (snd n) - 1),
     net_subnets = (\<lambda>n p. if snd n \<le> p \<and> p \<le> 32
       then Some (map (\<lambda>i. (block_network n + i * block_size p, p)) [0..<2 ^ (p - snd n)]) else None)\<rparr>"

definition valid_block :: "nat \<times> nat \<Rightarrow> bool" where
  "valid_block n \<longleftrightarrow> fst n < 2 ^ 32 \<and> snd n \<le> 32"

lemma block_size_pos [simp]: "0 < block_size p"
  by (simp add: block_size_def)

lemma block_size_split: "p0 \<le> p \<Longrightarrow> p \<le> 32 \<Longrightarrow> block_size p0 = 2 ^ (p - p0) * block_size p"
  by (simp add: block_size_def power_add [symmetric])

lemma blocks_in_range:
  fixes q d b i x :: nat
  assumes "0 < b"
  shows "(q * d * b \<le> x * b \<and> x * b \<le> q * d * b + d * b - 1 \<and> 0 < d) \<longleftrightarrow> (\<exists>i < d. x = q * d + i)"
proof -
  have "x * b \<le> q * d * b + d * b - 1 \<longleftrightarrow> x < q * d + d" if "0 < d"
  proof -
    have "0 < d * b" using that assms by simp
    then have "x * b \<le> q * d * b + d * b - 1 \<longleftrightarrow> x * b < (q * d + d) * b"
      unfolding add_mult_distrib by linarith
    also have "\<dots> \<longleftrightarrow> x < q * d + d" using assms by (simp only: mult_less_cancel2 simp_thms)
    finally show ?thesis .
  qed
  moreover have "q * d * b \<le> x * b \<longleftrightarrow> q * d \<le> x" using assms by simp
  ultimately show ?thesis by (auto simp: le_iff_add)
qed

lemma block_parse_show:
  assumes "valid_block (a, p)"
  shows "block_parse (show_ipv4 a @ ''/'' @ show_nat p) = Some (a, p)"
proof -
  have "CHR ''/'' \<notin> set (show_ipv4 a)" using show_nat_not_special(2) by (auto simp: show_ipv4_def)
  then have "split_once CHR ''/'' (show_ipv4 a @ ''/'' @ show_nat p) = Some (show_ipv4 a, show_nat p)"
    using split_once_sep by fastforce
  with assms show ?thesis by (simp add: block_parse_def parse_show_ipv4 valid_block_def)
qed

interpretation blocks: ipv4_networks block_networks valid_block
proof unfold_locales
  fix s :: string and n :: "nat \<times> nat" and p :: nat
  show "valid_block n" if "parse_net block_networks s = Some n"
    using that show_parse_ipv4(2)
    by (auto simp: block_networks_def block_parse_def valid_block_def split: option.splits if_splits)
  show "parse_net block_networks (show_net block_networks n) = Some n" if "valid_block n"
    using block_parse_show [of "fst n" "snd n"] that by (simp add: block_networks_def split_beta)
  show "\<exists>ms. net_subnets block_networks n p = Some ms \<and> distinct ms \<and> length ms = 2 ^ (p - net_prefix block_networks n)
      \<and> set ms = {m. valid_block m \<and> canonical_subnet block_networks n p m}"
    if v: "valid_block n" and p: "net_prefix block_networks n \<le> p" "p \<le> 32"
  proof -
    obtain a p0 where n: "n = (a, p0)" by force
    have p0: "p0 \<le> p" "a < 2 ^ 32" using p v n by (auto simp: block_networks_def valid_block_def)
    let ?B = "block_size p" and ?d = "2 ^ (p - p0) :: nat" and ?q = "a div block_size p0"
    let ?ms = "map (\<lambda>i. (block_network n + i * ?B, p)) [0..<?d]"
    have B0: "block_size p0 = ?d * ?B" using block_size_split p0(1) p(2) by blast
    have net: "block_network n = ?q * ?d * ?B" by (simp add: n block_network_def B0)
    have bound: "?q * ?d * ?B + ?d * ?B \<le> 2 ^ 32"
    proof -
      have "2 ^ 32 = 2 ^ p0 * block_size p0" using p0 p(2) by (simp add: block_size_def power_add [symmetric])
      with p0(2) have "?q < 2 ^ p0" by (simp add: less_mult_imp_div_less)
      then have "Suc ?q * block_size p0 \<le> 2 ^ p0 * block_size p0" by (intro mult_right_mono) auto
      with \<open>2 ^ 32 = 2 ^ p0 * block_size p0\<close> show ?thesis by (simp add: B0 mult.assoc add.commute)
    qed
    have set: "set ?ms = {m. valid_block m \<and> canonical_subnet block_networks n p m}"
    proof (intro equalityI subsetI)
      fix m
      assume "m \<in> set ?ms"
      then obtain i where i: "i < ?d" "m = (block_network n + i * ?B, p)" by auto
      then have m: "m = ((?q * ?d + i) * ?B, p)" by (simp add: net add_mult_distrib)
      have lt: "i * ?B < ?d * ?B" using i(1) by (simp only: mult_less_cancel2 block_size_pos simp_thms)
      have addr: "fst m = ?q * ?d * ?B + i * ?B" using m by (simp add: add_mult_distrib)
      have "fst m < 2 ^ 32" unfolding addr using lt bound by linarith
      moreover have "block_network m = fst m" by (simp add: m block_network_def)
      moreover have "?q * ?d * ?B \<le> fst m" "fst m \<le> ?q * ?d * ?B + ?d * ?B - 1"
        unfolding addr using lt by linarith+
      moreover have "snd m = p" by (simp add: m)
      moreover have "net_broadcast block_networks n = ?q * ?d * ?B + ?d * ?B - 1"
        using net B0 by (simp add: block_networks_def n)
      moreover have "net_network block_networks n = ?q * ?d * ?B" using net by (simp add: block_networks_def)
      ultimately show "m \<in> {m. valid_block m \<and> canonical_subnet block_networks n p m}"
        using p(2) by (simp add: canonical_subnet_def net_contains_def valid_block_def)
          (simp add: block_networks_def)
    next
      fix m
      assume "m \<in> {m. valid_block m \<and> canonical_subnet block_networks n p m}"
      then have m: "snd m = p" "fst m = block_network m" "block_network n \<le> block_network m"
        "block_network m \<le> block_network n + block_size p0 - 1"
        by (auto simp: canonical_subnet_def net_contains_def block_networks_def n)
      let ?x = "fst m div ?B"
      have x: "fst m = ?x * ?B" using m(1,2) by (simp add: block_network_def)
      then have "?q * ?d * ?B \<le> ?x * ?B \<and> ?x * ?B \<le> ?q * ?d * ?B + ?d * ?B - 1 \<and> 0 < ?d"
        using m net B0 by simp
      then obtain i where "i < ?d" "?x = ?q * ?d + i"
        using blocks_in_range [OF block_size_pos [of p], of ?q ?d ?x] by blast
      then have "fst m = block_network n + i * ?B" using x net by (simp add: add_mult_distrib)
      with m(1) \<open>i < ?d\<close> show "m \<in> set ?ms" by (auto simp: prod_eq_iff image_iff)
    qed
    have B: "?B \<noteq> 0" using block_size_pos [of p] by linarith
    have "distinct ?ms" by (simp add: distinct_map inj_on_def B)
    moreover have "net_subnets block_networks n p = Some ?ms" using p p0 by (simp add: block_networks_def n)
    ultimately show ?thesis using set by (auto simp: block_networks_def n)
  qed
qed

end
