(* ===== verification/Node_Cidrs.thy ===== *)
theory Node_Cidrs
  imports Json Ipv4 Registry_Api
begin

text \<open>
  Pod network allocation: the ledger of node subnets (\<^verbatim>\<open>crates/h3s-api/src/network.rs\<close>) and its
  durable copy behind node writes (\<^verbatim>\<open>crates/h3s-apiserver/src/node_cidrs.rs\<close>).  Networks are those
  of the \<^verbatim>\<open>ipnet\<close> interface of theory \<^verbatim>\<open>Ipv4\<close>; the proofs use its laws only.
\<close>

named_theorems cidr_simps \<open>equations of the reservation ledger\<close>

subsection \<open>Node names\<close>

definition label_ok :: "string \<Rightarrow> bool" where
  "label_ok l \<longleftrightarrow> l \<noteq> [] \<and> length l \<le> 63 \<and> is_alnum (hd l) \<and> is_alnum (last l)
     \<and> list_all (\<lambda>b. is_lower b \<or> is_digit b \<or> b = CHR ''-'') l"

definition valid_node_name :: "string \<Rightarrow> bool" where
  "valid_node_name name \<longleftrightarrow> name \<noteq> [] \<and> length name \<le> 253 \<and> list_all label_ok (split_on CHR ''.'' name)"

subsection \<open>The ledger\<close>

record node_cidr_allocations =
  alloc_version :: nat
  cluster_cidr :: string
  node_prefix :: nat
  reservations :: "(string \<times> string) list"

definition pool_error :: string where
  "pool_error = ''require a canonical private IPv4 pool, at most 4096 node subnets through /30, disjoint from Service CIDR 10.43.0.0/16''"

definition pool :: "'n ipnet \<Rightarrow> node_cidr_allocations \<Rightarrow> (string, 'n) result" where
  "pool ip a =
     andThen (ok_or ''cluster CIDR must be IPv4'' (parse_net ip (cluster_cidr a))) (\<lambda>p.
     andThen (ok_or ''panic'' (parse_net ip ''10.43.0.0/16'')) (\<lambda>services.
     if alloc_version a \<noteq> 1
        \<or> show_net ip p \<noteq> cluster_cidr a
        \<or> net_addr ip p \<noteq> net_network ip p
        \<or> \<not> is_private (net_network ip p)
        \<or> \<not> is_private (net_broadcast ip p)
        \<or> node_prefix a < net_prefix ip p
        \<or> node_prefix a > 30
        \<or> node_prefix a - net_prefix ip p > 12
        \<or> net_contains ip p (net_network ip services)
        \<or> net_contains ip services (net_network ip p)
     then Inl pool_error else Inr p))"

definition subnet :: "'n ipnet \<Rightarrow> node_cidr_allocations \<Rightarrow> string \<Rightarrow> (string, 'n) result" where
  "subnet ip a cidr =
     andThen (ok_or ''invalid IPv4 node CIDR'' (parse_net ip cidr)) (\<lambda>n.
     if net_prefix ip n \<noteq> node_prefix a \<or> net_addr ip n \<noteq> net_network ip n \<or> show_net ip n \<noteq> cidr
     then Inl ''node CIDR must be a canonical subnet of the configured pool with its configured prefix''
     else andThen (pool ip a) (\<lambda>p.
       if \<not> net_contains ip p (net_network ip n)
       then Inl ''node CIDR must be a canonical subnet of the configured pool with its configured prefix''
       else Inr n))"

definition validate_entry :: "'n ipnet \<Rightarrow> node_cidr_allocations \<Rightarrow> 'n list \<Rightarrow> string \<times> string
    \<Rightarrow> (string, 'n list) result" where
  "validate_entry ip a used e =
     (if \<not> valid_node_name (fst e) then Inl ''invalid node name or duplicate node CIDR reservation''
      else andThen (subnet ip a (snd e)) (\<lambda>n.
        if n \<in> set used then Inl ''invalid node name or duplicate node CIDR reservation''
        else Inr (n # used)))"

definition validate :: "'n ipnet \<Rightarrow> node_cidr_allocations \<Rightarrow> (string, unit) result" where
  "validate ip a =
     andThen (pool ip a) (\<lambda>p.
     if length (reservations a) > 2 ^ (node_prefix a - net_prefix ip p)
     then Inl ''too many node CIDR reservations''
     else andThen (try_fold (validate_entry ip a) [] (reservations a)) (\<lambda>_. Inr ()))"

definition new_allocations :: "'n ipnet \<Rightarrow> string \<Rightarrow> nat \<Rightarrow> (string, node_cidr_allocations) result" where
  "new_allocations ip cidr prefix =
     (let a = \<lparr>alloc_version = 1, cluster_cidr = cidr, node_prefix = prefix, reservations = []\<rparr>
      in andThen (validate ip a) (\<lambda>_. Inr a))"

definition reserve :: "'n ipnet \<Rightarrow> node_cidr_allocations \<Rightarrow> string \<Rightarrow> string
    \<Rightarrow> (string, bool \<times> node_cidr_allocations) result" where
  "reserve ip a name cidr =
     (if \<not> valid_node_name name then Inl ''invalid node name''
      else andThen (subnet ip a cidr) (\<lambda>_.
        case map_of (reservations a) name of
          Some old \<Rightarrow> if old = cidr then Inr (False, a) else Inl ''node CIDR reservation is immutable''
        | None \<Rightarrow>
            if list_ex (\<lambda>(_, used). used = cidr) (reservations a)
            then Inl ''node CIDR is reserved by another node''
            else Inr (True, a\<lparr>reservations := put name cidr (reservations a)\<rparr>)))"

definition next_cidr :: "'n ipnet \<Rightarrow> node_cidr_allocations \<Rightarrow> string \<Rightarrow> (string, string) result" where
  "next_cidr ip a name =
     andThen (validate ip a) (\<lambda>_.
     case map_of (reservations a) name of
       Some cidr \<Rightarrow> Inr cidr
     | None \<Rightarrow>
         andThen (pool ip a) (\<lambda>p.
         andThen (ok_or ''invalid node prefix'' (net_subnets ip p (node_prefix a))) (\<lambda>nets.
         ok_or ''node CIDR pool exhausted; retained reservations require operator investigation''
           (List.find (\<lambda>cidr. cidr \<notin> snd ` set (reservations a)) (map (show_net ip) nets)))))"

subsection \<open>What the ledger means\<close>

definition ledger_ok :: "node_cidr_allocations \<Rightarrow> bool" where
  "ledger_ok a \<longleftrightarrow> key_sorted (reservations a)"

text \<open>The loop of \<open>validate\<close> accepts the lists of valid names with distinct subnets.\<close>

definition entries_ok :: "'n ipnet \<Rightarrow> node_cidr_allocations \<Rightarrow> (string \<times> string) list \<Rightarrow> bool" where
  "entries_ok ip a es \<longleftrightarrow> distinct (map snd es)
     \<and> list_all (\<lambda>e. valid_node_name (fst e) \<and> is_ok (subnet ip a (snd e))) es"

lemma pool_reservations [simp, cidr_simps]: "pool ip (a\<lparr>reservations := r\<rparr>) = pool ip a"
  by (simp add: pool_def)

lemma subnet_reservations [simp, cidr_simps]: "subnet ip (a\<lparr>reservations := r\<rparr>) c = subnet ip a c"
  unfolding subnet_def pool_reservations by simp

lemma entries_ok_reservations [simp, cidr_simps]:
  "entries_ok ip (a\<lparr>reservations := r\<rparr>) es = entries_ok ip a es"
  by (simp add: entries_ok_def)

lemma entries_okD:
  assumes "entries_ok ip a es" and "e \<in> set es"
  obtains n where "valid_node_name (fst e)" "subnet ip a (snd e) = Inr n"
  using assms by (auto simp: entries_ok_def list_all_iff is_ok_iff)

context ipv4_networks begin

lemma poolD:
  assumes "pool ip a = Inr p"
  shows "valid_net p" "net_prefix ip p \<le> node_prefix a" "node_prefix a \<le> 32"
  using assms by (auto simp: pool_def andThen_Inr_iff split: if_splits intro: parsed_valid)

lemma subnet_iff:
  assumes "pool ip a = Inr p"
  shows "subnet ip a cidr = Inr n \<longleftrightarrow>
    valid_net n \<and> show_net ip n = cidr \<and> canonical_subnet ip p (node_prefix a) n"
  using assms parsed_valid parse_shown
  by (auto simp: subnet_def andThen_Inr_iff canonical_subnet_def split: if_splits)

lemma try_fold_validate:
  assumes p: "pool ip a = Inr p" and used: "\<forall>n \<in> set used. valid_net n"
  shows "is_ok (try_fold (validate_entry ip a) used es) \<longleftrightarrow>
    entries_ok ip a es \<and> show_net ip ` set used \<inter> snd ` set es = {}"
  using used
proof (induction es arbitrary: used)
  case Nil
  then show ?case by (simp add: entries_ok_def)
next
  case (Cons e es)
  show ?case
  proof (cases "subnet ip a (snd e)")
    case (Inl err)
    then have "\<exists>x. validate_entry ip a used e = Inl x" by (simp add: validate_entry_def)
    with Inl show ?thesis by (auto simp: entries_ok_def)
  next
    case (Inr n)
    then have n: "valid_net n" "show_net ip n = snd e" by (simp_all add: subnet_iff [OF p])
    have mem: "n \<in> set used \<longleftrightarrow> snd e \<in> show_net ip ` set used"
    proof
      assume "snd e \<in> show_net ip ` set used"
      then obtain m where m: "m \<in> set used" "show_net ip m = snd e" by auto
      with show_inj [of m n] n Cons.prems have "m = n" by auto
      with m show "n \<in> set used" by simp
    next
      assume "n \<in> set used"
      then show "snd e \<in> show_net ip ` set used" using n(2) by force
    qed
    show ?thesis
    proof (cases "valid_node_name (fst e) \<and> n \<notin> set used")
      case False
      then have "\<exists>x. validate_entry ip a used e = Inl x" using Inr by (auto simp: validate_entry_def)
      with False mem show ?thesis by (auto simp: entries_ok_def)
    next
      case True
      then have "validate_entry ip a used e = Inr (n # used)" using Inr by (simp add: validate_entry_def)
      with Cons.IH [of "n # used"] Cons.prems n Inr True mem show ?thesis
        by (auto simp: entries_ok_def)
    qed
  qed
qed

text \<open>The bound on the number of reservations never refuses what the loop accepts.\<close>

lemma entries_bound:
  assumes p: "pool ip a = Inr p" and ok: "entries_ok ip a es"
  shows "length es \<le> 2 ^ (node_prefix a - net_prefix ip p)"
proof -
  let ?S = "{m. valid_net m \<and> canonical_subnet ip p (node_prefix a) m}"
  note d = poolD [OF p]
  have "snd ` set es \<subseteq> show_net ip ` ?S"
  proof
    fix c
    assume "c \<in> snd ` set es"
    then obtain e where e: "e \<in> set es" "c = snd e" by auto
    obtain n where "subnet ip a c = Inr n" using entries_okD [OF ok e(1)] e(2) by metis
    then show "c \<in> show_net ip ` ?S" by (auto simp: subnet_iff [OF p])
  qed
  then have "card (snd ` set es) \<le> card ?S"
    using subnets_count(2) [OF d] by (meson card_image_le card_mono finite_imageI order_trans)
  moreover have "card (snd ` set es) = length es"
    using ok by (metis distinct_card entries_ok_def length_map set_map)
  ultimately show ?thesis using subnets_count(1) [OF d] by simp
qed

lemma validate_iff:
  "validate ip a = Inr () \<longleftrightarrow> (\<exists>p. pool ip a = Inr p) \<and> entries_ok ip a (reservations a)"
proof (cases "pool ip a")
  case (Inl e)
  then show ?thesis by (simp add: validate_def)
next
  case (Inr p)
  have "is_ok (try_fold (validate_entry ip a) [] (reservations a)) \<longleftrightarrow> entries_ok ip a (reservations a)"
    using try_fold_validate [OF Inr, of "[]"] by simp
  with entries_bound [OF Inr, of "reservations a"] Inr show ?thesis
    by (auto simp: validate_def is_ok_iff andThen_Inr_iff not_less split: if_splits)
qed

lemma reserve_sound:
  assumes v: "validate ip a = Inr ()" and s: "ledger_ok a" and r: "reserve ip a name cidr = Inr (new, a')"
  shows "validate ip a' = Inr ()" "ledger_ok a'" "map_of (reservations a') name = Some cidr"
    "\<And>n. n \<noteq> name \<Longrightarrow> map_of (reservations a') n = map_of (reservations a) n"
    "new = (map_of (reservations a) name = None)" "\<not> new \<Longrightarrow> a' = a"
    "\<And>c. map_of (reservations a) name = Some c \<Longrightarrow> c = cidr"
proof -
  from r have name: "valid_node_name name" and sub: "is_ok (subnet ip a cidr)"
    and cases: "map_of (reservations a) name = Some cidr \<and> \<not> new \<and> a' = a
      \<or> map_of (reservations a) name = None \<and> cidr \<notin> snd ` set (reservations a) \<and> new
        \<and> a' = a\<lparr>reservations := put name cidr (reservations a)\<rparr>"
    by (auto simp: reserve_def andThen_Inr_iff list_ex_iff split: if_splits option.splits)
  from cases show "map_of (reservations a') name = Some cidr"
    "new = (map_of (reservations a) name = None)" "\<not> new \<Longrightarrow> a' = a"
    "\<And>n. n \<noteq> name \<Longrightarrow> map_of (reservations a') n = map_of (reservations a) n"
    "\<And>c. map_of (reservations a) name = Some c \<Longrightarrow> c = cidr"
    by auto
  from cases s show "ledger_ok a'" by (auto simp: ledger_ok_def)
  from cases show "validate ip a' = Inr ()"
  proof
    assume "map_of (reservations a) name = Some cidr \<and> \<not> new \<and> a' = a"
    with v show ?thesis by simp
  next
    assume new: "map_of (reservations a) name = None \<and> cidr \<notin> snd ` set (reservations a) \<and> new
        \<and> a' = a\<lparr>reservations := put name cidr (reservations a)\<rparr>"
    let ?es = "reservations a"
    from new put_split [of ?es name cidr] obtain xs ys where
      xy: "?es = xs @ ys" "put name cidr ?es = xs @ (name, cidr) # ys" by blast
    from v have ok: "entries_ok ip a (xs @ ys)" by (simp add: validate_iff xy(1))
    have "cidr \<notin> set (map snd (xs @ ys))" using new unfolding xy(1) set_map by blast
    with ok name sub have "entries_ok ip a (xs @ (name, cidr) # ys)" by (auto simp: entries_ok_def)
    with v new xy(2) show ?thesis by (simp add: validate_iff)
  qed
qed

lemma next_cidr_reserves:
  assumes v: "validate ip a = Inr ()" and name: "valid_node_name name" and n: "next_cidr ip a name = Inr cidr"
  shows "\<exists>a'. reserve ip a name cidr = Inr (map_of (reservations a) name = None, a')"
proof -
  from v obtain p where p: "pool ip a = Inr p" and ok: "entries_ok ip a (reservations a)" by (auto simp: validate_iff)
  show ?thesis
  proof (cases "map_of (reservations a) name")
    case (Some c)
    then have "c = cidr" using n v by (simp add: next_cidr_def)
    with Some have "(name, cidr) \<in> set (reservations a)" by (simp add: map_of_SomeD)
    from entries_okD [OF ok this] obtain s where "subnet ip a cidr = Inr s" by auto
    with Some \<open>c = cidr\<close> name show ?thesis by (simp add: reserve_def)
  next
    case None
    note d = poolD [OF p]
    from subnets_exact [OF d] obtain ms where
      ms: "net_subnets ip p (node_prefix a) = Some ms"
        "set ms = {m. valid_net m \<and> canonical_subnet ip p (node_prefix a) m}" by blast
    with n None p v have "List.find (\<lambda>cidr. cidr \<notin> snd ` set (reservations a)) (map (show_net ip) ms) = Some cidr"
      by (simp add: next_cidr_def)
    from find_Some_elem [OF this] ms(2) obtain m where
      m: "valid_net m" "canonical_subnet ip p (node_prefix a) m" "show_net ip m = cidr" "cidr \<notin> snd ` set (reservations a)"
      by auto
    then have "subnet ip a cidr = Inr m" by (simp add: subnet_iff [OF p])
    moreover have "\<not> list_ex (\<lambda>(_, used). used = cidr) (reservations a)"
      using m(4) by (force simp: list_ex_iff)
    ultimately show ?thesis using None name by (simp add: reserve_def)
  qed
qed

lemma next_cidr_exhausted:
  assumes v: "validate ip a = Inr ()" and p: "pool ip a = Inr p"
  shows "is_ok (next_cidr ip a name) \<longleftrightarrow>
    map_of (reservations a) name \<noteq> None \<or> length (reservations a) < 2 ^ (node_prefix a - net_prefix ip p)"
proof (cases "map_of (reservations a) name")
  case (Some c)
  with v show ?thesis by (simp add: next_cidr_def)
next
  case None
  from v have ok: "entries_ok ip a (reservations a)" by (simp add: validate_iff)
  note d = poolD [OF p]
  from subnets_exact [OF d] obtain ms where
    ms: "net_subnets ip p (node_prefix a) = Some ms" "distinct ms" "length ms = 2 ^ (node_prefix a - net_prefix ip p)"
      "set ms = {m. valid_net m \<and> canonical_subnet ip p (node_prefix a) m}" by blast
  let ?used = "snd ` set (reservations a)" and ?all = "set (map (show_net ip) ms)"
  have sub: "?used \<subseteq> ?all"
  proof
    fix c
    assume "c \<in> ?used"
    then obtain e where e: "e \<in> set (reservations a)" "c = snd e" by auto
    from entries_okD [OF ok e(1)] e(2) obtain m where "subnet ip a c = Inr m" by metis
    with ms(4) show "c \<in> ?all" by (auto simp: subnet_iff [OF p])
  qed
  have "distinct (map (show_net ip) ms)"
    using ms(2,4) show_inj by (auto simp: distinct_map inj_on_def)
  then have call: "card ?all = length ms" by (metis distinct_card length_map)
  have "distinct (map snd (reservations a))" using ok by (simp add: entries_ok_def)
  then have cused: "card ?used = length (reservations a)" by (metis distinct_card length_map set_map)
  have "is_ok (next_cidr ip a name) \<longleftrightarrow> (\<exists>c \<in> ?all. c \<notin> ?used)"
  proof (cases "List.find (\<lambda>cidr. cidr \<notin> ?used) (map (show_net ip) ms)")
    case None
    then have "\<forall>c \<in> ?all. c \<in> ?used" unfolding find_None_elem by blast
    with None \<open>map_of (reservations a) name = None\<close> v p ms(1)
    show ?thesis by (simp add: next_cidr_def)
  next
    case (Some c)
    with find_Some_elem [OF Some] \<open>map_of (reservations a) name = None\<close> v p ms(1)
    show ?thesis by (auto simp: next_cidr_def)
  qed
  also have "\<dots> \<longleftrightarrow> ?used \<subset> ?all" using sub by blast
  also have "\<dots> \<longleftrightarrow> card ?used < card ?all"
  proof
    show "card ?used < card ?all" if "?used \<subset> ?all" using that by (simp add: psubset_card_mono)
    show "?used \<subset> ?all" if "card ?used < card ?all" using that sub by auto
  qed
  finally show ?thesis using call cused ms(3) None by simp
qed

end

subsection \<open>Properties of the ledger\<close>

lemmas block_laws = blocks.ipv4_networks_axioms

definition demo_ledger :: node_cidr_allocations where
  "demo_ledger = \<lparr>alloc_version = 1, cluster_cidr = ''10.42.0.0/16'', node_prefix = 20,
     reservations = [(''a'', ''10.42.0.0/20'')]\<rparr>"

lemma demo_ledger_valid: "validate block_networks demo_ledger = Inr ()" "ledger_ok demo_ledger"
  by code_simp+

text \<open>
  C22: a reservation keeps the ledger valid.  From a valid ledger, whatever \<^verbatim>\<open>reserve\<close> accepts gives a
  valid ledger (the pool is well formed, all names are valid, all subnets canonical subnets of the
  pool, no two nodes share one, and there are no more reservations than subnets) in which the node
  holds the requested subnet and every other node holds what it held; a node that had a subnet
  asked for the same one and nothing changed.
\<close>

theorem reserve_keeps_ledger:
  assumes "ipv4_networks ip valid_net" and "validate ip a = Inr ()" and "ledger_ok a"
    and "reserve ip a name cidr = Inr (new, a')"
  shows "validate ip a' = Inr () \<and> ledger_ok a'
    \<and> map_of (reservations a') = (map_of (reservations a)) (name \<mapsto> cidr)
    \<and> (new \<longleftrightarrow> map_of (reservations a) name = None) \<and> (new \<or> a' = a)"
proof -
  note s = ipv4_networks.reserve_sound [OF assms]
  have "map_of (reservations a') = (map_of (reservations a)) (name \<mapsto> cidr)"
    using s(3,4) by (auto simp: fun_eq_iff)
  with s show ?thesis by blast
qed

theorem reserve_keeps_ledger_witness:
  "validate block_networks (demo_ledger\<lparr>reservations := [(''a'', ''10.42.0.0/20''), (''b'', ''10.42.112.0/20'')]\<rparr>) = Inr ()"
proof -
  have "reserve block_networks demo_ledger ''b'' ''10.42.112.0/20''
      = Inr (True, demo_ledger\<lparr>reservations := [(''a'', ''10.42.0.0/20''), (''b'', ''10.42.112.0/20'')]\<rparr>)"
    by code_simp
  from reserve_keeps_ledger [OF block_laws demo_ledger_valid this] show ?thesis by simp
qed

text \<open>
  Allocation.  On a valid ledger the next subnet proposed for a node with a valid name is one
  that \<^verbatim>\<open>reserve\<close> accepts: the node's own reservation if it has one, else a subnet that no node
  holds; and one is proposed exactly unless the node has none and every subnet of the pool is
  reserved.
\<close>

theorem next_cidr_sound:
  assumes "ipv4_networks ip valid_net" and "validate ip a = Inr ()" and "valid_node_name name"
    and "pool ip a = Inr p"
  shows "(case next_cidr ip a name of
      Inr cidr \<Rightarrow> (\<exists>a'. reserve ip a name cidr = Inr (map_of (reservations a) name = None, a'))
    | Inl _ \<Rightarrow> map_of (reservations a) name = None
        \<and> \<not> length (reservations a) < 2 ^ (node_prefix a - net_prefix ip p))"
  using ipv4_networks.next_cidr_reserves [OF assms(1-3)]
    ipv4_networks.next_cidr_exhausted [OF assms(1,2,4), of name]
  by (cases "next_cidr ip a name") auto

theorem next_cidr_sound_witness:
  "\<exists>a'. reserve block_networks demo_ledger ''b'' ''10.42.16.0/20'' = Inr (True, a')"
proof -
  have n: "next_cidr block_networks demo_ledger ''b'' = Inr ''10.42.16.0/20''" by code_simp
  have name: "valid_node_name ''b''" by code_simp
  have fresh: "map_of (reservations demo_ledger) ''b'' = None" by code_simp
  have "pool block_networks demo_ledger = Inr (170524672, 16)" by code_simp
  from next_cidr_sound [OF block_laws demo_ledger_valid(1) name this] n fresh show ?thesis by simp
qed

end
