(* ===== verification/Resources.thy ===== *)
theory Resources
  imports Store_Keys Json
begin

text \<open>
  The API's vocabulary: failures (\<^verbatim>\<open>crates/h3s-apiserver/src/lib.rs\<close>), the resource catalogue and
  the request target (\<^verbatim>\<open>resources.rs\<close>), and the verb of a request (\<^verbatim>\<open>rest.rs\<close>).  A target and its
  path determine each other, and every named target has a valid registry key.
\<close>

subsection \<open>Failures\<close>

record failure =
  code :: nat
  reason :: string
  message :: string

type_synonym 'a answer = "(failure, 'a) result"

definition fail :: "nat \<Rightarrow> string \<Rightarrow> string \<Rightarrow> 'a answer" where
  "fail c r m = Inl \<lparr>code = c, reason = r, message = m\<rparr>"

definition bad :: "string \<Rightarrow> 'a answer" where
  "bad m = fail 400 ''BadRequest'' m"

text \<open>
  The text of a registry error.  The payload of a driver error is not modelled; no response shows it.
\<close>

definition error_text :: "store_error \<Rightarrow> string" where
  "error_text e =
     (case e of
        Invalid v \<Rightarrow> ''invalid registry key or selection: '' @ v
      | AlreadyExists k \<Rightarrow> ''object already exists: '' @ k
      | NotFound k \<Rightarrow> ''object not found: '' @ k
      | Conflict x y \<Rightarrow> ''resource version conflict: expected '' @ show_nat x @ '', current '' @ show_nat y
      | Compacted x y \<Rightarrow> ''revision '' @ show_nat x @ '' is older than compaction floor '' @ show_nat y
      | FutureRevision x y \<Rightarrow> ''revision '' @ show_nat x @ '' is newer than current revision '' @ show_nat y
      | LeaseExpired i \<Rightarrow> ''lease '' @ show_nat i @ '' is missing or expired''
      | ForeignDatabase \<Rightarrow> ''database is not an h3s registry; refusing to initialize or modify it''
      | SchemaVersion v \<Rightarrow> ''unsupported registry schema version '' @ show_int v
      | Database \<Rightarrow> ''registry database: ''
      | Worker \<Rightarrow> ''registry worker: ''
      | Custody m \<Rightarrow> ''secrets custody: '' @ m)"

definition of_store_error :: "store_error \<Rightarrow> failure" where
  "of_store_error e =
     (let (c, r) = (case e of
          AlreadyExists _ \<Rightarrow> (409, ''AlreadyExists'')
        | NotFound _ \<Rightarrow> (404, ''NotFound'')
        | Conflict _ _ \<Rightarrow> (409, ''Conflict'')
        | Compacted _ _ \<Rightarrow> (410, ''Expired'')
        | Invalid _ \<Rightarrow> (400, ''BadRequest'')
        | FutureRevision _ _ \<Rightarrow> (400, ''BadRequest'')
        | _ \<Rightarrow> (500, ''InternalError''))
      in \<lparr>code = c, reason = r, message = (if c = 500 then ''registry operation failed'' else error_text e)\<rparr>)"

definition failure_value :: "failure \<Rightarrow> json" where
  "failure_value f = JObj [(''apiVersion'', JStr ''v1''), (''code'', JInt (int (code f))), (''kind'', JStr ''Status''),
     (''message'', JStr (message f)), (''reason'', JStr (reason f)), (''status'', JStr ''Failure'')]"

subsection \<open>Names\<close>

definition valid_label_name :: "string \<Rightarrow> bool" where
  "valid_label_name name \<longleftrightarrow> name \<noteq> [] \<and> length name \<le> 63
     \<and> list_all (\<lambda>c. is_lower c \<or> is_digit c \<or> c = CHR ''-'') name
     \<and> is_alnum (hd name) \<and> is_alnum (last name)"

definition valid_name :: "string \<Rightarrow> bool" where
  "valid_name name \<longleftrightarrow> name \<noteq> [] \<and> length name \<le> 253 \<and> list_all valid_label_name (split_on CHR ''.'' name)"

subsection \<open>The catalogue\<close>

record resource =
  api_group :: string
  version :: string
  plural :: string
  kind :: string
  namespaced :: bool

definition res :: "string \<Rightarrow> string \<Rightarrow> string \<Rightarrow> bool \<Rightarrow> resource" where
  "res g p k n = \<lparr>api_group = g, version = ''v1'', plural = p, kind = k, namespaced = n\<rparr>"

definition RESOURCES :: "resource list" where
  "RESOURCES = [
     res '''' ''namespaces'' ''Namespace'' False,
     res '''' ''configmaps'' ''ConfigMap'' True,
     res '''' ''secrets'' ''Secret'' True,
     res '''' ''pods'' ''Pod'' True,
     res '''' ''nodes'' ''Node'' False,
     res '''' ''services'' ''Service'' True,
     res '''' ''serviceaccounts'' ''ServiceAccount'' True,
     res ''apps'' ''deployments'' ''Deployment'' True,
     res ''apps'' ''replicasets'' ''ReplicaSet'' True,
     res ''discovery.k8s.io'' ''endpointslices'' ''EndpointSlice'' True,
     res ''coordination.k8s.io'' ''leases'' ''Lease'' True,
     res ''rbac.authorization.k8s.io'' ''roles'' ''Role'' True,
     res ''rbac.authorization.k8s.io'' ''rolebindings'' ''RoleBinding'' True,
     res ''rbac.authorization.k8s.io'' ''clusterroles'' ''ClusterRole'' False,
     res ''rbac.authorization.k8s.io'' ''clusterrolebindings'' ''ClusterRoleBinding'' False,
     res '''' ''persistentvolumes'' ''PersistentVolume'' False,
     res '''' ''persistentvolumeclaims'' ''PersistentVolumeClaim'' True,
     res ''storage.k8s.io'' ''storageclasses'' ''StorageClass'' False,
     res ''networking.k8s.io'' ''ingresses'' ''Ingress'' True]"

definition resource_valid_name :: "resource \<Rightarrow> string \<Rightarrow> bool" where
  "resource_valid_name r name =
     (if api_group r = ''rbac.authorization.k8s.io'' then
        name \<noteq> [] \<and> length name \<le> 253 \<and> name \<noteq> ''.'' \<and> name \<noteq> ''..''
          \<and> list_all (\<lambda>c. is_alnum c \<or> c \<in> set ''-._:'') name
      else if kind r = ''Service'' \<or> kind r = ''Namespace'' then valid_label_name name
      else valid_name name)"

definition has_status :: "resource \<Rightarrow> bool" where
  "has_status r \<longleftrightarrow> kind r \<in> {''Pod'', ''Node'', ''Service'', ''Namespace'', ''Deployment'', ''ReplicaSet'',
     ''PersistentVolumeClaim'', ''Ingress''}"

definition has_generation :: "resource \<Rightarrow> bool" where
  "has_generation r \<longleftrightarrow> kind r \<in> {''Pod'', ''Deployment'', ''ReplicaSet''}"

definition api_version :: "resource \<Rightarrow> string" where
  "api_version r = (if api_group r = [] then version r else api_group r @ ''/'' @ version r)"

subsection \<open>Targets\<close>

record target =
  resource :: resource
  namespace :: "string option"
  tname :: "string option"
  subresource :: "string option"

definition subresource_ok :: "resource \<Rightarrow> string \<Rightarrow> bool" where
  "subresource_ok r s =
     (if s = ''status'' then has_status r
      else if s = ''binding'' then kind r = ''Pod''
      else if s = ''log'' \<or> s = ''exec'' then kind r = ''Pod''
      else if s = ''token'' then kind r = ''ServiceAccount''
      else False)"

fun path_parts :: "string list \<Rightarrow> (string \<times> string \<times> string list) option" where
  "path_parts (a # v # rest) =
     (if a = ''api'' then Some ('''', v, rest)
      else if a = ''apis'' then (case rest of [] \<Rightarrow> None | v' # rest' \<Rightarrow> Some (v, v', rest'))
      else None)"
| "path_parts _ = None"

definition tail_parts :: "string list \<Rightarrow> (string option \<times> string \<times> string option) option" where
  "tail_parts rest =
     (case rest of
        [a, b, c] \<Rightarrow> if a = ''namespaces'' then Some (Some b, c, None) else None
      | [a, b, c, d] \<Rightarrow> if a = ''namespaces'' then Some (Some b, c, Some d) else None
      | [p] \<Rightarrow> Some (None, p, None)
      | [p, n] \<Rightarrow> Some (None, p, Some n)
      | _ \<Rightarrow> None)"

definition parse_resource :: "string \<Rightarrow> string option \<Rightarrow> target option" where
  "parse_resource path sub =
     (case strip_prefix ''/'' path of None \<Rightarrow> None | Some p \<Rightarrow>
     (case path_parts (split_on CHR ''/'' p) of None \<Rightarrow> None | Some (g, v, rest) \<Rightarrow>
     (case tail_parts rest of None \<Rightarrow> None | Some (ns, pl, name) \<Rightarrow>
     (case List.find (\<lambda>r. api_group r = g \<and> version r = v \<and> plural r = pl) RESOURCES of None \<Rightarrow> None | Some r \<Rightarrow>
        if ns \<noteq> None \<and> \<not> namespaced r then None
        else if (case name of None \<Rightarrow> False | Some n \<Rightarrow> \<not> resource_valid_name r n)
              \<or> (case ns of None \<Rightarrow> False | Some n \<Rightarrow> \<not> valid_label_name n) then None
        else if (case sub of None \<Rightarrow> False | Some s \<Rightarrow> name = None \<or> \<not> subresource_ok r s) then None
        else Some \<lparr>resource = r, namespace = ns, tname = name, subresource = sub\<rparr>))))"

fun parse_subresource :: "string \<Rightarrow> string list \<Rightarrow> target option" where
  "parse_subresource path [] = None"
| "parse_subresource path (s # ss) =
     (case (case strip_suffix (''/'' @ s) path of None \<Rightarrow> None | Some p \<Rightarrow> parse_resource p (Some s)) of
        Some t \<Rightarrow> Some t
      | None \<Rightarrow> parse_subresource path ss)"

definition parse_target :: "string \<Rightarrow> target option" where
  "parse_target path =
     (case parse_resource path None of
        Some t \<Rightarrow> Some t
      | None \<Rightarrow> parse_subresource path [''status'', ''binding'', ''log'', ''exec'', ''token''])"

definition target_prefix :: "target \<Rightarrow> string" where
  "target_prefix t =
     (case namespace t of
        Some ns \<Rightarrow> ''/registry/'' @ plural (resource t) @ ''/'' @ ns @ ''/''
      | None \<Rightarrow> ''/registry/'' @ plural (resource t) @ ''/'')"

subsection \<open>Verbs\<close>

definition request_verb :: "string \<Rightarrow> target \<Rightarrow> bool \<Rightarrow> (failure, string) result" where
  "request_verb meth t watch =
     (let named = tname t \<noteq> None in
      andThen
        (if subresource t = Some ''exec'' \<and> (meth = ''GET'' \<or> meth = ''POST'') \<and> named \<and> \<not> watch then Inr ''create''
         else if meth = ''GET'' \<and> watch then Inr ''watch''
         else if meth = ''GET'' \<and> named then Inr ''get''
         else if meth = ''GET'' then Inr ''list''
         else if meth = ''POST'' \<and> named \<and> subresource t = Some ''binding'' then Inr ''create''
         else if meth = ''POST'' \<and> \<not> named then Inr ''create''
         else if meth = ''PUT'' \<and> named then Inr ''update''
         else if meth = ''PATCH'' \<and> named then Inr ''patch''
         else if meth = ''DELETE'' \<and> named then Inr ''delete''
         else fail 405 ''MethodNotAllowed'' ''verb is not implemented for this resource'') (\<lambda>v.
      let (supported, m) =
        (if subresource t = Some ''status''
         then (v = ''get'' \<or> v = ''update'' \<or> v = ''patch'', ''status supports get, update and patch'')
         else if subresource t = Some ''binding'' then (v = ''create'', ''binding supports create'')
         else if subresource t = Some ''log'' then (v = ''get'', ''log supports get'')
         else if subresource t = Some ''exec'' then (v = ''create'', ''exec supports create'')
         else (True, ''''))
      in if supported then Inr v else fail 405 ''MethodNotAllowed'' m))"

subsection \<open>Names are registry segments\<close>

lemma label_chars:
  "is_lower c \<or> is_digit c \<or> c = CHR ''-'' \<Longrightarrow> segment_char c \<and> c \<noteq> CHR ''.'' \<and> c \<noteq> CHR ''/''"
  by (auto simp: segment_char_def is_alnum_def is_lower_def is_digit_def)

lemma label_segment:
  assumes "valid_label_name n"
  shows "valid_segment n"
proof -
  have chars: "segment_char c \<and> c \<noteq> CHR ''.''" if "c \<in> set n" for c
    using assms that label_chars by (auto simp: valid_label_name_def list_all_iff)
  then have "n \<noteq> ''.''" "n \<noteq> ''..''" by force+
  with chars assms show ?thesis by (auto simp: valid_segment_def list_all_iff valid_label_name_def)
qed

lemma label_no_dot: "valid_label_name n \<Longrightarrow> CHR ''.'' \<notin> set n"
  using label_chars by (fastforce simp: valid_label_name_def list_all_iff)

lemma set_split_on: "x \<in> set s \<Longrightarrow> x = c \<or> (\<exists>p \<in> set (split_on c s). x \<in> set p)"
proof (induction s)
  case Nil
  then show ?case by simp
next
  case (Cons y s)
  obtain q qs where "split_on c s = q # qs" by (cases "split_on c s") auto
  with Cons show ?case by auto
qed

lemma name_segment: "valid_name n \<Longrightarrow> valid_segment n"
proof -
  assume n: "valid_name n"
  then have labels: "\<forall>l \<in> set (split_on CHR ''.'' n). valid_label_name l" and ne: "n \<noteq> []"
    by (auto simp: valid_name_def list_all_iff)
  have "segment_char c" if "c \<in> set n" for c
  proof (cases "c = CHR ''.''")
    case True
    then show ?thesis by (simp add: segment_char_def)
  next
    case False
    with that set_split_on [of c n "CHR ''.''"] obtain l where "l \<in> set (split_on CHR ''.'' n)" "c \<in> set l" by auto
    with labels label_segment show ?thesis by (auto simp: valid_segment_def list_all_iff)
  qed
  moreover have "n \<noteq> ''.''" "n \<noteq> ''..''" using labels by (auto simp: valid_label_name_def)
  ultimately show ?thesis using ne by (auto simp: valid_segment_def list_all_iff)
qed

lemma resource_name_segment:
  assumes "resource_valid_name r n"
  shows "valid_segment n"
proof (cases "api_group r = ''rbac.authorization.k8s.io''")
  case True
  with assms show ?thesis
    by (auto simp: resource_valid_name_def valid_segment_def segment_char_def list_all_iff)
next
  case False
  with assms label_segment name_segment show ?thesis by (auto simp: resource_valid_name_def split: if_splits)
qed

lemma catalogue_segments: "list_all (\<lambda>r. valid_segment (plural r) \<and> valid_segment (version r)
    \<and> (api_group r = '''' \<or> valid_segment (api_group r)) \<and> plural r \<notin> {''status'', ''binding'', ''log'', ''exec'', ''token''}) RESOURCES"
  by code_simp

lemma catalogue_distinct:
  "distinct (map (\<lambda>r. (api_group r, version r, plural r)) RESOURCES)" "distinct (map plural RESOURCES)"
  by code_simp+

lemma catalogue_find:
  assumes "r \<in> set RESOURCES"
  shows "List.find (\<lambda>s. api_group s = api_group r \<and> version s = version r \<and> plural s = plural r) RESOURCES = Some r"
proof (cases "List.find (\<lambda>s. api_group s = api_group r \<and> version s = version r \<and> plural s = plural r) RESOURCES")
  case None
  with assms show ?thesis unfolding find_None_elem by blast
next
  case (Some s)
  have "s \<in> set RESOURCES" "(api_group s, version s, plural s) = (api_group r, version r, plural r)"
    using find_Some_elem [OF Some] by auto
  with assms catalogue_distinct(1) have "s = r" by (auto simp: distinct_map inj_on_def)
  with Some show ?thesis by simp
qed

lemma split_key4:
  assumes "CHR ''/'' \<notin> set p" and "CHR ''/'' \<notin> set n"
  shows "split_on CHR ''/'' (''/registry/'' @ p @ ''/'' @ n) = ['''', ''registry'', p, n]"
  using split_registry [OF assms(1), of n] split_on_no_sep [OF assms(2)] by simp

lemma split_key5:
  assumes "CHR ''/'' \<notin> set p" and "CHR ''/'' \<notin> set ns" and "CHR ''/'' \<notin> set n"
  shows "split_on CHR ''/'' (''/registry/'' @ p @ ''/'' @ ns @ ''/'' @ n) = ['''', ''registry'', p, ns, n]"
  using split_registry [OF assms(1), of "ns @ ''/'' @ n"] split_on_sep [OF assms(2), of n] split_on_no_sep [OF assms(3)]
  by simp

lemma key4_ok: "valid_segment p \<Longrightarrow> valid_segment n \<Longrightarrow> is_ok (new_store_key (''/registry/'' @ p @ ''/'' @ n))"
  using split_key4 segment_no_slash by (simp add: new_store_key_def)

lemma key5_ok:
  "valid_segment p \<Longrightarrow> valid_segment ns \<Longrightarrow> valid_segment n
    \<Longrightarrow> is_ok (new_store_key (''/registry/'' @ p @ ''/'' @ ns @ ''/'' @ n))"
  using split_key5 [of p ns n] segment_no_slash by (simp add: new_store_key_def)

lemma parse_resource_SomeD:
  assumes "parse_resource path sub = Some t"
  shows "resource t \<in> set RESOURCES" "subresource t = sub"
    "\<And>n. tname t = Some n \<Longrightarrow> resource_valid_name (resource t) n"
    "\<And>n. namespace t = Some n \<Longrightarrow> valid_label_name n \<and> namespaced (resource t)"
    "\<And>s. sub = Some s \<Longrightarrow> tname t \<noteq> None \<and> subresource_ok (resource t) s"
  using assms by (auto simp: parse_resource_def split: option.splits prod.splits if_splits dest!: find_Some_elem)

lemma parse_subresource_SomeD:
  "parse_subresource path ss = Some t \<Longrightarrow> \<exists>p s. parse_resource p (Some s) = Some t"
  by (induction ss) (auto split: option.splits)

text \<open>What every parsed target satisfies.\<close>

definition wf_target :: "target \<Rightarrow> bool" where
  "wf_target t \<longleftrightarrow> resource t \<in> set RESOURCES
     \<and> (case tname t of None \<Rightarrow> True | Some n \<Rightarrow> resource_valid_name (resource t) n)
     \<and> (case namespace t of None \<Rightarrow> True | Some n \<Rightarrow> valid_label_name n \<and> namespaced (resource t))
     \<and> (case subresource t of None \<Rightarrow> True | Some s \<Rightarrow> tname t \<noteq> None \<and> subresource_ok (resource t) s)"

lemma parse_resource_wf: "parse_resource path sub = Some t \<Longrightarrow> wf_target t"
  using parse_resource_SomeD [of path sub t] by (auto simp: wf_target_def split: option.splits)

lemma parse_target_wf: "parse_target path = Some t \<Longrightarrow> wf_target t"
  using parse_resource_wf parse_subresource_SomeD by (auto simp: parse_target_def split: option.splits)

subsection \<open>Properties\<close>

text \<open>
  C31: every target the API accepts addresses the registry soundly: the key of a named target is a
  valid registry key, and it has the resource, the namespace and the name of the target as its
  segments.
\<close>

theorem target_key_valid:
  assumes "parse_target path = Some t" and "tname t = Some n"
  shows "is_ok (new_store_key (target_prefix t @ n))
    \<and> split_on CHR ''/'' (target_prefix t @ n)
        = ['''', ''registry'', plural (resource t)] @ (case namespace t of None \<Rightarrow> [] | Some ns \<Rightarrow> [ns]) @ [n]"
proof -
  have wf: "wf_target t" using parse_target_wf [OF assms(1)] .
  then have "valid_segment (plural (resource t))"
    using catalogue_segments by (auto simp: wf_target_def list_all_iff)
  moreover have "valid_segment n" using wf assms(2) resource_name_segment by (auto simp: wf_target_def)
  moreover have "valid_segment ns" if "namespace t = Some ns" for ns
    using wf that label_segment by (auto simp: wf_target_def)
  ultimately show ?thesis
    using key4_ok key5_ok split_key4 split_key5 segment_no_slash
    by (cases "namespace t") (auto simp: target_prefix_def)
qed

theorem target_key_valid_witness:
  "is_ok (new_store_key ''/registry/pods/team-a/web-0'')"
proof -
  let ?t = "\<lparr>resource = res '''' ''pods'' ''Pod'' True, namespace = Some ''team-a'', tname = Some ''web-0'', subresource = Some ''status''\<rparr>"
  have "parse_target ''/api/v1/namespaces/team-a/pods/web-0/status'' = Some ?t" by code_simp
  from target_key_valid [OF this] show ?thesis by (simp add: target_prefix_def res_def)
qed

text \<open>The path of a target.\<close>

definition target_parts :: "target \<Rightarrow> string list" where
  "target_parts t =
     (if api_group (resource t) = [] then [''api''] else [''apis'', api_group (resource t)]) @ [version (resource t)]
     @ (case namespace t of None \<Rightarrow> [] | Some ns \<Rightarrow> [''namespaces'', ns]) @ [plural (resource t)]
     @ (case tname t of None \<Rightarrow> [] | Some n \<Rightarrow> [n])"

definition path_of :: "string list \<Rightarrow> string" where
  "path_of ps = concat (map (\<lambda>p. ''/'' @ p) ps)"

definition target_path :: "target \<Rightarrow> string" where
  "target_path t = path_of (target_parts t @ (case subresource t of None \<Rightarrow> [] | Some s \<Rightarrow> [s]))"

lemma split_path_of: "\<forall>p \<in> set ps. CHR ''/'' \<notin> set p \<Longrightarrow> split_on CHR ''/'' (path_of ps) = [] # ps"
proof (induction ps)
  case Nil
  then show ?case by (simp add: path_of_def)
next
  case (Cons p ps)
  have "path_of (p # ps) = CHR ''/'' # p @ path_of ps" by (simp add: path_of_def)
  moreover have "split_on CHR ''/'' (p @ path_of ps) = p # ps"
  proof (cases ps)
    case Nil
    with Cons.prems show ?thesis by (simp add: path_of_def split_on_no_sep)
  next
    case (Cons q qs)
    then have "path_of ps = CHR ''/'' # tl (path_of ps)" by (simp add: path_of_def)
    moreover have "split_on CHR ''/'' (tl (path_of ps)) = ps"
      using Cons.IH Cons.prems calculation by (metis list.sel(3) list.set_intros(2) split_on.simps(2))
    ultimately show ?thesis using Cons.prems split_on_sep [of "CHR ''/''" p "tl (path_of ps)"] by simp
  qed
  ultimately show ?case by simp
qed

lemma path_of_parts:
  assumes "\<forall>p \<in> set ps. CHR ''/'' \<notin> set p" and "ps \<noteq> []"
  shows "\<exists>q. strip_prefix ''/'' (path_of ps) = Some q \<and> split_on CHR ''/'' q = ps"
proof -
  obtain p qs where ps: "ps = p # qs" using assms(2) by (cases ps) auto
  let ?q = "p @ path_of qs"
  have q: "path_of ps = CHR ''/'' # ?q" by (simp add: ps path_of_def)
  then have "strip_prefix ''/'' (path_of ps) = Some ?q" by (simp add: strip_prefix_Some_iff)
  moreover have "split_on CHR ''/'' ?q = ps" using split_path_of [OF assms(1)] q by simp
  ultimately show ?thesis by blast
qed

lemma wf_target_parts:
  assumes "wf_target t"
  shows "\<forall>p \<in> set (target_parts t). CHR ''/'' \<notin> set p"
proof -
  have cat: "valid_segment (plural (resource t))" "valid_segment (version (resource t))"
    "api_group (resource t) = '''' \<or> valid_segment (api_group (resource t))"
    using assms catalogue_segments by (auto simp: wf_target_def list_all_iff)
  have "CHR ''/'' \<notin> set ns" if "namespace t = Some ns" for ns
    using assms that label_segment segment_no_slash by (auto simp: wf_target_def)
  moreover have "CHR ''/'' \<notin> set n" if "tname t = Some n" for n
    using assms that resource_name_segment segment_no_slash by (auto simp: wf_target_def)
  ultimately show ?thesis
    using cat by (cases "namespace t"; cases "tname t")
      (auto simp: target_parts_def dest: segment_no_slash)
qed

lemma parse_resource_path_of:
  assumes wf: "wf_target t" and sub: "sub = None \<or> sub = subresource t"
  shows "parse_resource (path_of (target_parts t)) sub = Some (t\<lparr>subresource := sub\<rparr>)"
proof -
  obtain q where q: "strip_prefix ''/'' (path_of (target_parts t)) = Some q" "split_on CHR ''/'' q = target_parts t"
    using path_of_parts [OF wf_target_parts [OF wf]] by (auto simp: target_parts_def)
  obtain rest where parts: "path_parts (target_parts t) = Some (api_group (resource t), version (resource t), rest)"
    and tail: "tail_parts rest = Some (namespace t, plural (resource t), tname t)"
    by (cases "namespace t"; cases "tname t") (auto simp: target_parts_def tail_parts_def)
  have find: "List.find (\<lambda>r. api_group r = api_group (resource t) \<and> version r = version (resource t)
      \<and> plural r = plural (resource t)) RESOURCES = Some (resource t)"
    using wf catalogue_find by (simp add: wf_target_def)
  show ?thesis
    using wf sub unfolding parse_resource_def q parts tail find option.case prod.case
    by (cases "namespace t"; cases "tname t"; cases "subresource t") (auto simp: wf_target_def)
qed

lemma parse_resource_with_subresource:
  assumes wf: "wf_target t" and s: "s \<in> {''status'', ''binding'', ''log'', ''exec'', ''token''}"
    and n: "tname t = Some n"
  shows "parse_resource (path_of (target_parts t @ [s])) None = None"
proof -
  have noslash: "\<forall>p \<in> set (target_parts t @ [s]). CHR ''/'' \<notin> set p"
    using wf_target_parts [OF wf] s by auto
  obtain q where q: "strip_prefix ''/'' (path_of (target_parts t @ [s])) = Some q"
    "split_on CHR ''/'' q = target_parts t @ [s]"
    using path_of_parts [OF noslash] by auto
  obtain rest where parts: "path_parts (target_parts t @ [s]) = Some (api_group (resource t), version (resource t), rest)"
    and tail: "tail_parts rest = None \<or> (\<exists>ns. tail_parts rest = Some (ns, s, None))"
    using n by (cases "namespace t") (auto simp: target_parts_def tail_parts_def)
  have none: "List.find (\<lambda>r. api_group r = g \<and> version r = v \<and> plural r = s) RESOURCES = None" for g v
    using catalogue_segments s by (auto simp: find_None_elem list_all_iff)
  show ?thesis
    using tail unfolding parse_resource_def q parts option.case prod.case by (auto simp: none)
qed

lemma strip_path_suffix:
  assumes "CHR ''/'' \<notin> set a" and "CHR ''/'' \<notin> set s"
  shows "strip_suffix (''/'' @ a) (path_of (ps @ [s])) = (if a = s then Some (path_of ps) else None)"
proof -
  have p: "path_of (ps @ [s]) = path_of ps @ CHR ''/'' # s" by (simp add: path_of_def)
  show ?thesis
  proof (cases "a = s")
    case True
    then show ?thesis using p by (simp add: strip_suffix_Some_iff)
  next
    case False
    have "\<not> (\<exists>t. path_of ps @ CHR ''/'' # s = t @ CHR ''/'' # a)"
    proof
      assume "\<exists>t. path_of ps @ CHR ''/'' # s = t @ CHR ''/'' # a"
      then obtain t where "path_of ps @ CHR ''/'' # s = t @ CHR ''/'' # a" by blast
      then have "split_once CHR ''/'' (rev s @ CHR ''/'' # rev (path_of ps))
          = split_once CHR ''/'' (rev a @ CHR ''/'' # rev t)"
        by (metis append.assoc append_Cons append_Nil rev.simps(2) rev_append)
      with assms False show False by (simp add: split_once_sep)
    qed
    then show ?thesis using False p by (simp add: strip_suffix_def ends_with_iff)
  qed
qed

text \<open>
  Paths and targets determine each other: the path of every well-formed target parses to that
  target, subresources included, so no object's name can be mistaken for a subresource or for
  another resource.
\<close>

theorem target_path_roundtrip:
  assumes "wf_target t"
  shows "parse_target (target_path t) = Some t"
proof (cases "subresource t")
  case None
  then have "target_path t = path_of (target_parts t)" "t\<lparr>subresource := None\<rparr> = t"
    by (simp_all add: target_path_def)
  with parse_resource_path_of [OF assms, of None] show ?thesis by (simp add: parse_target_def)
next
  case (Some s)
  have t: "t\<lparr>subresource := Some s\<rparr> = t" using Some by simp
  from assms Some obtain n where n: "tname t = Some n" "subresource_ok (resource t) s"
    by (auto simp: wf_target_def)
  then have s: "s \<in> {''status'', ''binding'', ''log'', ''exec'', ''token''}"
    by (auto simp: subresource_ok_def split: if_splits)
  have path: "target_path t = path_of (target_parts t @ [s])" using Some by (simp add: target_path_def)
  have none: "parse_resource (path_of (target_parts t @ [s])) None = None"
    by (rule parse_resource_with_subresource [OF assms s n(1)])
  have hit: "parse_resource (path_of (target_parts t)) (Some s) = Some t"
    using parse_resource_path_of [OF assms, of "Some s"] Some t by simp
  have strip: "strip_suffix (''/'' @ a) (path_of (target_parts t @ [s])) = (if a = s then Some (path_of (target_parts t)) else None)"
    if "a \<in> {''status'', ''binding'', ''log'', ''exec'', ''token''}" for a
    using that s by (intro strip_path_suffix) auto
  show ?thesis
    unfolding parse_target_def path none
    using s hit by (auto simp: strip [simplified])
qed

theorem target_path_roundtrip_witness:
  "parse_target ''/api/v1/namespaces/ns/pods/status/log''
     = Some \<lparr>resource = res '''' ''pods'' ''Pod'' True, namespace = Some ''ns'', tname = Some ''status'', subresource = Some ''log''\<rparr>"
proof -
  let ?t = "\<lparr>resource = res '''' ''pods'' ''Pod'' True, namespace = Some ''ns'', tname = Some ''status'', subresource = Some ''log''\<rparr>"
  have wf: "wf_target ?t" by code_simp
  have "target_path ?t = ''/api/v1/namespaces/ns/pods/status/log''" by code_simp
  with target_path_roundtrip [OF wf] show ?thesis by simp
qed

end
