(* ===== verification/Api.thy ===== *)
theory Api
  imports Resources Store_Watch "HOL-Library.Sublist"
begin

text \<open>
  The API's access to the registry (\<^verbatim>\<open>crates/h3s-apiserver/src/lib.rs\<close>): decoding a stored object,
  keys, and the page loop every handler that lists uses.  The JSON text codec, the custody, the
  random identifier and the clock reading of a request are the record \<open>env\<close>: third-party code and
  the outside world.
\<close>

named_theorems api_simps \<open>equations of the API's registry access\<close>



record env =
  from_slice :: "string \<Rightarrow> json option"
  to_vec :: "json \<Rightarrow> string"
  custody :: sealer
  new_uid :: "string \<Rightarrow> string"
  clock :: string

subsection \<open>Objects and keys\<close>

definition object :: "env \<Rightarrow> stored_object \<Rightarrow> json answer" where
  "object a ob =
     (case from_slice a (ovalue ob) of None \<Rightarrow> fail 500 ''InternalError'' ''invalid stored object'' | Some v \<Rightarrow>
        if \<not> is_object (idx v ''metadata'') then fail 500 ''InternalError'' ''invalid stored metadata''
        else
          let meta = idx v ''metadata'';
              meta = (if as_str (idx meta ''namespace'') = Some '''' then remove_member meta ''namespace'' else meta);
              meta = (case meta of JObj m \<Rightarrow> JObj (put ''resourceVersion'' (JStr (show_nat (orevision ob))) m) | x \<Rightarrow> x)
          in Inr (case v of JObj m \<Rightarrow> JObj (put ''metadata'' meta m) | x \<Rightarrow> x))"

definition api_key :: "string \<Rightarrow> string answer" where
  "api_key v = map_err of_store_error (new_store_key v)"

text \<open>\<open>named\<close> is only called with a named target.\<close>

definition named :: "target \<Rightarrow> string answer" where
  "named t = api_key (target_prefix t @ (case tname t of None \<Rightarrow> '''' | Some n \<Rightarrow> n))"

definition stored :: "env \<Rightarrow> string \<Rightarrow> json \<Rightarrow> stored_object" where
  "stored a k v = \<lparr>okey = k, ovalue = to_vec a v, orevision = 0\<rparr>"

definition api_get :: "env \<Rightarrow> registry \<Rightarrow> string \<Rightarrow> stored_object option answer" where
  "api_get a db k = map_err of_store_error (get (custody a) db k)"

definition fetch :: "env \<Rightarrow> registry \<Rightarrow> string \<Rightarrow> string \<Rightarrow> stored_object answer" where
  "fetch a db k missing =
     andThen (api_get a db k) (\<lambda>x. case x of None \<Rightarrow> fail 404 ''NotFound'' missing | Some ob \<Rightarrow> Inr ob)"

subsection \<open>Reading every page\<close>

datatype 'a flow = Continue 'a | Break 'a

fun flow_state :: "'a flow \<Rightarrow> 'a" where
  "flow_state (Continue x) = x"
| "flow_state (Break x) = x"

fun item_loop :: "('a \<Rightarrow> stored_object \<Rightarrow> 'a flow answer) \<Rightarrow> 'a \<Rightarrow> stored_object list \<Rightarrow> 'a flow answer" where
  "item_loop f x [] = Inr (Continue x)"
| "item_loop f x (ob # obs) =
     (case f x ob of
        Inl e \<Rightarrow> Inl e
      | Inr (Break y) \<Rightarrow> Inr (Break y)
      | Inr (Continue y) \<Rightarrow> item_loop f y obs)"

definition keys_left :: "list_select \<Rightarrow> registry \<Rightarrow> nat" where
  "keys_left sel db = length (filter (\<lambda>v. (case start_after sel of None \<Rightarrow> '''' | Some k \<Rightarrow> k) < vkey v) (versions db))"

lemma decode_rows_keys:
  "try_map (decode_row s) vs = Inr obs \<Longrightarrow> map okey obs = map vkey vs"
  by (rule list_all2_okey) (simp add: try_map_Inr_iff)

lemma next_after_progress:
  assumes "list_page s sel db = Inr page" and "next_after page = Some k"
  shows "\<exists>v \<in> set (versions db). vkey v = k \<and> (case start_after sel of None \<Rightarrow> '''' | Some a \<Rightarrow> a) < k"
proof -
  let ?a = "case start_after sel of None \<Rightarrow> '''' | Some a \<Rightarrow> a"
  from assms obtain r objs where o: "try_map (decode_row s) (take (limit sel + 1) (list_rows db (lprefix sel) ?a r)) = Inr objs"
    and l: "length objs > limit sel" and ne: "butlast objs \<noteq> []" and k: "k = okey (last (butlast objs))"
    by (auto simp: list_page_def andThen_Inr_iff Let_def split: if_splits)
  have "k \<in> set (map okey objs)" using last_in_set [OF ne] k by (auto dest: in_set_butlastD)
  then have "k \<in> vkey ` set (list_rows db (lprefix sel) ?a r)"
    unfolding decode_rows_keys [OF o] by (auto dest: in_set_takeD)
  then show ?thesis by (auto simp: list_rows_def)
qed

lemma keys_left_decreases:
  assumes "list_page s sel db = Inr page" and "next_after page = Some k"
  shows "keys_left (sel\<lparr>at_revision := r, start_after := Some k\<rparr>) db < keys_left sel db"
proof -
  let ?a = "case start_after sel of None \<Rightarrow> '''' | Some a \<Rightarrow> a"
  obtain v where v: "v \<in> set (versions db)" "vkey v = k" "?a < k" using next_after_progress [OF assms] by blast
  have "filter (\<lambda>v. k < vkey v) (versions db) = filter (\<lambda>v. k < vkey v) (filter (\<lambda>v. ?a < vkey v) (versions db))"
    using v(3) by (auto simp: filter_filter intro!: filter_cong intro: less_trans)
  moreover have "length (filter (\<lambda>v. k < vkey v) (filter (\<lambda>v. ?a < vkey v) (versions db)))
      < length (filter (\<lambda>v. ?a < vkey v) (versions db))"
    by (rule length_filter_less [of v]) (use v in auto)
  ultimately show ?thesis by (simp add: keys_left_def)
qed

function page_loop :: "sealer \<Rightarrow> ('a \<Rightarrow> stored_object \<Rightarrow> 'a flow answer) \<Rightarrow> 'a \<Rightarrow> list_select \<Rightarrow> registry
    \<Rightarrow> (nat \<times> 'a) answer" where
  "page_loop s f x sel db =
     (case list_page s sel db of
        Inl e \<Rightarrow> Inl (of_store_error e)
      | Inr page \<Rightarrow>
          (case item_loop f x (litems page) of
             Inl e \<Rightarrow> Inl e
           | Inr (Break y) \<Rightarrow> Inr (lrevision page, y)
           | Inr (Continue y) \<Rightarrow>
               (case next_after page of
                  None \<Rightarrow> Inr (lrevision page, y)
                | Some k \<Rightarrow> page_loop s f y (sel\<lparr>at_revision := Some (lrevision page), start_after := Some k\<rparr>) db)))"
  by pat_completeness auto

termination page_loop
  by (relation "measure (\<lambda>(s, f, x, sel, db). keys_left sel db)") (auto dest: keys_left_decreases)

declare page_loop.simps [simp del]

definition select :: "string \<Rightarrow> nat option \<Rightarrow> list_select" where
  "select p r = \<lparr>lprefix = p, at_revision = r, start_after = None, limit = 256\<rparr>"

subsection \<open>The page loop is a loop over the snapshot\<close>

lemma item_loop_append:
  "item_loop f x (xs @ ys) =
     (case item_loop f x xs of Inr (Continue y) \<Rightarrow> item_loop f y ys | r \<Rightarrow> r)"
  by (induction xs arbitrary: x) (auto split: sum.splits flow.splits)

lemma page_revision_fixed:
  assumes "list_page s sel db = Inr page" and "wf_registry db"
  shows "page_revision (sel\<lparr>at_revision := Some (lrevision page), start_after := k\<rparr>) db = page_revision sel db"
  using list_page_exact(1) [OF assms(2,1)] by (auto simp: page_revision_def split: option.split)

text \<open>
  A page loop that answers has walked the live keys of one revision in order: a prefix of them when
  the loop body stopped it, all of them otherwise.
\<close>

lemma page_loop_exact:
  assumes wf: "wf_registry db" and res: "page_loop s f x sel db = Inr (q, y)"
  shows "q = page_revision sel db \<and>
    (\<exists>ks obs fl. prefix ks (live_keys db (lprefix sel) (page_after sel) (page_revision sel db))
      \<and> map Some obs = map (view s (lprefix sel) db (page_revision sel db)) ks
      \<and> item_loop f x obs = Inr fl \<and> y = flow_state fl
      \<and> (fl = Continue y \<longrightarrow> ks = live_keys db (lprefix sel) (page_after sel) (page_revision sel db)))"
  using assms
proof (induction s f x sel db rule: page_loop.induct)
  case (1 s f x sel db)
  note wf = "1.prems"(1)
  let ?r = "page_revision sel db" and ?n = "limit sel"
  let ?keys = "live_keys db (lprefix sel) (page_after sel) ?r"
  obtain page where page: "list_page s sel db = Inr page"
    using "1.prems"(2) by (subst (asm) page_loop.simps) (auto split: sum.splits)
  note ex = list_page_exact [OF wf page]
  obtain fl where fl: "item_loop f x (litems page) = Inr fl"
    using "1.prems"(2) page by (subst (asm) page_loop.simps) (auto split: sum.splits)
  show ?case
  proof (cases fl)
    case (Break z)
    then have "q = ?r" "y = z" using "1.prems"(2) page fl ex(1) by (auto simp: page_loop.simps)
    with Break fl ex(5) show ?thesis
      by (intro conjI exI [of _ "take ?n ?keys"] exI [of _ "litems page"] exI [of _ fl]) (auto simp: take_is_prefix)
  next
    case (Continue z)
    show ?thesis
    proof (cases "next_after page")
      case None
      then have "q = ?r" "y = z" using "1.prems"(2) page fl ex(1) Continue by (auto simp: page_loop.simps)
      moreover have "take ?n ?keys = ?keys" using None ex(6) by (auto split: if_splits)
      ultimately show ?thesis using Continue fl ex(5)
        by (intro conjI exI [of _ ?keys] exI [of _ "litems page"] exI [of _ fl]) auto
    next
      case (Some k)
      let ?sel = "sel\<lparr>at_revision := Some (lrevision page), start_after := Some k\<rparr>"
      have res: "page_loop s f z ?sel db = Inr (q, y)"
        using "1.prems"(2) page fl Continue Some by (subst (asm) page_loop.simps) simp
      note IH = "1.IH" [OF page fl Continue Some wf res]
      have rr: "page_revision ?sel db = ?r" by (rule page_revision_fixed [OF page wf])
      have k: "k = ?keys ! (?n - 1)" "?n < length ?keys" using ex(6) Some by (auto split: if_splits)
      have rest: "live_keys db (lprefix sel) (page_after ?sel) ?r = drop ?n ?keys"
        using live_keys_after [OF k(1)] k(2) ex(4) by (simp add: page_after_def)
      from IH [unfolded rr] rest obtain ks obs gl where g: "q = ?r" "prefix ks (drop ?n ?keys)"
        "map Some obs = map (view s (lprefix sel) db ?r) ks" "item_loop f z obs = Inr gl" "y = flow_state gl"
        "gl = Continue y \<longrightarrow> ks = drop ?n ?keys"
        by auto
      have "prefix (take ?n ?keys @ ks) ?keys"
        using g(2) by (metis append_take_drop_id same_prefix_prefix)
      moreover have "map Some (litems page @ obs) = map (view s (lprefix sel) db ?r) (take ?n ?keys @ ks)"
        using ex(5) g(3) by simp
      moreover have "item_loop f x (litems page @ obs) = Inr gl"
        using fl Continue g(4) by (simp add: item_loop_append)
      ultimately show ?thesis using g(1,5,6)
        by (intro conjI exI [of _ "take ?n ?keys @ ks"] exI [of _ "litems page @ obs"] exI [of _ gl]) auto
    qed
  qed
qed

lemma live_keys_iff:
  "k \<in> set (live_keys db p after r) \<longleftrightarrow> starts_with p k \<and> after < k \<and> snapshot db r k \<noteq> None"
proof -
  have "k \<in> vkey ` set (versions db)" if "snapshot db r k = Some ob" for ob
    using snapshot_SomeD [OF that] by (auto simp: row_object_def)
  then show ?thesis by (auto simp: live_keys_def)
qed

lemma map_Some_member: "map Some xs = map f ks \<Longrightarrow> x \<in> set xs \<longleftrightarrow> (\<exists>k \<in> set ks. f k = Some x)"
proof (induction ks arbitrary: xs)
  case (Cons k ks)
  then show ?case by (cases xs) auto
qed simp

text \<open>A loop body that never stops collects from every live object under the prefix.\<close>

lemma collect_loop:
  "item_loop (\<lambda>x ob. andThen (d ob) (\<lambda>v. Inr (Continue (h x v)))) x obs = Inr fl \<Longrightarrow>
   \<exists>vs. list_all2 (\<lambda>ob v. d ob = Inr v) obs vs \<and> fl = Continue (foldl h x vs)"
proof (induction obs arbitrary: x)
  case (Cons ob obs)
  obtain v where v: "d ob = Inr v" using Cons.prems by (cases "d ob") auto
  with Cons obtain vs where "list_all2 (\<lambda>ob v. d ob = Inr v) obs vs" "fl = Continue (foldl h (h x v) vs)"
    by fastforce
  with v show ?case by (intro exI [of _ "v # vs"]) simp
qed auto

lemma page_collect:
  assumes wf: "wf_registry db" and p: "p \<noteq> []"
    and loop: "page_loop s (\<lambda>x ob. andThen (d ob) (\<lambda>v. Inr (Continue (h x v)))) x (select p None) db = Inr (q, y)"
  shows "\<exists>vs. q = revision db \<and> y = foldl h x vs
    \<and> (\<forall>v. v \<in> set vs \<longleftrightarrow> (\<exists>k ob. view s p db q k = Some ob \<and> d ob = Inr v))
    \<and> (\<forall>k ob. view s p db q k = Some ob \<longrightarrow> is_ok (d ob))"
proof -
  have sel: "page_revision (select p None) db = revision db" "lprefix (select p None) = p" "page_after (select p None) = []"
    by (simp_all add: page_revision_def select_def page_after_def)
  from page_loop_exact [OF wf loop, unfolded sel] obtain ks obs fl where
    ks: "q = revision db" "map Some obs = map (view s p db q) ks"
    and fl: "item_loop (\<lambda>x ob. andThen (d ob) (\<lambda>v. Inr (Continue (h x v)))) x obs = Inr fl" "y = flow_state fl"
      "fl = Continue y \<longrightarrow> ks = live_keys db p [] q" by blast
  from collect_loop [OF fl(1)] obtain vs where vs: "list_all2 (\<lambda>ob v. d ob = Inr v) obs vs" "fl = Continue (foldl h x vs)"
    by blast
  then have all: "ks = live_keys db p [] q" and y: "y = foldl h x vs" using fl(2,3) by auto
  have ob: "ob \<in> set obs \<longleftrightarrow> (\<exists>k. view s p db q k = Some ob)" for ob
  proof -
    have "k \<in> set ks" if "view s p db q k = Some ob" for k
      using view_SomeD(2,3) [OF that] p by (cases k) (auto simp: all live_keys_iff starts_with_def)
    then show ?thesis unfolding map_Some_member [OF ks(2)] by blast
  qed
  have v: "v \<in> set vs \<longleftrightarrow> (\<exists>ob \<in> set obs. d ob = Inr v)" for v
    using vs(1) by (induction rule: list_all2_induct) auto
  have "is_ok (d ob)" if "ob \<in> set obs" for ob
    using vs(1) that by (induction rule: list_all2_induct) auto
  then have "\<forall>k ob. view s p db q k = Some ob \<longrightarrow> is_ok (d ob)" using ob by blast
  moreover have "\<forall>v. v \<in> set vs \<longleftrightarrow> (\<exists>k ob. view s p db q k = Some ob \<and> d ob = Inr v)"
    unfolding v using ob by blast
  ultimately show ?thesis using ks(1) y by blast
qed

end
