(* ===== verification/Auth.thy ===== *)
theory Auth
  imports H3s_Prelude
begin

text \<open>
  Identities and RBAC evaluation (\<^verbatim>\<open>crates/h3s-auth/src/lib.rs\<close>), the node authorizer
  (\<^verbatim>\<open>node.rs\<close>) and the form of bootstrap secrets (\<^verbatim>\<open>bootstrap.rs\<close>).  The typed RBAC objects keep
  the fields the evaluation reads.  Parsing a certificate is a parameter: its common names and
  organizations, each either text or not decodable.
\<close>

named_theorems auth_simps \<open>equations of the authorization decisions\<close>

subsection \<open>Objects\<close>

definition RBAC_GROUP :: string where
  "RBAC_GROUP = ''rbac.authorization.k8s.io''"

record user =
  user_name :: string
  user_groups :: "string list"

record policy_rule =
  verbs :: "string list"
  api_groups :: "string list option"
  rule_resources :: "string list option"
  resource_names :: "string list option"
  non_resource_urls :: "string list option"

record role =
  role_ns :: "string option"
  role_name :: "string option"
  role_rules :: "policy_rule list option"

record subject =
  subject_kind :: string
  subject_group :: "string option"
  subject_name :: string
  subject_ns :: "string option"

record role_ref =
  ref_group :: string
  ref_kind :: string
  ref_name :: string

record binding =
  binding_ns :: "string option"
  binding_name :: "string option"
  binding_ref :: role_ref
  binding_subjects :: "subject list option"

record rbac =
  roles :: "role list"
  cluster_roles :: "role list"
  role_bindings :: "binding list"
  cluster_role_bindings :: "binding list"

record resource_request =
  req_verb :: string
  req_group :: string
  req_resource :: string
  req_sub :: "string option"
  req_ns :: "string option"
  req_name :: "string option"

datatype request = ResourceReq resource_request | NonResource string string

subsection \<open>Identities\<close>

text \<open>\<^verbatim>\<open>char::is_control\<close> on the UTF-8 bytes: U+0000 to U+001F and U+007F to U+009F.\<close>

fun has_control :: "string \<Rightarrow> bool" where
  "has_control (a # b # s) \<longleftrightarrow>
     (of_char a < (32::nat) \<or> of_char a = (127::nat)
      \<or> (of_char a = (194::nat) \<and> (128::nat) \<le> of_char b \<and> of_char b \<le> (159::nat))
      \<or> has_control (b # s))"
| "has_control [a] \<longleftrightarrow> of_char a < (32::nat) \<or> of_char a = (127::nat)"
| "has_control [] \<longleftrightarrow> False"

fun add_organizations :: "string list \<Rightarrow> string option list \<Rightarrow> string list option" where
  "add_organizations groups [] = Some groups"
| "add_organizations groups (None # os) = None"
| "add_organizations groups (Some g # os) =
     (if g = [] \<or> has_control g then None
      else add_organizations (if g \<in> set groups then groups else groups @ [g]) os)"

text \<open>
  \<^verbatim>\<open>from_verified_certificate\<close>: \<open>parsed\<close> is the third-party parser's reading, with the bytes left
  over, the common names and the organizations of the subject; \<open>None\<close> is the invalid identity.
\<close>

definition from_verified_certificate ::
  "(string \<times> string option list \<times> string option list) option \<Rightarrow> user option" where
  "from_verified_certificate parsed =
     (case parsed of None \<Rightarrow> None | Some (remaining, names, orgs) \<Rightarrow>
        if remaining \<noteq> [] then None
        else if length names \<noteq> 1 then None
        else (case names ! 0 of None \<Rightarrow> None | Some name \<Rightarrow>
          if name = [] \<or> has_control name then None
          else (case add_organizations [] orgs of None \<Rightarrow> None | Some groups \<Rightarrow>
            Some \<lparr>user_name = name,
                  user_groups = (if ''system:authenticated'' \<in> set groups then groups
                                 else groups @ [''system:authenticated''])\<rparr>)))"

definition is_superuser :: "user \<Rightarrow> bool" where
  "is_superuser u = list_ex (\<lambda>g. g = ''system:masters'') (user_groups u)"

definition node_name :: "user \<Rightarrow> string option" where
  "node_name u =
     (if list_ex (\<lambda>g. g = ''system:nodes'') (user_groups u)
      then (case strip_prefix ''system:node:'' (user_name u) of
              None \<Rightarrow> None | Some n \<Rightarrow> if n \<noteq> [] then Some n else None)
      else None)"

definition valid_token :: "string \<Rightarrow> bool" where
  "valid_token t \<longleftrightarrow> 32 \<le> length t \<and> length t \<le> 256 \<and> list_all is_graphic t"

definition valid_password :: "string \<Rightarrow> bool" where
  "valid_password p \<longleftrightarrow> length p = 64 \<and> list_all is_hexdigit p"

subsection \<open>Rules\<close>

definition contains :: "string list option \<Rightarrow> string \<Rightarrow> bool" where
  "contains vs x = list_ex (\<lambda>v. v = ''*'' \<or> v = x) (case vs of None \<Rightarrow> [] | Some l \<Rightarrow> l)"

definition request_verb_of :: "request \<Rightarrow> string" where
  "request_verb_of req = (case req of ResourceReq r \<Rightarrow> req_verb r | NonResource v _ \<Rightarrow> v)"

definition url_matches :: "string \<Rightarrow> string \<Rightarrow> bool" where
  "url_matches url path \<longleftrightarrow> url = ''*'' \<or> url = path
     \<or> (case strip_suffix ''*'' url of None \<Rightarrow> False | Some p \<Rightarrow> starts_with p path)"

definition request_resource :: "resource_request \<Rightarrow> string" where
  "request_resource r =
     (case filled (req_sub r) of Some sub \<Rightarrow> req_resource r @ ''/'' @ sub | None \<Rightarrow> req_resource r)"

definition resource_matches :: "string \<Rightarrow> resource_request \<Rightarrow> bool" where
  "resource_matches v r \<longleftrightarrow> v = ''*'' \<or> v = request_resource r
     \<or> (case filled (req_sub r) of Some sub \<Rightarrow> v = ''*/'' @ sub | None \<Rightarrow> False)"

definition name_matches :: "string list option \<Rightarrow> string option \<Rightarrow> bool" where
  "name_matches names name =
     (case names of None \<Rightarrow> True
      | Some ns \<Rightarrow> if ns = [] then True else (case name of None \<Rightarrow> False | Some n \<Rightarrow> n \<in> set ns))"

definition rule_allows :: "policy_rule \<Rightarrow> request \<Rightarrow> bool" where
  "rule_allows rule req =
     (if \<not> contains (Some (verbs rule)) (request_verb_of req) then False
      else case req of
        NonResource _ path \<Rightarrow>
          list_ex (\<lambda>url. url_matches url path) (case non_resource_urls rule of None \<Rightarrow> [] | Some us \<Rightarrow> us)
      | ResourceReq r \<Rightarrow>
          if \<not> contains (api_groups rule) (req_group r) then False
          else list_ex (\<lambda>v. resource_matches v r) (case rule_resources rule of None \<Rightarrow> [] | Some vs \<Rightarrow> vs)
            \<and> name_matches (resource_names rule) (req_name r))"

definition rules_allow :: "policy_rule list option \<Rightarrow> request \<Rightarrow> bool" where
  "rules_allow rules req = list_ex (\<lambda>r. rule_allows r req) (case rules of None \<Rightarrow> [] | Some rs \<Rightarrow> rs)"

subsection \<open>Bindings\<close>

definition subject_matches :: "user \<Rightarrow> string option \<Rightarrow> subject \<Rightarrow> bool" where
  "subject_matches u ns s =
     (if subject_kind s = ''User'' then subject_group s = Some RBAC_GROUP \<and> subject_name s = user_name u
      else if subject_kind s = ''Group'' then subject_group s = Some RBAC_GROUP \<and> subject_name s \<in> set (user_groups u)
      else if subject_kind s = ''ServiceAccount'' then
        (case subject_group s of None \<Rightarrow> True | Some g \<Rightarrow> g = [])
        \<and> (case filled (case subject_ns s of Some n \<Rightarrow> Some n | None \<Rightarrow> ns) of
             None \<Rightarrow> False
           | Some n \<Rightarrow> user_name u = ''system:serviceaccount:'' @ n @ '':'' @ subject_name s)
      else False)"

definition subjects_match :: "subject list option \<Rightarrow> user \<Rightarrow> string option \<Rightarrow> bool" where
  "subjects_match ss u ns = list_ex (subject_matches u ns) (case ss of None \<Rightarrow> [] | Some l \<Rightarrow> l)"

definition find_cluster_role :: "rbac \<Rightarrow> string \<Rightarrow> role option" where
  "find_cluster_role r n = List.find (\<lambda>x. role_name x = Some n) (cluster_roles r)"

definition find_role :: "rbac \<Rightarrow> string \<Rightarrow> string \<Rightarrow> role option" where
  "find_role r ns n = List.find (\<lambda>x. role_ns x = Some ns \<and> role_name x = Some n) (roles r)"

text \<open>The loop over the cluster role bindings, then the loop over the role bindings.\<close>

fun cluster_loop :: "rbac \<Rightarrow> user \<Rightarrow> request \<Rightarrow> binding list \<Rightarrow> bool" where
  "cluster_loop r u req [] = False"
| "cluster_loop r u req (b # bs) =
     (if ref_group (binding_ref b) \<noteq> RBAC_GROUP \<or> ref_kind (binding_ref b) \<noteq> ''ClusterRole''
         \<or> \<not> subjects_match (binding_subjects b) u None
      then cluster_loop r u req bs
      else (case find_cluster_role r (ref_name (binding_ref b)) of
              Some x \<Rightarrow> if rules_allow (role_rules x) req then True else cluster_loop r u req bs
            | None \<Rightarrow> cluster_loop r u req bs))"

definition referenced_rules :: "rbac \<Rightarrow> string \<Rightarrow> role_ref \<Rightarrow> policy_rule list option" where
  "referenced_rules r ns ref =
     (if ref_kind ref = ''Role'' then Option.bind (find_role r ns (ref_name ref)) role_rules
      else if ref_kind ref = ''ClusterRole'' then Option.bind (find_cluster_role r (ref_name ref)) role_rules
      else None)"

fun namespace_loop :: "rbac \<Rightarrow> user \<Rightarrow> request \<Rightarrow> string \<Rightarrow> binding list \<Rightarrow> bool" where
  "namespace_loop r u req ns [] = False"
| "namespace_loop r u req ns (b # bs) =
     (if binding_ns b \<noteq> Some ns \<or> ref_group (binding_ref b) \<noteq> RBAC_GROUP
         \<or> \<not> subjects_match (binding_subjects b) u (Some ns)
      then namespace_loop r u req ns bs
      else if rules_allow (referenced_rules r ns (binding_ref b)) req then True
      else namespace_loop r u req ns bs)"

definition request_ns :: "request \<Rightarrow> string option" where
  "request_ns req = (case req of ResourceReq q \<Rightarrow> filled (req_ns q) | NonResource _ _ \<Rightarrow> None)"

definition allows :: "rbac \<Rightarrow> user \<Rightarrow> request \<Rightarrow> bool" where
  "allows r u req =
     (if is_superuser u then True
      else if cluster_loop r u req (cluster_role_bindings r) then True
      else (case request_ns req of
              None \<Rightarrow> False
            | Some ns \<Rightarrow> namespace_loop r u req ns (role_bindings r)))"

subsection \<open>Node authorization\<close>

definition is_read :: "string \<Rightarrow> bool" where
  "is_read v \<longleftrightarrow> v = ''get'' \<or> v = ''list'' \<or> v = ''watch''"

definition node_allows :: "user \<Rightarrow> resource_request \<Rightarrow> string option \<Rightarrow> bool \<Rightarrow> bool" where
  "node_allows u r selected related =
     (case node_name u of None \<Rightarrow> False | Some node \<Rightarrow>
      let read = is_read (req_verb r); g = req_group r; p = req_resource r; sub = req_sub r; v = req_verb r in
      if g = '''' \<and> p = ''nodes'' \<and> sub = None then
        (read \<and> req_name r = Some node) \<or> v = ''create'' \<or> v = ''update'' \<or> v = ''patch''
      else if g = '''' \<and> (p = ''nodes'' \<or> p = ''pods'') \<and> sub = Some ''status'' then v = ''update'' \<or> v = ''patch''
      else if g = '''' \<and> p = ''pods'' \<and> sub = None then
        (if v = ''get'' then related
         else if v = ''list'' \<or> v = ''watch'' then selected = Some node \<or> related
         else if v = ''delete'' then related
         else False)
      else if g = '''' \<and> (p = ''configmaps'' \<or> p = ''secrets'') \<and> sub = None then read \<and> related
      else if (g = '''' \<and> p = ''services'' \<or> g = ''discovery.k8s.io'' \<and> p = ''endpointslices'') \<and> sub = None then read
      else if g = ''coordination.k8s.io'' \<and> p = ''leases'' \<and> sub = None then
        req_ns r = Some ''kube-node-lease''
        \<and> (v = ''create'' \<or> req_name r = Some node \<and> (v = ''get'' \<or> v = ''update'' \<or> v = ''patch'' \<or> v = ''delete''))
      else False)"

definition in_domain :: "string \<Rightarrow> string \<Rightarrow> bool" where
  "in_domain d domain \<longleftrightarrow> domain = d
     \<or> (case strip_suffix d domain of None \<Rightarrow> False | Some p \<Rightarrow> ends_with ''.'' p)"

definition KUBELET_LABELS :: "string list" where
  "KUBELET_LABELS =
     [''kubernetes.io/hostname'', ''kubernetes.io/arch'', ''kubernetes.io/os'',
      ''beta.kubernetes.io/arch'', ''beta.kubernetes.io/os'', ''beta.kubernetes.io/instance-type'',
      ''node.kubernetes.io/instance-type'', ''failure-domain.beta.kubernetes.io/zone'',
      ''failure-domain.beta.kubernetes.io/region'', ''topology.kubernetes.io/zone'',
      ''topology.kubernetes.io/region'']"

definition node_label_allowed :: "string \<Rightarrow> bool" where
  "node_label_allowed key =
     (case split_once CHR ''/'' key of None \<Rightarrow> True | Some (domain, _) \<Rightarrow>
        if domain = ''node-restriction.kubernetes.io'' \<or> ends_with ''.node-restriction.kubernetes.io'' domain
        then False
        else if list_ex (\<lambda>d. in_domain d domain) [''kubelet.kubernetes.io'', ''node.kubernetes.io''] then True
        else if key \<in> set KUBELET_LABELS then True
        else \<not> list_ex (\<lambda>d. in_domain d domain) [''kubernetes.io'', ''k8s.io''])"

subsection \<open>What a snapshot grants\<close>

definition bound_to :: "user \<Rightarrow> string option \<Rightarrow> binding \<Rightarrow> bool" where
  "bound_to u ns b \<longleftrightarrow> ref_group (binding_ref b) = RBAC_GROUP \<and> subjects_match (binding_subjects b) u ns"

definition cluster_grant :: "rbac \<Rightarrow> user \<Rightarrow> request \<Rightarrow> bool" where
  "cluster_grant r u req \<longleftrightarrow> (\<exists>b \<in> set (cluster_role_bindings r). bound_to u None b
     \<and> ref_kind (binding_ref b) = ''ClusterRole''
     \<and> (\<exists>x. find_cluster_role r (ref_name (binding_ref b)) = Some x \<and> rules_allow (role_rules x) req))"

definition namespace_grant :: "rbac \<Rightarrow> user \<Rightarrow> string \<Rightarrow> request \<Rightarrow> bool" where
  "namespace_grant r u ns req \<longleftrightarrow> (\<exists>b \<in> set (role_bindings r). binding_ns b = Some ns \<and> bound_to u (Some ns) b
     \<and> rules_allow (referenced_rules r ns (binding_ref b)) req)"

lemma cluster_loop_iff:
  "cluster_loop r u req bs \<longleftrightarrow> (\<exists>b \<in> set bs. bound_to u None b \<and> ref_kind (binding_ref b) = ''ClusterRole''
     \<and> (\<exists>x. find_cluster_role r (ref_name (binding_ref b)) = Some x \<and> rules_allow (role_rules x) req))"
  by (induction bs) (auto simp: bound_to_def split: option.splits)

lemma namespace_loop_iff:
  "namespace_loop r u req ns bs \<longleftrightarrow> (\<exists>b \<in> set bs. binding_ns b = Some ns \<and> bound_to u (Some ns) b
     \<and> rules_allow (referenced_rules r ns (binding_ref b)) req)"
  by (induction bs) (auto simp: bound_to_def)

lemma allows_iff:
  "allows r u req \<longleftrightarrow> is_superuser u \<or> cluster_grant r u req
     \<or> (\<exists>ns. request_ns req = Some ns \<and> namespace_grant r u ns req)"
  by (auto simp: allows_def cluster_grant_def namespace_grant_def cluster_loop_iff namespace_loop_iff
      split: option.splits)

lemma rules_allow_iff: "rules_allow rs req \<longleftrightarrow> (\<exists>l. rs = Some l \<and> (\<exists>r \<in> set l. rule_allows r req))"
  by (cases rs) (auto simp: rules_allow_def list_ex_iff)

lemma rules_allow_simps [simp, auth_simps]:
  "rules_allow None req = False"
  "rules_allow (Some l) req = (\<exists>r \<in> set l. rule_allows r req)"
  by (auto simp: rules_allow_iff)

lemma contains_iff: "contains vs x \<longleftrightarrow> (\<exists>l. vs = Some l \<and> (''*'' \<in> set l \<or> x \<in> set l))"
  by (cases vs) (auto simp: contains_def list_ex_iff)

text \<open>A rule decides a request by its verb, group, resource and name only: the namespace is not read.\<close>

lemma request_resource_namespace: "request_resource (q\<lparr>req_ns := ns\<rparr>) = request_resource q"
  unfolding request_resource_def by (cases "filled (req_sub q)") (simp_all del: filled_Some_iff)

lemma resource_matches_namespace [simp]: "resource_matches v (q\<lparr>req_ns := ns\<rparr>) = resource_matches v q"
  unfolding resource_matches_def request_resource_namespace by simp

lemma rule_allows_namespace: "rule_allows rule (ResourceReq (q\<lparr>req_ns := ns\<rparr>)) = rule_allows rule (ResourceReq q)"
  by (simp add: rule_allows_def request_verb_of_def)

lemma cluster_grant_namespace:
  "cluster_grant r u (ResourceReq (q\<lparr>req_ns := ns\<rparr>)) = cluster_grant r u (ResourceReq q)"
  by (simp add: cluster_grant_def rules_allow_iff rule_allows_namespace)

text \<open>What holds in the whole cluster holds in every namespace.\<close>

lemma allows_cluster_wide:
  assumes "allows r u (ResourceReq (q\<lparr>req_ns := None\<rparr>))"
  shows "allows r u (ResourceReq (q\<lparr>req_ns := ns\<rparr>))"
  using assms by (auto simp: allows_iff request_ns_def filled_def cluster_grant_namespace)

lemma find_role_local:
  assumes "filter (\<lambda>x. role_ns x = Some ns) (roles r) = filter (\<lambda>x. role_ns x = Some ns) (roles r')"
  shows "find_role r ns n = find_role r' ns n"
proof -
  have *: "List.find (\<lambda>x. role_ns x = Some ns \<and> role_name x = Some n) l
      = List.find (\<lambda>x. role_name x = Some n) (filter (\<lambda>x. role_ns x = Some ns) l)" for l
    by (induction l) auto
  show ?thesis unfolding find_role_def * assms by (rule refl)
qed

lemma rules_allow_case:
  "rules_allow rs req \<longleftrightarrow> (\<exists>rule. rule \<in> set (case rs of None \<Rightarrow> [] | Some l \<Rightarrow> l) \<and> rule_allows rule req)"
  by (cases rs) auto

subsection \<open>Properties\<close>

text \<open>
  C28: the two loops decide exactly what the snapshot grants: a superuser is allowed, otherwise some
  cluster role binding that names the user and an existing cluster role with a matching rule, or, in
  a namespaced request, some role binding of that namespace with a matching rule.
\<close>

theorem rbac_exact:
  "allows r u req \<longleftrightarrow>
     ''system:masters'' \<in> set (user_groups u)
   \<or> (\<exists>b \<in> set (cluster_role_bindings r). \<exists>x rule.
        ref_group (binding_ref b) = RBAC_GROUP \<and> ref_kind (binding_ref b) = ''ClusterRole''
      \<and> subjects_match (binding_subjects b) u None
      \<and> find_cluster_role r (ref_name (binding_ref b)) = Some x
      \<and> rule \<in> set (case role_rules x of None \<Rightarrow> [] | Some l \<Rightarrow> l) \<and> rule_allows rule req)
   \<or> (\<exists>q ns. req = ResourceReq q \<and> req_ns q = Some ns \<and> ns \<noteq> [] \<and> (\<exists>b \<in> set (role_bindings r). \<exists>x rule.
        binding_ns b = Some ns \<and> ref_group (binding_ref b) = RBAC_GROUP
      \<and> subjects_match (binding_subjects b) u (Some ns)
      \<and> (ref_kind (binding_ref b) = ''Role'' \<and> find_role r ns (ref_name (binding_ref b)) = Some x
         \<or> ref_kind (binding_ref b) = ''ClusterRole'' \<and> find_cluster_role r (ref_name (binding_ref b)) = Some x)
      \<and> rule \<in> set (case role_rules x of None \<Rightarrow> [] | Some l \<Rightarrow> l) \<and> rule_allows rule req))"
proof -
  have su: "is_superuser u \<longleftrightarrow> ''system:masters'' \<in> set (user_groups u)"
    by (auto simp: is_superuser_def list_ex_iff)
  have cl: "cluster_grant r u req \<longleftrightarrow> (\<exists>b \<in> set (cluster_role_bindings r). \<exists>x rule.
        ref_group (binding_ref b) = RBAC_GROUP \<and> ref_kind (binding_ref b) = ''ClusterRole''
      \<and> subjects_match (binding_subjects b) u None
      \<and> find_cluster_role r (ref_name (binding_ref b)) = Some x
      \<and> rule \<in> set (case role_rules x of None \<Rightarrow> [] | Some l \<Rightarrow> l) \<and> rule_allows rule req)"
    unfolding cluster_grant_def bound_to_def rules_allow_case by blast
  have refd: "rules_allow (referenced_rules r ns ref) req \<longleftrightarrow> (\<exists>x rule.
        (ref_kind ref = ''Role'' \<and> find_role r ns (ref_name ref) = Some x
         \<or> ref_kind ref = ''ClusterRole'' \<and> find_cluster_role r (ref_name ref) = Some x)
      \<and> rule \<in> set (case role_rules x of None \<Rightarrow> [] | Some l \<Rightarrow> l) \<and> rule_allows rule req)" for ns ref
    unfolding referenced_rules_def rules_allow_case [symmetric]
    by (cases "find_role r ns (ref_name ref)"; cases "find_cluster_role r (ref_name ref)") (auto simp: rules_allow_case)
  have rn: "request_ns req = Some ns \<longleftrightarrow> (\<exists>q. req = ResourceReq q \<and> req_ns q = Some ns \<and> ns \<noteq> [])" for ns
    by (auto simp: request_ns_def split: request.splits)
  show ?thesis
    unfolding allows_iff su cl namespace_grant_def bound_to_def refd rn by blast
qed

text \<open>
  Namespaces are isolated.  The decision for a request in a namespace reads the cluster roles,
  the cluster role bindings and the roles and bindings of that namespace: two snapshots that agree on
  those decide alike, whatever the other namespaces hold.
\<close>

theorem rbac_namespace_isolation:
  assumes "cluster_roles r = cluster_roles r'" and "cluster_role_bindings r = cluster_role_bindings r'"
    and "filter (\<lambda>x. role_ns x = Some ns) (roles r) = filter (\<lambda>x. role_ns x = Some ns) (roles r')"
    and "filter (\<lambda>b. binding_ns b = Some ns) (role_bindings r)
       = filter (\<lambda>b. binding_ns b = Some ns) (role_bindings r')"
  shows "req_ns q = Some ns \<or> filled (req_ns q) = None \<longrightarrow> allows r u (ResourceReq q) = allows r' u (ResourceReq q)"
proof -
  have c: "find_cluster_role r n = find_cluster_role r' n" for n
    using assms(1) by (simp add: find_cluster_role_def)
  have b: "{b \<in> set (role_bindings r). binding_ns b = Some ns} = {b \<in> set (role_bindings r'). binding_ns b = Some ns}"
    using assms(4) by (metis set_filter)
  have "cluster_grant r u (ResourceReq q) = cluster_grant r' u (ResourceReq q)"
    by (simp add: cluster_grant_def assms(2) c)
  moreover have "referenced_rules r ns ref = referenced_rules r' ns ref" for ref
    by (simp add: referenced_rules_def c find_role_local [OF assms(3)])
  then have "namespace_grant r u ns (ResourceReq q) = namespace_grant r' u ns (ResourceReq q)"
    using b unfolding namespace_grant_def by auto
  ultimately show ?thesis by (auto simp: allows_iff request_ns_def filled_None_iff)
qed

definition pod_reader :: rbac where
  "pod_reader = \<lparr>roles = [\<lparr>role_ns = Some ''a'', role_name = Some ''r'',
       role_rules = Some [\<lparr>verbs = [''get''], api_groups = Some [''''], rule_resources = Some [''pods''],
         resource_names = None, non_resource_urls = None\<rparr>]\<rparr>],
     cluster_roles = [], role_bindings = [\<lparr>binding_ns = Some ''a'', binding_name = Some ''b'',
       binding_ref = \<lparr>ref_group = RBAC_GROUP, ref_kind = ''Role'', ref_name = ''r''\<rparr>,
       binding_subjects = Some [\<lparr>subject_kind = ''User'', subject_group = Some RBAC_GROUP,
         subject_name = ''ann'', subject_ns = None\<rparr>]\<rparr>], cluster_role_bindings = []\<rparr>"

definition get_pod :: "string \<Rightarrow> resource_request" where
  "get_pod ns = \<lparr>req_verb = ''get'', req_group = '''', req_resource = ''pods'', req_sub = None,
     req_ns = Some ns, req_name = Some ''p''\<rparr>"

definition ann :: user where
  "ann = \<lparr>user_name = ''ann'', user_groups = [''system:authenticated'']\<rparr>"

theorem rbac_namespace_isolation_witness:
  "allows pod_reader ann (ResourceReq (get_pod ''a'')) \<and> \<not> allows pod_reader ann (ResourceReq (get_pod ''b''))"
proof -
  have "allows pod_reader ann (ResourceReq (get_pod ''b''))
      = allows (pod_reader\<lparr>roles := [], role_bindings := []\<rparr>) ann (ResourceReq (get_pod ''b''))"
    by (rule rbac_namespace_isolation [of pod_reader "pod_reader\<lparr>roles := [], role_bindings := []\<rparr>" "''b''", THEN mp])
      (simp_all add: pod_reader_def get_pod_def)
  moreover have "\<not> allows (pod_reader\<lparr>roles := [], role_bindings := []\<rparr>) ann (ResourceReq (get_pod ''b''))"
    by (simp add: allows_def pod_reader_def get_pod_def is_superuser_def ann_def request_ns_def split: option.split)
  moreover have "allows pod_reader ann (ResourceReq (get_pod ''a''))" by code_simp
  ultimately show ?thesis by simp
qed

end
