(* ===== verification/Selectors.thy ===== *)
theory Selectors
  imports Json Resources
begin

text \<open>
  Label and field selectors of LIST and WATCH (\<^verbatim>\<open>crates/h3s-apiserver/src/selectors.rs\<close>).  Strings
  are UTF-8 byte sequences; every delimiter is ASCII, so positions agree with the source's character
  positions.  A panic of the source is the error \<open>Inl None\<close>.
\<close>

named_theorems selector_simps \<open>equations of selectors\<close>

datatype op = In "string list" | NotIn "string list" | Exists | Absent | Greater int | Less int

record requirement =
  req_key :: string
  req_op :: op

record selection =
  sel_labels :: "requirement list"
  sel_fields :: "requirement list"

type_synonym 'a guarded = "(failure option, 'a) result"

subsection \<open>Matching\<close>

fun op_matches :: "op \<Rightarrow> string option \<Rightarrow> bool" where
  "op_matches (In vs) x = (case x of None \<Rightarrow> False | Some v \<Rightarrow> list_ex (\<lambda>w. w = v) vs)"
| "op_matches (NotIn vs) x = (case x of None \<Rightarrow> True | Some v \<Rightarrow> \<not> list_ex (\<lambda>w. w = v) vs)"
| "op_matches Exists x = (x \<noteq> None)"
| "op_matches Absent x = (x = None)"
| "op_matches (Greater n) x = (case Option.bind x parse_i64 of None \<Rightarrow> False | Some v \<Rightarrow> v > n)"
| "op_matches (Less n) x = (case Option.bind x parse_i64 of None \<Rightarrow> False | Some v \<Rightarrow> v < n)"

definition req_matches :: "requirement \<Rightarrow> string option \<Rightarrow> bool" where
  "req_matches r x = op_matches (req_op r) x"

definition field_value :: "json \<Rightarrow> string \<Rightarrow> string" where
  "field_value v path =
     (case at v (split_on CHR ''.'' path) of
        JStr s \<Rightarrow> s
      | JBool b \<Rightarrow> (if b then ''true'' else ''false'')
      | JInt i \<Rightarrow> show_int i
      | JFloat s \<Rightarrow> s
      | _ \<Rightarrow> '''')"

definition exact_field :: "selection \<Rightarrow> string \<Rightarrow> string option" where
  "exact_field sel field =
     find_map (\<lambda>r. case req_op r of In [v] \<Rightarrow> (if req_key r = field then Some v else None) | _ \<Rightarrow> None) (sel_fields sel)"

definition exact_name :: "selection \<Rightarrow> string option" where
  "exact_name sel = exact_field sel ''metadata.name''"

definition selection_matches :: "selection \<Rightarrow> json \<Rightarrow> bool" where
  "selection_matches sel v \<longleftrightarrow>
     list_all (\<lambda>r. req_matches r (as_str (at v [''metadata'', ''labels'', req_key r]))) (sel_labels sel)
     \<and> list_all (\<lambda>r. req_matches r (Some (field_value v (req_key r)))) (sel_fields sel)"

definition with_field :: "selection \<Rightarrow> string \<Rightarrow> string \<Rightarrow> selection" where
  "with_field sel field v = sel\<lparr>sel_fields := sel_fields sel @ [\<lparr>req_key = field, req_op = In [v]\<rparr>]\<rparr>"

definition with_name :: "selection \<Rightarrow> string option \<Rightarrow> selection" where
  "with_name sel name = (case name of None \<Rightarrow> sel | Some n \<Rightarrow> with_field sel ''metadata.name'' n)"

subsection \<open>Label selectors\<close>

text \<open>The pieces between the commas outside parentheses; \<open>cur\<close> is the piece being read.\<close>

fun label_pieces :: "bool \<Rightarrow> string \<Rightarrow> string \<Rightarrow> string list answer" where
  "label_pieces inside cur [] =
     (if inside then bad ''unclosed selector set'' else Inr [trim cur])"
| "label_pieces inside cur (c # cs) =
     (if c = CHR ''('' then
        (if inside then bad ''nested label selector set'' else label_pieces True (cur @ [c]) cs)
      else if c = CHR '')'' then
        (if \<not> inside then bad ''unmatched selector parenthesis'' else label_pieces False (cur @ [c]) cs)
      else if c = CHR '','' \<and> \<not> inside then andThen (label_pieces inside [] cs) (\<lambda>ps. Inr (trim cur # ps))
      else label_pieces inside (cur @ [c]) cs)"

definition split_labels :: "string \<Rightarrow> string list answer" where
  "split_labels s =
     (if trim s = [] then Inr []
      else if length s > 8192 then bad ''label selector exceeds limit''
      else andThen (label_pieces False [] s) (\<lambda>out.
        if list_ex (\<lambda>p. p = []) out then bad ''empty selector requirement'' else Inr out))"

definition label_part :: "string \<Rightarrow> bool \<Rightarrow> bool" where
  "label_part s may_empty \<longleftrightarrow> (may_empty \<and> s = [])
     \<or> (s \<noteq> [] \<and> length s \<le> 63 \<and> is_alnum (hd s) \<and> is_alnum (last s)
        \<and> list_all (\<lambda>c. is_alnum c \<or> c \<in> set ''-_.'') s)"

definition label_key :: "string \<Rightarrow> bool" where
  "label_key key =
     (case split_once CHR ''/'' key of
        Some (p, name) \<Rightarrow> p \<noteq> [] \<and> length p \<le> 253
          \<and> list_all (\<lambda>s. s \<noteq> [] \<and> length s \<le> 63 \<and> is_alnum (hd s) \<and> is_alnum (last s)
               \<and> list_all (\<lambda>c. is_lower c \<or> is_digit c \<or> c = CHR ''-'') s) (split_on CHR ''.'' p)
          \<and> label_part name False
      | None \<Rightarrow> label_part key False)"

definition parse_label_value :: "string \<Rightarrow> string answer" where
  "parse_label_value v =
     (let v = trim v in if \<not> label_part v True then bad ''invalid label selector value'' else Inr v)"

definition parse_set :: "string \<Rightarrow> string list answer" where
  "parse_set v =
     (case Option.bind (strip_prefix ''('' (trim v)) (strip_suffix '')'') of
        None \<Rightarrow> bad ''selector in/notin requires parentheses''
      | Some body \<Rightarrow> try_map parse_label_value (split_on CHR '','' body))"

text \<open>The key ends at the first white space or operator character.\<close>

fun key_span :: "string \<Rightarrow> string \<times> string" where
  "key_span [] = ([], [])"
| "key_span (c # cs) =
     (if ws_start (c # cs) \<noteq> 0 \<or> c \<in> set ''=!<>()'' then ([], c # cs)
      else (case key_span cs of (a, b) \<Rightarrow> (c # a, b)))"

definition parse_comparison :: "string \<Rightarrow> int answer" where
  "parse_comparison v =
     andThen (parse_label_value v) (\<lambda>w.
     case parse_i64 w of None \<Rightarrow> bad ''selector comparison needs an integer'' | Some n \<Rightarrow> Inr n)"

definition parse_op :: "bool \<Rightarrow> string \<Rightarrow> op answer" where
  "parse_op absent rest =
     (if absent then Inr Absent
      else if rest = [] then Inr Exists
      else (case strip_prefix ''notin'' rest of Some v \<Rightarrow> andThen (parse_set v) (\<lambda>vs. Inr (NotIn vs)) | None \<Rightarrow>
           (case strip_prefix ''in'' rest of Some v \<Rightarrow> andThen (parse_set v) (\<lambda>vs. Inr (In vs)) | None \<Rightarrow>
           (case strip_prefix ''!='' rest of Some v \<Rightarrow> andThen (parse_label_value v) (\<lambda>w. Inr (NotIn [w])) | None \<Rightarrow>
           (case (case strip_prefix ''=='' rest of Some v \<Rightarrow> Some v | None \<Rightarrow> strip_prefix ''='' rest) of
              Some v \<Rightarrow> andThen (parse_label_value v) (\<lambda>w. Inr (In [w])) | None \<Rightarrow>
           (case strip_prefix ''>'' rest of Some v \<Rightarrow> andThen (parse_comparison v) (\<lambda>n. Inr (Greater n)) | None \<Rightarrow>
           (case strip_prefix ''<'' rest of Some v \<Rightarrow> andThen (parse_comparison v) (\<lambda>n. Inr (Less n)) | None \<Rightarrow>
            bad ''invalid label selector operator'')))))))"

definition parse_label :: "string \<Rightarrow> requirement answer" where
  "parse_label s =
     (let (key, rest, absent) =
        (case strip_prefix ''!'' s of
           Some t \<Rightarrow> (trim t, '''', True)
         | None \<Rightarrow> (fst (key_span s), trim (snd (key_span s)), False))
      in if \<not> label_key key then bad ''invalid label selector key''
         else andThen (parse_op absent rest) (\<lambda>oper. Inr \<lparr>req_key = key, req_op = oper\<rparr>))"

subsection \<open>Field selectors\<close>

fun field_pieces :: "string \<Rightarrow> bool \<Rightarrow> string \<Rightarrow> string list answer" where
  "field_pieces cur escaped [] =
     (if escaped then bad ''trailing selector escape'' else Inr [cur])"
| "field_pieces cur escaped (c # cs) =
     (if escaped then
        (if c \<noteq> CHR '','' \<and> c \<noteq> CHR ''='' \<and> c \<noteq> CHR 0x5C then bad ''invalid field selector escape''
         else field_pieces (cur @ [CHR 0x5C, c]) False cs)
      else if c = CHR 0x5C then field_pieces cur True cs
      else if c = CHR '','' then andThen (field_pieces [] False cs) (\<lambda>ps. Inr (cur # ps))
      else field_pieces (cur @ [c]) False cs)"

definition split_fields :: "string \<Rightarrow> string list answer" where
  "split_fields s =
     (if trim s = [] then Inr []
      else if length s > 8192 then bad ''field selector exceeds limit''
      else field_pieces [] False s)"

text \<open>\<open>None\<close> is the panic on a backslash that nothing follows.\<close>

fun unescape :: "string \<Rightarrow> string option" where
  "unescape [] = Some []"
| "unescape [c] = (if c = CHR 0x5C then None else Some [c])"
| "unescape (c # d # cs) =
     (if c = CHR 0x5C then map_option ((#) d) (unescape cs) else map_option ((#) c) (unescape (d # cs)))"

fun find_operator :: "string \<Rightarrow> (string \<times> bool \<times> string) option" where
  "find_operator [] = None"
| "find_operator [c] = (if c = CHR ''='' then Some ([], False, []) else None)"
| "find_operator (c # d # cs) =
     (if c = CHR 0x5C then map_option (\<lambda>(a, r). (c # d # a, r)) (find_operator cs)
      else if c = CHR ''!'' \<and> d = CHR ''='' then Some ([], True, cs)
      else if c = CHR ''='' then Some ([], False, (if d = CHR ''='' then cs else d # cs))
      else map_option (\<lambda>(a, r). (c # a, r)) (find_operator (d # cs)))"

definition field_supported :: "string \<Rightarrow> string \<Rightarrow> bool" where
  "field_supported knd key \<longleftrightarrow> key = ''metadata.name'' \<or> key = ''metadata.namespace''
     \<or> (if knd = ''Pod'' then key \<in> set [''spec.nodeName'', ''spec.restartPolicy'', ''spec.schedulerName'',
            ''spec.serviceAccountName'', ''status.phase'', ''status.podIP'', ''status.nominatedNodeName'']
        else if knd = ''Node'' then key = ''spec.unschedulable''
        else if knd = ''Namespace'' then key = ''status.phase''
        else if knd = ''Secret'' then key = ''type''
        else if knd = ''Service'' then key = ''spec.clusterIP'' \<or> key = ''spec.type''
        else if knd = ''ReplicaSet'' then key = ''status.replicas''
        else False)"

definition no_panic :: "'a answer \<Rightarrow> 'a guarded" where
  "no_panic r = map_err Some r"

definition parse_field :: "string \<Rightarrow> string \<Rightarrow> requirement guarded" where
  "parse_field s knd =
     (case find_operator (trim s) of None \<Rightarrow> no_panic (bad ''field selector requires =, == or !='') | Some (k, negated, v) \<Rightarrow>
        andThen (ok_or None (unescape (trim k))) (\<lambda>key.
        andThen (ok_or None (unescape (trim v))) (\<lambda>x.
        if \<not> field_supported knd key then no_panic (bad ''unsupported field selector for this resource'')
        else Inr \<lparr>req_key = key, req_op = (if negated then NotIn [x] else In [x])\<rparr>)))"

definition parse_selection :: "string \<Rightarrow> string \<Rightarrow> string \<Rightarrow> selection guarded" where
  "parse_selection lsel fsel knd =
     andThen (no_panic (andThen (split_labels lsel) (try_map parse_label))) (\<lambda>ls.
     andThen (andThen (no_panic (split_fields fsel)) (try_map (\<lambda>s. parse_field s knd))) (\<lambda>fs.
     Inr \<lparr>sel_labels = ls, sel_fields = fs\<rparr>))"

subsection \<open>Escapes\<close>

definition escapable :: "char \<Rightarrow> bool" where
  "escapable c \<longleftrightarrow> c = CHR '','' \<or> c = CHR ''='' \<or> c = CHR 0x5C"

fun well_escaped :: "string \<Rightarrow> bool" where
  "well_escaped [] = True"
| "well_escaped [c] = (c \<noteq> CHR 0x5C)"
| "well_escaped (c # d # cs) = (if c = CHR 0x5C then escapable d \<and> well_escaped cs else well_escaped (d # cs))"

lemma unescape_total: "well_escaped s \<Longrightarrow> unescape s \<noteq> None"
  by (induction s rule: unescape.induct) (auto split: if_splits)

lemma well_escaped_Cons: "c \<noteq> CHR 0x5C \<Longrightarrow> well_escaped (c # s) = well_escaped s"
  by (cases s) auto

lemma well_escaped_snoc: "c \<noteq> CHR 0x5C \<Longrightarrow> well_escaped s \<Longrightarrow> well_escaped (s @ [c])"
  by (induction s rule: well_escaped.induct) (auto split: if_splits)

lemma well_escaped_snoc_pair: "escapable c \<Longrightarrow> well_escaped s \<Longrightarrow> well_escaped (s @ [CHR 0x5C, c])"
  by (induction s rule: well_escaped.induct) (auto split: if_splits)

lemma well_escaped_butlast: "\<not> escapable c \<Longrightarrow> well_escaped (s @ [c]) \<Longrightarrow> well_escaped s"
  by (induction s rule: well_escaped.induct) (auto simp: escapable_def split: if_splits)

lemma well_escaped_drop:
  assumes "well_escaped s" and "\<forall>c \<in> set (take n s). c \<noteq> CHR 0x5C"
  shows "well_escaped (drop n s)"
  using assms
proof (induction n arbitrary: s)
  case (Suc n)
  then show ?case by (cases s) (auto simp: well_escaped_Cons)
qed simp

lemma well_escaped_prefix:
  assumes "well_escaped (s @ t)" and "\<forall>c \<in> set t. \<not> escapable c"
  shows "well_escaped s"
  using assms
proof (induction t rule: rev_induct)
  case (snoc c t)
  then have "well_escaped ((s @ t) @ [c])" by simp
  with snoc show ?case by (metis UnI1 UnI2 list.set_intros(1) set_append well_escaped_butlast)
qed simp

text \<open>The bytes of a white space character are never the escape, the comma or the equals sign.\<close>

lemma ws_head_bytes:
  assumes "b \<in> set (take (ws_head bs) bs)"
  shows "b \<noteq> 92 \<and> b \<noteq> 44 \<and> b \<noteq> 61"
  using assms by (induction bs rule: ws_head.induct) (auto split: if_splits simp: numeral_eq_Suc)

lemma escapable_bytes: "escapable c \<Longrightarrow> (of_char c :: nat) \<in> {92, 44, 61}"
  by (auto simp: escapable_def)

lemma ws_head_not_escapable:
  assumes "c \<in> set (take (ws_head (bytes s)) s)"
  shows "\<not> escapable c"
proof -
  have "of_char c \<in> set (take (ws_head (bytes s)) (bytes s))"
    using assms by (auto simp: bytes_def take_map)
  from ws_head_bytes [OF this] show ?thesis using escapable_bytes by auto
qed

lemma well_escaped_trim_start: "well_escaped s \<Longrightarrow> well_escaped (trim_start s)"
proof (induction s rule: trim_start.induct)
  case (1 s)
  have le: "ws_start s \<le> 3" unfolding ws_start_def by (induction "bytes (take 3 s)" rule: ws_head.induct) (auto simp: bytes_def)
  show ?case
  proof (cases "ws_start s = 0 \<or> s = []")
    case True
    with 1(2) show ?thesis by (subst trim_start.simps) auto
  next
    case False
    have "take (ws_start s) s = take (ws_start s) (take 3 s)" using le by (simp add: min_absorb1)
    then have "\<forall>c \<in> set (take (ws_start s) s). \<not> escapable c"
      using ws_head_not_escapable [of _ "take 3 s"] by (auto simp: ws_start_def)
    then have "well_escaped (drop (ws_start s) s)"
      by (intro well_escaped_drop [OF 1(2)]) (auto simp: escapable_def)
    with False 1 show ?thesis by (subst trim_start.simps) auto
  qed
qed

lemma ws_end_suffix:
  assumes "ws_end s \<noteq> 0"
  shows "ws_head (bytes (drop (length s - ws_end s) s)) = ws_end s"
  using assms by (auto simp: ws_end_def Let_def split: if_splits)

lemma well_escaped_trim_end: "well_escaped s \<Longrightarrow> well_escaped (trim_end s)"
proof (induction s rule: trim_end.induct)
  case (1 s)
  show ?case
  proof (cases "ws_end s = 0 \<or> s = []")
    case True
    with 1(2) show ?thesis by (subst trim_end.simps) auto
  next
    case False
    let ?t = "drop (length s - ws_end s) s"
    have "take (ws_head (bytes ?t)) ?t = ?t"
      using ws_end_suffix False by (simp add: ws_end_def Let_def split: if_splits)
    then have "\<forall>c \<in> set ?t. \<not> escapable c" using ws_head_not_escapable [of _ ?t] by auto
    then have "well_escaped (take (length s - ws_end s) s)"
      using 1(2) by (metis append_take_drop_id well_escaped_prefix)
    with False 1 show ?thesis by (subst trim_end.simps) auto
  qed
qed

lemma well_escaped_trim: "well_escaped s \<Longrightarrow> well_escaped (trim s)"
  by (simp add: trim_def well_escaped_trim_start well_escaped_trim_end)

lemma field_pieces_well_escaped:
  "field_pieces cur e s = Inr ps \<Longrightarrow> well_escaped cur \<Longrightarrow> \<forall>p \<in> set ps. well_escaped p"
proof (induction cur e s arbitrary: ps rule: field_pieces.induct)
  case (1 cur e)
  then show ?case by (auto simp: bad_def fail_def split: if_splits)
next
  case (2 cur e c cs)
  show ?case
  proof (cases e)
    case True
    with "2.prems" have "escapable c" "field_pieces (cur @ [CHR 0x5C, c]) False cs = Inr ps"
      by (auto simp: bad_def fail_def escapable_def split: if_splits)
    with "2.IH"(1) True "2.prems"(2) well_escaped_snoc_pair show ?thesis by (auto simp: escapable_def)
  next
    case False
    with 2 show ?thesis
      by (auto simp: andThen_Inr_iff intro: well_escaped_snoc split: if_splits)
  qed
qed

lemma find_operator_well_escaped:
  "find_operator s = Some (a, n, b) \<Longrightarrow> well_escaped s \<Longrightarrow> well_escaped a \<and> well_escaped b"
proof (induction s arbitrary: a n b rule: find_operator.induct)
  case (3 c d cs)
  then show ?case
    by (auto simp: well_escaped_Cons escapable_def split: if_splits prod.splits)
qed (auto split: if_splits)

lemma parse_field_safe:
  assumes "well_escaped s"
  shows "parse_field s knd \<noteq> Inl None"
proof (cases "find_operator (trim s)")
  case None
  then show ?thesis by (simp add: parse_field_def no_panic_def bad_def fail_def)
next
  case (Some r)
  obtain a n b where r: "r = (a, n, b)" by (cases r) auto
  have "well_escaped a \<and> well_escaped b"
    using find_operator_well_escaped [OF Some [unfolded r]] well_escaped_trim [OF assms] .
  then have "unescape (trim a) \<noteq> None" "unescape (trim b) \<noteq> None"
    by (simp_all add: unescape_total well_escaped_trim)
  then obtain k v where "unescape (trim a) = Some k" "unescape (trim b) = Some v" by auto
  then show ?thesis using Some r by (simp add: parse_field_def no_panic_def bad_def fail_def)
qed

lemma no_panic_simps: "no_panic r \<noteq> Inl None" "no_panic r = Inr x \<longleftrightarrow> r = Inr x"
  by (cases r; auto simp: no_panic_def)+

text \<open>
  Parsing a selector never panics.  The only unchecked step, reading the character after a
  backslash, always finds one, because splitting accepts a field selector only when every backslash
  escapes a delimiter, and neither trimming nor splitting at the operator separates such a pair.
\<close>

theorem selector_never_panics: "parse_selection lsel fsel knd \<noteq> Inl None"
proof
  assume p: "parse_selection lsel fsel knd = Inl None"
  obtain fs where f: "split_fields fsel = Inr fs" "try_map (\<lambda>s. parse_field s knd) fs = Inl None"
    using p by (simp add: parse_selection_def andThen_Inl_iff no_panic_simps) (auto simp: no_panic_def)
  then obtain s where s: "s \<in> set fs" "parse_field s knd = Inl None" using try_map_Inl by metis
  have "fs = [] \<or> field_pieces [] False fsel = Inr fs"
    using f(1) by (simp add: split_fields_def bad_def fail_def split: if_splits)
  then have "well_escaped s"
    using s(1) field_pieces_well_escaped [of "[]" False fsel fs] by auto
  with s(2) parse_field_safe show False by simp
qed

subsection \<open>Printing label selectors\<close>

definition show_op :: "op \<Rightarrow> string" where
  "show_op x =
     (case x of
        In vs \<Rightarrow> '' in ('' @ join CHR '','' vs @ '')''
      | NotIn vs \<Rightarrow> '' notin ('' @ join CHR '','' vs @ '')''
      | Exists \<Rightarrow> ''''
      | Absent \<Rightarrow> ''''
      | Greater n \<Rightarrow> ''>'' @ show_int n
      | Less n \<Rightarrow> ''<'' @ show_int n)"

definition show_requirement :: "requirement \<Rightarrow> string" where
  "show_requirement r = (if req_op r = Absent then ''!'' @ req_key r else req_key r @ show_op (req_op r))"

definition wf_op :: "op \<Rightarrow> bool" where
  "wf_op x =
     (case x of
        In vs \<Rightarrow> vs \<noteq> [] \<and> list_all (\<lambda>v. label_part v True) vs
      | NotIn vs \<Rightarrow> vs \<noteq> [] \<and> list_all (\<lambda>v. label_part v True) vs
      | Greater n \<Rightarrow> 0 \<le> n \<and> in_i64 n
      | Less n \<Rightarrow> 0 \<le> n \<and> in_i64 n
      | _ \<Rightarrow> True)"

definition wf_requirement :: "requirement \<Rightarrow> bool" where
  "wf_requirement r \<longleftrightarrow> label_key (req_key r) \<and> wf_op (req_op r)"

text \<open>Characters of keys and values: none is white space, a delimiter or an operator.\<close>

definition plain :: "char \<Rightarrow> bool" where
  "plain c \<longleftrightarrow> is_alnum c \<or> c \<in> set ''-_./''"

lemma plain_not: "plain c \<Longrightarrow> c \<notin> set '' (),=!<>''"
  by (auto simp: plain_def is_alnum_def is_digit_def is_lower_def is_upper_def)

lemma is_alnum_byte: "is_alnum c \<Longrightarrow> 33 \<le> (of_char c :: nat) \<and> (of_char c :: nat) \<le> 126"
  by (auto simp: is_alnum_def is_digit_def is_lower_def is_upper_def)

lemma plain_byte: "plain c \<Longrightarrow> 33 \<le> (of_char c :: nat) \<and> (of_char c :: nat) \<le> 126"
  by (auto simp: plain_def dest: is_alnum_byte)

definition ink :: "char \<Rightarrow> bool" where
  "ink c \<longleftrightarrow> 33 \<le> (of_char c :: nat) \<and> (of_char c :: nat) \<le> 126"

definition ascii_text :: "char \<Rightarrow> bool" where
  "ascii_text c \<longleftrightarrow> ink c \<or> c = CHR '' ''"

lemma ws_head_small: "bs \<noteq> [] \<Longrightarrow> \<forall>b \<in> set bs. b \<le> 126 \<Longrightarrow> ws_head bs = (if 9 \<le> hd bs \<and> hd bs \<le> 13 \<or> hd bs = 32 then 1 else 0)"
  by (cases bs rule: ws_head.cases) auto

lemma ascii_byte: "ascii_text c \<Longrightarrow> (of_char c :: nat) \<le> 126"
  by (auto simp: ascii_text_def ink_def)

lemma ws_start_ascii: "s \<noteq> [] \<Longrightarrow> \<forall>c \<in> set s. ascii_text c \<Longrightarrow> ws_start s = (if ink (hd s) then 0 else 1)"
  unfolding ws_start_def
  by (subst ws_head_small; cases s) (auto simp: bytes_def ascii_text_def ink_def dest: in_set_takeD)

lemma ws_end_ink:
  assumes "s \<noteq> []" and a: "\<forall>c \<in> set s. ascii_text c" and "ink (last s)"
  shows "ws_end s = 0"
proof -
  have one: "ws_head (bytes (drop (length s - k) s)) \<le> 1" if "k \<ge> 1" for k
  proof -
    have "\<forall>b \<in> set (bytes (drop (length s - k) s)). b \<le> 126"
      using a ascii_byte by (auto simp: bytes_def dest: in_set_dropD)
    moreover have "bytes (drop (length s - k) s) \<noteq> []" using that assms(1)
      by (cases s) (auto simp: bytes_def)
    ultimately show ?thesis by (simp add: ws_head_small)
  qed
  have "drop (length s - 1) s = [last s]"
    using assms(1) by (metis append_butlast_last_id append_eq_conv_conj length_butlast)
  then have "ws_head (bytes (drop (length s - 1) s)) = 0" using assms(3) by (auto simp: bytes_def ink_def)
  with one [of 2] one [of 3] show ?thesis unfolding ws_end_def Let_def by auto
qed

lemma trim_ink:
  assumes "\<forall>c \<in> set s. ascii_text c" and "s \<noteq> [] \<Longrightarrow> ink (hd s) \<and> ink (last s)"
  shows "trim s = s"
proof (cases "s = []")
  case True
  then show ?thesis by (simp add: trim_def trim_start.simps trim_end.simps)
next
  case False
  with assms have "ws_start s = 0" "ws_end s = 0" using ws_start_ascii ws_end_ink by auto
  then show ?thesis by (simp add: trim_def trim_start.simps [of s] trim_end.simps [of s])
qed

lemma trim_space:
  assumes "\<forall>c \<in> set s. ascii_text c"
  shows "trim (CHR '' '' # s) = trim s"
proof -
  have "ws_start (CHR '' '' # s) = 1" using assms by (subst ws_start_ascii) (auto simp: ascii_text_def ink_def)
  then show ?thesis by (simp add: trim_def trim_start.simps [of "CHR '' '' # s"])
qed

lemma label_part_chars: "label_part v e \<Longrightarrow> (\<forall>c \<in> set v. plain c) \<and> (v \<noteq> [] \<longrightarrow> plain (hd v) \<and> plain (last v) \<and> is_alnum (hd v))"
  by (auto simp: label_part_def plain_def list_all_iff)

lemma split_on_join:
  assumes "ps \<noteq> []" and "\<forall>p \<in> set ps. c \<notin> set p"
  shows "split_on c (join c ps) = ps"
  using assms by (induction c ps rule: join.induct) (auto simp: split_on_no_sep split_on_sep)

lemma set_join: "set (join c ps) \<subseteq> insert c (\<Union> (set ` set ps))"
  by (induction c ps rule: join.induct) auto

lemma label_key_chars:
  assumes "label_key k"
  shows "k \<noteq> []" "\<forall>c \<in> set k. plain c" "is_alnum (last k)"
proof -
  have seg: "list_all (\<lambda>c. is_lower c \<or> is_digit c \<or> c = CHR ''-'') p \<Longrightarrow> \<forall>c \<in> set p. plain c" for p
    by (auto simp: list_all_iff plain_def is_alnum_def)
  have "k \<noteq> [] \<and> (\<forall>c \<in> set k. plain c) \<and> is_alnum (last k)"
  proof (cases "split_once CHR ''/'' k")
    case None
    with assms show ?thesis by (auto simp: label_key_def label_part_def plain_def list_all_iff)
  next
    case (Some pn)
    obtain p n where pn: "pn = (p, n)" by force
    with assms Some have k: "k = p @ CHR ''/'' # n" and n: "label_part n False"
      and p: "\<forall>q \<in> set (split_on CHR ''.'' p). \<forall>c \<in> set q. plain c"
      using seg by (auto simp: label_key_def list_all_iff dest: split_once_Some)
    have "set p \<subseteq> insert CHR ''.'' (\<Union> (set ` set (split_on CHR ''.'' p)))"
      using set_join [of "CHR ''.''" "split_on CHR ''.'' p"] by (simp add: join_split_on)
    with p have "\<forall>c \<in> set p. plain c" by (auto simp: plain_def)
    with n k show ?thesis using label_part_chars [OF n] by (auto simp: label_part_def plain_def)
  qed
  then show "k \<noteq> []" "\<forall>c \<in> set k. plain c" "is_alnum (last k)" by auto
qed

subsection \<open>Parsing what was printed\<close>

lemma show_nat_length: "n < 10 ^ Suc k \<Longrightarrow> length (show_nat n) \<le> Suc k"
proof (induction k arbitrary: n)
  case 0
  then show ?case by (subst show_nat.simps) simp
next
  case (Suc k)
  then have "n div 10 < 10 ^ Suc k" by (simp add: less_mult_imp_div_less)
  with Suc.IH [of "n div 10"] show ?case by (subst show_nat.simps) simp
qed

lemma show_nat_alnum: "\<forall>c \<in> set (show_nat n). is_alnum c"
  using show_nat_digits [of n] by (auto simp: list_all_iff is_alnum_def)

lemma parse_comparison_show:
  assumes "0 \<le> n" and "in_i64 n"
  shows "parse_comparison (show_int n) = Inr n"
proof -
  let ?s = "show_nat (nat n)"
  have s: "show_int n = ?s" using assms by (simp add: show_int_def)
  have al: "\<forall>c \<in> set ?s. is_alnum c" by (rule show_nat_alnum)
  then have ends: "is_alnum (hd ?s)" "is_alnum (last ?s)" by simp_all
  have "nat n < 10 ^ Suc 18"
    using assms by (simp add: in_i64_def)
  then have "length ?s \<le> 19" using show_nat_length [of "nat n" 18] by simp
  then have lp: "label_part ?s True" using al ends by (auto simp: label_part_def list_all_iff)
  have t: "trim ?s = ?s"
    using al ends by (intro trim_ink) (auto simp: ascii_text_def ink_def dest: is_alnum_byte)
  obtain c cs where c: "?s = c # cs" "is_digit c" using show_nat_digits [of "nat n"] by (cases ?s) auto
  have "parse_i64 ?s = Some n"
    using c assms parse_nat_show_nat [of "nat n"] digit_not_special [OF c(2)]
    unfolding parse_i64_def parse_signed_def c(1) by simp
  then show ?thesis using lp t by (simp add: parse_comparison_def parse_label_value_def s)
qed

lemma plain_ink: "plain c \<Longrightarrow> ink c"
  by (simp add: ink_def plain_byte)

lemma plain_text: "plain c \<Longrightarrow> ascii_text c"
  by (simp add: ascii_text_def plain_ink)

lemma parse_label_value_part: "label_part v True \<Longrightarrow> parse_label_value v = Inr v"
  using label_part_chars [of v True] trim_ink [of v]
  by (simp add: parse_label_value_def Let_def plain_ink plain_text)

lemma join_chars:
  assumes "list_all (\<lambda>v. label_part v True) vs" and "c \<in> set (join CHR '','' vs)"
  shows "plain c \<or> c = CHR '',''"
proof (cases "c = CHR '',''")
  case False
  with assms(2) set_join [of "CHR '',''" vs] obtain v where "v \<in> set vs" "c \<in> set v" by auto
  with assms(1) label_part_chars [of v True] show ?thesis by (auto simp: list_all_iff)
qed simp

lemma join_text:
  assumes "list_all (\<lambda>v. label_part v True) vs"
  shows "\<forall>c \<in> set (join CHR '','' vs). ascii_text c"
proof
  fix c
  assume "c \<in> set (join CHR '','' vs)"
  from join_chars [OF assms this] show "ascii_text c"
    using plain_text by (elim disjE) (auto simp: ascii_text_def ink_def)
qed

lemma parse_set_show:
  assumes "vs \<noteq> []" and "list_all (\<lambda>v. label_part v True) vs"
  shows "parse_set (CHR '' '' # CHR ''('' # join CHR '','' vs @ '')'') = Inr vs"
proof -
  let ?b = "join CHR '','' vs"
  have vs: "\<forall>v \<in> set vs. \<forall>c \<in> set v. plain c" using assms(2) label_part_chars by (auto simp: list_all_iff)
  then have nc: "\<forall>v \<in> set vs. CHR '','' \<notin> set v" using plain_not by force
  have chars: "\<forall>c \<in> set (CHR ''('' # ?b @ '')''). ascii_text c"
    using join_text [OF assms(2)] by (auto simp: ascii_text_def ink_def)
  then have "trim (CHR '' '' # CHR ''('' # ?b @ '')'') = CHR ''('' # ?b @ '')''"
    by (subst trim_space, assumption, intro trim_ink) (auto simp: ink_def)
  moreover have "strip_prefix ''('' (CHR ''('' # ?b @ '')'') = Some (?b @ '')'')" by (simp add: strip_prefix_Some_iff)
  moreover have "strip_suffix '')'' (?b @ '')'') = Some ?b" by (simp add: strip_suffix_Some_iff)
  moreover have "try_map parse_label_value vs = Inr vs"
    using assms(2) try_map_total [of vs parse_label_value "\<lambda>v. v"] parse_label_value_part
    by (auto simp: list_all_iff)
  ultimately show ?thesis by (simp add: parse_set_def split_on_join [OF assms(1) nc])
qed

lemma key_span_plain:
  assumes "\<forall>c \<in> set k. plain c" and "\<forall>c \<in> set s. ascii_text c" and "s = [] \<or> hd s \<in> set ''=!<>() ''"
  shows "key_span (k @ s) = (k, s)"
  using assms(1)
proof (induction k)
  case Nil
  show ?case
  proof (cases s)
    case (Cons c cs)
    with assms ws_start_ascii [of s] show ?thesis by (auto simp: ink_def)
  qed simp
next
  case (Cons c k)
  have "ws_start (c # k @ s) = 0"
    using ws_start_ascii [of "c # k @ s"] Cons.prems assms(2) plain_text plain_ink by auto
  moreover have "c \<notin> set ''=!<>()''" using plain_not [of c] Cons.prems by auto
  ultimately show ?case using Cons by simp
qed


lemma show_op_text:
  assumes "wf_op x" and "x \<noteq> Absent" and "x \<noteq> Exists"
  shows "\<forall>c \<in> set (show_op x). ascii_text c" "show_op x \<noteq> []" "hd (show_op x) \<in> set ''=!<>() ''" "ink (last (show_op x))"
proof -
  have n: "\<forall>c \<in> set (show_int k). ascii_text c" "ink (last (show_int k))" if "0 \<le> k" for k
    using that show_nat_alnum [of "nat k"] last_in_set [OF show_nat_nonempty [of "nat k"]] is_alnum_byte
    by (auto simp: show_int_def ascii_text_def ink_def)
  note j = join_text
  have "(\<forall>c \<in> set (show_op x). ascii_text c) \<and> show_op x \<noteq> [] \<and> hd (show_op x) \<in> set ''=!<>() '' \<and> ink (last (show_op x))"
  proof (cases x)
    case (In vs)
    with assms j [of vs] show ?thesis by (auto simp: show_op_def wf_op_def ascii_text_def ink_def)
  next
    case (NotIn vs)
    with assms j [of vs] show ?thesis by (auto simp: show_op_def wf_op_def ascii_text_def ink_def)
  next
    case (Greater k)
    with assms n [of k] show ?thesis by (auto simp: show_op_def wf_op_def ascii_text_def ink_def show_int_def)
  next
    case (Less k)
    with assms n [of k] show ?thesis by (auto simp: show_op_def wf_op_def ascii_text_def ink_def show_int_def)
  qed (use assms in auto)
  then show "\<forall>c \<in> set (show_op x). ascii_text c" "show_op x \<noteq> []" "hd (show_op x) \<in> set ''=!<>() ''" "ink (last (show_op x))"
    by auto
qed

lemma trim_show_op:
  assumes "wf_op x" and "x \<noteq> Absent" and "x \<noteq> Exists"
  shows "trim (show_op x) = (if hd (show_op x) = CHR '' '' then List.tl (show_op x) else show_op x)"
proof -
  note f = show_op_text [OF assms]
  obtain c cs where c: "show_op x = c # cs" using f(2) by (cases "show_op x") auto
  show ?thesis
  proof (cases "c = CHR '' ''")
    case True
    have "cs \<noteq> []" "ink (hd cs)" using c True by (auto simp: show_op_def ink_def split: op.splits)
    then have "trim cs = cs" using f(1,4) c by (intro trim_ink) auto
    with True c f(1) show ?thesis by (simp add: trim_space)
  next
    case False
    with f(1,3,4) c show ?thesis by (subst trim_ink) (auto simp: ink_def)
  qed
qed

lemma parse_op_show:
  assumes wf: "wf_op x" and "x \<noteq> Absent"
  shows "parse_op False (trim (show_op x)) = Inr x"
proof (cases x)
  case (In vs)
  with wf have v: "vs \<noteq> []" "list_all (\<lambda>v. label_part v True) vs" by (auto simp: wf_op_def)
  have "trim (show_op x) = ''in ('' @ join CHR '','' vs @ '')''"
    using trim_show_op [OF wf] In by (simp add: show_op_def)
  with In parse_set_show [OF v] show ?thesis by (simp add: parse_op_def strip_prefix_def starts_with_def)
next
  case (NotIn vs)
  with wf have v: "vs \<noteq> []" "list_all (\<lambda>v. label_part v True) vs" by (auto simp: wf_op_def)
  have "trim (show_op x) = ''notin ('' @ join CHR '','' vs @ '')''"
    using trim_show_op [OF wf] NotIn by (simp add: show_op_def)
  with NotIn parse_set_show [OF v] show ?thesis by (simp add: parse_op_def strip_prefix_def starts_with_def)
next
  case Exists
  then show ?thesis by (simp add: show_op_def parse_op_def trim_ink)
next
  case (Greater k)
  then have "trim (show_op x) = CHR ''>'' # show_int k"
    using trim_show_op [OF wf] by (simp add: show_op_def)
  with Greater wf parse_comparison_show [of k] show ?thesis
    by (simp add: parse_op_def strip_prefix_def starts_with_def wf_op_def)
next
  case (Less k)
  then have "trim (show_op x) = CHR ''<'' # show_int k"
    using trim_show_op [OF wf] by (simp add: show_op_def)
  with Less wf parse_comparison_show [of k] show ?thesis
    by (simp add: parse_op_def strip_prefix_def starts_with_def wf_op_def)
qed (use assms in simp)

lemma parse_label_show:
  assumes wf: "wf_requirement r"
  shows "parse_label (show_requirement r) = Inr r"
proof -
  have k: "label_key (req_key r)" and o: "wf_op (req_op r)" using wf by (auto simp: wf_requirement_def)
  note ch = label_key_chars [OF k]
  have chars: "\<forall>c \<in> set (req_key r). ascii_text c" using ch(2) plain_text by auto
  have ends: "plain (hd (req_key r))" "plain (last (req_key r))" using ch(1,2) by auto
  show ?thesis
  proof (cases "req_op r = Absent")
    case True
    have "trim (req_key r) = req_key r" using chars ends by (intro trim_ink) (auto simp: plain_ink)
    then show ?thesis using True k
      by (simp add: show_requirement_def parse_label_def strip_prefix_def starts_with_def parse_op_def)
  next
    case False
    let ?o = "show_op (req_op r)"
    have "hd (req_key r) \<noteq> CHR ''!''" using plain_not [OF ends(1)] by auto
    then have "strip_prefix ''!'' (req_key r @ ?o) = None"
      using ch(1) by (cases "req_key r") (auto simp: strip_prefix_def starts_with_def)
    moreover have "key_span (req_key r @ ?o) = (req_key r, ?o)"
    proof (cases "req_op r = Exists")
      case True
      then show ?thesis using key_span_plain [OF ch(2), of "[]"] by (simp add: show_op_def)
    next
      case ne: False
      show ?thesis using show_op_text [OF o False ne] by (intro key_span_plain [OF ch(2)]) auto
    qed
    ultimately show ?thesis using False k parse_op_show [OF o False]
      by (simp add: show_requirement_def parse_label_def)
  qed
qed


subsection \<open>Splitting what was printed\<close>

definition delimiter :: "char \<Rightarrow> bool" where
  "delimiter c \<longleftrightarrow> c \<in> set ''(),''"

lemma label_pieces_outside:
  "\<forall>c \<in> set p. \<not> delimiter c \<Longrightarrow> label_pieces False cur (p @ q) = label_pieces False (cur @ p) q"
  by (induction p arbitrary: cur) (auto simp: delimiter_def)

lemma label_pieces_inside:
  "\<forall>c \<in> set p. c \<notin> set ''()'' \<Longrightarrow> label_pieces True cur (p @ q) = label_pieces True (cur @ p) q"
  by (induction p arbitrary: cur) auto

lemma label_pieces_set:
  assumes "\<forall>c \<in> set p. \<not> delimiter c" and "\<forall>c \<in> set b. c \<notin> set ''()''"
  shows "label_pieces False cur (p @ ''('' @ b @ '')'' @ q) = label_pieces False (cur @ p @ ''('' @ b @ '')'') q"
  using label_pieces_outside [OF assms(1)] label_pieces_inside [OF assms(2)] by (simp add: append_assoc)

lemma plain_not_delimiter: "plain c \<Longrightarrow> \<not> delimiter c"
  using plain_not [of c] by (auto simp: delimiter_def)

lemma label_pieces_show:
  assumes "wf_requirement r"
  shows "label_pieces False cur (show_requirement r @ q) = label_pieces False (cur @ show_requirement r) q"
proof -
  have k: "\<forall>c \<in> set (req_key r). \<not> delimiter c" and o: "wf_op (req_op r)"
    using assms label_key_chars plain_not_delimiter by (auto simp: wf_requirement_def)
  have b: "\<forall>c \<in> set (join CHR '','' vs). c \<notin> set ''()''" if "list_all (\<lambda>v. label_part v True) vs" for vs
    using join_chars [OF that] plain_not by fastforce
  have num: "\<forall>c \<in> set (show_int n). \<not> delimiter c" if "0 \<le> n" for n
    using that show_nat_alnum [of "nat n"] plain_not_delimiter by (auto simp: show_int_def plain_def)
  have dl: "\<not> delimiter CHR ''>''" "\<not> delimiter CHR ''<''" by (simp_all add: delimiter_def)
  show ?thesis
  proof (cases "req_op r")
    case (In vs)
    with o have "list_all (\<lambda>v. label_part v True) vs" by (simp add: wf_op_def)
    then show ?thesis using label_pieces_set [of "req_key r @ '' in ''" "join CHR '','' vs" cur q] k b In
      by (auto simp: show_requirement_def show_op_def delimiter_def)
  next
    case (NotIn vs)
    with o have "list_all (\<lambda>v. label_part v True) vs" by (simp add: wf_op_def)
    then show ?thesis using label_pieces_set [of "req_key r @ '' notin ''" "join CHR '','' vs" cur q] k b NotIn
      by (auto simp: show_requirement_def show_op_def delimiter_def)
  next
    case Exists
    with k show ?thesis by (simp add: show_requirement_def show_op_def label_pieces_outside)
  next
    case Absent
    with k show ?thesis using label_pieces_outside [of "CHR ''!'' # req_key r"]
      by (simp add: show_requirement_def delimiter_def)
  next
    case (Greater n)
    then have "\<forall>c \<in> set (show_int n). \<not> delimiter c" using o by (intro num) (simp add: wf_op_def)
    then have "\<forall>c \<in> set (req_key r @ CHR ''>'' # show_int n). \<not> delimiter c" using k dl by (simp add: ball_Un)
    from label_pieces_outside [OF this, of cur q] Greater show ?thesis by (simp add: show_requirement_def show_op_def)
  next
    case (Less n)
    then have "\<forall>c \<in> set (show_int n). \<not> delimiter c" using o by (intro num) (simp add: wf_op_def)
    then have "\<forall>c \<in> set (req_key r @ CHR ''<'' # show_int n). \<not> delimiter c" using k dl by (simp add: ball_Un)
    from label_pieces_outside [OF this, of cur q] Less show ?thesis by (simp add: show_requirement_def show_op_def)
  qed
qed

lemma show_requirement_text:
  assumes "wf_requirement r"
  shows "\<forall>c \<in> set (show_requirement r). ascii_text c" "show_requirement r \<noteq> []"
    "ink (hd (show_requirement r))" "ink (last (show_requirement r))"
proof -
  have k: "label_key (req_key r)" and o: "wf_op (req_op r)" using assms by (auto simp: wf_requirement_def)
  note ch = label_key_chars [OF k]
  have key: "\<forall>c \<in> set (req_key r). ascii_text c" "ink (hd (req_key r))" "ink (last (req_key r))"
    using ch plain_text plain_ink by auto
  have "(\<forall>c \<in> set (show_requirement r). ascii_text c) \<and> show_requirement r \<noteq> []
      \<and> ink (hd (show_requirement r)) \<and> ink (last (show_requirement r))"
  proof (cases "req_op r = Absent \<or> req_op r = Exists")
    case True
    with key ch(1) show ?thesis by (auto simp: show_requirement_def show_op_def ascii_text_def ink_def)
  next
    case False
    then have f: "\<forall>c \<in> set (show_op (req_op r)). ascii_text c" "show_op (req_op r) \<noteq> []"
      "ink (last (show_op (req_op r)))" using show_op_text [OF o] by simp_all
    show ?thesis using False f key ch(1) by (simp add: show_requirement_def ball_Un)
  qed
  then show "\<forall>c \<in> set (show_requirement r). ascii_text c" "show_requirement r \<noteq> []"
    "ink (hd (show_requirement r))" "ink (last (show_requirement r))" by auto
qed

definition show_labels :: "requirement list \<Rightarrow> string" where
  "show_labels rs = join CHR '','' (map show_requirement rs)"

lemma label_pieces_join:
  assumes "\<forall>r \<in> set (r # rs). wf_requirement r"
  shows "label_pieces False [] (show_labels (r # rs)) = Inr (map show_requirement (r # rs))"
  using assms
proof (induction rs arbitrary: r)
  case Nil
  then have wf: "wf_requirement r" by simp
  have "trim (show_requirement r) = show_requirement r"
    using show_requirement_text [OF wf] by (intro trim_ink) auto
  with label_pieces_show [OF wf, of "[]" "[]"] show ?case by (simp add: show_labels_def)
next
  case (Cons r' rs)
  then have wf: "wf_requirement r" by simp
  have "trim (show_requirement r) = show_requirement r"
    using show_requirement_text [OF wf] by (intro trim_ink) auto
  with Cons label_pieces_show [OF wf, of "[]"] show ?case by (simp add: show_labels_def)
qed

lemma hd_last_join:
  assumes "ps \<noteq> []" and "\<forall>p \<in> set ps. p \<noteq> []"
  shows "join c ps \<noteq> []" "hd (join c ps) = hd (hd ps)" "last (join c ps) = last (last ps)"
  using assms by (induction c ps rule: join.induct) (auto simp: hd_append)

text \<open>
  C30: the label selector parser reads back what is written: printing well-formed requirements
  (membership, exclusion, existence, absence and integer comparison) and parsing the text gives the
  same requirements in the same order, as long as the text is within the size limit.
\<close>

theorem label_selector_roundtrip:
  assumes "\<forall>r \<in> set rs. wf_requirement r" and "length (show_labels rs) \<le> 8192"
  shows "parse_selection (show_labels rs) '''' knd = Inr \<lparr>sel_labels = rs, sel_fields = []\<rparr>"
proof -
  have "andThen (split_labels (show_labels rs)) (try_map parse_label) = Inr rs"
  proof (cases rs)
    case Nil
    then show ?thesis by (simp add: show_labels_def split_labels_def trim_ink)
  next
    case (Cons r rs')
    let ?ps = "map show_requirement rs"
    note t = show_requirement_text
    have ne: "?ps \<noteq> []" "\<forall>p \<in> set ?ps. p \<noteq> []" using Cons t(2) assms(1) by auto
    have "\<forall>c \<in> set (show_labels rs). ascii_text c"
    proof
      fix c
      assume "c \<in> set (show_labels rs)"
      with set_join [of "CHR '',''" ?ps] have "c = CHR '','' \<or> (\<exists>r \<in> set rs. c \<in> set (show_requirement r))"
        by (auto simp: show_labels_def)
      then show "ascii_text c" using t(1) assms(1) by (auto simp: ascii_text_def ink_def)
    qed
    moreover have "ink (hd (show_labels rs))" "ink (last (show_labels rs))"
      using hd_last_join [OF ne, of "CHR '',''"] t(3,4) assms(1) Cons
      by (auto simp: show_labels_def last_map hd_map)
    ultimately have "trim (show_labels rs) = show_labels rs" by (intro trim_ink) auto
    moreover have "show_labels rs \<noteq> []" using hd_last_join(1) [OF ne] by (simp add: show_labels_def)
    moreover have "label_pieces False [] (show_labels rs) = Inr ?ps"
      using label_pieces_join [of r rs'] assms(1) Cons by simp
    moreover have "\<not> list_ex (\<lambda>p. p = []) ?ps" using ne(2) by (auto simp: list_ex_iff)
    moreover have "try_map parse_label ?ps = Inr rs"
      using assms(1) parse_label_show by (induction rs) auto
    ultimately show ?thesis using assms(2) by (simp add: split_labels_def)
  qed
  then show ?thesis by (simp add: parse_selection_def no_panic_def split_fields_def trim_ink)
qed

theorem label_selector_roundtrip_witness:
  "parse_selection (show_labels [\<lparr>req_key = ''app'', req_op = In [''web'', ''db'']\<rparr>, \<lparr>req_key = ''x.io/v'', req_op = Greater 12\<rparr>]) '''' ''Pod''
     = Inr \<lparr>sel_labels = [\<lparr>req_key = ''app'', req_op = In [''web'', ''db'']\<rparr>, \<lparr>req_key = ''x.io/v'', req_op = Greater 12\<rparr>],
            sel_fields = []\<rparr>"
  by (rule label_selector_roundtrip) code_simp+

end
