(* ===== verification/Authz.thy ===== *)
theory Authz
  imports Api Auth Selectors
begin

text \<open>
  Authorization in the API server: the RBAC snapshot and the decision for a resource request
  (\<^verbatim>\<open>crates/h3s-apiserver/src/authz.rs\<close>), node relationships and node admission (\<^verbatim>\<open>nodes.rs\<close>), and
  escalation prevention.  Decoding a stored RBAC object into its typed form is the k8s-openapi
  library's: the record \<open>rbac_codec\<close>.
\<close>

subsection \<open>The RBAC snapshot\<close>

record rbac_codec =
  role_of :: "string \<Rightarrow> role option"
  binding_of :: "string \<Rightarrow> binding option"

definition empty_rbac :: rbac where
  "empty_rbac = \<lparr>roles = [], cluster_roles = [], role_bindings = [], cluster_role_bindings = []\<rparr>"

definition invalid_json :: failure where
  "invalid_json = \<lparr>code = 422, reason = ''Invalid'', message = ''invalid Kubernetes JSON object''\<rparr>"

definition push_object :: "rbac_codec \<Rightarrow> string \<Rightarrow> rbac \<Rightarrow> stored_object \<Rightarrow> rbac flow answer" where
  "push_object rc knd r ob =
     (if knd = ''roles'' then
        map_err (\<lambda>_. invalid_json) (ok_or () (map_option (\<lambda>x. Continue (r\<lparr>roles := roles r @ [x]\<rparr>)) (role_of rc (ovalue ob))))
      else if knd = ''rolebindings'' then
        map_err (\<lambda>_. invalid_json) (ok_or () (map_option (\<lambda>x. Continue (r\<lparr>role_bindings := role_bindings r @ [x]\<rparr>)) (binding_of rc (ovalue ob))))
      else if knd = ''clusterroles'' then
        map_err (\<lambda>_. invalid_json) (ok_or () (map_option (\<lambda>x. Continue (r\<lparr>cluster_roles := cluster_roles r @ [x]\<rparr>)) (role_of rc (ovalue ob))))
      else
        map_err (\<lambda>_. invalid_json) (ok_or () (map_option (\<lambda>x. Continue (r\<lparr>cluster_role_bindings := cluster_role_bindings r @ [x]\<rparr>)) (binding_of rc (ovalue ob)))))"

text \<open>The first page fixes the revision of all four listings.\<close>

definition load_kind :: "env \<Rightarrow> rbac_codec \<Rightarrow> registry \<Rightarrow> nat option \<times> rbac \<Rightarrow> string \<Rightarrow> (nat option \<times> rbac) answer" where
  "load_kind a rc db st knd =
     andThen (page_loop (custody a) (push_object rc knd) (snd st) (select (''/registry/'' @ knd @ ''/'') (fst st)) db)
       (\<lambda>(q, r). Inr (case fst st of None \<Rightarrow> Some q | Some s \<Rightarrow> Some s, r))"

definition load_rbac :: "env \<Rightarrow> rbac_codec \<Rightarrow> registry \<Rightarrow> rbac answer" where
  "load_rbac a rc db =
     andThen (try_fold (load_kind a rc db) (None, empty_rbac)
       [''roles'', ''rolebindings'', ''clusterroles'', ''clusterrolebindings'']) (\<lambda>(s, r). Inr r)"

definition non_resource :: "env \<Rightarrow> rbac_codec \<Rightarrow> registry \<Rightarrow> user \<Rightarrow> string \<Rightarrow> string \<Rightarrow> unit answer" where
  "non_resource a rc db u path denial =
     andThen (load_rbac a rc db) (\<lambda>r.
     if \<not> allows r u (NonResource ''get'' path) then fail 403 ''Forbidden'' denial else Inr ())"

subsection \<open>Relationships of a node\<close>

definition deny :: "string \<Rightarrow> 'a answer" where
  "deny m = fail 403 ''Forbidden'' m"

definition empty_value :: "json \<Rightarrow> bool" where
  "empty_value v \<longleftrightarrow> is_null v \<or> (case as_array v of None \<Rightarrow> False | Some xs \<Rightarrow> xs = []) \<or> as_str v = Some ''''"

definition equivalent :: "json \<Rightarrow> json \<Rightarrow> bool" where
  "equivalent a b \<longleftrightarrow> a = b \<or> (empty_value a \<and> empty_value b)"

definition assigned :: "json \<Rightarrow> string \<Rightarrow> bool" where
  "assigned pod node \<longleftrightarrow> as_str (at pod [''spec'', ''nodeName'']) = Some node"

definition volume_references :: "bool \<Rightarrow> string \<Rightarrow> json \<Rightarrow> bool" where
  "volume_references secret name volume \<longleftrightarrow>
     (let source = (if secret then ''secret'' else ''configMap'');
          field = (if secret then ''secretName'' else ''name'')
      in at volume [source, field] = JStr name
         \<or> list_ex (\<lambda>v. at v [source, ''name''] = JStr name) (items (at volume [''projected'', ''sources'']))
         \<or> (secret \<and> at volume [''csi'', ''nodePublishSecretRef'', ''name''] = JStr name))"

definition container_references :: "bool \<Rightarrow> string \<Rightarrow> json \<Rightarrow> bool" where
  "container_references secret name container \<longleftrightarrow>
     (let key_ref = (if secret then ''secretKeyRef'' else ''configMapKeyRef'');
          source = (if secret then ''secretRef'' else ''configMapRef'')
      in list_ex (\<lambda>v. at v [''valueFrom'', key_ref, ''name''] = JStr name) (items (idx container ''env''))
         \<or> list_ex (\<lambda>v. at v [source, ''name''] = JStr name) (items (idx container ''envFrom'')))"

definition references :: "json \<Rightarrow> string \<Rightarrow> string \<Rightarrow> bool" where
  "references pod pl name \<longleftrightarrow>
     (let spec = idx pod ''spec''; secret = (pl = ''secrets'')
      in (secret \<and> list_ex (\<lambda>v. idx v ''name'' = JStr name) (items (idx spec ''imagePullSecrets'')))
         \<or> list_ex (volume_references secret name) (items (idx spec ''volumes''))
         \<or> list_ex (\<lambda>field. list_ex (container_references secret name) (items (idx spec field)))
             [''containers'', ''initContainers'', ''ephemeralContainers''])"

definition related :: "env \<Rightarrow> registry \<Rightarrow> string \<Rightarrow> target \<Rightarrow> string option \<Rightarrow> bool answer" where
  "related a db node t name =
     (case (namespace t, name) of
        (Some ns, Some n) \<Rightarrow>
          if api_group (resource t) \<noteq> [] then Inr False
          else if plural (resource t) = ''pods'' then
            andThen (api_key (''/registry/pods/'' @ ns @ ''/'' @ n)) (\<lambda>k.
            andThen (api_get a db k) (\<lambda>x. case x of
                None \<Rightarrow> Inr False
              | Some ob \<Rightarrow> andThen (object a ob) (\<lambda>pod. Inr (assigned pod node))))
          else if plural (resource t) \<noteq> ''secrets'' \<and> plural (resource t) \<noteq> ''configmaps'' then Inr False
          else andThen
            (page_loop (custody a) (\<lambda>_ ob. andThen (object a ob) (\<lambda>pod.
                 Inr (if assigned pod node \<and> references pod (plural (resource t)) n then Break True else Continue False)))
               False (select (''/registry/pods/'' @ ns @ ''/'') None) db) (\<lambda>(q, found). Inr found)
      | _ \<Rightarrow> Inr False)"

record read_guard =
  guard_node :: string
  guard_target :: target
  guard_name :: string

definition guard_check :: "env \<Rightarrow> registry \<Rightarrow> read_guard \<Rightarrow> unit answer" where
  "guard_check a db g =
     andThen (related a db (guard_node g) (guard_target g) (Some (guard_name g))) (\<lambda>ok.
     if ok then Inr () else deny ''node no longer has a Pod relationship to this object'')"

subsection \<open>The decision\<close>

record grant =
  grant_selection :: selection
  grant_guard :: "read_guard option"

definition forbidden :: "user \<Rightarrow> string \<Rightarrow> target \<Rightarrow> 'a answer" where
  "forbidden u v t = fail 403 ''Forbidden'' (''user '' @ user_name u @ '' cannot '' @ v @ '' '' @ plural (resource t))"

definition request_attrs :: "target \<Rightarrow> string \<Rightarrow> selection \<Rightarrow> resource_request" where
  "request_attrs t v sel =
     \<lparr>req_verb = v, req_group = api_group (resource t), req_resource = plural (resource t),
      req_sub = subresource t, req_ns = namespace t,
      req_name = (case tname t of Some n \<Rightarrow> Some n
        | None \<Rightarrow> if v = ''list'' \<or> v = ''watch'' then exact_name sel else None)\<rparr>"

definition node_grant :: "env \<Rightarrow> registry \<Rightarrow> user \<Rightarrow> target \<Rightarrow> string \<Rightarrow> selection \<Rightarrow> bool answer" where
  "node_grant a db u t v sel =
     (case node_name u of
        None \<Rightarrow> Inr False
      | Some node \<Rightarrow>
          andThen (related a db node t (req_name (request_attrs t v sel))) (\<lambda>rel.
          Inr (node_allows u (request_attrs t v sel) (exact_field sel ''spec.nodeName'') rel)))"

definition node_constrained :: "user \<Rightarrow> target \<Rightarrow> bool" where
  "node_constrained u t \<longleftrightarrow> node_name u \<noteq> None \<and> kind (resource t) \<in> {''Pod'', ''Secret'', ''ConfigMap''}"

text \<open>A node grant without a node identity, or a relationship grant without a name, is a panic.\<close>

definition authorize :: "env \<Rightarrow> rbac_codec \<Rightarrow> registry \<Rightarrow> user \<Rightarrow> target \<Rightarrow> string \<Rightarrow> selection \<Rightarrow> grant guarded" where
  "authorize a rc db u t v sel =
     (let attrs = request_attrs t v sel in
      andThen (no_panic (load_rbac a rc db)) (\<lambda>r.
      let rbac_allowed = allows r u (ResourceReq attrs) in
      andThen (no_panic (node_grant a db u t v sel)) (\<lambda>node_allowed.
      andThen (no_panic
        (if node_constrained u t then (if \<not> node_allowed then forbidden u v t else Inr ())
         else if \<not> rbac_allowed \<and> \<not> node_allowed then forbidden u v t else Inr ())) (\<lambda>_.
      if \<not> node_allowed then Inr \<lparr>grant_selection = sel, grant_guard = None\<rparr>
      else (case node_name u of None \<Rightarrow> Inl None | Some node \<Rightarrow>
        let sel' = (if kind (resource t) = ''Pod'' \<and> (v = ''list'' \<or> v = ''watch'')
                    then with_field sel ''spec.nodeName'' node else sel)
        in if kind (resource t) = ''Secret'' \<or> kind (resource t) = ''ConfigMap''
           then (case req_name attrs of None \<Rightarrow> Inl None
                 | Some n \<Rightarrow> Inr \<lparr>grant_selection = sel', grant_guard = Some \<lparr>guard_node = node, guard_target = t, guard_name = n\<rparr>\<rparr>)
           else Inr \<lparr>grant_selection = sel', grant_guard = None\<rparr>)))))"

subsection \<open>Escalation\<close>

definition strings :: "json \<Rightarrow> string list option" where
  "strings v = map_option (List.map_filter as_str) (as_array v)"

definition rule_names :: "json \<Rightarrow> string option list" where
  "rule_names rule =
     (case strings (idx rule ''resourceNames'') of
        Some ns \<Rightarrow> if ns \<noteq> [] then map Some ns else [None]
      | None \<Rightarrow> [None])"

definition rule_grants :: "json \<Rightarrow> (string \<times> string \<times> string \<times> string option) list" where
  "rule_grants rule =
     (let groups = or_default [''''] (strings (idx rule ''apiGroups''));
          rs = or_default [] (strings (idx rule ''resources''));
          vs = or_default [] (strings (idx rule ''verbs''))
      in concat (map (\<lambda>v. concat (map (\<lambda>g. concat (map (\<lambda>r. map (\<lambda>n. (v, g, r, n)) (rule_names rule)) rs)) groups)) vs))"

definition granted :: "json \<Rightarrow> (string \<times> string \<times> string \<times> string option) list" where
  "granted rules = concat (map rule_grants (items rules))"

definition split_resource :: "string \<Rightarrow> string \<times> string option" where
  "split_resource s = (case split_once CHR ''/'' s of Some (r, sub) \<Rightarrow> (r, Some sub) | None \<Rightarrow> (s, None))"

definition within :: "rbac \<Rightarrow> user \<Rightarrow> string option \<Rightarrow> string \<times> string \<times> string \<times> string option \<Rightarrow> bool" where
  "within r u ns perm =
     (case perm of (v, g, s, n) \<Rightarrow>
        allows r u (ResourceReq \<lparr>req_verb = v, req_group = g, req_resource = fst (split_resource s),
          req_sub = snd (split_resource s), req_ns = ns, req_name = n\<rparr>))"

definition escalation_denied :: "string \<times> string \<times> string \<times> string option \<Rightarrow> 'a answer" where
  "escalation_denied perm = (case perm of (v, g, s, n) \<Rightarrow>
     fail 403 ''Forbidden'' (''user cannot grant permissions it does not hold: '' @ v @ '' on '' @ g @ ''/'' @ s))"

fun check_grants :: "rbac \<Rightarrow> user \<Rightarrow> string option \<Rightarrow> (string \<times> string \<times> string \<times> string option) list \<Rightarrow> unit answer" where
  "check_grants r u ns [] = Inr ()"
| "check_grants r u ns (p # ps) = (if \<not> within r u ns p then escalation_denied p else check_grants r u ns ps)"

definition referenced_kind :: "json \<Rightarrow> string answer" where
  "referenced_kind v =
     (if as_str (at v [''roleRef'', ''kind'']) = Some ''ClusterRole'' then Inr ''clusterroles''
      else if as_str (at v [''roleRef'', ''kind'']) = Some ''Role'' then Inr ''roles''
      else deny ''invalid roleRef kind'')"

definition role_path :: "string \<Rightarrow> string option \<Rightarrow> string \<Rightarrow> string" where
  "role_path refd ns name =
     (if refd = ''roles'' then ''/registry/roles/'' @ or_default '''' ns @ ''/'' @ name
      else ''/registry/clusterroles/'' @ name)"

definition escalation :: "env \<Rightarrow> rbac_codec \<Rightarrow> registry \<Rightarrow> user \<Rightarrow> target \<Rightarrow> string \<Rightarrow> json \<Rightarrow> unit answer" where
  "escalation a rc db u t v doc =
     (if is_superuser u \<or> \<not> (v = ''create'' \<or> v = ''update'' \<or> v = ''patch'') then Inr ()
      else andThen (load_rbac a rc db) (\<lambda>r.
      let ns = filled (namespace t); pl = plural (resource t) in
      if pl = ''roles'' \<or> pl = ''clusterroles'' then
        (if within r u ns (''escalate'', RBAC_GROUP, pl, None) then Inr ()
         else check_grants r u ns (granted (idx doc ''rules'')))
      else if \<not> (pl = ''rolebindings'' \<or> pl = ''clusterrolebindings'') then Inr ()
      else
        andThen (referenced_kind doc) (\<lambda>refd.
        andThen (case filled (as_str (at doc [''roleRef'', ''name''])) of
                   None \<Rightarrow> deny ''roleRef name is required'' | Some n \<Rightarrow> Inr n) (\<lambda>name.
        if within r u ns (''bind'', RBAC_GROUP, refd, Some name) then Inr ()
        else
          andThen (api_key (role_path refd ns name)) (\<lambda>k.
          andThen (api_get a db k) (\<lambda>x.
          andThen (case x of None \<Rightarrow> deny ''roleRef names a missing role'' | Some ob \<Rightarrow> object a ob) (\<lambda>role.
          check_grants r u (if refd = ''roles'' then ns else None) (granted (idx role ''rules'')))))))))"

subsection \<open>Node admission\<close>

definition object_keys :: "json \<Rightarrow> string list" where
  "object_keys v = (case as_object v of None \<Rightarrow> [] | Some m \<Rightarrow> map fst m)"

definition admit_node :: "string \<Rightarrow> string \<Rightarrow> json \<Rightarrow> json \<Rightarrow> unit answer" where
  "admit_node node v doc old =
     (if at doc [''metadata'', ''name''] \<noteq> JStr node \<or> v = ''delete'' then
        deny ''a node may modify only its own Node and may not delete it''
      else if list_ex (\<lambda>f. \<not> equivalent (at doc [''spec'', f]) (at old [''spec'', f]))
                [''podCIDR'', ''podCIDRs'', ''configSource''] then
        deny ''node network allocation and configSource are administrator-managed''
      else if v \<noteq> ''create'' \<and> \<not> equivalent (at doc [''spec'', ''taints'']) (at old [''spec'', ''taints'']) then
        deny ''nodes may not modify their taints''
      else if list_ex (\<lambda>f. \<not> equivalent (at doc [''metadata'', f]) (at old [''metadata'', f]))
                [''ownerReferences'', ''finalizers'', ''deletionTimestamp'', ''deletionGracePeriodSeconds''] then
        deny ''nodes may not alter Node ownership or deletion metadata''
      else if list_ex (\<lambda>l. at doc [''metadata'', ''labels'', l] \<noteq> at old [''metadata'', ''labels'', l] \<and> \<not> node_label_allowed l)
                (object_keys (at doc [''metadata'', ''labels'']) @ object_keys (at old [''metadata'', ''labels''])) then
        deny ''nodes may not modify administrative Kubernetes labels''
      else Inr ())"

definition admit_pod :: "string \<Rightarrow> target \<Rightarrow> string \<Rightarrow> json \<Rightarrow> json option \<Rightarrow> unit answer" where
  "admit_pod node t v doc old =
     (case old of
        None \<Rightarrow> deny ''node mirror Pod creation is not implemented''
      | Some pod \<Rightarrow>
          if \<not> assigned pod node then deny ''node may modify only Pods assigned to itself''
          else if v = ''delete'' then Inr ()
          else if subresource t \<noteq> Some ''status'' then deny ''node Pod updates must use the status subresource''
          else if at doc [''status'', ''resourceClaimStatuses''] \<noteq> at pod [''status'', ''resourceClaimStatuses''] then
            deny ''node may not alter Pod resource claim allocation''
          else Inr ())"

definition nodes_admit :: "user \<Rightarrow> target \<Rightarrow> string \<Rightarrow> json \<Rightarrow> json option \<Rightarrow> unit answer" where
  "nodes_admit u t v doc old =
     (case node_name u of None \<Rightarrow> Inr () | Some node \<Rightarrow>
        if api_group (resource t) = '''' \<and> kind (resource t) = ''Node'' then
          admit_node node v doc (or_default JNull old)
        else if api_group (resource t) = '''' \<and> kind (resource t) = ''Pod'' then admit_pod node t v doc old
        else if api_group (resource t) = ''coordination.k8s.io'' \<and> kind (resource t) = ''Lease''
          \<and> (namespace t \<noteq> Some ''kube-node-lease'' \<or> at doc [''metadata'', ''name''] \<noteq> JStr node) then
          deny ''node may modify only its named lease in kube-node-lease''
        else Inr ())"

subsection \<open>Grants cover what rules allow\<close>

text \<open>
  What decoding a rule list into its typed form promises: the typed rules have the string lists of
  the document's rules.
\<close>

definition decodes_rule :: "json \<Rightarrow> policy_rule \<Rightarrow> bool" where
  "decodes_rule j rule \<longleftrightarrow> verbs rule = or_default [] (strings (idx j ''verbs''))
     \<and> api_groups rule = strings (idx j ''apiGroups'')
     \<and> rule_resources rule = strings (idx j ''resources'')
     \<and> resource_names rule = strings (idx j ''resourceNames'')"

definition decodes_rules :: "json \<Rightarrow> policy_rule list option \<Rightarrow> bool" where
  "decodes_rules j rules \<longleftrightarrow> list_all2 decodes_rule (items j) (or_default [] rules)"

definition covers :: "string \<times> string \<times> string \<times> string option \<Rightarrow> resource_request \<Rightarrow> bool" where
  "covers perm q \<longleftrightarrow> (case perm of (v, g, s, n) \<Rightarrow>
     (v = ''*'' \<or> v = req_verb q) \<and> (g = ''*'' \<or> g = req_group q) \<and> resource_matches s q
     \<and> (n = None \<or> n = req_name q))"

lemma rule_allows_resource:
  "rule_allows rule (ResourceReq q) \<longleftrightarrow>
     contains (Some (verbs rule)) (req_verb q) \<and> contains (api_groups rule) (req_group q)
     \<and> (\<exists>s \<in> set (or_default [] (rule_resources rule)). resource_matches s q)
     \<and> name_matches (resource_names rule) (req_name q)"
  by (auto simp: rule_allows_def request_verb_of_def list_ex_iff or_default_def split: option.splits)

lemma rule_grants_cover:
  assumes "decodes_rule j rule" and "rule_allows rule (ResourceReq q)"
  shows "\<exists>p \<in> set (rule_grants j). covers p q"
proof -
  from assms have d: "verbs rule = or_default [] (strings (idx j ''verbs''))" "api_groups rule = strings (idx j ''apiGroups'')"
    "rule_resources rule = strings (idx j ''resources'')" "resource_names rule = strings (idx j ''resourceNames'')"
    by (auto simp: decodes_rule_def)
  from assms(2) obtain v g gs s where v: "v \<in> set (verbs rule)" "v = ''*'' \<or> v = req_verb q"
    and g: "api_groups rule = Some gs" "g \<in> set gs" "g = ''*'' \<or> g = req_group q"
    and s: "s \<in> set (or_default [] (rule_resources rule))" "resource_matches s q"
    unfolding rule_allows_resource contains_iff by blast
  from assms(2) obtain n where n: "n \<in> set (rule_names j)" "n = None \<or> n = req_name q"
    unfolding rule_allows_resource d(4)
    by (auto simp: name_matches_def rule_names_def split: option.splits if_splits)
  have "(v, g, s, n) \<in> set (rule_grants j)"
    using v(1) g(1,2) s(1) n(1) d by (auto simp: rule_grants_def or_default_def)
  moreover have "covers (v, g, s, n) q" using v(2) g(3) s(2) n(2) by (simp add: covers_def)
  ultimately show ?thesis by blast
qed


lemma granted_cover:
  assumes "decodes_rules j rules" and "rules_allow rules (ResourceReq q)"
  shows "\<exists>p \<in> set (granted j). covers p q"
proof -
  from assms(2) obtain rule where "rule \<in> set (or_default [] rules)" "rule_allows rule (ResourceReq q)"
    by (cases rules) (auto simp: or_default_def)
  moreover from this(1) assms(1) obtain r where "r \<in> set (items j)" "decodes_rule r rule"
    unfolding decodes_rules_def by (metis list_all2_conv_all_nth in_set_conv_nth)
  ultimately show ?thesis using rule_grants_cover [of r rule q] by (auto simp: granted_def)
qed

lemma split_resource_plain: "CHR ''/'' \<notin> set r \<Longrightarrow> split_resource r = (r, None)"
  by (simp add: split_resource_def split_once_None [THEN iffD2])

lemma split_resource_sub: "CHR ''/'' \<notin> set r \<Longrightarrow> split_resource (r @ CHR ''/'' # sub) = (r, Some sub)"
  by (simp add: split_resource_def split_once_sep)

definition perm_request :: "string option \<Rightarrow> string \<times> string \<times> string \<times> string option \<Rightarrow> resource_request" where
  "perm_request ns perm = (case perm of (v, g, s, n) \<Rightarrow>
     \<lparr>req_verb = v, req_group = g, req_resource = fst (split_resource s), req_sub = snd (split_resource s),
      req_ns = ns, req_name = n\<rparr>)"

lemma within_request: "within r u ns p = allows r u (ResourceReq (perm_request ns p))"
  by (cases p) (simp add: within_def perm_request_def)

text \<open>Holding a grant is holding every request the grant covers.\<close>

lemma resource_matches_covered:
  assumes "resource_matches s q" and "CHR ''/'' \<notin> set (req_resource q)"
    and "resource_matches w (perm_request ns (v, g, s, n))"
  shows "resource_matches w q"
proof -
  let ?p = "perm_request ns (v, g, s, n)"
  consider (any) "s = ''*''" | (plain) "filled (req_sub q) = None" "s = req_resource q"
    | (sub) sub where "filled (req_sub q) = Some sub" "s = req_resource q @ CHR ''/'' # sub"
    | (anysub) sub where "filled (req_sub q) = Some sub" "s = CHR ''*'' # CHR ''/'' # sub"
    using assms(1) by (auto simp: resource_matches_def request_resource_def filled_None_iff split: option.splits)
  then show ?thesis
  proof cases
    case any
    then have "split_resource s = (''*'', None)" using split_resource_plain [of "''*''"] by simp
    with assms(3) show ?thesis by (auto simp: resource_matches_def request_resource_def perm_request_def filled_def)
  next
    case plain
    with assms(2) have "split_resource s = (req_resource q, None)" by (simp add: split_resource_plain)
    with assms(3) plain show ?thesis
      by (auto simp: resource_matches_def request_resource_def perm_request_def filled_def split: option.splits if_splits)
  next
    case (sub x)
    with assms(2) have "split_resource s = (req_resource q, Some x)" by (simp add: split_resource_sub)
    with assms(3) sub show ?thesis
      by (auto simp: resource_matches_def request_resource_def perm_request_def filled_def split: option.splits if_splits)
  next
    case (anysub x)
    then have "split_resource s = (''*'', Some x)" using split_resource_sub [of "''*''" x] by simp
    with assms(3) anysub show ?thesis
      by (auto simp: resource_matches_def request_resource_def perm_request_def filled_def split: option.splits if_splits)
  qed
qed

lemma rule_allows_covered:
  assumes "covers p q" and "CHR ''/'' \<notin> set (req_resource q)"
    and "rule_allows rule (ResourceReq (perm_request ns p))"
  shows "rule_allows rule (ResourceReq q)"
proof -
  obtain v g s n where p: "p = (v, g, s, n)" by (cases p) auto
  have c: "v = ''*'' \<or> v = req_verb q" "g = ''*'' \<or> g = req_group q" "resource_matches s q" "n = None \<or> n = req_name q"
    using assms(1) by (auto simp: covers_def p)
  have f: "req_verb (perm_request ns p) = v" "req_group (perm_request ns p) = g" "req_name (perm_request ns p) = n"
    by (simp_all add: p perm_request_def)
  note a = assms(3) [unfolded rule_allows_resource f contains_iff]
  have "contains (Some (verbs rule)) (req_verb q)" "contains (api_groups rule) (req_group q)"
    using a c(1,2) by (auto simp: contains_iff)
  moreover have "\<exists>w \<in> set (or_default [] (rule_resources rule)). resource_matches w q"
    using a resource_matches_covered [OF c(3) assms(2)] p by blast
  moreover have "name_matches (resource_names rule) (req_name q)"
    using a c(4) by (auto simp: name_matches_def split: option.splits if_splits)
  ultimately show ?thesis by (simp add: rule_allows_resource)
qed

lemma allows_covered:
  assumes "covers p q" and "CHR ''/'' \<notin> set (req_resource q)" and "within r u (req_ns q) p"
  shows "allows r u (ResourceReq q)"
proof -
  have ra: "rules_allow rs (ResourceReq (perm_request (req_ns q) p)) \<Longrightarrow> rules_allow rs (ResourceReq q)" for rs
    using rule_allows_covered [OF assms(1,2)] by (auto simp: rules_allow_iff)
  have "req_ns (perm_request (req_ns q) p) = req_ns q" by (cases p) (simp add: perm_request_def)
  then show ?thesis
    using assms(3) ra unfolding within_request allows_iff cluster_grant_def namespace_grant_def request_ns_def
    by (simp, blast)
qed

lemma within_cluster_wide: "within r u None p \<Longrightarrow> within r u ns p"
  using allows_cluster_wide [of r u "perm_request None p" ns]
  by (cases p) (simp add: within_request perm_request_def)

lemma check_grants_ok: "check_grants r u ns ps = Inr () \<longleftrightarrow> (\<forall>p \<in> set ps. within r u ns p)"
  by (induction ps) (auto simp: escalation_denied_def fail_def split: prod.splits)

lemma checked_grants_bound:
  assumes "check_grants r u ns (granted j) = Inr ()" and "decodes_rules j rules"
    and "rules_allow rules (ResourceReq q)" and "CHR ''/'' \<notin> set (req_resource q)"
    and "ns = None \<or> ns = req_ns q"
  shows "allows r u (ResourceReq q)"
proof -
  obtain p where p: "p \<in> set (granted j)" "covers p q" using granted_cover [OF assms(2,3)] by blast
  then have "within r u ns p" using assms(1) by (simp add: check_grants_ok)
  then have "within r u (req_ns q) p" using assms(5) within_cluster_wide by metis
  with allows_covered [OF p(2) assms(4)] show ?thesis by simp
qed


lemma allows_transfer:
  assumes "allows r' u req"
    and "role_bindings r' = role_bindings r" and "cluster_role_bindings r' = cluster_role_bindings r"
    and "\<And>n y. find_cluster_role r' n = Some y \<Longrightarrow> rules_allow (role_rules y) req \<Longrightarrow> find_cluster_role r n = Some y"
    and "\<And>k ref. request_ns req = Some k \<Longrightarrow> rules_allow (referenced_rules r' k ref) req
            \<Longrightarrow> rules_allow (referenced_rules r k ref) req"
  shows "allows r u req"
  using assms(1) unfolding allows_iff cluster_grant_def namespace_grant_def assms(2,3)
  using assms(4,5) by metis

subsection \<open>Writing a role\<close>

definition role_written :: "target \<Rightarrow> string \<Rightarrow> role \<Rightarrow> rbac \<Rightarrow> rbac \<Rightarrow> bool" where
  "role_written t name x r r' \<longleftrightarrow>
     role_bindings r' = role_bindings r \<and> cluster_role_bindings r' = cluster_role_bindings r
     \<and> (if plural (resource t) = ''roles''
        then cluster_roles r' = cluster_roles r
          \<and> (\<forall>ns n. find_role r' ns n = (if namespace t = Some ns \<and> n = name then Some x else find_role r ns n))
        else (\<forall>ns n. find_role r' ns n = find_role r ns n)
          \<and> (\<forall>n. find_cluster_role r' n = (if n = name then Some x else find_cluster_role r n)))"

text \<open>
  C24: escalation prevention.  When the API accepts a role or cluster role from a principal that may
  not \<^verbatim>\<open>escalate\<close>, no user can do more on resources afterwards than before, except what the principal
  itself was allowed to do: every request that any user may make under the new role was already
  allowed to that user or to the author of the role.
\<close>

theorem role_escalation_bounded:
  assumes ok: "escalation a rc db u t v doc = Inr ()" and load: "load_rbac a rc db = Inr r"
    and u: "\<not> is_superuser u" and v: "v = ''create'' \<or> v = ''update'' \<or> v = ''patch''"
    and t: "plural (resource t) = ''roles'' \<and> filled (namespace t) = namespace t
            \<or> plural (resource t) = ''clusterroles'' \<and> namespace t = None"
    and may_not: "\<not> within r u (namespace t) (''escalate'', RBAC_GROUP, plural (resource t), None)"
    and x: "decodes_rules (idx doc ''rules'') (role_rules x)" and w: "role_written t name x r r'"
    and q: "CHR ''/'' \<notin> set (req_resource q)" and new: "allows r' any_user (ResourceReq q)"
  shows "allows r any_user (ResourceReq q) \<or> allows r u (ResourceReq q)"
proof (rule disjCI)
  assume no: "\<not> allows r u (ResourceReq q)"
  have ns: "filled (namespace t) = namespace t" using t by (auto simp: filled_def)
  have cg: "check_grants r u (namespace t) (granted (idx doc ''rules'')) = Inr ()"
    using ok load u v t may_not by (auto simp: escalation_def ns Let_def)
  have bound: "namespace t = None \<or> namespace t = req_ns q \<Longrightarrow> \<not> rules_allow (role_rules x) (ResourceReq q)"
    using checked_grants_bound [OF cg x _ q] no by blast
  have b: "role_bindings r' = role_bindings r" "cluster_role_bindings r' = cluster_role_bindings r"
    using w by (auto simp: role_written_def)
  show "allows r any_user (ResourceReq q)"
  proof (cases "plural (resource t) = ''roles''")
    case True
    with w have cr: "cluster_roles r' = cluster_roles r"
      and fr: "find_role r' k n = (if namespace t = Some k \<and> n = name then Some x else find_role r k n)" for k n
      by (auto simp: role_written_def)
    have fc: "find_cluster_role r' n = find_cluster_role r n" for n by (simp add: find_cluster_role_def cr)
    have "rules_allow (referenced_rules r k ref) (ResourceReq q)"
      if "rules_allow (referenced_rules r' k ref) (ResourceReq q)" "req_ns q = Some k" for k ref
      using that bound by (auto simp: referenced_rules_def fr fc split: if_splits)
    with allows_transfer [OF new b] fc show ?thesis by (auto simp: request_ns_def)
  next
    case False
    with t have none: "namespace t = None" by auto
    from False w have fr: "find_role r' k n = find_role r k n"
      and fc: "find_cluster_role r' n = (if n = name then Some x else find_cluster_role r n)" for k n
      by (auto simp: role_written_def)
    note nx = bound [OF disjI1 [OF none]]
    have "rules_allow (referenced_rules r k ref) (ResourceReq q)"
      if "rules_allow (referenced_rules r' k ref) (ResourceReq q)" for k ref
      using that nx by (auto simp: referenced_rules_def fr fc split: if_splits)
    moreover have "find_cluster_role r n = Some y"
      if "find_cluster_role r' n = Some y" "rules_allow (role_rules y) (ResourceReq q)" for n y
      using that nx by (auto simp: fc split: if_splits)
    ultimately show ?thesis using allows_transfer [OF new b] by blast
  qed
qed


subsection \<open>Concrete snapshots\<close>

text \<open>
  An API whose documents are looked up by their stored text: \<open>docs\<close>, \<open>rs\<close> and \<open>bs\<close> list the
  documents, roles and bindings the texts stand for.
\<close>

definition demo_env :: "(string \<times> json) list \<Rightarrow> env" where
  "demo_env docs = \<lparr>from_slice = map_of docs, to_vec = (\<lambda>_. ''''), custody = Unsealed, new_uid = (\<lambda>purpose. ''uid-'' @ purpose), clock = ''now''\<rparr>"

definition demo_codec :: "(string \<times> role) list \<Rightarrow> (string \<times> binding) list \<Rightarrow> rbac_codec" where
  "demo_codec rs bs = \<lparr>role_of = map_of rs, binding_of = map_of bs\<rparr>"

definition store_text :: "registry \<Rightarrow> string \<times> string \<Rightarrow> registry" where
  "store_text db kv = snd (create Unsealed \<lparr>okey = fst kv, ovalue = snd kv, orevision = 0\<rparr> db)"

definition reader_registry :: registry where
  "reader_registry = foldl store_text empty_registry
     [(''/registry/roles/a/r'', ''R''), (''/registry/rolebindings/a/b'', ''B'')]"

definition reader_codec :: rbac_codec where
  "reader_codec = demo_codec [(''R'', hd (roles pod_reader))] [(''B'', hd (role_bindings pod_reader))]"

definition pods_rule_doc :: json where
  "pods_rule_doc = JObj [(''apiGroups'', JArr [JStr '''']), (''resources'', JArr [JStr ''pods'']), (''verbs'', JArr [JStr ''get''])]"

definition pods_rule :: policy_rule where
  "pods_rule = \<lparr>verbs = [''get''], api_groups = Some [''''], rule_resources = Some [''pods''],
     resource_names = None, non_resource_urls = None\<rparr>"

definition role_target :: target where
  "role_target = \<lparr>resource = res RBAC_GROUP ''roles'' ''Role'' True, namespace = Some ''a'', tname = None, subresource = None\<rparr>"

lemma reader_loads: "load_rbac (demo_env []) reader_codec reader_registry = Inr pod_reader"
  by code_simp


theorem role_escalation_bounded_witness:
  "allows (pod_reader\<lparr>roles := roles pod_reader @ [\<lparr>role_ns = Some ''a'', role_name = Some ''n'', role_rules = Some [pods_rule]\<rparr>]\<rparr>)
      ann (ResourceReq (get_pod ''a'')) \<and>
   (allows pod_reader ann (ResourceReq (get_pod ''a'')) \<or> allows pod_reader ann (ResourceReq (get_pod ''a'')))"
proof -
  let ?x = "\<lparr>role_ns = Some ''a'', role_name = Some ''n'', role_rules = Some [pods_rule]\<rparr>"
  let ?r = "pod_reader\<lparr>roles := roles pod_reader @ [?x]\<rparr>"
  let ?doc = "JObj [(''rules'', JArr [pods_rule_doc])]"
  have ok: "escalation (demo_env []) reader_codec reader_registry ann role_target ''create'' ?doc = Inr ()"
    by code_simp
  have u: "\<not> is_superuser ann" by code_simp
  have may_not: "\<not> within pod_reader ann (namespace role_target) (''escalate'', RBAC_GROUP, plural (resource role_target), None)"
    by code_simp
  have t: "plural (resource role_target) = ''roles'' \<and> filled (namespace role_target) = namespace role_target
      \<or> plural (resource role_target) = ''clusterroles'' \<and> namespace role_target = None"
    by (simp add: role_target_def res_def filled_def)
  have x: "decodes_rules (idx ?doc ''rules'') (role_rules ?x)"
    by (simp add: decodes_rules_def decodes_rule_def pods_rule_def pods_rule_doc_def or_default_def strings_def List.map_filter_def)
  have w: "role_written role_target ''n'' ?x pod_reader ?r"
    by (auto simp: role_written_def role_target_def res_def find_role_def find_cluster_role_def pod_reader_def)
  have new: "allows ?r ann (ResourceReq (get_pod ''a''))" by code_simp
  have q: "CHR ''/'' \<notin> set (req_resource (get_pod ''a''))" by (simp add: get_pod_def)
  from role_escalation_bounded [OF ok reader_loads u _ t may_not x w q new] new show ?thesis by simp
qed

definition gap_rules :: "policy_rule list" where
  "gap_rules = [\<lparr>verbs = [''update''], api_groups = Some [RBAC_GROUP], rule_resources = Some [''clusterroles''],
     resource_names = Some [''c''], non_resource_urls = None\<rparr>]"

definition gap_rbac :: rbac where
  "gap_rbac = \<lparr>roles = [],
     cluster_roles = [\<lparr>role_ns = None, role_name = Some ''c'', role_rules = Some gap_rules\<rparr>], role_bindings = [],
     cluster_role_bindings = [\<lparr>binding_ns = None, binding_name = Some ''b'',
       binding_ref = \<lparr>ref_group = RBAC_GROUP, ref_kind = ''ClusterRole'', ref_name = ''c''\<rparr>,
       binding_subjects = Some [\<lparr>subject_kind = ''User'', subject_group = Some RBAC_GROUP,
         subject_name = ''ann'', subject_ns = None\<rparr>]\<rparr>]\<rparr>"

definition gap_registry :: registry where
  "gap_registry = foldl store_text empty_registry
     [(''/registry/clusterroles/c'', ''R''), (''/registry/clusterrolebindings/b'', ''B'')]"

definition gap_codec :: rbac_codec where
  "gap_codec = demo_codec [(''R'', hd (cluster_roles gap_rbac))] [(''B'', hd (cluster_role_bindings gap_rbac))]"

definition gap_target :: target where
  "gap_target = \<lparr>resource = res RBAC_GROUP ''clusterroles'' ''ClusterRole'' False, namespace = None,
     tname = Some ''c'', subresource = None\<rparr>"

definition metrics_rule :: policy_rule where
  "metrics_rule = \<lparr>verbs = [''get''], api_groups = None, rule_resources = None,
     resource_names = None, non_resource_urls = Some [''/metrics'']\<rparr>"

definition metrics_doc :: json where
  "metrics_doc = JObj [(''rules'', JArr [
     JObj [(''apiGroups'', JArr [JStr RBAC_GROUP]), (''resourceNames'', JArr [JStr ''c'']),
           (''resources'', JArr [JStr ''clusterroles'']), (''verbs'', JArr [JStr ''update''])],
     JObj [(''nonResourceURLs'', JArr [JStr ''/metrics'']), (''verbs'', JArr [JStr ''get''])]])]"

text \<open>
  The escalation check misses non-resource rules.  A principal that may only update its own
  cluster role, without the right to escalate, adds a rule for the URL \<^verbatim>\<open>/metrics\<close> it was never granted;
  the check accepts the object and the principal may read the URL afterwards.
\<close>

theorem escalation_misses_urls:
  "escalation (demo_env []) gap_codec gap_registry ann gap_target ''update'' metrics_doc = Inr ()
   \<and> load_rbac (demo_env []) gap_codec gap_registry = Inr gap_rbac
   \<and> \<not> within gap_rbac ann None (''escalate'', RBAC_GROUP, ''clusterroles'', None)
   \<and> decodes_rules (idx metrics_doc ''rules'') (Some (gap_rules @ [metrics_rule]))
   \<and> \<not> allows gap_rbac ann (NonResource ''get'' ''/metrics'')
   \<and> allows (gap_rbac\<lparr>cluster_roles := [\<lparr>role_ns = None, role_name = Some ''c'', role_rules = Some (gap_rules @ [metrics_rule])\<rparr>]\<rparr>)
       ann (NonResource ''get'' ''/metrics'')"
proof (intro conjI)
  show "decodes_rules (idx metrics_doc ''rules'') (Some (gap_rules @ [metrics_rule]))"
    by (simp add: decodes_rules_def decodes_rule_def gap_rules_def metrics_rule_def metrics_doc_def or_default_def
        strings_def List.map_filter_def)
qed code_simp+

subsection \<open>What a node may read\<close>

definition pod_uses :: "env \<Rightarrow> registry \<Rightarrow> string \<Rightarrow> string \<Rightarrow> string \<Rightarrow> string \<Rightarrow> string \<Rightarrow> bool" where
  "pod_uses a db ns node pl name k \<longleftrightarrow>
     (\<exists>ob pod. view (custody a) (''/registry/pods/'' @ ns @ ''/'') db (revision db) k = Some ob \<and> object a ob = Inr pod
        \<and> assigned pod node \<and> references pod pl name)"

lemma search_loop:
  assumes "item_loop (\<lambda>_ ob. andThen (object a ob) (\<lambda>pod. Inr (if P pod then Break True else Continue False))) x obs = Inr fl"
  shows "fl = Break True \<and> (\<exists>ob \<in> set obs. \<exists>pod. object a ob = Inr pod \<and> P pod)
    \<or> fl = Continue (if obs = [] then x else False) \<and> (\<forall>ob \<in> set obs. \<exists>pod. object a ob = Inr pod \<and> \<not> P pod)"
  using assms
proof (induction obs arbitrary: x)
  case (Cons ob obs)
  obtain pod where pod: "object a ob = Inr pod" using Cons.prems by (cases "object a ob") auto
  show ?case
  proof (cases "P pod")
    case True
    then show ?thesis using Cons.prems pod by auto
  next
    case False
    with Cons.prems pod Cons.IH [of False] show ?thesis by auto
  qed
qed auto

lemma related_exact:
  assumes wf: "wf_registry db" and t: "namespace t = Some ns" "api_group (resource t) = []"
    "plural (resource t) = ''secrets'' \<or> plural (resource t) = ''configmaps''"
    and res: "related a db node t (Some n) = Inr b"
  shows "b \<longleftrightarrow> (\<exists>k. pod_uses a db ns node (plural (resource t)) n k)"
proof -
  let ?p = "''/registry/pods/'' @ ns @ ''/''" and ?P = "\<lambda>pod. assigned pod node \<and> references pod (plural (resource t)) n"
  let ?f = "\<lambda>(_ :: bool) ob. andThen (object a ob) (\<lambda>pod. Inr (if ?P pod then Break True else Continue False))"
  have "plural (resource t) \<noteq> ''pods''" using t(3) by auto
  then obtain q where loop: "page_loop (custody a) ?f False (select ?p None) db = Inr (q, b)"
    using res t by (auto simp: related_def andThen_Inr_iff)
  have rev: "page_revision (select ?p None) db = revision db" "lprefix (select ?p None) = ?p" "page_after (select ?p None) = ''''"
    by (simp_all add: page_revision_def select_def page_after_def)
  from page_loop_exact [OF wf loop, unfolded rev] obtain ks obs fl where
    ks: "prefix ks (live_keys db ?p '''' (revision db))" "map Some obs = map (view (custody a) ?p db (revision db)) ks"
    and fl: "item_loop ?f False obs = Inr fl" "b = flow_state fl"
      "fl = Continue b \<longrightarrow> ks = live_keys db ?p '''' (revision db)"
    by auto
  have member: "ob \<in> set obs \<longleftrightarrow> (\<exists>k \<in> set ks. view (custody a) ?p db (revision db) k = Some ob)" for ob
    using map_Some_member [OF ks(2)] .
  from search_loop [OF fl(1)] show ?thesis
  proof (elim disjE conjE)
    assume "fl = Break True" and "\<exists>ob \<in> set obs. \<exists>pod. object a ob = Inr pod \<and> ?P pod"
    then obtain ob pod where b: "fl = Break True" and ob: "ob \<in> set obs" "object a ob = Inr pod" "?P pod" by blast
    from ob(1) obtain k where "view (custody a) ?p db (revision db) k = Some ob" unfolding member ..
    with ob(2,3) have "pod_uses a db ns node (plural (resource t)) n k" unfolding pod_uses_def by blast
    then show ?thesis using b fl(2) by auto
  next
    assume c: "fl = Continue (if obs = [] then False else False)"
      and none: "\<forall>ob \<in> set obs. \<exists>pod. object a ob = Inr pod \<and> \<not> ?P pod"
    have b: "\<not> b" and all: "ks = live_keys db ?p '''' (revision db)" using c fl(2,3) by auto
    have "\<not> pod_uses a db ns node (plural (resource t)) n k" for k
    proof
      assume "pod_uses a db ns node (plural (resource t)) n k"
      then obtain ob pod where ob: "view (custody a) ?p db (revision db) k = Some ob" "object a ob = Inr pod" "?P pod"
        by (auto simp: pod_uses_def)
      have "'''' < k" using view_SomeD(2) [OF ob(1)] by (cases k) (auto simp: starts_with_def)
      then have "k \<in> set ks" using view_SomeD(2,3) [OF ob(1)] by (auto simp: all live_keys_iff)
      with ob(1) have "ob \<in> set obs" using member by blast
      with none ob(2,3) show False by auto
    qed
    with b show ?thesis by blast
  qed
qed


lemma catalogue_core:
  assumes "resource t \<in> set RESOURCES" and "kind (resource t) = ''Secret'' \<or> kind (resource t) = ''ConfigMap''"
  shows "api_group (resource t) = []" "plural (resource t) = ''secrets'' \<or> plural (resource t) = ''configmaps''"
proof -
  have "list_all (\<lambda>r. kind r = ''Secret'' \<or> kind r = ''ConfigMap'' \<longrightarrow>
      api_group r = [] \<and> (plural r = ''secrets'' \<or> plural r = ''configmaps'')) RESOURCES" by code_simp
  with assms show "api_group (resource t) = []" "plural (resource t) = ''secrets'' \<or> plural (resource t) = ''configmaps''"
    by (auto simp: list_all_iff)
qed

lemma node_grant_core:
  assumes "node_grant a db u t v sel = Inr True" and "resource t \<in> set RESOURCES"
    and "kind (resource t) = ''Secret'' \<or> kind (resource t) = ''ConfigMap''"
  shows "\<exists>node ns n. node_name u = Some node \<and> namespace t = Some ns \<and> req_name (request_attrs t v sel) = Some n
    \<and> is_read v \<and> subresource t = None \<and> related a db node t (Some n) = Inr True"
proof -
  let ?q = "request_attrs t v sel"
  from assms(1) obtain node rel where node: "node_name u = Some node" and rel: "related a db node t (req_name ?q) = Inr rel"
    and na: "node_allows u ?q (exact_field sel ''spec.nodeName'') rel"
    by (auto simp: node_grant_def andThen_Inr_iff split: option.splits)
  have f: "req_group ?q = api_group (resource t)" "req_resource ?q = plural (resource t)" "req_sub ?q = subresource t" "req_verb ?q = v"
    by (simp_all add: request_attrs_def)
  have "rel \<and> is_read v \<and> subresource t = None"
    using na catalogue_core [OF assms(2,3)] by (auto simp: node_allows_def node f Let_def split: if_splits)
  moreover from this rel obtain ns n where "namespace t = Some ns" "req_name ?q = Some n"
    by (cases "namespace t"; cases "req_name ?q") (auto simp: related_def)
  ultimately show ?thesis using node rel by auto
qed

lemma authorize_grant:
  assumes "authorize a rc db u t v sel = Inr g" and "node_name u = Some node"
    and "kind (resource t) \<in> {''Pod'', ''Secret'', ''ConfigMap''}"
  shows "node_grant a db u t v sel = Inr True"
proof -
  obtain r na x where "load_rbac a rc db = Inr r" and na: "node_grant a db u t v sel = Inr na"
    and "(if node_constrained u t then if \<not> na then forbidden u v t else Inr ()
          else if \<not> allows r u (ResourceReq (request_attrs t v sel)) \<and> \<not> na then forbidden u v t else Inr ()) = Inr x"
    using assms(1) by (simp only: authorize_def Let_def andThen_Inr_iff no_panic_simps) blast
  moreover have "node_constrained u t" using assms(2,3) by (simp add: node_constrained_def)
  ultimately show ?thesis by (cases na) (auto simp: forbidden_def fail_def)
qed

text \<open>
  C27: a node reads a Secret or ConfigMap only through a Pod.  Whatever RBAC grants to a node identity,
  the API serves it an object of these kinds only for a read of the whole object in a namespace where
  a live Pod assigned to that node refers to the object, and the answer carries the guard that
  rechecks this relationship.
\<close>

theorem node_reads_confined:
  assumes "authorize a rc db u t v sel = Inr g" and "node_name u = Some node" and "wf_registry db"
    and "resource t \<in> set RESOURCES" and "kind (resource t) = ''Secret'' \<or> kind (resource t) = ''ConfigMap''"
  shows "\<exists>ns n k. namespace t = Some ns \<and> req_name (request_attrs t v sel) = Some n \<and> is_read v \<and> subresource t = None
     \<and> pod_uses a db ns node (plural (resource t)) n k
     \<and> grant_guard g = Some \<lparr>guard_node = node, guard_target = t, guard_name = n\<rparr>"
proof -
  have ng: "node_grant a db u t v sel = Inr True" using assms(5) by (intro authorize_grant [OF assms(1,2)]) auto
  from node_grant_core [OF ng assms(4,5)] obtain ns n where
    n: "namespace t = Some ns" "req_name (request_attrs t v sel) = Some n" "is_read v" "subresource t = None"
      "related a db node t (Some n) = Inr True" using assms(2) by auto
  then have "\<exists>k. pod_uses a db ns node (plural (resource t)) n k"
    using related_exact [OF assms(3) n(1) catalogue_core [OF assms(4,5)] n(5)] by blast
  moreover have "grant_guard g = Some \<lparr>guard_node = node, guard_target = t, guard_name = n\<rparr>"
    using assms(1,2,5) ng n(2) unfolding authorize_def Let_def andThen_Inr_iff
    by (auto simp: no_panic_simps split: if_splits)
  ultimately show ?thesis using n by blast
qed

lemma store_text_step: "is_ok (new_store_key (fst kv)) \<Longrightarrow> registry_step db (store_text db kv)"
  unfolding store_text_def
  by (rule step_create [of _ Unsealed _ "fst (create Unsealed \<lparr>okey = fst kv, ovalue = snd kv, orevision = 0\<rparr> db)"]) simp_all

lemma wf_store_texts: "list_all (\<lambda>kv. is_ok (new_store_key (fst kv))) kvs \<Longrightarrow> wf_registry db \<Longrightarrow> wf_registry (foldl store_text db kvs)"
  by (induction kvs arbitrary: db) (auto intro: registry_steps_wf [OF r_into_rtranclp [of registry_step, OF store_text_step]])

definition node_pod :: json where
  "node_pod = JObj [(''metadata'', JObj [(''name'', JStr ''p'')]), (''spec'', JObj [(''nodeName'', JStr ''n1''),
     (''volumes'', JArr [JObj [(''secret'', JObj [(''secretName'', JStr ''s'')])]])])]"

definition pod_registry :: registry where
  "pod_registry = foldl store_text empty_registry [(''/registry/pods/a/p'', ''P'')]"

definition node_user :: user where
  "node_user = \<lparr>user_name = ''system:node:n1'', user_groups = [''system:nodes'', ''system:authenticated'']\<rparr>"

definition secret_target :: target where
  "secret_target = \<lparr>resource = res '''' ''secrets'' ''Secret'' True, namespace = Some ''a'', tname = Some ''s'', subresource = None\<rparr>"

theorem node_reads_confined_witness:
  "\<exists>k. pod_uses (demo_env [(''P'', node_pod)]) pod_registry ''a'' ''n1'' ''secrets'' ''s'' k"
proof -
  let ?a = "demo_env [(''P'', node_pod)]" and ?sel = "\<lparr>sel_labels = [], sel_fields = []\<rparr>"
  have g: "authorize ?a (demo_codec [] []) pod_registry node_user secret_target ''get'' ?sel
    = Inr \<lparr>grant_selection = ?sel, grant_guard = Some \<lparr>guard_node = ''n1'', guard_target = secret_target, guard_name = ''s''\<rparr>\<rparr>"
    by code_simp
  have wf: "wf_registry pod_registry" unfolding pod_registry_def by (rule wf_store_texts [OF _ wf_empty]) code_simp
  have u: "node_name node_user = Some ''n1''" by code_simp
  have r: "resource secret_target \<in> set RESOURCES" by (simp add: secret_target_def RESOURCES_def)
  from node_reads_confined [OF g u wf r] show ?thesis
    by (auto simp: secret_target_def res_def request_attrs_def)
qed

text \<open>
  Authorizing a request never panics.  The two unchecked steps, reading the node's name and the
  name of the related object, are only reached when both are there.
\<close>

theorem authorize_never_panics:
  assumes "resource t \<in> set RESOURCES"
  shows "authorize a rc db u t v sel \<noteq> Inl None"
proof
  assume p: "authorize a rc db u t v sel = Inl None"
  then obtain na where na: "node_grant a db u t v sel = Inr na" "na"
    and bad: "(case node_name u of None \<Rightarrow> True | Some node \<Rightarrow>
        (kind (resource t) = ''Secret'' \<or> kind (resource t) = ''ConfigMap'') \<and> req_name (request_attrs t v sel) = None)"
    unfolding authorize_def Let_def andThen_Inl_iff
    by (auto simp: no_panic_simps split: if_splits option.splits)
  have node: "node_name u \<noteq> None" using na by (cases "node_name u") (auto simp: node_grant_def)
  with bad have k: "kind (resource t) = ''Secret'' \<or> kind (resource t) = ''ConfigMap''"
    and none: "req_name (request_attrs t v sel) = None" by auto
  from node_grant_core [OF _ assms k, of a db u v sel] na none show False by auto
qed

theorem authorize_never_panics_witness:
  "authorize (demo_env []) (demo_codec [] []) empty_registry node_user secret_target ''get'' \<lparr>sel_labels = [], sel_fields = []\<rparr> \<noteq> Inl None"
  by (rule authorize_never_panics) (simp add: secret_target_def RESOURCES_def)


subsection \<open>What a node may write\<close>

lemma object_keys_at: "k \<notin> set (object_keys v) \<Longrightarrow> idx v k = JNull"
  by (cases v) (simp_all add: object_keys_def map_of_eq_None_iff [THEN iffD2])

text \<open>
  C29: a node identity writes only its own Node object and never its administrative part.  An accepted
  write names the node itself and is no deletion; the subnet, the configuration source and the
  ownership and deletion metadata stay equivalent, on updates the taints too; and no label of a
  restricted domain changes: none under \<^verbatim>\<open>node-restriction.kubernetes.io\<close>, and under \<^verbatim>\<open>kubernetes.io\<close>
  and \<^verbatim>\<open>k8s.io\<close> only those the kubelet owns.
\<close>

theorem node_write_confined:
  assumes ok: "nodes_admit u t v doc (Some old) = Inr ()" and u: "node_name u = Some node"
    and t: "api_group (resource t) = ''''" "kind (resource t) = ''Node''"
  shows "at doc [''metadata'', ''name''] = JStr node \<and> v \<noteq> ''delete''
    \<and> (\<forall>f \<in> {''podCIDR'', ''podCIDRs'', ''configSource''}. equivalent (at doc [''spec'', f]) (at old [''spec'', f]))
    \<and> (v \<noteq> ''create'' \<longrightarrow> equivalent (at doc [''spec'', ''taints'']) (at old [''spec'', ''taints'']))
    \<and> (\<forall>f \<in> {''ownerReferences'', ''finalizers'', ''deletionTimestamp'', ''deletionGracePeriodSeconds''}.
         equivalent (at doc [''metadata'', f]) (at old [''metadata'', f]))
    \<and> (\<forall>d k. CHR ''/'' \<notin> set d \<and>
         (in_domain ''node-restriction.kubernetes.io'' d
          \<or> (in_domain ''kubernetes.io'' d \<or> in_domain ''k8s.io'' d)
            \<and> \<not> in_domain ''kubelet.kubernetes.io'' d \<and> \<not> in_domain ''node.kubernetes.io'' d
            \<and> d @ CHR ''/'' # k \<notin> set KUBELET_LABELS)
        \<longrightarrow> at doc [''metadata'', ''labels'', d @ CHR ''/'' # k] = at old [''metadata'', ''labels'', d @ CHR ''/'' # k])"
proof -
  have an: "admit_node node v doc old = Inr ()"
    using ok u t by (simp add: nodes_admit_def or_default_def)
  have unchanged: "at doc [''metadata'', ''labels'', l] = at old [''metadata'', ''labels'', l]" if "\<not> node_label_allowed l" for l
  proof (cases "l \<in> set (object_keys (at doc [''metadata'', ''labels''])) \<union> set (object_keys (at old [''metadata'', ''labels'']))")
    case True
    then show ?thesis using an that by (auto simp: admit_node_def deny_def fail_def list_ex_iff split: if_splits)
  next
    case False
    then show ?thesis by (simp add: object_keys_at)
  qed
  have restricted: "\<not> node_label_allowed (d @ CHR ''/'' # k)"
    if "CHR ''/'' \<notin> set d" "in_domain ''node-restriction.kubernetes.io'' d" for d k
  proof -
    have "d = ''node-restriction.kubernetes.io'' \<or> ends_with ''.node-restriction.kubernetes.io'' d"
      using that(2) by (auto simp: in_domain_def strip_suffix_Some_iff ends_with_iff split: option.splits)
    with that(1) show ?thesis by (auto simp: node_label_allowed_def split_once_sep)
  qed
  have other: "\<not> node_label_allowed (d @ CHR ''/'' # k)"
    if "CHR ''/'' \<notin> set d" "in_domain ''kubernetes.io'' d \<or> in_domain ''k8s.io'' d"
      "\<not> in_domain ''kubelet.kubernetes.io'' d" "\<not> in_domain ''node.kubernetes.io'' d"
      "d @ CHR ''/'' # k \<notin> set KUBELET_LABELS" for d k
    using that by (simp add: node_label_allowed_def split_once_sep)
  have fields: "at doc [''metadata'', ''name''] = JStr node \<and> v \<noteq> ''delete''"
    "\<forall>f \<in> {''podCIDR'', ''podCIDRs'', ''configSource''}. equivalent (at doc [''spec'', f]) (at old [''spec'', f])"
    "v \<noteq> ''create'' \<longrightarrow> equivalent (at doc [''spec'', ''taints'']) (at old [''spec'', ''taints''])"
    "\<forall>f \<in> {''ownerReferences'', ''finalizers'', ''deletionTimestamp'', ''deletionGracePeriodSeconds''}.
         equivalent (at doc [''metadata'', f]) (at old [''metadata'', f])"
    using an by (auto simp: admit_node_def deny_def fail_def split: if_splits)
  show ?thesis using fields unchanged restricted other by blast
qed

definition node_doc :: "(string \<times> json) list \<Rightarrow> json" where
  "node_doc labels = JObj [(''metadata'', JObj [(''labels'', JObj labels), (''name'', JStr ''n1'')]), (''spec'', JObj [])]"

definition node_target :: target where
  "node_target = \<lparr>resource = res '''' ''nodes'' ''Node'' False, namespace = None, tname = Some ''n1'', subresource = None\<rparr>"

theorem node_write_confined_witness:
  "at (node_doc [(''team'', JStr ''a'')]) [''metadata'', ''labels'', ''node-restriction.kubernetes.io/x'']
     = at (node_doc []) [''metadata'', ''labels'', ''node-restriction.kubernetes.io/x'']
   \<and> nodes_admit node_user node_target ''update'' (node_doc [(''node-restriction.kubernetes.io/x'', JStr ''a'')]) (Some (node_doc []))
     = deny ''nodes may not modify administrative Kubernetes labels''"
proof -
  have ok: "nodes_admit node_user node_target ''update'' (node_doc [(''team'', JStr ''a'')]) (Some (node_doc [])) = Inr ()"
    by code_simp
  have u: "node_name node_user = Some ''n1''" by code_simp
  have t: "api_group (resource node_target) = ''''" "kind (resource node_target) = ''Node''" by (simp_all add: node_target_def res_def)
  have d: "CHR ''/'' \<notin> set ''node-restriction.kubernetes.io''" "in_domain ''node-restriction.kubernetes.io'' ''node-restriction.kubernetes.io''"
    by (simp_all add: in_domain_def)
  have "nodes_admit node_user node_target ''update'' (node_doc [(''node-restriction.kubernetes.io/x'', JStr ''a'')]) (Some (node_doc []))
     = deny ''nodes may not modify administrative Kubernetes labels''" by code_simp
  with node_write_confined [OF ok u t] d show ?thesis by force
qed

end
