(* ===== verification/Services.thy ===== *)
theory Services
  imports Authz Ipv4
begin

text \<open>
  ClusterIP and NodePort allocation (\<^verbatim>\<open>crates/h3s-apiserver/src/services.rs\<close>).  The write of the
  Service is the commit of the allocation, so what is taken is what the other stored Services
  publish.  Both ranges are searched first-fit; the locale \<open>first_fit\<close> is what the allocation relies
  on.  A panic of the source is \<open>Inl None\<close>.
\<close>

named_theorems service_simps \<open>equations of the allocation\<close>

subsection \<open>Searching a range\<close>

function first_free :: "(nat \<Rightarrow> bool) \<Rightarrow> nat \<Rightarrow> nat \<Rightarrow> nat option" where
  "first_free p lo hi = (if lo < hi then (if p lo then Some lo else first_free p (Suc lo) hi) else None)"
  by pat_completeness auto
termination by (relation "measure (\<lambda>(p, lo, hi). hi - lo)") auto

declare first_free.simps [simp del]

locale first_fit =
  fixes pick :: "nat set \<Rightarrow> nat option" and pool :: "nat set"
  assumes chosen_free: "pick used = Some x \<Longrightarrow> x \<in> pool \<and> x \<notin> used"
    and refused_full: "pick used = None \<Longrightarrow> pool \<subseteq> used"
    and pick_least: "pick used = Some x \<Longrightarrow> y \<in> pool \<Longrightarrow> y < x \<Longrightarrow> y \<in> used"
begin

lemma pick_complete: "pick used = None \<longleftrightarrow> pool \<subseteq> used"
  using chosen_free refused_full by (cases "pick used") auto

lemma pick_spec: "pick used = Some x \<longleftrightarrow> x \<in> pool \<and> x \<notin> used \<and> (\<forall>y \<in> pool. y < x \<longrightarrow> y \<in> used)"
proof
  assume "x \<in> pool \<and> x \<notin> used \<and> (\<forall>y \<in> pool. y < x \<longrightarrow> y \<in> used)"
  then have x: "x \<in> pool" "x \<notin> used" "\<And>y. y \<in> pool \<Longrightarrow> y < x \<Longrightarrow> y \<in> used" by auto
  then obtain z where z: "pick used = Some z" using refused_full by (cases "pick used") auto
  with chosen_free pick_least [OF z x(1)] x show "pick used = Some x" by (metis linorder_neqE_nat)
qed (use chosen_free pick_least in blast)

end

lemma first_free_Some:
  "first_free p lo hi = Some x \<Longrightarrow> lo \<le> x \<and> x < hi \<and> p x \<and> (\<forall>y. lo \<le> y \<and> y < x \<longrightarrow> \<not> p y)"
proof (induction p lo hi rule: first_free.induct)
  case (1 p lo hi)
  show ?case
  proof (cases "lo < hi \<and> \<not> p lo")
    case True
    with 1 have "Suc lo \<le> x \<and> x < hi \<and> p x \<and> (\<forall>y. Suc lo \<le> y \<and> y < x \<longrightarrow> \<not> p y)"
      by (simp add: first_free.simps [of p lo])
    with True show ?thesis by (metis Suc_leD le_antisym not_less_eq_eq)
  next
    case False
    with 1(2) show ?thesis by (auto simp: first_free.simps [of p lo] split: if_splits)
  qed
qed

lemma first_free_None: "first_free p lo hi = None \<Longrightarrow> \<forall>x. lo \<le> x \<and> x < hi \<longrightarrow> \<not> p x"
proof (induction p lo hi rule: first_free.induct)
  case (1 p lo hi)
  show ?case
  proof (cases "lo < hi")
    case True
    with 1 have "\<not> p lo" "\<forall>x. Suc lo \<le> x \<and> x < hi \<longrightarrow> \<not> p x"
      by (simp_all add: first_free.simps [of p lo] split: if_splits)
    then show ?thesis by (metis Suc_leI le_neq_implies_less)
  qed auto
qed

subsection \<open>Ports and addresses\<close>

definition choose_node_port :: "nat set \<Rightarrow> nat option" where
  "choose_node_port used = first_free (\<lambda>n. n \<notin> used) 30000 32768"

definition SERVICE_BASE :: nat where
  "SERVICE_BASE = ipv4_of 10 43 0 0"

definition choose_cluster_ip :: "nat set \<Rightarrow> nat option" where
  "choose_cluster_ip used = first_free (\<lambda>n. n \<notin> used) (SERVICE_BASE + 2) (SERVICE_BASE + 65535)"

interpretation node_port_pool: first_fit choose_node_port "{30000..32767}"
proof
  fix used x y
  show "x \<in> {30000..32767} \<and> x \<notin> used" if "choose_node_port used = Some x"
    using first_free_Some [OF that [unfolded choose_node_port_def]] by auto
  show "{30000..32767} \<subseteq> used" if "choose_node_port used = None"
    using first_free_None [OF that [unfolded choose_node_port_def]] by auto
  show "y \<in> used" if "choose_node_port used = Some x" "y \<in> {30000..32767}" "y < x"
    using first_free_Some [OF that(1) [unfolded choose_node_port_def]] that(2,3) by auto
qed

interpretation cluster_ip_pool: first_fit choose_cluster_ip "{SERVICE_BASE + 2 ..< SERVICE_BASE + 65535}"
proof
  fix used x y
  show "x \<in> {SERVICE_BASE + 2 ..< SERVICE_BASE + 65535} \<and> x \<notin> used" if "choose_cluster_ip used = Some x"
    using first_free_Some [OF that [unfolded choose_cluster_ip_def]] by auto
  show "{SERVICE_BASE + 2 ..< SERVICE_BASE + 65535} \<subseteq> used" if "choose_cluster_ip used = None"
    using first_free_None [OF that [unfolded choose_cluster_ip_def]] by auto
  show "y \<in> used" if "choose_cluster_ip used = Some x" "y \<in> {SERVICE_BASE + 2 ..< SERVICE_BASE + 65535}" "y < x"
    using first_free_Some [OF that(1) [unfolded choose_cluster_ip_def]] that(2,3) by auto
qed

definition unprocessable :: "string \<Rightarrow> 'a answer" where
  "unprocessable m = fail 422 ''Invalid'' m"

text \<open>An unset, zero or oversized value is no allocation.\<close>

definition node_port :: "json \<Rightarrow> nat option" where
  "node_port port =
     (case as_u64 (idx port ''nodePort'') of
        None \<Rightarrow> None
      | Some n \<Rightarrow> if n < 2 ^ 16 \<and> n \<noteq> 0 then Some (nat n) else None)"

definition port_name :: "json \<Rightarrow> string" where
  "port_name port = or_default '''' (as_str (idx port ''name''))"

definition same_port :: "json \<Rightarrow> json \<Rightarrow> bool" where
  "same_port x y =
     (if port_name x \<noteq> [] \<or> port_name y \<noteq> [] then port_name x = port_name y
      else idx x ''port'' = idx y ''port'' \<and> idx x ''protocol'' = idx y ''protocol'')"

subsection \<open>What is published\<close>

definition service_ip :: "json \<Rightarrow> nat option" where
  "service_ip svc = Option.bind (as_str (at svc [''spec'', ''clusterIP''])) parse_ipv4"

definition service_ports :: "json \<Rightarrow> nat list" where
  "service_ports svc = List.map_filter node_port (items (at svc [''spec'', ''ports'']))"

definition publish :: "string \<Rightarrow> nat set \<times> nat set \<Rightarrow> json \<Rightarrow> nat set \<times> nat set" where
  "publish uid st svc =
     (if as_str (at svc [''metadata'', ''uid'']) = Some uid then st
      else ((case service_ip svc of None \<Rightarrow> fst st | Some ip \<Rightarrow> insert ip (fst st)),
            snd st \<union> set (service_ports svc)))"

definition published :: "env \<Rightarrow> registry \<Rightarrow> string \<Rightarrow> (nat set \<times> nat set) answer" where
  "published a db uid =
     andThen (page_loop (custody a) (\<lambda>st ob. andThen (object a ob) (\<lambda>svc. Inr (Continue (publish uid st svc))))
       ({}, {}) (select ''/registry/services/'' None) db) (\<lambda>(q, st). Inr st)"

subsection \<open>Node ports\<close>

definition before_port :: "json list option \<Rightarrow> json \<Rightarrow> nat option" where
  "before_port before port =
     Option.bind (Option.bind before (List.find (\<lambda>p. same_port p port))) node_port"

definition select_port :: "json list option \<Rightarrow> nat set \<Rightarrow> json \<Rightarrow> nat answer" where
  "select_port before used port =
     (case node_port port of
        Some stated \<Rightarrow>
          if (case before_port before port of None \<Rightarrow> False | Some p \<Rightarrow> p \<noteq> stated)
          then unprocessable ''nodePort is immutable'' else Inr stated
      | None \<Rightarrow> (case before_port before port of
            Some p \<Rightarrow> Inr p
          | None \<Rightarrow> (case choose_node_port used of
                None \<Rightarrow> fail 503 ''ServiceUnavailable'' ''Service node port range exhausted''
              | Some n \<Rightarrow> Inr n)))"

fun assign_ports :: "json list option \<Rightarrow> nat set \<Rightarrow> json list \<Rightarrow> (json list \<times> nat set) guarded" where
  "assign_ports before used [] = Inr ([], used)"
| "assign_ports before used (port # ports) =
     andThen (no_panic (select_port before used port)) (\<lambda>n.
     if n \<in> used then no_panic (unprocessable ''nodePort already allocated'')
     else andThen (ok_or None (set_at port [''nodePort''] (JInt (int n)))) (\<lambda>port'.
          andThen (assign_ports before (insert n used) ports) (\<lambda>(ps, used').
          Inr (port' # ps, used'))))"

definition node_ports :: "json \<Rightarrow> json option \<Rightarrow> nat set \<Rightarrow> json guarded" where
  "node_ports spec before used =
     andThen (ok_or None (Option.bind (getf spec ''ports'') as_array)) (\<lambda>ports.
     andThen (assign_ports (Option.bind before (\<lambda>p. as_array (idx p ''ports''))) used ports) (\<lambda>(ps, used').
     ok_or None (set_at spec [''ports''] (JArr ps))))"

subsection \<open>Assigning a Service\<close>

definition FIXED_IP_FIELDS :: "string list" where
  "FIXED_IP_FIELDS = [''clusterIP'', ''clusterIPs'', ''ipFamilies'', ''ipFamilyPolicy'']"

text \<open>On an update the address fields keep what is stored.\<close>

definition keep_ip_field :: "json \<Rightarrow> json \<Rightarrow> string \<Rightarrow> json guarded" where
  "keep_ip_field old spec field =
     andThen (if (case getf spec field of None \<Rightarrow> True | Some v \<Rightarrow> is_null v)
              then ok_or None (set_at spec [field] (at old [''spec'', field])) else Inr spec) (\<lambda>spec'.
     if idx spec' field \<noteq> at old [''spec'', field]
     then no_panic (unprocessable ''Service IP allocation is immutable'') else Inr spec')"

definition select_ip :: "nat set \<Rightarrow> string \<Rightarrow> string answer" where
  "select_ip used requested =
     (if requested = ''None'' then Inr ''None''
      else if requested = [] then
        (case choose_cluster_ip used of
           None \<Rightarrow> fail 503 ''ServiceUnavailable'' ''Service CIDR exhausted''
         | Some ip \<Rightarrow> Inr (show_ipv4 ip))
      else (case parse_ipv4 requested of
           None \<Rightarrow> unprocessable ''invalid ClusterIP''
         | Some ip \<Rightarrow>
             if \<not> (SERVICE_BASE + 2 \<le> ip \<and> ip < SERVICE_BASE + 65535)
             then unprocessable ''ClusterIP outside allocatable 10.43.0.0/16 range''
             else if ip \<in> used then unprocessable ''ClusterIP already allocated''
             else Inr requested))"

definition assign_update :: "env \<Rightarrow> registry \<Rightarrow> string \<Rightarrow> json \<Rightarrow> json \<Rightarrow> json guarded" where
  "assign_update a db uid spec old =
     (if at old [''spec'', ''type''] \<noteq> idx spec ''type''
      then no_panic (unprocessable ''Service type transitions are not yet supported'')
      else andThen (try_fold (keep_ip_field old) spec FIXED_IP_FIELDS) (\<lambda>spec.
        if idx spec ''type'' = JStr ''NodePort''
        then andThen (no_panic (published a db uid)) (\<lambda>(ips, used). node_ports spec (Some (idx old ''spec'')) used)
        else Inr spec))"

definition put_ips :: "json \<Rightarrow> string \<Rightarrow> json option" where
  "put_ips spec ip =
     Option.bind (set_at spec [''clusterIP''] (JStr ip)) (\<lambda>s.
     Option.bind (set_at s [''clusterIPs''] (JArr [JStr ip])) (\<lambda>s.
     Option.bind (set_at s [''ipFamilies''] (JArr [JStr ''IPv4''])) (\<lambda>s.
     set_at s [''ipFamilyPolicy''] (JStr ''SingleStack''))))"

definition assign_create :: "env \<Rightarrow> registry \<Rightarrow> string \<Rightarrow> json \<Rightarrow> json guarded" where
  "assign_create a db uid spec =
     (if idx spec ''type'' = JStr ''ExternalName'' then
        (if (case as_str (idx spec ''clusterIP'') of None \<Rightarrow> False | Some s \<Rightarrow> s \<noteq> [])
            \<or> (case as_array (idx spec ''clusterIPs'') of None \<Rightarrow> False | Some v \<Rightarrow> v \<noteq> [])
         then no_panic (unprocessable ''ExternalName cannot allocate a ClusterIP'') else Inr spec)
      else if (case as_str (idx spec ''ipFamilyPolicy'') of None \<Rightarrow> False | Some v \<Rightarrow> v \<noteq> ''SingleStack'')
            \<or> (case as_array (idx spec ''ipFamilies'') of None \<Rightarrow> False | Some v \<Rightarrow> v \<noteq> [JStr ''IPv4''])
      then no_panic (unprocessable ''the M1 Service allocator supports IPv4 SingleStack'')
      else andThen (no_panic (published a db uid)) (\<lambda>(used, ports_used).
        andThen (no_panic (select_ip used (or_default '''' (as_str (idx spec ''clusterIP''))))) (\<lambda>selected.
        if (case as_array (idx spec ''clusterIPs'') of None \<Rightarrow> False | Some v \<Rightarrow> v \<noteq> [JStr selected])
        then no_panic (unprocessable ''clusterIPs must match clusterIP'')
        else andThen (ok_or None (put_ips spec selected)) (\<lambda>spec.
          if idx spec ''type'' = JStr ''NodePort'' then node_ports spec None ports_used else Inr spec))))"

definition assign :: "env \<Rightarrow> registry \<Rightarrow> json \<Rightarrow> json option \<Rightarrow> json guarded" where
  "assign a db doc old =
     (let uid = or_default '''' (as_str (at doc [''metadata'', ''uid'']));
          spec = idx doc ''spec''
      in andThen (case old of Some o' \<Rightarrow> assign_update a db uid spec o' | None \<Rightarrow> assign_create a db uid spec) (\<lambda>spec'.
         ok_or None (set_at doc [''spec''] spec')))"


subsection \<open>What the other Services hold\<close>

text \<open>The live stored Services other than the one being written.\<close>

definition other_service :: "env \<Rightarrow> registry \<Rightarrow> string \<Rightarrow> json \<Rightarrow> bool" where
  "other_service a db uid svc \<longleftrightarrow>
     (\<exists>k ob. view (custody a) ''/registry/services/'' db (revision db) k = Some ob \<and> object a ob = Inr svc)
     \<and> as_str (at svc [''metadata'', ''uid'']) \<noteq> Some uid"

lemma publish_fold:
  "foldl (publish uid) st svcs =
     (fst st \<union> {ip. \<exists>svc \<in> set svcs. as_str (at svc [''metadata'', ''uid'']) \<noteq> Some uid \<and> service_ip svc = Some ip},
      snd st \<union> {n. \<exists>svc \<in> set svcs. as_str (at svc [''metadata'', ''uid'']) \<noteq> Some uid \<and> n \<in> set (service_ports svc)})"
proof (induction svcs arbitrary: st)
  case (Cons svc svcs)
  show ?case
    unfolding foldl_Cons Cons.IH by (auto simp: publish_def split: option.splits)
qed simp

lemma published_exact:
  assumes "wf_registry db" and "published a db uid = Inr (ips, ports)"
  shows "ip \<in> ips \<longleftrightarrow> (\<exists>svc. other_service a db uid svc \<and> service_ip svc = Some ip)"
    "n \<in> ports \<longleftrightarrow> (\<exists>svc. other_service a db uid svc \<and> n \<in> set (service_ports svc))"
proof -
  from assms(2) obtain q where loop: "page_loop (custody a) (\<lambda>st ob. andThen (object a ob) (\<lambda>svc. Inr (Continue (publish uid st svc))))
       ({}, {}) (select ''/registry/services/'' None) db = Inr (q, (ips, ports))"
    by (auto simp: published_def andThen_Inr_iff)
  from page_collect [OF assms(1) _ loop] obtain svcs where
    fold: "(ips, ports) = foldl (publish uid) ({}, {}) svcs"
    and mem: "\<forall>v. v \<in> set svcs \<longleftrightarrow> (\<exists>k ob. view (custody a) ''/registry/services/'' db (revision db) k = Some ob \<and> object a ob = Inr v)"
    by auto
  have "svc \<in> set svcs \<and> as_str (at svc [''metadata'', ''uid'']) \<noteq> Some uid \<longleftrightarrow> other_service a db uid svc" for svc
    using mem by (simp add: other_service_def)
  with fold show "ip \<in> ips \<longleftrightarrow> (\<exists>svc. other_service a db uid svc \<and> service_ip svc = Some ip)"
    "n \<in> ports \<longleftrightarrow> (\<exists>svc. other_service a db uid svc \<and> n \<in> set (service_ports svc))"
    unfolding publish_fold by auto
qed

subsection \<open>Node ports are fresh\<close>

lemma node_port_set:
  assumes "set_at port [''nodePort''] (JInt (int n)) = Some port'" and "0 < n" "n < 2 ^ 16"
  shows "node_port port' = Some n"
proof -
  have "idx port' ''nodePort'' = JInt (int n)" using at_set_at [OF assms(1)] by simp
  then show ?thesis using assms(2,3) by (simp add: node_port_def in_u64_def)
qed

lemma node_port_bound: "node_port port = Some n \<Longrightarrow> 0 < n \<and> n < 2 ^ 16"
  by (auto simp: node_port_def as_u64_Some_iff in_u64_def split: option.splits if_splits)

lemma select_port_bound: "select_port before used port = Inr n \<Longrightarrow> 0 < n \<and> n < 2 ^ 16"
  using node_port_bound node_port_pool.chosen_free [of used n]
  by (auto simp: select_port_def before_port_def unprocessable_def fail_def bind_eq_Some_conv split: option.splits if_splits)

lemma assign_ports_fresh:
  assumes "assign_ports before used ports = Inr (ps, used')"
  shows "length ps = length ports \<and> (\<forall>p \<in> set ps. node_port p \<noteq> None)
    \<and> distinct (List.map_filter node_port ps) \<and> set (List.map_filter node_port ps) \<inter> used = {}
    \<and> used' = used \<union> set (List.map_filter node_port ps)"
  using assms
proof (induction before used ports arbitrary: ps rule: assign_ports.induct)
  case (2 before used port ports)
  from "2.prems" obtain n port' qs where n: "select_port before used port = Inr n" "n \<notin> used"
    and p: "set_at port [''nodePort''] (JInt (int n)) = Some port'"
    and qs: "assign_ports before (insert n used) ports = Inr (qs, used')" "ps = port' # qs"
    by (auto simp: andThen_Inr_iff no_panic_simps unprocessable_def fail_def split: if_splits)
  have np: "node_port port' = Some n" using node_port_set [OF p] select_port_bound [OF n(1)] by simp
  from "2.IH" [of n] n p qs(1) have "length qs = length ports \<and> (\<forall>p \<in> set qs. node_port p \<noteq> None)
    \<and> distinct (List.map_filter node_port qs) \<and> set (List.map_filter node_port qs) \<inter> insert n used = {}
    \<and> used' = insert n used \<union> set (List.map_filter node_port qs)"
    by (simp add: no_panic_simps)
  with qs(2) np n(2) show ?case by (auto simp: List.map_filter_simps)
qed (simp add: List.map_filter_simps)

lemma node_ports_fresh:
  assumes "node_ports spec before used = Inr spec'"
  shows "\<exists>ps. idx spec' ''ports'' = JArr ps \<and> (\<forall>p \<in> set ps. node_port p \<noteq> None)
    \<and> distinct (List.map_filter node_port ps) \<and> set (List.map_filter node_port ps) \<inter> used = {}"
    and "k \<noteq> ''ports'' \<Longrightarrow> idx spec' k = idx spec k"
proof -
  from assms obtain ports ps used' where r: "assign_ports (Option.bind before (\<lambda>p. as_array (idx p ''ports''))) used ports = Inr (ps, used')"
    and s: "set_at spec [''ports''] (JArr ps) = Some spec'"
    by (auto simp: node_ports_def andThen_Inr_iff)
  from assign_ports_fresh [OF r] at_set_at [OF s] show "\<exists>ps. idx spec' ''ports'' = JArr ps \<and> (\<forall>p \<in> set ps. node_port p \<noteq> None)
    \<and> distinct (List.map_filter node_port ps) \<and> set (List.map_filter node_port ps) \<inter> used = {}" by auto
  show "idx spec' k = idx spec k" if "k \<noteq> ''ports''" using idx_set_at_other [OF s that] .
qed


lemma select_ip_fresh:
  assumes "select_ip used requested = Inr ip"
  shows "ip = ''None'' \<and> requested = ''None'' \<or>
    (\<exists>n. parse_ipv4 ip = Some n \<and> n \<in> {SERVICE_BASE + 2 ..< SERVICE_BASE + 65535} \<and> n \<notin> used \<and> (requested = [] \<or> ip = requested))"
proof -
  have small: "n < 2 ^ 32" if "n < SERVICE_BASE + 65535" for n
    using that by (simp add: SERVICE_BASE_def ipv4_of_def)
  show ?thesis
    using assms cluster_ip_pool.chosen_free [of used] small parse_show_ipv4
    by (fastforce simp: select_ip_def unprocessable_def fail_def split: if_splits option.splits)
qed

lemma put_ips_fields:
  assumes "put_ips spec ip = Some spec'"
  shows "idx spec' ''clusterIP'' = JStr ip" "idx spec' ''clusterIPs'' = JArr [JStr ip]"
    "k \<notin> set FIXED_IP_FIELDS \<Longrightarrow> idx spec' k = idx spec k"
proof -
  from assms obtain s1 s2 s3 where s: "set_at spec [''clusterIP''] (JStr ip) = Some s1"
    "set_at s1 [''clusterIPs''] (JArr [JStr ip]) = Some s2" "set_at s2 [''ipFamilies''] (JArr [JStr ''IPv4'']) = Some s3"
    "set_at s3 [''ipFamilyPolicy''] (JStr ''SingleStack'') = Some spec'"
    by (auto simp: put_ips_def bind_eq_Some_conv)
  note o' = idx_set_at_other [OF s(1)] idx_set_at_other [OF s(2)] idx_set_at_other [OF s(3)] idx_set_at_other [OF s(4)]
  have e: "idx s1 ''clusterIP'' = JStr ip" "idx s2 ''clusterIPs'' = JArr [JStr ip]"
    using at_set_at [OF s(1)] at_set_at [OF s(2)] by simp_all
  show "idx spec' ''clusterIP'' = JStr ip" "idx spec' ''clusterIPs'' = JArr [JStr ip]" using o' e by simp_all
  show "idx spec' k = idx spec k" if "k \<notin> set FIXED_IP_FIELDS" using o' that by (simp add: FIXED_IP_FIELDS_def)
qed

lemma assign_spec:
  assumes "assign a db doc old = Inr doc'"
  obtains spec' where "(case old of Some o' \<Rightarrow> assign_update a db (or_default '''' (as_str (at doc [''metadata'', ''uid'']))) (idx doc ''spec'') o'
      | None \<Rightarrow> assign_create a db (or_default '''' (as_str (at doc [''metadata'', ''uid'']))) (idx doc ''spec'')) = Inr spec'"
    "idx doc' ''spec'' = spec'" "\<And>k. k \<noteq> ''spec'' \<Longrightarrow> idx doc' k = idx doc k"
proof -
  from assms obtain spec' where s: "(case old of Some o' \<Rightarrow> assign_update a db (or_default '''' (as_str (at doc [''metadata'', ''uid'']))) (idx doc ''spec'') o'
      | None \<Rightarrow> assign_create a db (or_default '''' (as_str (at doc [''metadata'', ''uid'']))) (idx doc ''spec'')) = Inr spec'"
    "set_at doc [''spec''] spec' = Some doc'"
    unfolding assign_def Let_def andThen_Inr_iff ok_or_Inr_iff by blast
  with that idx_set_at_other [OF s(2)] at_set_at [OF s(2)] show ?thesis by simp
qed



definition port_doc :: "string \<Rightarrow> (string \<times> json) list \<Rightarrow> json" where
  "port_doc name fields_of = JObj ((''name'', JStr name) # fields_of)"

definition service_doc :: "string \<Rightarrow> (string \<times> json) list \<Rightarrow> json list \<Rightarrow> json" where
  "service_doc uid fields_of ports = JObj [(''metadata'', JObj [(''uid'', JStr uid)]),
     (''spec'', JObj (fields_of @ [(''ports'', JArr ports), (''type'', JStr ''NodePort'')]))]"

definition service_registry :: registry where
  "service_registry = foldl store_text empty_registry [(''/registry/services/a/x'', ''S'')]"

definition service_env :: env where
  "service_env = demo_env [(''S'', service_doc ''u1'' [(''clusterIP'', JStr ''10.43.0.2'')] [port_doc ''h'' [(''nodePort'', JInt 30000)]])]"

definition new_service :: json where
  "new_service = service_doc ''u2'' [] [port_doc ''h'' []]"

definition new_service_assigned :: json where
  "new_service_assigned = service_doc ''u2''
     [(''clusterIP'', JStr ''10.43.0.3''), (''clusterIPs'', JArr [JStr ''10.43.0.3'']), (''ipFamilies'', JArr [JStr ''IPv4'']),
      (''ipFamilyPolicy'', JStr ''SingleStack'')] [port_doc ''h'' [(''nodePort'', JInt 30001)]]"

definition old_service :: json where
  "old_service = JObj [(''metadata'', JObj [(''resourceVersion'', JStr ''1''), (''uid'', JStr ''u1'')]),
     (''spec'', JObj [(''clusterIP'', JStr ''10.43.0.2''), (''ports'', JArr [port_doc ''h'' [(''nodePort'', JInt 30000)]]),
       (''type'', JStr ''NodePort'')])]"


text \<open>
  The order of the ports decides whether a request is accepted: an unset port is given the port a
  later entry of the same Service states, which is then refused as taken.
\<close>

theorem node_port_order_matters:
  "assign_ports None {} [port_doc ''a'' [], port_doc ''b'' [(''nodePort'', JInt 30000)]]
     = no_panic (unprocessable ''nodePort already allocated'')
   \<and> is_ok (assign_ports None {} [port_doc ''b'' [(''nodePort'', JInt 30000)], port_doc ''a'' []])"
  by (rule conjI; code_simp)

end
