(* ===== verification/Json_Text.thy ===== *)
theory Json_Text
  imports Json
begin

text \<open>
  The text codec of the registry's documents is the serde_json library's.  What the handlers rely on
  is \<open>text_law\<close>: reading back what was written gives the document.  The codec below, a length-prefixed
  form, shows that the law can hold; the examples of the handlers run on it.
\<close>

definition text_law :: "(json \<Rightarrow> string) \<Rightarrow> (string \<Rightarrow> json option) \<Rightarrow> bool" where
  "text_law write read \<longleftrightarrow> (\<forall>v. wf_json v \<longrightarrow> read (write v) = Some v)"

definition framed :: "string \<Rightarrow> string" where
  "framed s = show_nat (length s) @ CHR '':'' # s"

fun frame_json :: "json \<Rightarrow> string" where
  "frame_json JNull = ''n''"
| "frame_json (JBool b) = (if b then ''t'' else ''f'')"
| "frame_json (JInt i) = CHR ''i'' # framed (show_int i)"
| "frame_json (JFloat s) = CHR ''d'' # framed s"
| "frame_json (JStr s) = CHR ''s'' # framed s"
| "frame_json (JArr xs) = CHR ''a'' # show_nat (length xs) @ CHR '':'' # concat (map frame_json xs)"
| "frame_json (JObj m) = CHR ''o'' # show_nat (length m) @ CHR '':'' # concat (map (\<lambda>(k, v). framed k @ frame_json v) m)"

definition read_nat :: "string \<Rightarrow> (nat \<times> string) option" where
  "read_nat s = Option.bind (split_once CHR '':'' s) (\<lambda>(d, r). map_option (\<lambda>n. (n, r)) (parse_nat d))"

definition read_framed :: "string \<Rightarrow> (string \<times> string) option" where
  "read_framed s = Option.bind (read_nat s) (\<lambda>(n, r). if n \<le> length r then Some (take n r, drop n r) else None)"

fun times :: "nat \<Rightarrow> (string \<Rightarrow> ('a \<times> string) option) \<Rightarrow> string \<Rightarrow> ('a list \<times> string) option" where
  "times 0 p s = Some ([], s)"
| "times (Suc n) p s = Option.bind (p s) (\<lambda>(x, r). map_option (\<lambda>(xs, t). (x # xs, t)) (times n p r))"

lemma times_cong [fundef_cong]: "n = m \<Longrightarrow> s = t \<Longrightarrow> (\<And>u. p u = q u) \<Longrightarrow> times n p s = times m q t"
  by (subgoal_tac "p = q") auto

fun read_json :: "nat \<Rightarrow> string \<Rightarrow> (json \<times> string) option" where
  "read_json 0 s = None"
| "read_json (Suc n) s =
     (case s of [] \<Rightarrow> None | c # r \<Rightarrow>
        if c = CHR ''n'' then Some (JNull, r)
        else if c = CHR ''t'' then Some (JBool True, r)
        else if c = CHR ''f'' then Some (JBool False, r)
        else if c = CHR ''i'' then Option.bind (read_framed r) (\<lambda>(t, u).
          map_option (\<lambda>i. (JInt i, u)) (parse_signed (\<lambda>_. True) t))
        else if c = CHR ''d'' then map_option (\<lambda>(t, u). (JFloat t, u)) (read_framed r)
        else if c = CHR ''s'' then map_option (\<lambda>(t, u). (JStr t, u)) (read_framed r)
        else if c = CHR ''a'' then Option.bind (read_nat r) (\<lambda>(k, u).
          map_option (\<lambda>(xs, t). (JArr xs, t)) (times k (read_json n) u))
        else if c = CHR ''o'' then Option.bind (read_nat r) (\<lambda>(k, u).
          map_option (\<lambda>(m, t). (JObj m, t)) (times k (\<lambda>s. Option.bind (read_framed s) (\<lambda>(key, w).
            map_option (\<lambda>(v, x). ((key, v), x)) (read_json n w))) u))
        else None)"

definition framed_text :: "string \<Rightarrow> json option" where
  "framed_text s = (case read_json (Suc (length s)) s of Some (v, []) \<Rightarrow> Some v | _ \<Rightarrow> None)"

subsection \<open>Reading back\<close>

lemma read_nat_show [simp]: "read_nat (show_nat n @ CHR '':'' # r) = Some (n, r)"
proof -
  have "CHR '':'' \<notin> set (show_nat n)"
    using show_nat_digits [of n] by (auto simp: list_all_iff is_digit_def)
  then show ?thesis by (simp add: read_nat_def split_once_sep)
qed

lemma read_framed [simp]: "read_framed (framed s @ r) = Some (s, r)"
  by (simp add: read_framed_def framed_def)

lemma parse_signed_show_int: "parse_signed (\<lambda>_. True) (show_int i) = Some i"
proof (cases "i < 0")
  case True
  then show ?thesis by (simp add: parse_signed_def show_int_def)
next
  case False
  let ?s = "show_nat (nat i)"
  obtain c cs where c: "?s = c # cs" "is_digit c" using show_nat_digits [of "nat i"] by (cases ?s) auto
  have "parse_nat (c # cs) = Some (nat i)" using c(1) parse_nat_show_nat [of "nat i"] by simp
  with c digit_not_special [OF c(2)] False show ?thesis by (simp add: parse_signed_def show_int_def)
qed

fun depth :: "json \<Rightarrow> nat" where
  "depth (JArr xs) = Suc (Max (insert 0 (set (map depth xs))))"
| "depth (JObj m) = Suc (Max (insert 0 (set (map (\<lambda>(k, v). depth v) m))))"
| "depth v = 1"

lemma times_read:
  assumes "\<And>x r. x \<in> set xs \<Longrightarrow> p (f x @ r) = Some (x, r)"
  shows "times (length xs) p (concat (map f xs) @ r) = Some (xs, r)"
  using assms by (induction xs) auto

lemma read_frame: "depth v \<le> n \<Longrightarrow> read_json n (frame_json v @ r) = Some (v, r)"
proof (induction v arbitrary: n r)
  case (JArr xs)
  then obtain k where n: "n = Suc k" and k: "x \<in> set xs \<Longrightarrow> depth x \<le> k" for x by (cases n) auto
  have "times (length xs) (read_json k) (concat (map frame_json xs) @ r) = Some (xs, r)"
    by (rule times_read) (use JArr.IH k in auto)
  then show ?case by (simp add: n)
next
  case (JObj m)
  then obtain k where n: "n = Suc k" and k: "(a, x) \<in> set m \<Longrightarrow> depth x \<le> k" for a x by (cases n) force+
  have "times (length m) (\<lambda>s. Option.bind (read_framed s) (\<lambda>(key, w). map_option (\<lambda>(v, x). ((key, v), x)) (read_json k w)))
      (concat (map (\<lambda>(k, v). framed k @ frame_json v) m) @ r) = Some (m, r)"
    by (rule times_read) (use JObj.IH k in \<open>auto split: prod.splits\<close>)
  then show ?case by (simp add: n)
next
  case JNull
  then obtain k where "n = Suc k" by (cases n) auto
  then show ?case by simp
next
  case (JBool b)
  then obtain k where "n = Suc k" by (cases n) auto
  then show ?case by simp
next
  case (JInt i)
  then obtain k where "n = Suc k" by (cases n) auto
  then show ?case by (simp add: parse_signed_show_int)
next
  case (JFloat s)
  then obtain k where "n = Suc k" by (cases n) auto
  then show ?case by simp
next
  case (JStr s)
  then obtain k where "n = Suc k" by (cases n) auto
  then show ?case by simp
qed

lemma depth_le_length: "depth v \<le> length (frame_json v)"
proof (induction v)
  case (JArr xs)
  have "depth x \<le> length (concat (map frame_json xs))" if "x \<in> set xs" for x
    using JArr.IH [OF that] that by (induction xs) force+
  then have "Max (insert 0 (set (map depth xs))) \<le> length (concat (map frame_json xs))" by (subst Max_le_iff) auto
  then show ?case by (simp del: Max_le_iff)
next
  case (JObj m)
  have "depth x \<le> length (concat (map (\<lambda>(k, v). framed k @ frame_json v) m))" if "(a, x) \<in> set m" for a x
  proof -
    have "depth x \<le> length (frame_json x)" using JObj.IH [OF that] by simp
    with that show ?thesis by (induction m) force+
  qed
  then have "Max (insert 0 (set (map (\<lambda>(k, v). depth v) m))) \<le> length (concat (map (\<lambda>(k, v). framed k @ frame_json v) m))"
    by (subst Max_le_iff) auto
  then show ?case by (simp del: Max_le_iff)
qed auto

lemma framed_text_law: "framed_text (frame_json v) = Some v"
  using read_frame [of v "Suc (length (frame_json v))" "[]"] depth_le_length [of v]
  by (simp add: framed_text_def)

lemma text_law_framed: "text_law frame_json framed_text"
  by (simp add: text_law_def framed_text_law)

end
