(* ===== verification/Api_Actions.thy ===== *)
theory Api_Actions
  imports Authz Registry_Api Json_Text
begin

text \<open>
  Handlers that write: a function of the registry that gives an answer and the registry after it.
  \<open>Inl None\<close> is a panic, \<open>Inl (Some f)\<close> a failure; whatever was written before it stays written.
\<close>

named_theorems action_simps \<open>equations of the handler combinators\<close>

type_synonym 'a action = "registry \<Rightarrow> 'a guarded \<times> registry"

definition bindA :: "'a action \<Rightarrow> ('a \<Rightarrow> 'b action) \<Rightarrow> 'b action" where
  "bindA m f db = (case m db of (Inl e, db') \<Rightarrow> (Inl e, db') | (Inr x, db') \<Rightarrow> f x db')"

definition pureA :: "'a guarded \<Rightarrow> 'a action" where
  "pureA r db = (r, db)"

definition readA :: "(registry \<Rightarrow> 'a answer) \<Rightarrow> 'a action" where
  "readA f db = (no_panic (f db), db)"

definition api_create :: "env \<Rightarrow> stored_object \<Rightarrow> stored_object action" where
  "api_create a ob db = (case create (custody a) ob db of (r, db') \<Rightarrow> (no_panic (map_err of_store_error r), db'))"

definition api_update :: "env \<Rightarrow> stored_object \<Rightarrow> nat \<Rightarrow> stored_object action" where
  "api_update a ob rv db = (case update (custody a) ob rv db of (r, db') \<Rightarrow> (no_panic (map_err of_store_error r), db'))"

definition api_delete :: "env \<Rightarrow> string \<Rightarrow> nat \<Rightarrow> unit action" where
  "api_delete a k rv db = (case delete (custody a) k rv db of (r, db') \<Rightarrow> (no_panic (map_err of_store_error r), db'))"

lemma bindA_Inr_iff [action_simps]:
  "bindA m f db = (Inr y, db2) \<longleftrightarrow> (\<exists>x db1. m db = (Inr x, db1) \<and> f x db1 = (Inr y, db2))"
  by (auto simp: bindA_def split: prod.splits sum.splits)

lemma pureA_Inr_iff [action_simps]: "pureA r db = (Inr y, db2) \<longleftrightarrow> r = Inr y \<and> db2 = db"
  by (auto simp: pureA_def)

lemma readA_Inr_iff [action_simps]: "readA f db = (Inr y, db2) \<longleftrightarrow> f db = Inr y \<and> db2 = db"
  by (auto simp: readA_def no_panic_simps)

lemma bindA_snd [action_simps]:
  "snd (bindA (pureA r) f db) = (case r of Inl e \<Rightarrow> db | Inr x \<Rightarrow> snd (f x db))"
  "snd (bindA (readA g) f db) = (case g db of Inl e \<Rightarrow> db | Inr x \<Rightarrow> snd (f x db))"
  by (auto simp: bindA_def pureA_def readA_def no_panic_def map_err_def split: sum.splits)

lemma api_create_Inr_iff [action_simps]:
  "api_create a ob db = (Inr x, db') \<longleftrightarrow> create (custody a) ob db = (Inr x, db')"
  by (auto simp: api_create_def no_panic_simps split: prod.splits)

lemma api_update_Inr_iff [action_simps]:
  "api_update a ob rv db = (Inr x, db') \<longleftrightarrow> update (custody a) ob rv db = (Inr x, db')"
  by (auto simp: api_update_def no_panic_simps split: prod.splits)

lemma api_delete_Inr_iff [action_simps]:
  "api_delete a k rv db = (Inr x, db') \<longleftrightarrow> delete (custody a) k rv db = (Inr x, db')"
  by (auto simp: api_delete_def no_panic_simps split: prod.splits)

text \<open>An environment without custody whose codec is the framed text.\<close>

definition framed_env :: env where
  "framed_env = \<lparr>from_slice = framed_text, to_vec = frame_json, custody = Unsealed, new_uid = (\<lambda>purpose. ''uid-'' @ purpose), clock = ''now''\<rparr>"

lemma framed_env_law: "text_law (to_vec framed_env) (from_slice framed_env)"
  by (simp add: framed_env_def text_law_framed)


subsection \<open>What a commit leaves behind\<close>

lemma get_Unsealed: "get Unsealed db k = Inr (get_current db k)"
  by (cases "get_current db k") (auto simp: get_def)

lemma api_get_Unsealed: "custody a = Unsealed \<Longrightarrow> api_get a db k = Inr (get_current db k)"
  by (simp add: api_get_def get_Unsealed)

lemma api_key_Inr_iff: "api_key v = Inr k \<longleftrightarrow> k = v \<and> valid_key v"
proof -
  have "x = v" if "new_store_key v = Inr x" for x
    using that by (auto simp: new_store_key_def Let_def split: if_splits)
  then show ?thesis by (auto simp: api_key_def valid_key_def is_ok_iff)
qed

lemma api_update_commit:
  assumes "custody a = Unsealed" and "wf_registry db" and "valid_key k"
    and "api_update a (stored a k v) rv db = (Inr ob, db')"
  shows "ob = \<lparr>okey = k, ovalue = to_vec a v, orevision = Suc (revision db)\<rparr>"
    and "get_current db' = (get_current db) (k := Some ob)" and "wf_registry db'" and "registry_step db db'"
    and "\<exists>cur. get_current db k = Some cur \<and> orevision cur = rv"
proof -
  have w: "write_object db k (to_vec a v) (Some rv) = (Inr ob, db')"
    using assms(4) by (simp add: api_update_Inr_iff assms(1) write_object_def stored_def)
  show "ob = \<lparr>okey = k, ovalue = to_vec a v, orevision = Suc (revision db)\<rparr>"
    "get_current db' = (get_current db) (k := Some ob)" "wf_registry db'" "registry_step db db'"
    "\<exists>cur. get_current db k = Some cur \<and> orevision cur = rv"
    by (rule write_object_cases [OF assms(2,3) w]; auto simp: cas_guard_Inr_iff)+
qed

lemma api_create_commit:
  assumes "custody a = Unsealed" and "wf_registry db" and "valid_key k"
    and "api_create a (stored a k v) db = (Inr ob, db')"
  shows "ob = \<lparr>okey = k, ovalue = to_vec a v, orevision = Suc (revision db)\<rparr>"
    and "get_current db' = (get_current db) (k := Some ob)" and "wf_registry db'" and "registry_step db db'"
    and "get_current db k = None"
proof -
  have w: "write_object db k (to_vec a v) None = (Inr ob, db')"
    using assms(4) by (simp add: api_create_Inr_iff assms(1) write_object_def stored_def)
  show "ob = \<lparr>okey = k, ovalue = to_vec a v, orevision = Suc (revision db)\<rparr>"
    "get_current db' = (get_current db) (k := Some ob)" "wf_registry db'" "registry_step db db'" "get_current db k = None"
    by (rule write_object_cases [OF assms(2,3) w]; auto simp: cas_guard_Inr_iff)+
qed

lemma api_delete_commit:
  assumes "wf_registry db" and "valid_key k" and "api_delete a k rv db = (Inr u, db')"
  shows "get_current db' = (get_current db) (k := None)" and "wf_registry db'" and "registry_step db db'"
    and "\<exists>cur. get_current db k = Some cur \<and> orevision cur = rv"
proof -
  let ?o = "\<lparr>okey = k, ovalue = [], orevision = 0\<rparr>"
  have key: "is_ok (new_store_key (okey ?o))" using assms(2) by (simp add: valid_key_def)
  have d: "delete (custody a) k rv db = (Inr u, db')" using assms(3) by (simp add: api_delete_Inr_iff)
  then obtain r where m: "mutate (custody a) ?o (Some rv) True db = (Inr r, db')"
    by (auto simp: delete_def andThen_Inr_iff split: prod.splits)
  from mutate_cases [OF assms(1) key _ m] obtain v where v: "db' = add_version v db" "vkey v = k"
    "vrevision v = Suc (revision db)" "vkind v = 2" "cas_guard k (Some rv) (get_current db k) = Inr ()" "wf_registry db'"
    by (metis (no_types, lifting) Inl_Inr_False option.distinct(1) stored_object.select_convs(1))
  show "wf_registry db'" by (rule v(6))
  show "get_current db' = (get_current db) (k := None)"
    unfolding get_current_snapshot [OF v(6), THEN ext] get_current_snapshot [OF assms(1), THEN ext]
    using snapshot_add_new [OF assms(1) v(3)] v(1,2,4) by (simp add: fun_eq_iff live_object_def)
  show "\<exists>cur. get_current db k = Some cur \<and> orevision cur = rv" using v(5) by (simp add: cas_guard_Inr_iff)
  show "registry_step db db'" using step_delete [OF _ d] key by simp
qed

text \<open>A commit reads back as the document written, at the new revision.\<close>

lemma committed_object:
  assumes "text_law (to_vec a) (from_slice a)" and "wf_json v" and "is_object (idx v ''metadata'')"
  shows "\<exists>w. object a \<lparr>okey = k, ovalue = to_vec a v, orevision = r\<rparr> = Inr w
    \<and> (\<forall>j. j \<noteq> ''metadata'' \<longrightarrow> idx w j = idx v j)
    \<and> at w [''metadata'', ''resourceVersion''] = JStr (show_nat r)
    \<and> (\<forall>j. j \<notin> {''resourceVersion'', ''namespace''} \<longrightarrow> at w [''metadata'', j] = at v [''metadata'', j])"
proof -
  obtain m where m: "idx v ''metadata'' = JObj m" using assms(3) by (auto simp: is_object_iff)
  then obtain f where v: "v = JObj f" by (cases v) auto
  have "from_slice a (to_vec a v) = Some v" using assms(1,2) by (simp add: text_law_def)
  with m v show ?thesis by (auto simp: object_def Let_def split: option.splits)
qed

end
