(* ===== verification/Cidr_Admission.thy ===== *)
theory Cidr_Admission
  imports Api_Actions Node_Cidrs
begin

text \<open>
  The durable node subnet ledger behind the API (\<^verbatim>\<open>crates/h3s-apiserver/src/node_cidrs.rs\<close>): loading,
  importing the stored Nodes at start, and admitting a Node write, which reserves the subnet before
  the Node is published.  Every caller holds the admission lock, so an action runs undisturbed.
\<close>

subsection \<open>The stored ledger\<close>

definition LEDGER_KEY :: string where
  "LEDGER_KEY = ''/registry/h3s-node-cidrs/allocations''"

definition unprocessable_cidr :: "string \<Rightarrow> failure" where
  "unprocessable_cidr m = \<lparr>code = 422, reason = ''Invalid'', message = m\<rparr>"

definition corrupt :: "string \<Rightarrow> failure" where
  "corrupt m = \<lparr>code = 500, reason = ''InternalError'', message = m\<rparr>"

text \<open>The derived serialization of the ledger and its inverse, which refuses unknown members.\<close>

definition ledger_json :: "node_cidr_allocations \<Rightarrow> json" where
  "ledger_json l = JObj [(''cluster_cidr'', JStr (cluster_cidr l)), (''node_prefix'', JInt (int (node_prefix l))),
     (''reservations'', JObj (map (\<lambda>(k, v). (k, JStr v)) (reservations l))), (''version'', JInt (int (alloc_version l)))]"

definition as_u8 :: "json \<Rightarrow> nat option" where
  "as_u8 v = Option.bind (as_u64 v) (\<lambda>i. if i < 256 then Some (nat i) else None)"

fun string_map :: "(string \<times> json) list \<Rightarrow> (string \<times> string) list option" where
  "string_map [] = Some []"
| "string_map ((k, v) # m) = Option.bind (as_str v) (\<lambda>s. map_option ((#) (k, s)) (string_map m))"

definition ledger_of_json :: "json \<Rightarrow> node_cidr_allocations option" where
  "ledger_of_json v =
     Option.bind (as_object v) (\<lambda>m.
     if list_ex (\<lambda>(k, _). k \<notin> set [''version'', ''cluster_cidr'', ''node_prefix'', ''reservations'']) m then None
     else Option.bind (Option.bind (map_of m ''version'') as_u8) (\<lambda>ver.
       Option.bind (Option.bind (map_of m ''cluster_cidr'') as_str) (\<lambda>cidr.
       Option.bind (Option.bind (map_of m ''node_prefix'') as_u8) (\<lambda>pre.
       Option.bind (Option.bind (Option.bind (map_of m ''reservations'') as_object) string_map) (\<lambda>rs.
       Some \<lparr>alloc_version = ver, cluster_cidr = cidr, node_prefix = pre,
             reservations = foldl (\<lambda>acc (k, v). put k v acc) [] rs\<rparr>)))))"

definition node_cidr :: "json \<Rightarrow> string option answer" where
  "node_cidr node =
     (let cidr = filled (as_str (at node [''spec'', ''podCIDR''])) in
      case getf (idx node ''spec'') ''podCIDRs'' of
        None \<Rightarrow> Inr cidr
      | Some v \<Rightarrow>
          if is_null v then Inr cidr
          else (case as_array v of
              None \<Rightarrow> Inl (unprocessable_cidr ''podCIDRs must be an array'')
            | Some l \<Rightarrow>
                if (case cidr of Some c \<Rightarrow> length l \<noteq> 1 \<or> as_str (l ! 0) \<noteq> Some c | None \<Rightarrow> l \<noteq> [])
                then Inl (unprocessable_cidr ''podCIDRs must contain exactly podCIDR; only IPv4 single-stack allocation is supported'')
                else Inr cidr))"

definition load_ledger :: "env \<Rightarrow> 'n ipnet \<Rightarrow> node_cidr_allocations \<Rightarrow> registry \<Rightarrow> (stored_object \<times> node_cidr_allocations) answer" where
  "load_ledger a ip configured db =
     andThen (api_key LEDGER_KEY) (\<lambda>k.
     andThen (api_get a db k) (\<lambda>x.
     andThen (ok_or (corrupt ''node CIDR ledger is missing'') x) (\<lambda>saved.
     andThen (ok_or (corrupt ''invalid node CIDR ledger'') (Option.bind (from_slice a (ovalue saved)) ledger_of_json)) (\<lambda>st.
     andThen (map_err corrupt (validate ip st)) (\<lambda>_.
     if cluster_cidr st \<noteq> cluster_cidr configured \<or> node_prefix st \<noteq> node_prefix configured
     then Inl (corrupt ''configured node CIDR pool differs from durable ledger'')
     else Inr (saved, st))))))"

definition ledger_snapshot :: "env \<Rightarrow> 'n ipnet \<Rightarrow> node_cidr_allocations \<Rightarrow> registry \<Rightarrow> node_cidr_allocations answer" where
  "ledger_snapshot a ip configured db = andThen (load_ledger a ip configured db) (\<lambda>(saved, st). Inr st)"

subsection \<open>Import at start\<close>

definition import_node :: "env \<Rightarrow> 'n ipnet \<Rightarrow> node_cidr_allocations \<Rightarrow> stored_object \<Rightarrow> node_cidr_allocations flow answer" where
  "import_node a ip st ob =
     andThen (object a ob) (\<lambda>node.
     andThen (node_cidr node) (\<lambda>c.
     case c of None \<Rightarrow> Inr (Continue st)
     | Some cidr \<Rightarrow>
         andThen (ok_or (corrupt ''stored Node name missing'') (as_str (at node [''metadata'', ''name'']))) (\<lambda>name.
         andThen (map_err unprocessable_cidr (reserve ip st name cidr)) (\<lambda>(_, st'). Inr (Continue st')))))"

definition initialize :: "env \<Rightarrow> 'n ipnet \<Rightarrow> node_cidr_allocations \<Rightarrow> unit action" where
  "initialize a ip configured =
     bindA (pureA (no_panic (map_err unprocessable_cidr (validate ip configured)))) (\<lambda>_.
     bindA (pureA (no_panic (api_key LEDGER_KEY))) (\<lambda>k.
     bindA (readA (\<lambda>db. api_get a db k)) (\<lambda>existing.
     bindA (if existing \<noteq> None then readA (ledger_snapshot a ip configured) else pureA (Inr configured)) (\<lambda>st.
     bindA (readA (\<lambda>db. andThen (page_loop (custody a) (import_node a ip) st (select ''/registry/nodes/'' None) db)
              (\<lambda>(q, st'). Inr st'))) (\<lambda>st'.
     let ob = stored a k (ledger_json st') in
     case existing of
       Some old \<Rightarrow> if ovalue old \<noteq> ovalue ob then bindA (api_update a ob (orevision old)) (\<lambda>_. pureA (Inr ())) else pureA (Inr ())
     | None \<Rightarrow> bindA (api_create a ob) (\<lambda>_. pureA (Inr ())))))))"

subsection \<open>Admitting a Node\<close>

definition admit_cidr :: "env \<Rightarrow> 'n ipnet \<Rightarrow> node_cidr_allocations \<Rightarrow> json \<Rightarrow> json option \<Rightarrow> unit action" where
  "admit_cidr a ip configured doc old =
     bindA (pureA (no_panic (node_cidr doc))) (\<lambda>cidr.
     bindA (pureA (no_panic (case old of None \<Rightarrow> Inr () | Some o' \<Rightarrow>
        andThen (node_cidr o') (\<lambda>p. case p of None \<Rightarrow> Inr ()
          | Some before \<Rightarrow> if cidr \<noteq> Some before then Inl (unprocessable_cidr ''allocated node CIDR is immutable'') else Inr ())))) (\<lambda>_.
     case cidr of None \<Rightarrow> pureA (Inr ()) | Some c \<Rightarrow>
     bindA (readA (load_ledger a ip configured)) (\<lambda>(saved, st).
     bindA (pureA (ok_or None (as_str (at doc [''metadata'', ''name''])))) (\<lambda>name.
     bindA (pureA (no_panic (map_err unprocessable_cidr (reserve ip st name c)))) (\<lambda>(new, st').
     if new then bindA (api_update a (stored a (okey saved) (ledger_json st')) (orevision saved)) (\<lambda>_. pureA (Inr ()))
     else pureA (Inr ()))))))"

subsection \<open>The stored ledger is the ledger\<close>

lemma string_map_JStr [simp]: "string_map (map (\<lambda>(k, v). (k, JStr v)) m) = Some m"
  by (induction m) auto

lemma foldl_put:
  assumes "key_sorted m" and "key_sorted acc" and "\<forall>j \<in> fst ` set acc. \<forall>k \<in> fst ` set m. j < k"
  shows "foldl (\<lambda>acc (k, v). put k v acc) acc m = acc @ m"
  using assms
proof (induction m arbitrary: acc)
  case (Cons p m)
  obtain k v where p: "p = (k, v)" by force
  have put_last: "put k v acc = acc @ [(k, v)]" if "\<forall>j \<in> fst ` set acc. j < k" for acc :: "(string \<times> 'a) list"
    using that by (induction acc) (auto simp: p)
  have "put k v acc = acc @ [(k, v)]" using Cons.prems(3) by (intro put_last) (simp add: p)
  moreover have "key_sorted (acc @ [(k, v)])" using Cons.prems by (auto simp: key_sorted_def sorted_wrt_append p)
  moreover have "key_sorted m" "\<forall>j \<in> fst ` set (acc @ [(k, v)]). \<forall>i \<in> fst ` set m. j < i"
    using Cons.prems by (auto simp: key_sorted_def p)
  ultimately show ?case using Cons.IH [of "acc @ [(k, v)]"] by (simp add: p)
qed simp

lemma ledger_roundtrip:
  assumes "ledger_ok l" and "alloc_version l < 256" and "node_prefix l < 256"
  shows "ledger_of_json (ledger_json l) = Some l"
  using assms foldl_put [of "reservations l" "[]"]
  by (simp add: ledger_of_json_def ledger_json_def as_u8_def in_u64_def ledger_ok_def key_sorted_def)

lemma key_sorted_map: "key_sorted m \<Longrightarrow> key_sorted (map (\<lambda>(k, v). (k, f v)) m)"
  by (simp add: key_sorted_def sorted_wrt_map case_prod_unfold)

lemma wf_ledger_json:
  assumes "ledger_ok l" and "alloc_version l < 256" and "node_prefix l < 256"
  shows "wf_json (ledger_json l)"
  using assms key_sorted_map [of "reservations l" JStr]
  by (auto simp: ledger_json_def ledger_ok_def list_all_iff in_u64_def in_i64_def key_sorted_def)

lemma ledger_of_json_ok: "ledger_of_json v = Some l \<Longrightarrow> ledger_ok l"
proof -
  have "key_sorted (foldl (\<lambda>acc (k, v). put k v acc) acc rs)" if "key_sorted acc" for acc rs :: "(string \<times> string) list"
    using that by (induction rs arbitrary: acc) auto
  then show "ledger_of_json v = Some l \<Longrightarrow> ledger_ok l"
    by (auto simp: ledger_of_json_def ledger_ok_def bind_eq_Some_conv split: if_splits)
qed

lemma validated_bounds:
  assumes "ipv4_networks ip valid_net" and "validate ip l = Inr ()"
  shows "alloc_version l < 256" "node_prefix l < 256"
proof -
  from assms(2) obtain p where p: "pool ip l = Inr p" by (auto simp: validate_def andThen_Inr_iff)
  then have "alloc_version l = 1" by (auto simp: pool_def andThen_Inr_iff split: if_splits)
  then show "alloc_version l < 256" by simp
  show "node_prefix l < 256" using ipv4_networks.poolD(3) [OF assms(1) p] by simp
qed


lemma ledger_key: "api_key LEDGER_KEY = Inr LEDGER_KEY" "valid_key LEDGER_KEY"
  by code_simp+

lemma load_ledger_iff:
  assumes "custody a = Unsealed"
  shows "load_ledger a ip configured db = Inr (saved, st) \<longleftrightarrow>
    get_current db LEDGER_KEY = Some saved \<and> Option.bind (from_slice a (ovalue saved)) ledger_of_json = Some st
    \<and> validate ip st = Inr () \<and> cluster_cidr st = cluster_cidr configured \<and> node_prefix st = node_prefix configured"
  by (auto simp: load_ledger_def ledger_key api_get_Unsealed [OF assms] andThen_Inr_iff)

text \<open>Whoever writes a validated ledger of the configured pool loads it back.\<close>

lemma load_written:
  assumes ip: "ipv4_networks ip valid_net" and law: "text_law (to_vec a) (from_slice a)" and a: "custody a = Unsealed"
    and st: "validate ip st = Inr ()" "ledger_ok st" "cluster_cidr st = cluster_cidr configured" "node_prefix st = node_prefix configured"
    and cur: "get_current db LEDGER_KEY = Some saved" "ovalue saved = to_vec a (ledger_json st)"
  shows "load_ledger a ip configured db = Inr (saved, st)"
proof -
  note b = validated_bounds [OF ip st(1)]
  have "from_slice a (to_vec a (ledger_json st)) = Some (ledger_json st)"
    using law wf_ledger_json [OF st(2) b] by (simp add: text_law_def)
  then show ?thesis using st cur ledger_roundtrip [OF st(2) b] by (simp add: load_ledger_iff [OF a])
qed

lemma ledger_committed:
  assumes wf: "wf_registry db" and a: "custody a = Unsealed"
    and w: "write_object db LEDGER_KEY v e = (Inr x, db')"
  shows "\<exists>saved. get_current db' LEDGER_KEY = Some saved \<and> ovalue saved = v
    \<and> (\<forall>k. k \<noteq> LEDGER_KEY \<longrightarrow> get_current db' k = get_current db k)"
  using wf w by (rule write_object_cases [OF _ ledger_key(2)]) auto

text \<open>
  C33: admitting a Node reserves its subnet durably and for it alone.  When a Node write with a subnet
  passes, the ledger read back afterwards is valid and is the ledger before it with the subnet booked
  under the Node's name, no other Node holds that subnet, and nothing else in the registry changed.
\<close>

theorem cidr_admission_exact:
  assumes ip: "ipv4_networks ip valid_net" and law: "text_law (to_vec a) (from_slice a)" and a: "custody a = Unsealed"
    and wf: "wf_registry db" and before: "load_ledger a ip configured db = Inr (saved, st)"
    and cidr: "node_cidr doc = Inr (Some c)" and name: "as_str (at doc [''metadata'', ''name'']) = Some name"
    and ok: "admit_cidr a ip configured doc old db = (Inr (), db')"
  shows "\<exists>saved' st'. load_ledger a ip configured db' = Inr (saved', st') \<and> validate ip st' = Inr ()
    \<and> map_of (reservations st') = (map_of (reservations st)) (name \<mapsto> c)
    \<and> (\<forall>n. map_of (reservations st') n = Some c \<longrightarrow> n = name)
    \<and> (\<forall>k. k \<noteq> LEDGER_KEY \<longrightarrow> get_current db' k = get_current db k)"
proof -
  note loaded = before [unfolded load_ledger_iff [OF a]]
  then have v: "validate ip st = Inr ()" and l: "ledger_ok st"
    using ledger_of_json_ok by (auto simp: bind_eq_Some_conv)
  have key: "okey saved = LEDGER_KEY"
    using loaded get_current_row [OF wf, of LEDGER_KEY saved] by (auto simp: row_object_def)
  from ok cidr before name obtain new st' where r: "reserve ip st name c = Inr (new, st')"
    and w: "(if new then bindA (api_update a (stored a (okey saved) (ledger_json st')) (orevision saved)) (\<lambda>_. pureA (Inr ()))
      else pureA (Inr ())) db = (Inr (), db')"
    by (auto simp: admit_cidr_def action_simps no_panic_simps split: prod.splits)
  note s = ipv4_networks.reserve_sound [OF ip v l r]
  have pool: "cluster_cidr st' = cluster_cidr configured" "node_prefix st' = node_prefix configured"
    using r loaded by (auto simp: reserve_def andThen_Inr_iff split: if_splits option.splits)
  have "\<exists>saved'. load_ledger a ip configured db' = Inr (saved', st') \<and> (\<forall>k. k \<noteq> LEDGER_KEY \<longrightarrow> get_current db' k = get_current db k)"
  proof (cases new)
    case True
    with w obtain x where "update Unsealed (stored a LEDGER_KEY (ledger_json st')) (orevision saved) db = (Inr x, db')"
      by (auto simp: action_simps a key)
    then have "write_object db LEDGER_KEY (to_vec a (ledger_json st')) (Some (orevision saved)) = (Inr x, db')"
      by (simp add: write_object_def stored_def)
    from ledger_committed [OF wf a this] load_written [OF ip law a s(1,2) pool] show ?thesis by blast
  next
    case False
    with w s(6) before show ?thesis by (auto simp: action_simps)
  qed
  moreover have m: "map_of (reservations st') = (map_of (reservations st)) (name \<mapsto> c)"
    using s(3,4) by (auto simp: fun_eq_iff)
  moreover have "n = name" if "map_of (reservations st') n = Some c" for n
  proof -
    have "entries_ok ip st' (reservations st')" using ipv4_networks.validate_iff [OF ip, of st'] s(1) by simp
    then have "inj_on snd (set (reservations st'))" by (simp add: entries_ok_def distinct_map)
    from inj_onD [OF this, of "(n, c)" "(name, c)"] that s(3) show ?thesis by (simp add: map_of_SomeD)
  qed
  ultimately show ?thesis using s(1) by blast
qed


lemma reserve_pool:
  "reserve ip st name c = Inr (new, st') \<Longrightarrow> cluster_cidr st' = cluster_cidr st \<and> node_prefix st' = node_prefix st"
  by (auto simp: reserve_def andThen_Inr_iff split: if_splits option.splits)

definition booked :: "env \<Rightarrow> node_cidr_allocations \<Rightarrow> stored_object \<Rightarrow> bool" where
  "booked a st ob \<longleftrightarrow> (\<exists>node c. object a ob = Inr node \<and> node_cidr node = Inr c
     \<and> (\<forall>cidr. c = Some cidr \<longrightarrow> (\<exists>name. as_str (at node [''metadata'', ''name'']) = Some name
          \<and> map_of (reservations st) name = Some cidr)))"

lemma booked_mono: "booked a st ob \<Longrightarrow> map_of (reservations st) \<subseteq>\<^sub>m map_of (reservations st') \<Longrightarrow> booked a st' ob"
  by (fastforce simp: booked_def map_le_def dom_def)

lemma import_node_step:
  assumes ip: "ipv4_networks ip valid_net" and st: "validate ip st = Inr ()" "ledger_ok st"
    and r: "import_node a ip st ob = Inr fl"
  shows "\<exists>st'. fl = Continue st' \<and> validate ip st' = Inr () \<and> ledger_ok st'
    \<and> cluster_cidr st' = cluster_cidr st \<and> node_prefix st' = node_prefix st
    \<and> map_of (reservations st) \<subseteq>\<^sub>m map_of (reservations st') \<and> booked a st' ob"
proof -
  from r obtain node c where n: "object a ob = Inr node" "node_cidr node = Inr c" by (auto simp: import_node_def andThen_Inr_iff)
  show ?thesis
  proof (cases c)
    case None
    with r n st show ?thesis by (auto simp: import_node_def booked_def)
  next
    case (Some cidr)
    with r n obtain name new st' where name: "as_str (at node [''metadata'', ''name'']) = Some name"
      and rs: "reserve ip st name cidr = Inr (new, st')" and fl: "fl = Continue st'"
      by (auto simp: import_node_def andThen_Inr_iff)
    note s = ipv4_networks.reserve_sound [OF ip st rs]
    have "map_of (reservations st) \<subseteq>\<^sub>m map_of (reservations st')"
      unfolding map_le_def
    proof
      fix k
      assume "k \<in> dom (map_of (reservations st))"
      then show "map_of (reservations st) k = map_of (reservations st') k" using s(4) s(5,6) by (cases "k = name") auto
    qed
    moreover have "booked a st' ob" using n name s(3) Some by (auto simp: booked_def)
    ultimately show ?thesis using fl s(1,2) reserve_pool [OF rs] by blast
  qed
qed

lemma import_loop:
  assumes ip: "ipv4_networks ip valid_net" and "validate ip st = Inr ()" "ledger_ok st"
    and "item_loop (import_node a ip) st obs = Inr fl"
  shows "\<exists>st'. fl = Continue st' \<and> validate ip st' = Inr () \<and> ledger_ok st'
    \<and> cluster_cidr st' = cluster_cidr st \<and> node_prefix st' = node_prefix st
    \<and> map_of (reservations st) \<subseteq>\<^sub>m map_of (reservations st') \<and> (\<forall>ob \<in> set obs. booked a st' ob)"
  using assms(2-4)
proof (induction obs arbitrary: st)
  case (Cons ob obs)
  then obtain fl1 where f: "import_node a ip st ob = Inr fl1" by (auto split: sum.splits)
  from import_node_step [OF ip Cons.prems(1,2) f] obtain st1 where s1: "fl1 = Continue st1" "validate ip st1 = Inr ()" "ledger_ok st1"
    "cluster_cidr st1 = cluster_cidr st" "node_prefix st1 = node_prefix st"
    "map_of (reservations st) \<subseteq>\<^sub>m map_of (reservations st1)" "booked a st1 ob" by auto
  from Cons.prems(3) f s1(1) have "item_loop (import_node a ip) st1 obs = Inr fl" by simp
  from Cons.IH [OF s1(2,3) this] obtain st' where s': "fl = Continue st'" "validate ip st' = Inr ()" "ledger_ok st'"
    "cluster_cidr st' = cluster_cidr st1" "node_prefix st' = node_prefix st1"
    "map_of (reservations st1) \<subseteq>\<^sub>m map_of (reservations st')" "\<forall>ob \<in> set obs. booked a st' ob" by auto
  then show ?case using s1 booked_mono [OF s1(7) s'(6)] map_le_trans [OF s1(6) s'(6)]
    by (intro exI [of _ st']) auto
qed auto

text \<open>
  Start-up imports every stored allocation or refuses to start.  When initialization succeeds, the
  ledger read back is valid, keeps every reservation it had before, and books the subnet of every live
  stored Node under that Node's name; every stored Node could be read.
\<close>

theorem cidr_initialize_complete:
  assumes ip: "ipv4_networks ip valid_net" and law: "text_law (to_vec a) (from_slice a)" and a: "custody a = Unsealed"
    and wf: "wf_registry db" and conf: "ledger_ok configured"
    and ok: "initialize a ip configured db = (Inr (), db')"
  shows "\<exists>saved st. load_ledger a ip configured db' = Inr (saved, st) \<and> validate ip st = Inr ()
    \<and> (\<forall>saved0 st0. load_ledger a ip configured db = Inr (saved0, st0) \<longrightarrow> map_of (reservations st0) \<subseteq>\<^sub>m map_of (reservations st))
    \<and> (\<forall>k ob. view Unsealed ''/registry/nodes/'' db (revision db) k = Some ob \<longrightarrow> booked a st ob)"
proof -
  let ?old = "get_current db LEDGER_KEY"
  from ok obtain st0 st q where v0: "validate ip configured = Inr ()"
    and st0: "(if ?old \<noteq> None then \<exists>saved. load_ledger a ip configured db = Inr (saved, st0) else st0 = configured)"
    and loop: "page_loop Unsealed (import_node a ip) st0 (select ''/registry/nodes/'' None) db = Inr (q, st)"
    and w: "(case ?old of Some old \<Rightarrow> if ovalue old \<noteq> to_vec a (ledger_json st)
        then bindA (api_update a (stored a LEDGER_KEY (ledger_json st)) (orevision old)) (\<lambda>_. pureA (Inr ())) else pureA (Inr ())
      | None \<Rightarrow> bindA (api_create a (stored a LEDGER_KEY (ledger_json st))) (\<lambda>_. pureA (Inr ()))) db = (Inr (), db')"
    by (auto simp: initialize_def action_simps no_panic_simps ledger_key api_get_Unsealed [OF a] a Let_def stored_def
        ledger_snapshot_def andThen_Inr_iff split: if_splits)
  have good0: "validate ip st0 = Inr ()" "ledger_ok st0" "cluster_cidr st0 = cluster_cidr configured" "node_prefix st0 = node_prefix configured"
    using st0 v0 conf ledger_of_json_ok by (auto simp: load_ledger_iff [OF a] bind_eq_Some_conv split: if_splits)
  have sel: "page_revision (select ''/registry/nodes/'' None) db = revision db"
    "lprefix (select ''/registry/nodes/'' None) = ''/registry/nodes/''" "page_after (select ''/registry/nodes/'' None) = []"
    by (simp_all add: page_revision_def select_def page_after_def)
  from page_loop_exact [OF wf loop, unfolded sel] obtain ks obs fl where
    ks: "map Some obs = map (view Unsealed ''/registry/nodes/'' db (revision db)) ks"
    and fl: "item_loop (import_node a ip) st0 obs = Inr fl" "st = flow_state fl"
      "fl = Continue st \<longrightarrow> ks = live_keys db ''/registry/nodes/'' [] (revision db)" by blast
  from import_loop [OF ip good0(1,2) fl(1)] fl(2) have f: "fl = Continue st" and good: "validate ip st = Inr ()" "ledger_ok st"
    "cluster_cidr st = cluster_cidr st0" "node_prefix st = node_prefix st0"
    "map_of (reservations st0) \<subseteq>\<^sub>m map_of (reservations st)" "\<forall>ob \<in> set obs. booked a st ob" by auto
  have all: "booked a st ob" if "view Unsealed ''/registry/nodes/'' db (revision db) k = Some ob" for k ob
  proof -
    have "k \<in> set ks" using view_SomeD(2,3) [OF that] f fl(3) by (cases k) (auto simp: live_keys_iff starts_with_def)
    with that have "ob \<in> set obs" unfolding map_Some_member [OF ks] by blast
    with good(6) show ?thesis by blast
  qed
  have "\<exists>saved. get_current db' LEDGER_KEY = Some saved \<and> ovalue saved = to_vec a (ledger_json st)"
  proof (cases "\<exists>old. ?old = Some old \<and> ovalue old = to_vec a (ledger_json st)")
    case True
    with w show ?thesis by (auto simp: action_simps)
  next
    case False
    with w obtain x e where "write_object db LEDGER_KEY (to_vec a (ledger_json st)) e = (Inr x, db')"
      by (auto simp: action_simps a write_object_def stored_def split: option.splits)
         (metis option.simps(4) option.simps(5))+
    from ledger_committed [OF wf a this] show ?thesis by blast
  qed
  then obtain saved where "get_current db' LEDGER_KEY = Some saved" "ovalue saved = to_vec a (ledger_json st)" by blast
  from load_written [OF ip law a good(1,2) _ _ this] good(3,4) good0(3,4)
  have "load_ledger a ip configured db' = Inr (saved, st)" by simp
  moreover have "map_of (reservations st1) \<subseteq>\<^sub>m map_of (reservations st)" if "load_ledger a ip configured db = Inr (saved1, st1)" for saved1 st1
    using that st0 good(5) by (auto simp: load_ledger_iff [OF a] split: if_splits)
  ultimately show ?thesis using good(1) all by blast
qed


definition demo_pool :: node_cidr_allocations where
  "demo_pool = demo_ledger\<lparr>reservations := []\<rparr>"

definition cidr_node :: "string \<Rightarrow> string \<Rightarrow> json" where
  "cidr_node name c = JObj [(''metadata'', JObj [(''name'', JStr name)]), (''spec'', JObj [(''podCIDR'', JStr c)])]"

definition cidr_registry :: registry where
  "cidr_registry = store_text empty_registry (''/registry/nodes/a'', frame_json (cidr_node ''a'' ''10.42.0.0/20''))"

definition imported_registry :: registry where
  "imported_registry = store_text cidr_registry (LEDGER_KEY, frame_json (ledger_json demo_ledger))"

lemma cidr_registry_wf: "wf_registry cidr_registry" "wf_registry imported_registry"
proof -
  have w: "wf_registry (foldl store_text empty_registry [(''/registry/nodes/a'', frame_json (cidr_node ''a'' ''10.42.0.0/20''))])"
    by (rule wf_store_texts [OF _ wf_empty]) code_simp
  then show "wf_registry cidr_registry" by (simp add: cidr_registry_def)
  have "wf_registry (foldl store_text cidr_registry [(LEDGER_KEY, frame_json (ledger_json demo_ledger))])"
    by (rule wf_store_texts [OF _ \<open>wf_registry cidr_registry\<close>]) code_simp
  then show "wf_registry imported_registry" by (simp add: imported_registry_def)
qed

lemma framed_env_open: "custody framed_env = Unsealed"
  by (simp add: framed_env_def)

lemma cidr_initialized: "initialize framed_env block_networks demo_pool cidr_registry = (Inr (), imported_registry)"
  by code_simp

theorem cidr_initialize_complete_witness:
  "\<exists>saved st. load_ledger framed_env block_networks demo_pool imported_registry = Inr (saved, st) \<and> validate block_networks st = Inr ()"
proof -
  have "ledger_ok demo_pool" by code_simp
  from cidr_initialize_complete [OF block_laws framed_env_law framed_env_open cidr_registry_wf(1) this cidr_initialized]
  show ?thesis by blast
qed


definition ledger_saved :: stored_object where
  "ledger_saved = \<lparr>okey = LEDGER_KEY, ovalue = frame_json (ledger_json demo_ledger), orevision = 2\<rparr>"

lemma ledger_loads: "load_ledger framed_env block_networks demo_pool imported_registry = Inr (ledger_saved, demo_ledger)"
  by code_simp

theorem cidr_admission_exact_witness:
  "\<exists>saved st. load_ledger framed_env block_networks demo_pool
       (snd (admit_cidr framed_env block_networks demo_pool (cidr_node ''b'' ''10.42.16.0/20'') None imported_registry)) = Inr (saved, st)
     \<and> map_of (reservations st) ''b'' = Some ''10.42.16.0/20'' \<and> map_of (reservations st) ''a'' = Some ''10.42.0.0/20''"
proof -
  let ?doc = "cidr_node ''b'' ''10.42.16.0/20''"
  have ok: "fst (admit_cidr framed_env block_networks demo_pool ?doc None imported_registry) = Inr ()" by code_simp
  have c: "node_cidr ?doc = Inr (Some ''10.42.16.0/20'')" "as_str (at ?doc [''metadata'', ''name'']) = Some ''b''" by code_simp+
  from ok have run: "admit_cidr framed_env block_networks demo_pool ?doc None imported_registry
      = (Inr (), snd (admit_cidr framed_env block_networks demo_pool ?doc None imported_registry))"
    by (simp only: prod_eq_iff fst_conv snd_conv simp_thms)
  have old: "map_of (reservations demo_ledger) ''a'' = Some ''10.42.0.0/20''" by code_simp
  from cidr_admission_exact [OF block_laws framed_env_law framed_env_open cidr_registry_wf(2) ledger_loads c run]
  obtain saved st where st: "load_ledger framed_env block_networks demo_pool
      (snd (admit_cidr framed_env block_networks demo_pool ?doc None imported_registry)) = Inr (saved, st)"
    "map_of (reservations st) = (map_of (reservations demo_ledger)) (''b'' \<mapsto> ''10.42.16.0/20'')" by blast
  from st(2) old have "map_of (reservations st) ''b'' = Some ''10.42.16.0/20'' \<and> map_of (reservations st) ''a'' = Some ''10.42.0.0/20''"
    by simp
  with st(1) show ?thesis by blast
qed

end
