(* ===== verification/Json_Edit.thy ===== *)
theory Json_Edit
  imports Json
begin

text \<open>
  Edits of a JSON value in place, as the write path makes them: through \<^verbatim>\<open>IndexMut\<close>, which turns a
  null into an object, inserts a missing member as null and panics on any other value; through
  \<^verbatim>\<open>get_mut\<close>, which leaves a missing member missing; and over the items of an array.  A panic is
  \<open>Inl None\<close>, an error of the edit \<open>Inl (Some e)\<close>.
\<close>

named_theorems edit_simps \<open>what an edit leaves and changes\<close>

type_synonym ('e, 'a) checked = "('e option, 'a) result"

definition safely :: "('e, 'a) result \<Rightarrow> ('e, 'a) checked" where
  "safely r = map_err Some r"

definition panic :: "('e, 'a) checked" where
  "panic = Inl None"

text \<open>\<^verbatim>\<open>f(&mut v[k])\<close>.\<close>

definition edit :: "json \<Rightarrow> string \<Rightarrow> (json \<Rightarrow> ('e, json) checked) \<Rightarrow> ('e, json) checked" where
  "edit v k f =
     (case v of
        JNull \<Rightarrow> andThen (f JNull) (\<lambda>c. Inr (JObj [(k, c)]))
      | JObj m \<Rightarrow> andThen (f (idx v k)) (\<lambda>c. Inr (JObj (put k c m)))
      | _ \<Rightarrow> panic)"

text \<open>\<^verbatim>\<open>if let Some(x) = v.get_mut(k) { f(x) }\<close>.\<close>

definition edit_member :: "json \<Rightarrow> string \<Rightarrow> (json \<Rightarrow> ('e, json) checked) \<Rightarrow> ('e, json) checked" where
  "edit_member v k f =
     (case v of
        JObj m \<Rightarrow> (case map_of m k of None \<Rightarrow> Inr v | Some x \<Rightarrow> andThen (f x) (\<lambda>c. Inr (JObj (put k c m))))
      | _ \<Rightarrow> Inr v)"

text \<open>\<^verbatim>\<open>for x in v.as_array_mut().into_iter().flatten() { f(x) }\<close>.\<close>

definition edit_items :: "(json \<Rightarrow> ('e, json) checked) \<Rightarrow> json \<Rightarrow> ('e, json) checked" where
  "edit_items f v = (case v of JArr xs \<Rightarrow> andThen (try_map f xs) (\<lambda>ys. Inr (JArr ys)) | _ \<Rightarrow> Inr v)"

text \<open>\<^verbatim>\<open>v[k] = x\<close>.\<close>

definition assign_member :: "json \<Rightarrow> string \<Rightarrow> json \<Rightarrow> ('e, json) checked" where
  "assign_member v k x = edit v k (\<lambda>_. Inr x)"

lemma safely_Inr_iff [simp, edit_simps]: "safely r = Inr x \<longleftrightarrow> r = Inr x"
  by (simp add: safely_def)

lemma safely_simps [simp, edit_simps]: "safely (Inr x) = Inr x" "safely (Inl e) = Inl (Some e)"
  by (simp_all add: safely_def)

lemma panic_not_Inr [simp, edit_simps]: "panic \<noteq> Inr x"
  by (simp add: panic_def)

lemma edit_InrD:
  assumes "edit v k f = Inr w"
  shows "f (idx v k) = Inr (idx w k)" and "is_object w" and "\<And>j. j \<noteq> k \<Longrightarrow> getf w j = getf v j"
    and "getf w k = Some (idx w k)" and "v = JNull \<or> is_object v"
  using assms by (auto simp: edit_def andThen_Inr_iff split: json.splits)

lemma edit_other: "edit v k f = Inr w \<Longrightarrow> j \<noteq> k \<Longrightarrow> idx w j = idx v j"
  using edit_InrD(3) by (fastforce simp: idx_def)

lemma edit_at_other: "edit v k f = Inr w \<Longrightarrow> j \<noteq> k \<Longrightarrow> at w (j # js) = at v (j # js)"
  by (simp add: edit_other)

lemma assign_member_InrD:
  assumes "assign_member v k x = Inr w"
  shows "idx w k = x" and "is_object w" and "\<And>j. j \<noteq> k \<Longrightarrow> idx w j = idx v j"
    and "\<And>j. j \<noteq> k \<Longrightarrow> getf w j = getf v j" and "v = JNull \<or> is_object v"
  using edit_InrD [OF assms [unfolded assign_member_def]] edit_other [OF assms [unfolded assign_member_def]] by auto

lemma assign_member_total: "v = JNull \<or> is_object v \<Longrightarrow> \<exists>w. assign_member v k x = Inr w"
  by (cases v) (auto simp: assign_member_def edit_def)

lemma edit_member_other: "edit_member v k f = Inr w \<Longrightarrow> j \<noteq> k \<Longrightarrow> idx w j = idx v j"
  by (cases v) (auto simp: edit_member_def andThen_Inr_iff split: option.splits)

lemma edit_member_InrD:
  assumes "edit_member v k f = Inr w"
  shows "getf v k = None \<and> w = v \<or> (\<exists>x y. getf v k = Some x \<and> f x = Inr y \<and> getf w k = Some y \<and> idx v k = x \<and> idx w k = y)"
  using assms by (cases v) (auto simp: edit_member_def andThen_Inr_iff idx_def split: option.splits)

lemma edit_items_InrD:
  assumes "edit_items f v = Inr w"
  shows "list_all2 (\<lambda>x y. f x = Inr y) (items v) (items w)" and "is_array w \<longleftrightarrow> is_array v" and "\<not> is_array v \<Longrightarrow> w = v"
  using assms by (auto simp: edit_items_def andThen_Inr_iff try_map_Inr_iff split: json.splits)

lemma andThen_Inl_None_iff: "andThen r f = Inl None \<longleftrightarrow> r = Inl None \<or> (\<exists>x. r = Inr x \<and> f x = Inl None)"
  by (rule andThen_Inl_iff)

lemma safely_no_panic [simp]: "safely r \<noteq> Inl None"
  by (cases r) auto

end
