(* ===== verification/Server_Side_Apply.thy ===== *)
theory Server_Side_Apply
  imports Api_Actions Json_Edit
begin

text \<open>
  Server-side apply (\<^verbatim>\<open>crates/h3s-apiserver/src/apply.rs\<close>): the paths an applied object declares, the
  ownership kept in \<^verbatim>\<open>metadata.managedFields\<close>, and the merge.  A set of paths is a sorted list
  without repetition, the order in which a \<^verbatim>\<open>BTreeSet\<close> is walked.  The text inside a \<^verbatim>\<open>k:\<close> key is
  written and read by the JSON codec of the environment.
\<close>

named_theorems apply_simps \<open>equations of paths and their lookup\<close>

subsection \<open>Paths\<close>

datatype segment = Field string | Keyed string string

type_synonym path = "segment list"

instantiation segment :: linorder
begin

fun less_eq_segment :: "segment \<Rightarrow> segment \<Rightarrow> bool" where
  "less_eq_segment (Field a) (Field b) = (a \<le> b)"
| "less_eq_segment (Field a) (Keyed k v) = True"
| "less_eq_segment (Keyed k v) (Field b) = False"
| "less_eq_segment (Keyed k v) (Keyed k' v') = (k < k' \<or> k = k' \<and> v \<le> v')"

definition less_segment :: "segment \<Rightarrow> segment \<Rightarrow> bool" where
  "less_segment x y \<longleftrightarrow> x \<le> y \<and> \<not> y \<le> x"

instance
proof
  fix x y z :: segment
  show "x < y \<longleftrightarrow> x \<le> y \<and> \<not> y \<le> x" by (rule less_segment_def)
  show "x \<le> x" by (cases x) auto
  show "x \<le> y \<Longrightarrow> y \<le> z \<Longrightarrow> x \<le> z" by (cases x; cases y; cases z) auto
  show "x \<le> y \<Longrightarrow> y \<le> x \<Longrightarrow> x = y" by (cases x; cases y) auto
  show "x \<le> y \<or> y \<le> x" by (cases x; cases y) auto
qed

end

text \<open>\<^verbatim>\<open>BTreeSet::insert\<close> and \<^verbatim>\<open>collect\<close>.\<close>

definition add_path :: "path \<Rightarrow> path list \<Rightarrow> path list" where
  "add_path p ps = (if p \<in> set ps then ps else insort p ps)"

definition path_set :: "path list \<Rightarrow> path list" where
  "path_set ps = fold add_path ps []"

lemma set_path_set [simp, apply_simps]: "set (path_set ps) = set ps"
proof -
  have "set (fold add_path ps qs) = set ps \<union> set qs" for qs
    by (induction ps arbitrary: qs) (auto simp: add_path_def set_insort_key)
  then show ?thesis by (simp add: path_set_def)
qed

definition MANAGED :: string where
  "MANAGED = ''managedFields''"

definition FIELDS_TYPE :: string where
  "FIELDS_TYPE = ''FieldsV1''"

subsection \<open>The request\<close>

record options =
  manager :: string
  force :: bool

definition APPLY_JSON :: string where
  "APPLY_JSON = ''application/apply-patch+json''"

definition APPLY_YAML :: string where
  "APPLY_YAML = ''application/apply-patch+yaml''"

text \<open>\<^verbatim>\<open>chars().any(char::is_control)\<close> on the UTF-8 bytes: C0, DEL and the two-byte C1 controls.\<close>

fun has_control :: "nat list \<Rightarrow> bool" where
  "has_control [] = False"
| "has_control (a # r) =
     (a < 32 \<or> a = 127 \<or> a = 194 \<and> (case r of [] \<Rightarrow> False | b # _ \<Rightarrow> 128 \<le> b \<and> b \<le> 159) \<or> has_control r)"

definition media_type :: "string \<Rightarrow> string" where
  "media_type content_type = trim (hd (split_on CHR '';'' content_type))"

text \<open>The query is the map of its parameters.\<close>

definition apply_options :: "string \<Rightarrow> (string \<times> string) list \<Rightarrow> options option answer" where
  "apply_options content_type query =
     (let m = media_type content_type in
      if m = APPLY_YAML then
        fail 415 ''UnsupportedMediaType'' ''send application/apply-patch+json: this server decodes JSON apply bodies only''
      else if m \<noteq> APPLY_JSON then Inr None
      else
        (case filled (map_of query ''fieldManager'') of
           None \<Rightarrow> bad ''server-side apply requires the fieldManager query parameter''
         | Some who \<Rightarrow>
             if length who > 128 \<or> has_control (bytes who) then bad ''invalid fieldManager''
             else andThen
               (case map_of query ''force'' of
                  None \<Rightarrow> Inr False
                | Some f \<Rightarrow>
                    if f = ''true'' then Inr True else if f = ''false'' then Inr False
                    else bad ''force must be true or false'')
               (\<lambda>forced. case map_of query ''fieldValidation'' of
                  None \<Rightarrow> Inr (Some \<lparr>manager = who, force = forced\<rparr>)
                | Some validation \<Rightarrow>
                    if validation \<notin> {''Ignore'', ''Warn'', ''Strict''} then bad ''fieldValidation must be Ignore, Warn or Strict''
                    else Inr (Some \<lparr>manager = who, force = forced\<rparr>))))"

subsection \<open>Declared fields\<close>

definition named_items :: "json list \<Rightarrow> bool" where
  "named_items xs = list_all (\<lambda>v. case as_str (idx v ''name'') of None \<Rightarrow> False | Some n \<Rightarrow> n \<noteq> []) xs"

text \<open>The walk pushes a segment, walks the child and pops: the child's paths behind the segment.\<close>

fun walk :: "bool \<Rightarrow> json \<Rightarrow> path list" where
  "walk under_metadata (JObj m) =
     concat (map (\<lambda>(k, c). if under_metadata \<and> k = MANAGED then []
        else map ((#) (Field k)) (walk (k = ''metadata'') c)) m)"
| "walk under_metadata (JArr xs) =
     (if xs \<noteq> [] \<and> named_items xs
      then concat (map (\<lambda>v. map ((#) (Keyed ''name'' (or_default '''' (as_str (idx v ''name''))))) (walk False v)) xs)
      else [[]])"
| "walk under_metadata v = [[]]"

definition declared :: "json \<Rightarrow> path list" where
  "declared v = path_set (walk False v)"

definition keyed_item :: "string \<Rightarrow> string \<Rightarrow> json \<Rightarrow> bool" where
  "keyed_item k v x \<longleftrightarrow> as_str (idx x k) = Some v"

text \<open>\<open>item\<close> and \<open>get\<close> of the source.\<close>

definition list_item :: "json \<Rightarrow> string \<Rightarrow> string \<Rightarrow> json option" where
  "list_item current k v = (case current of JArr xs \<Rightarrow> List.find (keyed_item k v) xs | _ \<Rightarrow> None)"

fun get_path :: "json \<Rightarrow> path \<Rightarrow> json option" where
  "get_path current [] = Some current"
| "get_path current (Field n # ps) = (case getf current n of None \<Rightarrow> None | Some c \<Rightarrow> get_path c ps)"
| "get_path current (Keyed k v # ps) = (case list_item current k v of None \<Rightarrow> None | Some c \<Rightarrow> get_path c ps)"

text \<open>
  \<open>set\<close>: a missing parent becomes the container its next segment needs, a missing item is pushed with
  its key, and a parent of the wrong shape panics.
\<close>

fun container_for :: "path \<Rightarrow> json" where
  "container_for (Keyed k v # ps) = JArr []"
| "container_for ps = JObj []"

fun put_path :: "json \<Rightarrow> path \<Rightarrow> json \<Rightarrow> ('e, json) checked" where
  "put_path current [] x = Inr x"
| "put_path current (Field n # ps) x =
     (case current of
        JObj m \<Rightarrow> andThen (put_path (case map_of m n of None \<Rightarrow> container_for ps | Some c \<Rightarrow> c) ps x)
                    (\<lambda>c. Inr (JObj (put n c m)))
      | _ \<Rightarrow> panic)"
| "put_path current (Keyed k v # ps) x =
     (case current of
        JArr xs \<Rightarrow>
          (case position (keyed_item k v) xs of
             None \<Rightarrow> andThen (put_path (JObj [(k, JStr v)]) ps x) (\<lambda>c. Inr (JArr (xs @ [c])))
           | Some i \<Rightarrow> andThen (put_path (xs ! i) ps x) (\<lambda>c. Inr (JArr (xs[i := c]))))
      | _ \<Rightarrow> panic)"

definition set_path :: "json \<Rightarrow> path \<Rightarrow> json \<Rightarrow> ('e, json) checked" where
  "set_path root p x = (if p = [] then Inr root else put_path root p x)"

text \<open>\<open>remove\<close>: nothing happens where a parent is missing.\<close>

fun remove_path :: "json \<Rightarrow> path \<Rightarrow> json" where
  "remove_path current [] = current"
| "remove_path current (Field n # ps) =
     (if ps = [] then remove_member current n
      else (case current of
          JObj m \<Rightarrow> (case map_of m n of None \<Rightarrow> current | Some c \<Rightarrow> JObj (put n (remove_path c ps) m))
        | _ \<Rightarrow> current))"
| "remove_path current (Keyed k v # ps) =
     (case current of
        JArr xs \<Rightarrow>
          if ps = [] then JArr (filter (\<lambda>x. \<not> keyed_item k v x) xs)
          else (case position (keyed_item k v) xs of None \<Rightarrow> current | Some i \<Rightarrow> JArr (xs[i := remove_path (xs ! i) ps]))
      | _ \<Rightarrow> current)"

definition only_named :: "json \<Rightarrow> bool" where
  "only_named v = (case v of JObj m \<Rightarrow> m = [] \<or> length m = 1 \<and> map_of m ''name'' \<noteq> None | _ \<Rightarrow> False)"

fun prune :: "json \<Rightarrow> json" where
  "prune (JObj m) = JObj (map (\<lambda>(k, c). (k, prune c)) m)"
| "prune (JArr xs) = JArr (filter (\<lambda>v. \<not> only_named v) (map prune xs))"
| "prune v = v"

subsection \<open>Ownership\<close>

record entry =
  entry_manager :: string
  operation :: string
  entry_version :: string
  owned :: "path list"

definition parse_segment :: "env \<Rightarrow> string \<Rightarrow> segment option" where
  "parse_segment a key =
     (case strip_prefix ''f:'' key of
        Some name \<Rightarrow> Some (Field name)
      | None \<Rightarrow>
          (case strip_prefix ''k:'' key of
             None \<Rightarrow> None
           | Some keyed \<Rightarrow>
               (case from_slice a keyed of
                  Some (JObj ((k, JStr v) # m)) \<Rightarrow> Some (Keyed k v)
                | _ \<Rightarrow> None)))"

fun tree :: "env \<Rightarrow> json \<Rightarrow> path list" where
  "tree a (JObj m) =
     (if m = [] then [[]]
      else concat (map (\<lambda>(key, child). case parse_segment a key of None \<Rightarrow> [] | Some seg \<Rightarrow> map ((#) seg) (tree a child)) m))"
| "tree a v = [[]]"

definition entry_of :: "env \<Rightarrow> json \<Rightarrow> entry option" where
  "entry_of a v =
     (case as_str (idx v ''manager'') of
        None \<Rightarrow> None
      | Some m \<Rightarrow> Some \<lparr>entry_manager = m, operation = or_default ''Update'' (as_str (idx v ''operation'')),
          entry_version = or_default '''' (as_str (idx v ''apiVersion'')),
          owned = (if as_str (idx v ''fieldsType'') = Some FIELDS_TYPE then path_set (tree a (idx v ''fieldsV1'')) else [])\<rparr>)"

definition entries :: "env \<Rightarrow> json \<Rightarrow> entry list" where
  "entries a doc = List.map_filter (entry_of a) (items (at doc [''metadata'', MANAGED]))"

definition segment_key :: "env \<Rightarrow> segment \<Rightarrow> string" where
  "segment_key a seg = (case seg of Field n \<Rightarrow> ''f:'' @ n | Keyed k v \<Rightarrow> ''k:'' @ to_vec a (JObj [(k, JStr v)]))"

fun tree_add :: "env \<Rightarrow> path \<Rightarrow> json \<Rightarrow> ('e, json) checked" where
  "tree_add a [] current = Inr current"
| "tree_add a (seg # ps) current =
     (case current of
        JObj m \<Rightarrow>
          (let key = segment_key a seg in
           andThen (tree_add a ps (or_default (JObj []) (map_of m key))) (\<lambda>c. Inr (JObj (put key c m))))
      | _ \<Rightarrow> panic)"

definition fields_v1 :: "env \<Rightarrow> path list \<Rightarrow> ('e, json) checked" where
  "fields_v1 a ps = try_fold (\<lambda>root p. tree_add a p root) (JObj []) ps"

fun join_with :: "string \<Rightarrow> string list \<Rightarrow> string" where
  "join_with sep [] = ''''"
| "join_with sep [s] = s"
| "join_with sep (s # t # ts) = s @ sep @ join_with sep (t # ts)"

definition describe :: "path \<Rightarrow> string" where
  "describe p = join_with ''.'' (map (\<lambda>seg. case seg of Field n \<Rightarrow> n | Keyed k v \<Rightarrow> ''['' @ v @ '']'') p)"

definition owner_of :: "entry list \<Rightarrow> path \<Rightarrow> string \<Rightarrow> string option" where
  "owner_of es p who =
     map_option entry_manager
       (List.find (\<lambda>e. entry_manager e \<noteq> who \<and> operation e = ''Apply'' \<and> list_ex (\<lambda>o'. prefix o' p) (owned e)) es)"

subsection \<open>The merge\<close>

definition strip_applied :: "json \<Rightarrow> json guarded" where
  "strip_applied applied =
     edit applied ''metadata'' (\<lambda>m. Inr (fold (\<lambda>k v. remove_member v k)
       [MANAGED, ''resourceVersion'', ''uid'', ''creationTimestamp''] m))"

definition is_own :: "options \<Rightarrow> entry \<Rightarrow> bool" where
  "is_own opts e \<longleftrightarrow> entry_manager e = manager opts \<and> operation e = ''Apply''"

text \<open>One round of the conflict loop.\<close>

definition take_over :: "json \<Rightarrow> json \<Rightarrow> options \<Rightarrow> entry list \<Rightarrow> path \<Rightarrow> entry list answer" where
  "take_over doc applied opts es p =
     (case owner_of es p (manager opts) of
        None \<Rightarrow> Inr es
      | Some owner \<Rightarrow>
          if get_path doc p = get_path applied p then Inr es
          else if \<not> force opts then
            fail 409 ''Conflict'' (''field '' @ describe p @ '' is managed by '' @ owner @ ''; reapply with force to take it over'')
          else Inr (map (\<lambda>e. if entry_manager e = owner then e\<lparr>owned := filter (\<lambda>o'. prefix o' p) (owned e)\<rparr> else e) es))"

definition drop_undeclared :: "path list \<Rightarrow> path list \<Rightarrow> json \<Rightarrow> json" where
  "drop_undeclared before decl doc =
     fold (\<lambda>p r. if p \<notin> set decl \<and> \<not> list_ex (\<lambda>d. prefix p d) decl then remove_path r p else r) before doc"

definition assign_declared :: "json \<Rightarrow> path list \<Rightarrow> json \<Rightarrow> json guarded" where
  "assign_declared applied decl root =
     try_fold (\<lambda>r p. case get_path applied p of None \<Rightarrow> Inr r | Some v \<Rightarrow> set_path r p v) root decl"

definition entry_json :: "env \<Rightarrow> entry \<Rightarrow> json guarded" where
  "entry_json a e = andThen (fields_v1 a (owned e)) (\<lambda>fields.
     Inr (JObj [(''apiVersion'', JStr (entry_version e)), (''fieldsType'', JStr FIELDS_TYPE), (''fieldsV1'', fields),
       (''manager'', JStr (entry_manager e)), (''operation'', JStr (operation e)), (''time'', JStr (clock a))]))"

definition record_managers :: "env \<Rightarrow> options \<Rightarrow> string \<Rightarrow> path list \<Rightarrow> entry list \<Rightarrow> json \<Rightarrow> json guarded" where
  "record_managers a opts ver decl es result =
     (let own = \<lparr>entry_manager = manager opts, operation = ''Apply'', entry_version = ver, owned = decl\<rparr>;
          es = filter (\<lambda>e. owned e \<noteq> []) (filter (\<lambda>e. \<not> is_own opts e) es @ [own]) in
      andThen (try_map (entry_json a) (sort_key entry_manager es)) (\<lambda>managed.
        if managed = [] then Inr result
        else andThen (if is_object (idx result ''metadata'') then Inr result else assign_member result ''metadata'' (JObj [])) (\<lambda>r.
          edit r ''metadata'' (\<lambda>m. assign_member m MANAGED (JArr managed)))))"

definition server_side :: "env \<Rightarrow> json \<Rightarrow> json \<Rightarrow> options \<Rightarrow> json guarded" where
  "server_side a doc applied opts =
     andThen (strip_applied applied) (\<lambda>applied.
       let decl = declared applied;
           existing = entries a doc;
           before = (case List.find (is_own opts) existing of None \<Rightarrow> [] | Some e \<Rightarrow> owned e)
       in andThen (no_panic (try_fold (take_over doc applied opts) existing decl)) (\<lambda>es.
          andThen (assign_declared applied decl (prune (drop_undeclared before decl doc)))
            (record_managers a opts (or_default '''' (as_str (idx applied ''apiVersion''))) decl es)))"

subsection \<open>Only the conflict loop refuses an apply\<close>

lemma put_path_Inl: "put_path current p x = Inl e \<Longrightarrow> e = None"
  by (induction current p x rule: put_path.induct) (auto simp: andThen_Inl_iff panic_def split: json.splits option.splits)

lemma set_path_Inl: "set_path root p x = Inl e \<Longrightarrow> e = None"
  by (auto simp: set_path_def dest: put_path_Inl split: if_splits)

lemma assign_declared_Inl: "assign_declared applied decl root = Inl e \<Longrightarrow> e = None"
  unfolding assign_declared_def by (drule try_fold_Inl) (auto dest: set_path_Inl split: option.splits)

lemma tree_add_Inl: "tree_add a p v = Inl e \<Longrightarrow> e = None"
  by (induction p arbitrary: v) (auto simp: andThen_Inl_iff panic_def Let_def split: json.splits)

lemma fields_v1_Inl: "fields_v1 a ps = Inl e \<Longrightarrow> e = None"
  unfolding fields_v1_def by (drule try_fold_Inl) (auto dest: tree_add_Inl)

lemma edit_Inl: "edit v k f = Inl e \<Longrightarrow> e = None \<or> (\<exists>x. f x = Inl e)"
  by (auto simp: edit_def andThen_Inl_iff panic_def split: json.splits)

lemma assign_member_Inl: "assign_member v k x = Inl e \<Longrightarrow> e = None"
  unfolding assign_member_def by (drule edit_Inl) auto

lemma record_managers_Inl: "record_managers a opts v decl es result = Inl e \<Longrightarrow> e = None"
  unfolding record_managers_def Let_def entry_json_def
  by (auto simp: andThen_Inl_iff split: if_splits
      dest!: try_map_Inl fields_v1_Inl assign_member_Inl edit_Inl)

lemma strip_applied_Inl: "strip_applied applied = Inl e \<Longrightarrow> e = None"
  unfolding strip_applied_def by (drule edit_Inl) auto

definition contested :: "env \<Rightarrow> json \<Rightarrow> json \<Rightarrow> options \<Rightarrow> path \<Rightarrow> bool" where
  "contested a doc applied opts p \<longleftrightarrow>
     p \<in> set (declared applied) \<and> get_path doc p \<noteq> get_path applied p
     \<and> (\<exists>e \<in> set (entries a doc). entry_manager e \<noteq> manager opts \<and> operation e = ''Apply''
          \<and> (\<exists>o' \<in> set (owned e). prefix o' p))"

lemma owner_of_None: "owner_of es p who = None \<longleftrightarrow>
    \<not> (\<exists>e \<in> set es. entry_manager e \<noteq> who \<and> operation e = ''Apply'' \<and> (\<exists>o' \<in> set (owned e). prefix o' p))"
  by (auto simp: owner_of_def find_None_elem list_ex_iff)

lemma take_over_gentle:
  assumes "\<not> force opts"
  shows "(\<exists>es'. try_fold (take_over doc applied opts) es ps = Inr es') \<longleftrightarrow>
      (\<forall>p \<in> set ps. owner_of es p (manager opts) = None \<or> get_path doc p = get_path applied p)"
    and "try_fold (take_over doc applied opts) es ps = Inr es' \<Longrightarrow> es' = es"
    and "try_fold (take_over doc applied opts) es ps = Inl f \<Longrightarrow> code f = 409"
  using assms by (induction ps arbitrary: es) (auto simp: take_over_def fail_def split: sum.splits option.splits if_splits)


subsection \<open>Every declared field takes the applied value\<close>

definition by_name :: "path \<Rightarrow> bool" where
  "by_name p \<longleftrightarrow> (\<forall>k v. Keyed k v \<in> set p \<longrightarrow> k = ''name'')"

lemma by_name_simps [simp]:
  "by_name []" "by_name (Field n # p) = by_name p" "by_name (Keyed k v # p) \<longleftrightarrow> k = ''name'' \<and> by_name p"
  by (auto simp: by_name_def)

lemma walk_by_name: "p \<in> set (walk b v) \<Longrightarrow> by_name p"
  by (induction b v arbitrary: p rule: walk.induct) (auto split: if_splits)

lemma list_item_find: "list_item (JArr xs) k v = Some x \<longleftrightarrow> List.find (keyed_item k v) xs = Some x"
  by (simp add: list_item_def)

lemma find_position: "List.find P xs = (case position P xs of None \<Rightarrow> None | Some i \<Rightarrow> Some (xs ! i))"
  by (induction xs) (auto split: option.splits)

lemma find_append: "List.find P (xs @ ys) = (case List.find P xs of None \<Rightarrow> List.find P ys | x \<Rightarrow> x)"
  by (induction xs) auto

lemma find_update_same:
  "position P xs = Some i \<Longrightarrow> P y \<Longrightarrow> List.find P (xs[i := y]) = Some y"
  by (induction xs arbitrary: i) (auto split: if_splits option.splits nat.splits)

lemma find_update_other:
  "i < length xs \<Longrightarrow> \<not> P (xs ! i) \<Longrightarrow> \<not> P y \<Longrightarrow> List.find P (xs[i := y]) = List.find P xs"
  by (induction xs arbitrary: i) (auto split: nat.splits)

lemma keyed_item_get: "keyed_item k v x \<longleftrightarrow> get_path x [Field k] = Some (JStr v)"
  by (cases x) (auto simp: keyed_item_def idx_def as_str_Some_iff split: option.splits)

lemma put_path_Field_Inr_iff:
  "put_path current (Field n # ps) x = (Inr w :: ('e, json) checked) \<longleftrightarrow>
     (\<exists>m c. current = JObj m \<and> w = JObj (put n c m)
        \<and> put_path (case map_of m n of None \<Rightarrow> container_for ps | Some c \<Rightarrow> c) ps x = (Inr c :: ('e, json) checked))"
  by (cases current) (auto simp: andThen_Inr_iff panic_def)

text \<open>
  Writing at \<open>p\<close> what an applied document holds there makes the result agree with the document at \<open>p\<close>,
  and keeps it in agreement wherever it already agreed.
\<close>

lemma put_path_agrees:
  assumes "put_path r p x = (Inr r' :: ('e, json) checked)" and "get_path ap p = Some x" and "by_name p" and "wf_json ap"
  shows "get_path r' p = Some x"
    and "get_path r q = Some y \<Longrightarrow> get_path ap q = Some y \<Longrightarrow> by_name q \<Longrightarrow> get_path r' q = Some y"
proof -
  have "get_path r' p = Some x \<and> (\<forall>q y. get_path r q = Some y \<longrightarrow> get_path ap q = Some y \<longrightarrow> by_name q \<longrightarrow> get_path r' q = Some y)"
    using assms
  proof (induction r p x arbitrary: r' ap rule: put_path.induct)
    case (1 current x)
    then show ?case by auto
  next
    case (2 current n ps x)
    from "2.prems"(1) obtain m c' where r: "current = JObj m" "r' = JObj (put n c' m)"
      and c': "put_path (case map_of m n of None \<Rightarrow> container_for ps | Some c \<Rightarrow> c) ps x = (Inr c' :: ('e, json) checked)"
      unfolding put_path_Field_Inr_iff by blast
    from "2.prems"(2) obtain c where c: "getf ap n = Some c" "get_path c ps = Some x" by (auto split: option.splits)
    then obtain am where am: "ap = JObj am" "map_of am n = Some c" by (cases ap) auto
    have wf: "wf_json c" using "2.prems"(4) am wf_json_lookup by blast
    note IH = "2.IH" [OF r(1) c' c(2) _ wf]
    have nps: "by_name ps" using "2.prems"(3) by simp
    have "get_path r' q = Some y" if q: "get_path current q = Some y" "get_path ap q = Some y" "by_name q" for q y
    proof (cases q)
      case Nil
      then have eq: "current = ap" using q by simp
      then have mn: "map_of m n = Some c" using r(1) am by simp
      have "get_path c' [] = Some c" by (rule IH [OF nps, THEN conjunct2, rule_format]) (simp_all add: mn)
      then have "c' = c" by simp
      then have "put n c' m = m" using eq r(1) am "2.prems"(4) members.insert_lookup_same [of m n c] by auto
      with Nil r q show ?thesis by simp
    next
      case (Cons s qs)
      show ?thesis
      proof (cases s)
        case (Field j)
        show ?thesis
        proof (cases "j = n")
          case True
          with Cons Field q r(1) am obtain d where d: "map_of m n = Some d" "get_path d qs = Some y" "get_path c qs = Some y"
            by (auto split: option.splits)
          with IH [OF nps] c' q(3) Cons Field have "get_path c' qs = Some y" by auto
          with Cons Field True r(2) show ?thesis by simp
        next
          case False
          with Cons Field q r show ?thesis by simp
        qed
      next
        case (Keyed k v)
        with Cons q(1) r(1) show ?thesis by (simp add: list_item_def)
      qed
    qed
    moreover have "get_path r' (Field n # ps) = Some x" using IH [OF nps] r(2) by simp
    ultimately show ?case by blast
  next
    case (3 current k v ps x)
    from "3.prems"(3) have k: "k = ''name''" "by_name ps" by simp_all
    from "3.prems"(2) obtain as c where am: "ap = JArr as" and fc: "List.find (keyed_item k v) as = Some c" and c: "get_path c ps = Some x"
      by (cases ap) (auto simp: list_item_def split: option.splits)
    have wf: "wf_json c" using "3.prems"(4) am find_Some_elem [OF fc] by (auto simp: list_all_iff)
    have kc: "get_path c [Field k] = Some (JStr v)" using find_Some_elem [OF fc] by (simp only: keyed_item_get)
    from "3.prems"(1) obtain xs where cur: "current = JArr xs" by (auto simp: panic_def split: json.splits)
    show ?case
    proof (cases "position (keyed_item k v) xs")
      case None
      with "3.prems"(1) cur obtain c' where c': "put_path (JObj [(k, JStr v)]) ps x = (Inr c' :: ('e, json) checked)" "r' = JArr (xs @ [c'])"
        by (auto simp: andThen_Inr_iff)
      note IH = "3.IH"(1) [OF cur None c'(1) c k(2) wf]
      have key: "keyed_item k v c'"
        unfolding keyed_item_get by (rule IH [THEN conjunct2, rule_format, OF _ kc]) simp_all
      have fn: "List.find (keyed_item k v) xs = None" using None by (simp add: find_position)
      have g: "get_path r' (Keyed k v # ps) = Some x" using IH key fn c'(2) by (simp add: list_item_def find_append)
      have "get_path r' q = Some y" if q: "get_path current q = Some y" "get_path ap q = Some y" "by_name q" for q y
      proof (cases q)
        case Nil
        with q(1,2) have "current = ap" by simp
        with cur am fc fn show ?thesis by simp
      next
        case (Cons s qs)
        with q(1) cur c'(2) show ?thesis by (cases s) (auto simp: list_item_def find_append split: option.splits)
      qed
      with g show ?thesis by blast
    next
      case (Some i)
      with "3.prems"(1) cur obtain c' where c': "put_path (xs ! i) ps x = (Inr c' :: ('e, json) checked)" "r' = JArr (xs[i := c'])"
        by (auto simp: andThen_Inr_iff)
      note IH = "3.IH"(2) [OF cur Some c'(1) c k(2) wf]
      have i: "i < length xs" "keyed_item k v (xs ! i)" using position_Some [OF Some] by auto
      have key: "keyed_item k v c'" unfolding keyed_item_get
        by (rule IH [THEN conjunct2, rule_format, OF i(2) [unfolded keyed_item_get] kc]) simp
      have g: "get_path r' (Keyed k v # ps) = Some x"
        using IH find_update_same [OF Some key] c'(2) by (simp add: list_item_def)
      have fi: "List.find (keyed_item k v) xs = Some (xs ! i)" using Some by (simp add: find_position)
      have "get_path r' q = Some y" if q: "get_path current q = Some y" "get_path ap q = Some y" "by_name q" for q y
      proof (cases q)
        case Nil
        with q(1,2) have "current = ap" by simp
        with cur am have "xs = as" by simp
        with fc fi have "xs ! i = c" by simp
        have "get_path c' [] = Some c"
          by (rule IH [THEN conjunct2, rule_format]) (simp_all add: \<open>xs ! i = c\<close>)
        with \<open>xs ! i = c\<close> Nil q(1) cur c'(2) show ?thesis by (metis get_path.simps(1) list_update_id option.inject)
      next
        case (Cons s qs)
        with q(1) cur obtain k' v' where s: "s = Keyed k' v'" by (cases s) auto
        with Cons q(3) k have k': "k' = k" "by_name qs" by auto
        show ?thesis
        proof (cases "v' = v")
          case True
          with Cons s k' q cur am fi fc have "get_path (xs ! i) qs = Some y" "get_path c qs = Some y" by (auto simp: list_item_def)
          with IH k' have "get_path c' qs = Some y" by blast
          with find_update_same [OF Some key] Cons s k' True c'(2) show ?thesis by (simp add: list_item_def)
        next
          case False
          with i(2) key have "\<not> keyed_item k v' (xs ! i)" "\<not> keyed_item k v' c'" by (auto simp: keyed_item_def)
          from find_update_other [of i xs "keyed_item k v'", OF i(1) this] Cons s k' q(1) cur c'(2)
          show ?thesis by (simp add: list_item_def)
        qed
      qed
      with g show ?thesis by blast
    qed
  qed
  then show "get_path r' p = Some x"
    and "get_path r q = Some y \<Longrightarrow> get_path ap q = Some y \<Longrightarrow> by_name q \<Longrightarrow> get_path r' q = Some y" by blast+
qed

lemma assign_declared_agrees:
  assumes "assign_declared ap ds root = Inr r" and "wf_json ap" and "\<forall>d \<in> set ds. by_name d \<and> d \<noteq> []"
  shows "(get_path root q = Some y \<longrightarrow> get_path ap q = Some y \<longrightarrow> by_name q \<longrightarrow> get_path r q = Some y)
    \<and> (\<forall>p \<in> set ds. \<forall>x. get_path ap p = Some x \<longrightarrow> get_path r p = Some x)"
  using assms unfolding assign_declared_def
proof (induction ds arbitrary: root q y)
  case Nil
  then show ?case by simp
next
  case (Cons d ds)
  from Cons.prems(1) obtain r1 where s: "(case get_path ap d of None \<Rightarrow> Inr root | Some v \<Rightarrow> set_path root d v) = (Inr r1 :: json guarded)"
    and rest: "try_fold (\<lambda>r p. case get_path ap p of None \<Rightarrow> Inr r | Some v \<Rightarrow> set_path r p v) r1 ds = (Inr r :: json guarded)"
    unfolding try_fold_Cons_Inr_iff by blast
  note IH = Cons.IH [OF rest Cons.prems(2)]
  have d: "by_name d" "d \<noteq> []" and ds: "\<forall>d \<in> set ds. by_name d \<and> d \<noteq> []" using Cons.prems(3) by auto
  show ?case
  proof (cases "get_path ap d")
    case None
    with s IH [OF ds] show ?thesis by auto
  next
    case (Some v)
    with s d have "put_path root d v = (Inr r1 :: json guarded)" by (simp add: set_path_def)
    note ag = put_path_agrees [OF this Some d(1) Cons.prems(2)]
    have "get_path r d = Some v" using IH [OF ds, of d v] ag(1) Some d(1) by blast
    with ag(2) IH [OF ds] Some show ?thesis by (metis option.inject set_ConsD)
  qed
qed

lemma walk_objectD:
  assumes "p \<in> set (walk b v)" and "is_object v"
  obtains k c q where "p = Field k # q" "getf v k \<noteq> None" "\<not> (b \<and> k = MANAGED)" "q \<in> set (walk (k = ''metadata'') c)"
    "(k, c) \<in> set (case v of JObj m \<Rightarrow> m | _ \<Rightarrow> [])"
proof -
  from assms(2) obtain m where m: "v = JObj m" by (auto simp: is_object_iff)
  with assms(1) obtain k c q where "p = Field k # q" "(k, c) \<in> set m" "\<not> (b \<and> k = MANAGED)" "q \<in> set (walk (k = ''metadata'') c)"
    by (auto split: if_splits)
  moreover then have "getf v k \<noteq> None" using m by (auto simp: map_of_eq_None_iff intro: rev_image_eqI)
  ultimately show thesis using that m by auto
qed

lemma record_managers_keeps:
  assumes "record_managers a opts ver decl es r = Inr w" and "get_path r (Field k # q) = Some x"
    and "k = ''metadata'' \<Longrightarrow> \<exists>j q'. q = Field j # q' \<and> j \<noteq> MANAGED"
  shows "get_path w (Field k # q) = Some x"
proof (cases "w = r")
  case True
  with assms(2) show ?thesis by simp
next
  case False
  with assms(1) obtain managed r1 where
    r1: "(if is_object (idx r ''metadata'') then Inr r else assign_member r ''metadata'' (JObj [])) = (Inr r1 :: json guarded)"
    and w: "edit r1 ''metadata'' (\<lambda>m. assign_member m MANAGED (JArr managed)) = (Inr w :: json guarded)"
    by (auto simp: record_managers_def Let_def andThen_Inr_iff split: if_splits)
  show ?thesis
  proof (cases "k = ''metadata''")
    case False
    have "getf r1 k = getf r k" using r1 False by (auto split: if_splits dest: assign_member_InrD(4))
    with edit_InrD(3) [OF w False] have "getf w k = getf r k" by simp
    with assms(2) show ?thesis by (simp split: option.splits)
  next
    case True
    with assms(3) obtain j q' where j: "q = Field j # q'" "j \<noteq> MANAGED" by blast
    from assms(2) True j(1) obtain m where m: "getf r ''metadata'' = Some m" "get_path m q = Some x" by (auto split: option.splits)
    then have mo: "idx r ''metadata'' = m" "is_object m" using j(1) by (auto simp: idx_def split: option.splits; cases m; auto)+
    with r1 have "r1 = r" by simp
    with edit_InrD(1) [OF w] mo have "assign_member m MANAGED (JArr managed) = (Inr (idx w ''metadata'') :: json guarded)" by simp
    from assign_member_InrD(4) [OF this j(2)] have "getf (idx w ''metadata'') j = getf m j" .
    with m(2) j(1) edit_InrD(4) [OF w] True show ?thesis by (simp split: option.splits)
  qed
qed

lemma strip_applied_wf:
  assumes "strip_applied applied = Inr ap" and "wf_json applied" and "is_object (idx applied ''metadata'')"
  shows "wf_json ap" and "is_object ap" and "is_object (idx ap ''metadata'')"
proof -
  from assms(3) obtain m where m: "applied = JObj m" by (cases applied) auto
  let ?f = "fold (\<lambda>k v. remove_member v k) [MANAGED, ''resourceVersion'', ''uid'', ''creationTimestamp'']"
  have ap: "ap = JObj (put ''metadata'' (?f (idx applied ''metadata'')) m)" using assms(1) m by (auto simp: strip_applied_def edit_def)
  have "wf_json (idx applied ''metadata'')" using assms(2) by blast
  then have "wf_json (?f (idx applied ''metadata''))" by (simp add: wf_json_remove_member)
  with wf_json_put [of m] assms(2) m show "wf_json ap" unfolding ap by blast
  show "is_object ap" by (simp add: ap)
  have "is_object (?f (idx applied ''metadata''))" using assms(3) by (cases "idx applied ''metadata''") simp_all
  then show "is_object (idx ap ''metadata'')" by (simp add: ap)
qed

text \<open>
  C10: an apply that succeeds gives every field it declares the applied value: at each declared path
  that leads anywhere in the applied object, the result holds what the applied object holds there,
  whatever was stored, whoever owned it and in whatever order the paths are written.
\<close>

theorem declared_fields_applied:
  assumes "server_side a doc applied opts = Inr w" and "strip_applied applied = Inr ap" and "wf_json applied"
    and "is_object (idx applied ''metadata'')" and "p \<in> set (declared ap)" and "get_path ap p = Some x"
  shows "get_path w p = Some x"
proof -
  note ap = strip_applied_wf [OF assms(2-4)]
  from assms(1,2) obtain es r root ver where
    r: "assign_declared ap (declared ap) root = Inr r"
    and w: "record_managers a opts ver (declared ap) es r = Inr w"
    by (auto simp: server_side_def Let_def andThen_Inr_iff)
  have walk: "\<exists>k q. d = Field k # q \<and> (k = ''metadata'' \<longrightarrow> (\<exists>j q'. q = Field j # q' \<and> j \<noteq> MANAGED))"
    if d: "d \<in> set (declared ap)" for d
  proof -
    have "d \<in> set (walk False ap)" using d by (simp add: declared_def)
    from walk_objectD [OF this ap(2)] obtain k c q where d: "d = Field k # q" "q \<in> set (walk (k = ''metadata'') c)"
      "(k, c) \<in> set (case ap of JObj m \<Rightarrow> m | _ \<Rightarrow> [])" .
    have "\<exists>j q'. q = Field j # q' \<and> j \<noteq> MANAGED" if k: "k = ''metadata''"
    proof -
      obtain m where m: "ap = JObj m" using ap(2) by (auto simp: is_object_iff)
      then have "map_of m ''metadata'' = Some c" using d(3) k ap(1) by (auto dest: key_sorted_distinct)
      then have "is_object c" using ap(3) m by simp
      with d(2) k show ?thesis by (auto elim: walk_objectD)
    qed
    with d(1) show ?thesis by blast
  qed
  have byn: "by_name d" if "d \<in> set (declared ap)" for d
    using walk_by_name [of d False ap] that by (simp add: declared_def)
  have "\<forall>d \<in> set (declared ap). by_name d \<and> d \<noteq> []" using walk byn by blast
  from assign_declared_agrees [OF r ap(1) this] assms(5,6) have "get_path r p = Some x" by blast
  with walk [OF assms(5)] record_managers_keeps [OF w] show ?thesis by blast
qed

subsection \<open>Taking a field over\<close>

lemma owner_of_map:
  assumes "\<And>e. entry_manager (f e) = entry_manager e \<and> operation (f e) = operation e"
    and "\<And>e. list_ex (\<lambda>o'. prefix o' p) (owned (f e)) = list_ex (\<lambda>o'. prefix o' p) (owned e)"
  shows "owner_of (map f es) p who = owner_of es p who"
  using assms by (induction es) (auto simp: owner_of_def)

text \<open>
  A forced take-over does not move the contested field: the manager that owned it still owns it
  afterwards, so the same conflict comes back at the next apply, and it is every other field of that
  manager, contested or not, that the step takes out of its ownership.
\<close>

theorem force_keeps_contested:
  assumes "take_over doc ap opts es p = Inr es'" and "owner_of es p (manager opts) = Some who"
    and "get_path doc p \<noteq> get_path ap p"
  shows "force opts \<and> owner_of es' p (manager opts) = Some who
    \<and> (\<forall>e \<in> set es'. entry_manager e = who \<longrightarrow> (\<forall>q \<in> set (owned e). prefix q p))"
proof -
  let ?f = "\<lambda>e. if entry_manager e = who then e\<lparr>owned := filter (\<lambda>o'. prefix o' p) (owned e)\<rparr> else e"
  from assms have f: "force opts" and es': "es' = map ?f es"
    by (simp_all add: take_over_def fail_def split: if_splits)
  have "owner_of es' p (manager opts) = owner_of es p (manager opts)"
    unfolding es' by (rule owner_of_map) (auto simp: list_ex_iff)
  moreover have "\<forall>q \<in> set (owned e). prefix q p" if e: "e \<in> set es'" "entry_manager e = who" for e
  proof -
    from e(1) obtain c where c: "e = ?f c" unfolding es' set_map by (elim imageE)
    with e(2) have "entry_manager c = who" by (cases "entry_manager c = who") simp_all
    with c show ?thesis by simp
  qed
  ultimately show ?thesis using f assms(2) by simp
qed

subsection \<open>Pruning\<close>

lemma prune_names: "\<forall>x \<in> set xs. \<exists>n. x = JObj [(''name'', JStr n)] \<Longrightarrow> prune (JArr xs) = JArr []"
  by (induction xs) (auto simp: only_named_def)

lemma idx_prune: "idx (prune v) k = prune (idx v k)"
proof (cases v)
  case (JObj m)
  then show ?thesis by (induction m arbitrary: v) (auto split: option.splits)
qed simp_all

lemma set_path_other:
  assumes "set_path root p x = (Inr w :: ('e, json) checked)" and "\<And>q. p \<noteq> Field k # q" and "is_object root"
  shows "idx w k = idx root k" and "is_object w"
proof -
  obtain m where m: "root = JObj m" using assms(3) by (auto simp: is_object_iff)
  have "idx w k = idx root k \<and> is_object w"
  proof (cases p)
    case Nil
    with assms(1,3) show ?thesis by (simp add: set_path_def)
  next
    case (Cons s ps)
    with assms(1,2) m obtain n where s: "s = Field n" "n \<noteq> k" by (cases s) (auto simp: set_path_def panic_def)
    with Cons assms(1) have "put_path root (Field n # ps) x = (Inr w :: ('e, json) checked)" by (simp add: set_path_def)
    with s(2) m show ?thesis unfolding put_path_Field_Inr_iff by auto
  qed
  then show "idx w k = idx root k" and "is_object w" by simp_all
qed

lemma assign_declared_other:
  assumes "assign_declared ap ds root = Inr w" and "\<And>q. Field k # q \<notin> set ds" and "is_object root"
  shows "idx w k = idx root k \<and> is_object w"
proof (rule try_fold_invariant [where I = "\<lambda>r. idx r k = idx root k \<and> is_object r"])
  show "try_fold (\<lambda>r p. case get_path ap p of None \<Rightarrow> Inr r | Some v \<Rightarrow> set_path r p v) root ds = (Inr w :: json guarded)"
    using assms(1) by (simp add: assign_declared_def)
  show "idx root k = idx root k \<and> is_object root" using assms(3) by simp
  fix r p r'
  assume p: "p \<in> set ds" and r: "idx r k = idx root k \<and> is_object r"
    and s: "(case get_path ap p of None \<Rightarrow> Inr r | Some v \<Rightarrow> set_path r p v) = (Inr r' :: json guarded)"
  show "idx r' k = idx root k \<and> is_object r'"
  proof (cases "get_path ap p")
    case None
    with s r show ?thesis by simp
  next
    case (Some v)
    with s have s: "set_path r p v = (Inr r' :: json guarded)" by simp
    show ?thesis using set_path_other [OF s, of k] p assms(2) r by metis
  qed
qed

text \<open>
  Applying to an object drops its lists of plain references: where a stored member is a list of
  items that carry a name only, as the \<^verbatim>\<open>secrets\<close> and \<^verbatim>\<open>imagePullSecrets\<close> of a ServiceAccount do, and a
  manager that never applied before applies an object that does not mention the member at all, the
  list is empty afterwards.
\<close>

theorem apply_drops_references:
  assumes "server_side a doc applied opts = Inr w" and "strip_applied applied = Inr ap"
    and "idx doc k = JArr xs" and "\<forall>x \<in> set xs. \<exists>n. x = JObj [(''name'', JStr n)]" and "k \<noteq> ''metadata''"
    and "\<forall>e \<in> set (entries a doc). \<not> is_own opts e" and "\<And>q. Field k # q \<notin> set (declared ap)"
  shows "idx w k = JArr []"
proof -
  have "List.find (is_own opts) (entries a doc) = None" using assms(6) by (simp add: find_None_elem)
  with assms(1,2) obtain es r ver where
    r: "assign_declared ap (declared ap) (prune (drop_undeclared [] (declared ap) doc)) = Inr r"
    and w: "record_managers a opts ver (declared ap) es r = Inr w"
    by (auto simp: server_side_def Let_def andThen_Inr_iff)
  have d: "drop_undeclared [] (declared ap) doc = doc" by (simp add: drop_undeclared_def)
  have obj: "is_object (prune doc)" using assms(3) by (cases doc) auto
  from assign_declared_other [OF r [unfolded d] assms(7) obj] have "idx r k = JArr []"
    using assms(3) prune_names [OF assms(4)] by (simp add: idx_prune)
  then have "get_path r (Field k # []) = Some (JArr [])" by (cases r) (auto simp: idx_def split: option.splits)
  from record_managers_keeps [OF w this] assms(5) have "get_path w [Field k] = Some (JArr [])" by blast
  then show ?thesis by (auto simp: idx_def split: option.splits)
qed

subsection \<open>Examples\<close>

definition applied_web :: "int \<Rightarrow> json" where
  "applied_web n = JObj [(''apiVersion'', JStr ''apps/v1''), (''kind'', JStr ''Deployment''),
     (''metadata'', JObj [(''name'', JStr ''web''), (''uid'', JStr ''mine'')]),
     (''spec'', JObj [(''containers'', JArr [JObj [(''image'', JStr ''web:v1''), (''name'', JStr ''web'')]]),
        (''replicas'', JInt n)])]"

definition bare_web :: json where
  "bare_web = JObj [(''apiVersion'', JStr ''apps/v1''), (''kind'', JStr ''Deployment''), (''metadata'', JObj [(''name'', JStr ''web'')])]"

definition applied_ok :: "json guarded \<Rightarrow> json" where
  "applied_ok r = (case r of Inl e \<Rightarrow> JNull | Inr v \<Rightarrow> v)"

definition team_web :: json where
  "team_web = applied_ok (server_side framed_env bare_web (applied_web 2) \<lparr>manager = ''a'', force = False\<rparr>)"

definition stripped_web :: "int \<Rightarrow> json" where
  "stripped_web n = applied_ok (strip_applied (applied_web n))"


theorem declared_fields_applied_witness:
  "get_path (applied_ok (server_side framed_env team_web (applied_web 9) \<lparr>manager = ''b'', force = True\<rparr>))
     [Field ''spec'', Field ''replicas''] = Some (JInt 9)"
proof -
  let ?r = "server_side framed_env team_web (applied_web 9) \<lparr>manager = ''b'', force = True\<rparr>"
  have ok: "?r = Inr (applied_ok ?r)" by code_simp
  have s: "strip_applied (applied_web 9) = Inr (stripped_web 9)" by code_simp
  show ?thesis by (rule declared_fields_applied [OF ok s]) code_simp+
qed

theorem force_keeps_contested_witness:
  "case take_over team_web (stripped_web 9) \<lparr>manager = ''b'', force = True\<rparr> (entries framed_env team_web) [Field ''spec'', Field ''replicas''] of
     Inl e \<Rightarrow> False | Inr es \<Rightarrow> owner_of es [Field ''spec'', Field ''replicas''] ''b'' = Some ''a''"
proof -
  let ?t = "take_over team_web (stripped_web 9) \<lparr>manager = ''b'', force = True\<rparr> (entries framed_env team_web) [Field ''spec'', Field ''replicas'']"
  have "is_ok ?t" by code_simp
  then obtain es where es: "?t = Inr es" by (auto simp: is_ok_iff)
  have o: "owner_of (entries framed_env team_web) [Field ''spec'', Field ''replicas''] (manager \<lparr>manager = ''b'', force = True\<rparr>) = Some ''a''"
    by code_simp
  have d: "get_path team_web [Field ''spec'', Field ''replicas''] \<noteq> get_path (stripped_web 9) [Field ''spec'', Field ''replicas'']" by code_simp
  from force_keeps_contested [OF es o d] es show ?thesis by simp
qed

text \<open>So the manager that forced its value meets the same conflict at its next apply.\<close>

lemma forced_apply_conflicts_again:
  "\<not> is_ok (server_side framed_env (applied_ok (server_side framed_env team_web (applied_web 9) \<lparr>manager = ''b'', force = True\<rparr>))
     (applied_web 10) \<lparr>manager = ''b'', force = False\<rparr>)"
  by code_simp

definition pull_account :: json where
  "pull_account = JObj [(''apiVersion'', JStr ''v1''), (''imagePullSecrets'', JArr [JObj [(''name'', JStr ''registry'')]]),
     (''kind'', JStr ''ServiceAccount''), (''metadata'', JObj [(''name'', JStr ''builder'')])]"

definition labelled_account :: json where
  "labelled_account = JObj [(''apiVersion'', JStr ''v1''), (''kind'', JStr ''ServiceAccount''),
     (''metadata'', JObj [(''labels'', JObj [(''team'', JStr ''b'')]), (''name'', JStr ''builder'')])]"

theorem apply_drops_references_witness:
  "idx (applied_ok (server_side framed_env pull_account labelled_account \<lparr>manager = ''b'', force = False\<rparr>)) ''imagePullSecrets'' = JArr []"
proof -
  let ?r = "server_side framed_env pull_account labelled_account \<lparr>manager = ''b'', force = False\<rparr>"
  let ?k = "''imagePullSecrets''"
  have ok: "?r = Inr (applied_ok ?r)" by code_simp
  have s: "strip_applied labelled_account = Inr labelled_account" by code_simp
  have i: "idx pull_account ?k = JArr [JObj [(''name'', JStr ''registry'')]]" by code_simp
  have e: "entries framed_env pull_account = []" by code_simp
  have "list_all (\<lambda>p. case p of Field n # q \<Rightarrow> n \<noteq> ?k | _ \<Rightarrow> True) (declared labelled_account)" by code_simp
  then have d: "Field ?k # q \<notin> set (declared labelled_account)" for q by (fastforce simp: list_all_iff)
  show ?thesis by (rule apply_drops_references [OF ok s i _ _ _ d]) (simp_all add: e)
qed

end
