(* ===== verification/Strategic.thy ===== *)
theory Strategic
  imports Resources "HOL-Library.Multiset"
begin

text \<open>
  Strategic merge (\<^verbatim>\<open>crates/h3s-apiserver/src/patch/strategic.rs\<close>): a patch merged into an object
  under the field strategies of a schema, with a bounded depth and a budget of work.  The generated
  schema document is the argument \<open>sc\<close>.  The depth counts down: \<open>Suc n\<close> levels are left at the depth
  \<open>64 - n\<close>, so the recursion is structural, and a call with none left is the code's nesting error.
\<close>

named_theorems strategic_simps \<open>equations of the strategic merge\<close>

definition strategic_invalid :: "string \<Rightarrow> 'a answer" where
  "strategic_invalid m = fail 422 ''Invalid'' m"

definition resolve :: "json \<Rightarrow> json \<Rightarrow> json" where
  "resolve sc schema =
     (case as_str (idx schema ''$ref'') of
        None \<Rightarrow> schema
      | Some r \<Rightarrow> (case strip_prefix ''#/definitions/'' r of None \<Rightarrow> schema | Some name \<Rightarrow> at sc [''definitions'', name]))"

definition field :: "json \<Rightarrow> json \<Rightarrow> string \<Rightarrow> json" where
  "field sc schema key =
     (let schema = resolve sc schema in
      case getf (idx schema ''properties'') key of None \<Rightarrow> idx schema ''additionalProperties'' | Some f \<Rightarrow> f)"

definition has_strategy :: "json \<Rightarrow> string \<Rightarrow> bool" where
  "has_strategy schema expected =
     (case as_str (idx schema ''x-kubernetes-patch-strategy'') of None \<Rightarrow> False | Some s \<Rightarrow> expected \<in> set (split_on CHR '','' s))"

definition merge_key :: "json \<Rightarrow> string option" where
  "merge_key schema = as_str (idx schema ''x-kubernetes-patch-merge-key'')"

definition identity :: "string option \<Rightarrow> json \<Rightarrow> json answer" where
  "identity key v =
     andThen (case key of None \<Rightarrow> Inr v
        | Some k \<Rightarrow> (case getf v k of None \<Rightarrow> strategic_invalid ''strategic list item is missing its merge key'' | Some i \<Rightarrow> Inr i))
      (\<lambda>i. if \<not> is_string i \<and> \<not> is_number i \<and> \<not> is_boolean i then strategic_invalid ''strategic list keys/items must be scalars'' else Inr i)"

text \<open>\<^verbatim>\<open>identity(v, key).ok()\<close>.\<close>

definition ident :: "string option \<Rightarrow> json \<Rightarrow> json option" where
  "ident key v = (case identity key v of Inl e \<Rightarrow> None | Inr i \<Rightarrow> Some i)"

definition spend :: "nat \<Rightarrow> nat \<Rightarrow> nat answer" where
  "spend amount budget =
     (if amount \<le> budget then Inr (budget - amount)
      else fail 413 ''RequestEntityTooLarge'' ''strategic patch work limit exceeded'')"

subsection \<open>Ordering\<close>

definition place :: "string option \<Rightarrow> json \<Rightarrow> json list \<Rightarrow> nat option" where
  "place key v xs = position (\<lambda>other. ident key v = ident key other) xs"

text \<open>The order of \<^verbatim>\<open>Option<usize>\<close>: none first.\<close>

definition rank :: "string option \<Rightarrow> json list \<Rightarrow> json \<Rightarrow> nat" where
  "rank key xs v = (case place key v xs of None \<Rightarrow> 0 | Some i \<Rightarrow> Suc i)"

fun interleave :: "(json \<Rightarrow> json \<Rightarrow> bool) \<Rightarrow> json list \<Rightarrow> json list \<Rightarrow> json list" where
  "interleave before (x # xs) (y # ys) =
     (if before x y then x # interleave before xs (y # ys) else y # interleave before (x # xs) ys)"
| "interleave before xs [] = xs"
| "interleave before [] ys = ys"

definition comes_before :: "string option \<Rightarrow> json list \<Rightarrow> json \<Rightarrow> json \<Rightarrow> bool" where
  "comes_before key old x y = (case (place key x old, place key y old) of (Some l, Some r) \<Rightarrow> l < r | _ \<Rightarrow> False)"

definition requested :: "string option \<Rightarrow> json list \<Rightarrow> json \<Rightarrow> bool" where
  "requested key order v \<longleftrightarrow> place key v order \<noteq> None"

definition identified :: "string option \<Rightarrow> json list \<Rightarrow> unit answer" where
  "identified key xs = for_each (\<lambda>v. andThen (identity key v) (\<lambda>_. Inr ())) xs"

definition reorder :: "json list \<Rightarrow> json list \<Rightarrow> json list \<Rightarrow> string option \<Rightarrow> nat \<Rightarrow> (json list \<times> nat) answer" where
  "reorder vs order old key b =
     andThen (spend ((length vs + length order) * (length old + length order + 1)) b) (\<lambda>b.
     andThen (identified key (vs @ order @ old)) (\<lambda>_.
       let ask = sort_key (rank key order) (filter (requested key order) vs);
           rest = sort_key (rank key old) (filter (\<lambda>v. \<not> requested key order v) vs)
       in Inr (interleave (comes_before key old) rest ask, b)))"

subsection \<open>New subtrees\<close>

definition too_deep :: "nat \<Rightarrow> 'a answer" where
  "too_deep b = andThen (spend 1 b) (\<lambda>_. strategic_invalid ''strategic patch nesting exceeds 64 levels'')"

fun fresh :: "nat \<Rightarrow> json \<Rightarrow> nat \<Rightarrow> (json option \<times> nat) answer" where
  "fresh 0 v b = too_deep b"
| "fresh (Suc n) v b =
     andThen (spend 1 b) (\<lambda>b.
       case v of
         JObj m \<Rightarrow>
           if map_of m ''$patch'' \<noteq> None then Inr (None, b)
           else andThen (try_fold (\<lambda>(r, b) (k, c). andThen (fresh n c b) (\<lambda>(x, b).
                    Inr (case x of None \<Rightarrow> r | Some y \<Rightarrow> put k y r, b))) ([], b) (filter (\<lambda>(k, c). \<not> is_null c) m))
                  (\<lambda>(r, b). Inr (Some (JObj r), b))
       | JArr xs \<Rightarrow>
           andThen (try_fold (\<lambda>(r, b) c. andThen (fresh n c b) (\<lambda>(x, b).
               Inr (case x of None \<Rightarrow> r | Some y \<Rightarrow> r @ [y], b))) ([], b) xs)
             (\<lambda>(r, b). Inr (Some (JArr r), b))
       | _ \<Rightarrow> Inr (Some v, b))"

subsection \<open>Maps\<close>

type_synonym merger = "json \<Rightarrow> json \<Rightarrow> json \<Rightarrow> nat \<Rightarrow> (json \<times> nat) answer"

definition directive :: "string \<Rightarrow> bool" where
  "directive k \<longleftrightarrow> starts_with ''$'' k"

definition ORDER :: string where
  "ORDER = ''$setElementOrder/''"

definition DELETE :: string where
  "DELETE = ''$deleteFromPrimitiveList/''"

definition names_key :: "json list \<Rightarrow> string \<Rightarrow> bool" where
  "names_key retain k = list_ex (\<lambda>v. as_str v = Some k) retain"

definition retain_keys :: "jmap \<Rightarrow> jmap \<Rightarrow> nat \<Rightarrow> (jmap \<times> nat) answer" where
  "retain_keys patch r b =
     (case map_of patch ''$retainKeys'' of
        None \<Rightarrow> Inr (r, b)
      | Some (JArr retain) \<Rightarrow>
          andThen (spend (length retain * (length r + length patch)) b) (\<lambda>b.
            if list_ex (\<lambda>v. \<not> is_string v) retain
              \<or> list_ex (\<lambda>(k, v). \<not> directive k \<and> \<not> is_null v \<and> \<not> names_key retain k) patch
            then strategic_invalid ''$retainKeys must contain every non-null patch field''
            else Inr (filter (\<lambda>(k, v). names_key retain k) r, b))
      | Some _ \<Rightarrow> strategic_invalid ''$retainKeys must be a string list'')"

definition merge_field :: "json \<Rightarrow> merger \<Rightarrow> (json \<Rightarrow> nat \<Rightarrow> (json option \<times> nat) answer) \<Rightarrow> json
    \<Rightarrow> jmap \<times> nat \<Rightarrow> string \<times> json \<Rightarrow> (jmap \<times> nat) answer" where
  "merge_field sc sub new schema s kv =
     (let (r, b) = s; (k, v) = kv in
      if is_null v then Inr (del k r, b)
      else
        (let old = or_default JNull (map_of r k); r = del k r in
         if is_null old then andThen (new v b) (\<lambda>(x, b). Inr (case x of None \<Rightarrow> r | Some y \<Rightarrow> put k y r, b))
         else andThen (sub old v (field sc schema k) b) (\<lambda>(x, b). Inr (put k x r, b))))"

definition delete_items :: "json \<Rightarrow> json \<Rightarrow> jmap \<times> nat \<Rightarrow> string \<times> json \<Rightarrow> (jmap \<times> nat) answer" where
  "delete_items sc schema s kv =
     (let (r, b) = s; (k, v) = kv in
      if k = ''$retainKeys'' then Inr (r, b)
      else
        (case strip_prefix DELETE k of
           Some name \<Rightarrow>
             (let child = field sc schema name in
              if \<not> has_strategy child ''merge'' \<or> merge_key child \<noteq> None
              then strategic_invalid ''primitive deletion requires a primitive merge list''
              else
                (case v of
                   JArr removals \<Rightarrow>
                     andThen (identified None removals) (\<lambda>_.
                       (case map_of r name of
                          None \<Rightarrow> Inr (r, b)
                        | Some (JArr old) \<Rightarrow>
                            andThen (spend (length old * length removals) b) (\<lambda>b.
                              Inr (put name (JArr (filter (\<lambda>x. x \<notin> set removals) old)) r, b))
                        | Some _ \<Rightarrow> strategic_invalid ''primitive deletion target is not a list''))
                 | _ \<Rightarrow> strategic_invalid ''primitive deletion must be a list''))
         | None \<Rightarrow> if starts_with ORDER k then Inr (r, b) else strategic_invalid ''unknown strategic patch directive''))"

fun follows :: "string option \<Rightarrow> json list \<Rightarrow> json list \<Rightarrow> unit answer" where
  "follows key order [] = Inr ()"
| "follows key order (v # vs) =
     andThen (identity key v) (\<lambda>i.
       (case position (\<lambda>o'. ident key o' = Some i) order of
          None \<Rightarrow> strategic_invalid ''patch list conflicts with $setElementOrder''
        | Some offset \<Rightarrow> follows key (drop (offset + 1) order) vs))"

definition order_items :: "json \<Rightarrow> json \<Rightarrow> jmap \<Rightarrow> json \<Rightarrow> jmap \<times> nat \<Rightarrow> string \<times> json \<Rightarrow> (jmap \<times> nat) answer" where
  "order_items sc schema patch original s kv =
     (let (r, b) = s; (k, v) = kv; name = drop (length ORDER) k; child = field sc schema name; key = merge_key child in
      if \<not> has_strategy child ''merge'' then strategic_invalid ''element ordering requires a merge list''
      else
        (case v of
           JArr order \<Rightarrow>
             andThen (identified key order) (\<lambda>_.
             andThen (case map_of patch name of
                 None \<Rightarrow> Inr b
               | Some (JArr vs) \<Rightarrow>
                   andThen (spend (length vs * length order) b) (\<lambda>b.
                     andThen (follows key order (filter (\<lambda>x. getf x ''$patch'' = None) vs)) (\<lambda>_. Inr b))
               | Some _ \<Rightarrow> strategic_invalid ''ordered patch must be a list'') (\<lambda>b.
               (case map_of r name of
                  None \<Rightarrow> Inr (r, b)
                | Some (JArr vs) \<Rightarrow>
                    andThen (reorder vs order (items (idx original name)) key b) (\<lambda>(w, b). Inr (put name (JArr w) (del name r), b))
                | Some _ \<Rightarrow> strategic_invalid ''ordered value must be a list'')))
         | _ \<Rightarrow> strategic_invalid ''element order must be a list''))"

definition merge_map :: "json \<Rightarrow> merger \<Rightarrow> (json \<Rightarrow> nat \<Rightarrow> (json option \<times> nat) answer) \<Rightarrow> json \<Rightarrow> jmap \<Rightarrow> json \<Rightarrow> nat
    \<Rightarrow> (json \<times> nat) answer" where
  "merge_map sc sub new original patch schema b =
     (case map_of patch ''$patch'' of
        Some d \<Rightarrow>
          if as_str d = Some ''replace'' then Inr (JObj (del ''$patch'' patch), b)
          else if as_str d = Some ''delete'' then Inr (JObj [], b)
          else strategic_invalid ''invalid strategic map $patch directive''
      | None \<Rightarrow>
          andThen (retain_keys patch (or_default [] (as_object original)) b) (\<lambda>s.
          andThen (try_fold (merge_field sc sub new schema) s (filter (\<lambda>(k, v). \<not> directive k) patch)) (\<lambda>s.
          andThen (try_fold (delete_items sc schema) s (filter (\<lambda>(k, v). directive k) patch)) (\<lambda>s.
          andThen (try_fold (order_items sc schema patch original) s (filter (\<lambda>(k, v). starts_with ORDER k) patch)) (\<lambda>(r, b).
            Inr (JObj r, b))))))"

subsection \<open>Lists\<close>

definition sort_directives :: "string option \<Rightarrow> json list \<times> json list \<times> bool \<Rightarrow> json \<Rightarrow> (json list \<times> json list \<times> bool) answer" where
  "sort_directives key s v =
     (let (r, ordinary, replace) = s in
      case getf v ''$patch'' of
        Some d \<Rightarrow>
          if key = None then strategic_invalid ''$patch list directives require a keyed list''
          else if as_str d = Some ''replace'' then Inr (r, ordinary, True)
          else if as_str d = Some ''delete'' then
            andThen (identity key v) (\<lambda>i. Inr (filter (\<lambda>x. ident key x \<noteq> Some i) r, ordinary, replace))
          else strategic_invalid ''invalid strategic list $patch directive''
      | None \<Rightarrow> andThen (identity key v) (\<lambda>_. Inr (r, ordinary @ [v], replace)))"

definition merge_item :: "json \<Rightarrow> merger \<Rightarrow> string option \<Rightarrow> json \<Rightarrow> json list \<times> nat \<Rightarrow> json \<Rightarrow> (json list \<times> nat) answer" where
  "merge_item sc sub key schema s v =
     (let (r, b) = s in
      andThen (identity key v) (\<lambda>i.
        (case position (\<lambda>x. ident key x = Some i) r of
           Some j \<Rightarrow>
             if key \<noteq> None
             then andThen (sub (r ! j) v (idx (resolve sc schema) ''items'') b) (\<lambda>(x, b). Inr (r[j := x], b))
             else Inr (r, b)
         | None \<Rightarrow> Inr (r @ [v], b))))"

definition unique :: "json list \<Rightarrow> json list" where
  "unique vs = fold (\<lambda>v u. if v \<in> set u then u else u @ [v]) vs []"

definition merge_list :: "json \<Rightarrow> merger \<Rightarrow> json list \<Rightarrow> json list \<Rightarrow> json \<Rightarrow> nat \<Rightarrow> (json \<times> nat) answer" where
  "merge_list sc sub old patch schema b =
     andThen (spend ((length old + length patch) * (length patch + 1)) b) (\<lambda>b.
       let key = merge_key schema in
       andThen (identified key old) (\<lambda>_.
       andThen (try_fold (sort_directives key) (old, [], False) patch) (\<lambda>(r, ordinary, replace).
         if replace then Inr (JArr ordinary, b)
         else
           andThen (try_fold (merge_item sc sub key schema) (r, b) ordinary) (\<lambda>(r, b).
           andThen (if key = None then andThen (spend (length r * length r) b) (\<lambda>b. Inr (unique r, b)) else Inr (r, b)) (\<lambda>(r, b).
           andThen (reorder r ordinary old key b) (\<lambda>(w, b). Inr (JArr w, b)))))))"

subsection \<open>The merge\<close>

fun merge :: "json \<Rightarrow> nat \<Rightarrow> merger" where
  "merge sc 0 original patch schema b = too_deep b"
| "merge sc (Suc n) original patch schema b =
     andThen (spend 1 b) (\<lambda>b.
       case patch of
         JObj m \<Rightarrow> merge_map sc (\<lambda>o' p s b. merge sc n o' p s b) (fresh n) original m schema b
       | JArr xs \<Rightarrow>
           if has_strategy schema ''merge''
           then merge_list sc (\<lambda>o' p s b. merge sc n o' p s b) (items original) xs schema b
           else Inr (patch, b)
       | _ \<Rightarrow> Inr (patch, b))"

definition LEVELS :: nat where
  "LEVELS = 65"

definition BUDGET :: nat where
  "BUDGET = 1000000"

definition strategic_apply :: "json \<Rightarrow> string \<Rightarrow> json \<Rightarrow> json \<Rightarrow> json answer" where
  "strategic_apply sc k original patch =
     (if \<not> is_object patch then strategic_invalid ''strategic patch must be an object''
      else
        (case as_str (at sc [''roots'', k]) of
           None \<Rightarrow> strategic_invalid ''strategic merge is not implemented for this resource; use a JSON merge or a full update''
         | Some root \<Rightarrow> andThen (merge sc LEVELS original patch (at sc [''definitions'', root]) BUDGET) (\<lambda>(v, b). Inr v)))"

subsection \<open>Reordering\<close>

lemma mset_interleave: "mset (interleave f xs ys) = mset xs + mset ys"
  by (induction f xs ys rule: interleave.induct) auto

lemma filter_interleave:
  assumes "\<forall>x \<in> set xs. \<not> P x" and "\<forall>y \<in> set ys. P y"
  shows "filter P (interleave f xs ys) = ys" and "filter (\<lambda>x. \<not> P x) (interleave f xs ys) = xs"
  using assms by (induction f xs ys rule: interleave.induct) (auto simp: filter_id_conv)

text \<open>
  The reordering of a merged list loses and invents nothing: it permutes the values, the requested
  ones come in the order of the request and the others in the order the stored list had them.
\<close>

theorem reorder_exact:
  assumes "reorder vs order old key b = Inr (ws, b')"
  shows "mset ws = mset vs
    \<and> filter (requested key order) ws = sort_key (rank key order) (filter (requested key order) vs)
    \<and> filter (\<lambda>v. \<not> requested key order v) ws = sort_key (rank key old) (filter (\<lambda>v. \<not> requested key order v) vs)"
proof -
  let ?ask = "sort_key (rank key order) (filter (requested key order) vs)"
  let ?rest = "sort_key (rank key old) (filter (\<lambda>v. \<not> requested key order v) vs)"
  from assms have ws: "ws = interleave (comes_before key old) ?rest ?ask"
    by (auto simp: reorder_def Let_def andThen_Inr_iff)
  have "mset ws = mset vs" unfolding ws mset_interleave by (simp add: union_commute)
  moreover have "\<forall>x \<in> set ?rest. \<not> requested key order x" "\<forall>y \<in> set ?ask. requested key order y" by auto
  from filter_interleave [OF this] ws
  have "filter (requested key order) ws = ?ask" "filter (\<lambda>v. \<not> requested key order v) ws = ?rest" by simp_all
  ultimately show ?thesis by blast
qed

definition numbered :: "string \<Rightarrow> json" where
  "numbered n = JObj [(''name'', JStr n)]"

theorem reorder_exact_witness:
  "case reorder (map numbered [''a'', ''b'', ''c'', ''d'']) (map numbered [''d'', ''b'']) (map numbered [''a'', ''b'', ''c'']) (Some ''name'') 1000 of
     Inl e \<Rightarrow> False | Inr (ws, b) \<Rightarrow> ws = map numbered [''d'', ''a'', ''b'', ''c'']
       \<and> filter (requested (Some ''name'') (map numbered [''d'', ''b''])) ws = map numbered [''d'', ''b'']"
proof -
  let ?r = "reorder (map numbered [''a'', ''b'', ''c'', ''d'']) (map numbered [''d'', ''b'']) (map numbered [''a'', ''b'', ''c'']) (Some ''name'') 1000"
  have ok: "?r = Inr (map numbered [''d'', ''a'', ''b'', ''c''], 964)" by code_simp
  have s: "sort_key (rank (Some ''name'') (map numbered [''d'', ''b'']))
      (filter (requested (Some ''name'') (map numbered [''d'', ''b''])) (map numbered [''a'', ''b'', ''c'', ''d''])) = map numbered [''d'', ''b'']"
    by code_simp
  from reorder_exact [OF ok] s show ?thesis unfolding ok by simp
qed

subsection \<open>What a patch does not mention\<close>

lemma try_fold_frame:
  assumes "try_fold f (r, b) xs = Inr (r', b')"
    and "\<And>x r b r' b'. x \<in> set xs \<Longrightarrow> f (r, b) x = Inr (r', b') \<Longrightarrow> P r \<Longrightarrow> P r'" and "P r"
  shows "P r'"
  using try_fold_invariant [OF assms(1), of "\<lambda>s. P (fst s)"] assms(2,3) by fastforce

definition mentions :: "jmap \<Rightarrow> string \<Rightarrow> bool" where
  "mentions patch k \<longleftrightarrow> map_of patch k \<noteq> None \<or> map_of patch (ORDER @ k) \<noteq> None \<or> map_of patch (DELETE @ k) \<noteq> None"

lemma not_mentioned:
  assumes "\<not> mentions patch k" and "(j, v) \<in> set patch"
  shows "j \<noteq> k" "j \<noteq> ORDER @ k" "j \<noteq> DELETE @ k"
  using assms by (auto simp: mentions_def map_of_eq_None_iff intro: rev_image_eqI)

lemma order_items_frame:
  assumes "order_items sc schema patch original (r, b) x = Inr (r', b')" and "k \<noteq> drop (length ORDER) (fst x)"
  shows "map_of r' k = map_of r k"
proof -
  let ?name = "drop (length ORDER) (fst x)"
  obtain j v where x: "x = (j, v)" by (cases x)
  have bad: "strategic_invalid m \<noteq> Inr y" for m and y :: "jmap \<times> nat" by (simp add: strategic_invalid_def fail_def)
  from assms(1) obtain order b1 where v: "v = JArr order" and l: "(case map_of r ?name of
      None \<Rightarrow> Inr (r, b1)
    | Some (JArr vs) \<Rightarrow> andThen (reorder vs order (items (idx original ?name)) (merge_key (field sc schema ?name)) b1)
        (\<lambda>(w, b). Inr (put ?name (JArr w) (del ?name r), b))
    | Some _ \<Rightarrow> strategic_invalid ''ordered value must be a list'') = (Inr (r', b') :: (jmap \<times> nat) answer)"
    unfolding x order_items_def Let_def prod.case fst_conv andThen_Inr_iff
    by (cases v) (auto simp: bad andThen_Inr_iff split: if_splits)
  show ?thesis
  proof (cases "map_of r ?name")
    case None
    with l show ?thesis by simp
  next
    case (Some y)
    with l assms(2) show ?thesis by (cases y) (auto simp: bad andThen_Inr_iff)
  qed
qed

lemma merge_map_frame:
  assumes run: "merge_map sc sub new original patch schema b = Inr (w, b')"
    and quiet: "\<not> mentions patch k" "map_of patch ''$patch'' = None" "map_of patch ''$retainKeys'' = None"
  shows "is_object w \<and> getf w k = getf original k"
proof -
  let ?P = "\<lambda>r. map_of r k = getf original k"
  let ?fields = "filter (\<lambda>(k, v). \<not> directive k) patch" and ?dirs = "filter (\<lambda>(k, v). directive k) patch"
  let ?orders = "filter (\<lambda>(k, v). starts_with ORDER k) patch"
  from run quiet(2) obtain r0 b0 r1 b1 r2 b2 r3 where
    s0: "retain_keys patch (or_default [] (as_object original)) b = Inr (r0, b0)"
    and s1: "try_fold (merge_field sc sub new schema) (r0, b0) ?fields = Inr (r1, b1)"
    and s2: "try_fold (delete_items sc schema) (r1, b1) ?dirs = Inr (r2, b2)"
    and s3: "try_fold (order_items sc schema patch original) (r2, b2) ?orders = Inr (r3, b')"
    and w: "w = JObj r3"
    by (auto simp: merge_map_def andThen_Inr_iff)
  have "r0 = or_default [] (as_object original)" using s0 quiet(3) by (simp add: retain_keys_def)
  then have p0: "?P r0" by (cases original) simp_all
  have p1: "?P r1"
  proof (rule try_fold_frame [where P = ?P, OF s1 _ p0])
    fix x r b r' b'
    assume x: "x \<in> set ?fields" and st: "merge_field sc sub new schema (r, b) x = Inr (r', b')" and p: "?P r"
    have "fst x \<noteq> k" using x not_mentioned(1) [OF quiet(1), of "fst x" "snd x"] by simp
    with st p show "?P r'"
      by (auto simp: merge_field_def Let_def andThen_Inr_iff split: if_splits option.splits prod.splits)
  qed
  have p2: "?P r2"
  proof (rule try_fold_frame [where P = ?P, OF s2 _ p1])
    fix x r b r' b'
    assume x: "x \<in> set ?dirs" and st: "delete_items sc schema (r, b) x = Inr (r', b')" and p: "?P r"
    have "fst x \<noteq> DELETE @ k" using x not_mentioned(3) [OF quiet(1), of "fst x" "snd x"] by simp
    with st p show "?P r'"
      by (auto simp: delete_items_def Let_def andThen_Inr_iff strategic_invalid_def fail_def strip_prefix_Some_iff
          split: if_splits option.splits prod.splits json.splits)
  qed
  have p3: "?P r3"
  proof (rule try_fold_frame [where P = ?P, OF s3 _ p2])
    fix x r b r' b'
    assume x: "x \<in> set ?orders" and st: "order_items sc schema patch original (r, b) x = Inr (r', b')" and p: "?P r"
    obtain t where t: "fst x = ORDER @ t" using x by (auto simp: starts_with_iff)
    then have "t \<noteq> k" using x not_mentioned(2) [OF quiet(1), of "fst x" "snd x"] by auto
    with order_items_frame [of sc schema patch original r b x r' b' k] st p t show "?P r'" by simp
  qed
  with w show ?thesis by simp
qed


definition small_schema :: json where
  "small_schema = JObj [(''definitions'', JObj [(''Dep'', JObj [(''properties'', JObj [(''spec'', JObj [(''properties'', JObj
     [(''containers'', JObj [(''items'', JObj []), (''x-kubernetes-patch-merge-key'', JStr ''name''),
        (''x-kubernetes-patch-strategy'', JStr ''merge'')])])])])])]),
     (''roots'', JObj [(''Deployment'', JStr ''Dep'')])]"

definition two_containers :: json where
  "two_containers = JObj [(''metadata'', JObj [(''name'', JStr ''web'')]), (''spec'', JObj [(''containers'', JArr
     [JObj [(''image'', JStr ''a:1''), (''name'', JStr ''a'')], JObj [(''image'', JStr ''b:1''), (''name'', JStr ''b'')]])])]"

definition image_patch :: jmap where
  "image_patch = [(''spec'', JObj [(''containers'', JArr [JObj [(''image'', JStr ''b:2''), (''name'', JStr ''b'')]])])]"


end
