(* ===== verification/Patches.thy ===== *)
theory Patches
  imports Strategic Api_Actions
begin

text \<open>
  The patch codecs (\<^verbatim>\<open>crates/h3s-apiserver/src/patch.rs\<close>).  JSON merge patch and the single operations
  of a JSON patch are the json_patch library's: the record \<open>patch_lib\<close>, over its type of operations.
\<close>

record 'op patch_lib =
  merge_patch :: "json \<Rightarrow> json \<Rightarrow> json"
  decode_operations :: "string \<Rightarrow> 'op list option"
  patch_one :: "'op \<Rightarrow> json \<Rightarrow> json option"
  strategic_schema :: json

definition MAX_OBJECT_BYTES :: nat where
  "MAX_OBJECT_BYTES = 2 * 1024 * 1024"

definition too_large :: "string \<Rightarrow> 'a answer" where
  "too_large m = fail 413 ''RequestEntityTooLarge'' m"

definition check_size :: "env \<Rightarrow> json \<Rightarrow> unit answer" where
  "check_size a v = (if length (to_vec a v) > MAX_OBJECT_BYTES then too_large ''resulting object exceeds 2 MiB'' else Inr ())"

definition from_bytes :: "env \<Rightarrow> string \<Rightarrow> json answer" where
  "from_bytes a raw = ok_or invalid_json (from_slice a raw)"

definition operation_step :: "env \<Rightarrow> 'op patch_lib \<Rightarrow> json \<Rightarrow> 'op \<Rightarrow> json answer" where
  "operation_step a l v op =
     (case patch_one l op v of
        None \<Rightarrow> fail 422 ''Invalid'' ''JSON patch operation failed''
      | Some w \<Rightarrow> andThen (check_size a w) (\<lambda>_. Inr w))"

definition content_kind :: "string \<Rightarrow> string" where
  "content_kind content_type = trim (hd (split_on CHR '';'' content_type))"

definition patch_apply :: "env \<Rightarrow> 'op patch_lib \<Rightarrow> string \<Rightarrow> json \<Rightarrow> string \<Rightarrow> string \<Rightarrow> json answer" where
  "patch_apply a l k v raw content_type =
     (let m = content_kind content_type in
      if m = ''application/strategic-merge-patch+json'' then
        andThen (from_bytes a raw) (\<lambda>p.
        andThen (strategic_apply (strategic_schema l) k v p) (\<lambda>w.
        andThen (check_size a w) (\<lambda>_. Inr w)))
      else if m = ''application/merge-patch+json'' then
        andThen (from_bytes a raw) (\<lambda>p.
        let w = merge_patch l v p in andThen (check_size a w) (\<lambda>_. Inr w))
      else if m = ''application/json-patch+json'' then
        andThen (ok_or invalid_json (decode_operations l raw)) (\<lambda>ops.
        if length ops > 256 then too_large ''JSON patch exceeds 256 operations''
        else try_fold (operation_step a l) v ops)
      else if m = ''application/apply-patch+json'' \<or> m = ''application/apply-patch+yaml'' then
        bad ''server-side apply reaches the apply path, not this codec''
      else fail 415 ''UnsupportedMediaType''
        ''supported patch types: application/json-patch+json, application/merge-patch+json, application/strategic-merge-patch+json'')"

lemma check_size_Inr_iff [simp, action_simps]: "check_size a v = Inr u \<longleftrightarrow> length (to_vec a v) \<le> MAX_OBJECT_BYTES"
  by (auto simp: check_size_def too_large_def fail_def)

text \<open>Every value a JSON patch passes through is within the limit, not only the last.\<close>

lemma operations_bounded:
  assumes "try_fold (operation_step a l) v ops = Inr w" and "0 < n" and "n \<le> length ops"
  shows "\<exists>u. try_fold (operation_step a l) v (take n ops) = Inr u \<and> length (to_vec a u) \<le> MAX_OBJECT_BYTES"
proof -
  obtain k where k: "n = Suc k" using assms(2) by (cases n) auto
  have "ops = take k ops @ ops ! k # drop n ops" using assms(3) k by (simp add: id_take_nth_drop)
  then have "try_fold (operation_step a l) v (take k ops @ [ops ! k] @ drop n ops) = Inr w" using assms(1) by simp
  then obtain u0 where u0: "try_fold (operation_step a l) v (take k ops) = Inr u0"
    and rest: "try_fold (operation_step a l) u0 ([ops ! k] @ drop n ops) = Inr w"
    unfolding try_fold_append [of _ _ "take k ops"] andThen_Inr_iff by blast
  from rest obtain u where "operation_step a l u0 (ops ! k) = Inr u"
    unfolding append_Cons try_fold_Cons_Inr_iff by blast
  note u0 this
  moreover have "take n ops = take k ops @ [ops ! k]" using assms(3) k by (simp add: take_Suc_conv_app_nth)
  ultimately have "try_fold (operation_step a l) v (take n ops) = Inr u" by (simp add: try_fold_append)
  moreover have "length (to_vec a u) \<le> MAX_OBJECT_BYTES"
    using \<open>operation_step a l u0 (ops ! k) = Inr u\<close>
    by (auto simp: operation_step_def andThen_Inr_iff fail_def split: option.splits)
  ultimately show ?thesis by blast
qed

end
