(* ===== verification/Ipv6.thy ===== *)
theory Ipv6
  imports H3s_Prelude
begin

text \<open>
  Which strings \<^verbatim>\<open>str::parse::<Ipv6Addr>\<close> accepts: up to eight groups of at most four hexadecimal
  digits, one \<^verbatim>\<open>::\<close> for a run of zero groups, and an embedded IPv4 address in place of the last two.
  The readers consume a prefix and give the rest.
\<close>

fun span :: "('a \<Rightarrow> bool) \<Rightarrow> 'a list \<Rightarrow> 'a list \<times> 'a list" where
  "span p [] = ([], [])"
| "span p (x # xs) = (if p x then (case span p xs of (a, b) \<Rightarrow> (x # a, b)) else ([], x # xs))"

definition read_hex_group :: "string \<Rightarrow> string option" where
  "read_hex_group s =
     (case span is_hexdigit s of (ds, rest) \<Rightarrow> if 1 \<le> length ds \<and> length ds \<le> 4 then Some rest else None)"

definition read_octet :: "string \<Rightarrow> string option" where
  "read_octet s =
     (case span is_digit s of (ds, rest) \<Rightarrow>
        if 1 \<le> length ds \<and> length ds \<le> 3 \<and> digits_value 0 ds < 256 \<and> (length ds = 1 \<or> hd ds \<noteq> CHR ''0'')
        then Some rest else None)"

text \<open>\<^verbatim>\<open>read_separator\<close>: the separator precedes every item but the first.\<close>

definition separated :: "char \<Rightarrow> bool \<Rightarrow> (string \<Rightarrow> string option) \<Rightarrow> string \<Rightarrow> string option" where
  "separated c first f s =
     (if first then f s else (case s of [] \<Rightarrow> None | x # xs \<Rightarrow> if x = c then f xs else None))"

fun read_octets :: "nat \<Rightarrow> bool \<Rightarrow> string \<Rightarrow> string option" where
  "read_octets 0 first s = Some s"
| "read_octets (Suc n) first s = Option.bind (separated CHR ''.'' first read_octet s) (read_octets n False)"

text \<open>The groups read (at most the given number), whether an IPv4 address ended them, and the rest.\<close>

fun read_groups :: "nat \<Rightarrow> bool \<Rightarrow> string \<Rightarrow> nat \<times> bool \<times> string" where
  "read_groups 0 first s = (0, False, s)"
| "read_groups (Suc n) first s =
     (case (if n = 0 then None else separated CHR '':'' first (read_octets 4 True) s) of
        Some rest \<Rightarrow> (2, True, rest)
      | None \<Rightarrow>
          (case separated CHR '':'' first read_hex_group s of
             None \<Rightarrow> (0, False, s)
           | Some rest \<Rightarrow> (case read_groups n False rest of (k, v4, rest') \<Rightarrow> (Suc k, v4, rest'))))"

definition valid_ipv6 :: "string \<Rightarrow> bool" where
  "valid_ipv6 s \<longleftrightarrow>
     (case read_groups 8 True s of (k, v4, rest) \<Rightarrow>
        if k = 8 then rest = []
        else if v4 then False
        else (case strip_prefix ''::'' rest of
            None \<Rightarrow> False
          | Some tail \<Rightarrow> (case read_groups (8 - (k + 1)) True tail of (_, _, rest') \<Rightarrow> rest' = [])))"

end
