(* ===== verification/Pod_Profile.thy ===== *)
theory Pod_Profile
  imports Json_Edit
begin

text \<open>
  The Pod subset the native runtime executes (\<^verbatim>\<open>crates/h3s-api/src/pod_profile.rs\<close> and the checked-in
  overlay \<^verbatim>\<open>pod_profile_gen.rs\<close>): the API's defaults, the check the API server and the kubelet share,
  and the identity a container runs with.  An \<^verbatim>\<open>Unsupported\<close> error is its message.  Only the probe
  copy of a claim-carrying spec is edited in place, so only there a malformed container panics.
\<close>

type_synonym 'a profiled = "(string, 'a) result"

subsection \<open>Field checks\<close>

definition text_field :: "json \<Rightarrow> string \<Rightarrow> string profiled" where
  "text_field v key = ok_or ''required Pod field missing'' (filled (as_str (idx v key)))"

definition safe_component :: "string \<Rightarrow> bool" where
  "safe_component s \<longleftrightarrow> s \<noteq> [] \<and> length s \<le> 253
     \<and> list_all (\<lambda>c. is_alnum c \<or> c = CHR ''-'' \<or> c = CHR ''.'') s \<and> s \<noteq> ''.'' \<and> s \<noteq> ''..''"

definition only_fields :: "json \<Rightarrow> string list \<Rightarrow> unit profiled" where
  "only_fields v allowed =
     ensure (\<not> (case as_object v of None \<Rightarrow> False
               | Some m \<Rightarrow> list_ex (\<lambda>(k, x). \<not> is_null x \<and> k \<notin> set allowed) m))
       ''Pod contains an unsupported execution field''"

definition array_field :: "json \<Rightarrow> json list profiled" where
  "array_field v = (if is_null v then Inr [] else ok_or ''Pod list field must be an array'' (as_array v))"

definition file_mode :: "json \<Rightarrow> int \<Rightarrow> int profiled" where
  "file_mode v fallback =
     (if is_null v then Inr fallback
      else ok_or ''volume file mode must be within 0000-0777''
        (Option.bind (as_u64 v) (\<lambda>n. if n \<le> 511 then Some n else None)))"

definition relative :: "string \<Rightarrow> bool" where
  "relative path \<longleftrightarrow> path \<noteq> [] \<and> length path \<le> 4096 \<and> CHR 0x00 \<notin> set path
     \<and> length (split_on CHR ''/'' path) \<le> 32
     \<and> list_all (\<lambda>s. s \<noteq> [] \<and> length s \<le> 255 \<and> s \<noteq> ''.'' \<and> s \<noteq> ''..'') (split_on CHR ''/'' path)
     \<and> \<not> starts_with ''..'' path \<and> \<not> starts_with ''/'' path"

subsection \<open>Projected paths\<close>

text \<open>The first loop of \<^verbatim>\<open>paths\<close>: every path is relative and new.\<close>

fun distinct_paths :: "string list \<Rightarrow> string list \<Rightarrow> string list profiled" where
  "distinct_paths seen [] = Inr seen"
| "distinct_paths seen (p # ps) =
     (if \<not> relative p \<or> p \<in> set seen then Inl ''invalid or duplicate projected file path''
      else distinct_paths (p # seen) ps)"

text \<open>The second: the walk from a path up through its parent directories.\<close>

lemma rsplit_once_shorter: "rsplit_once c s = Some (a, b) \<Longrightarrow> length a < length s"
  by (auto simp: rsplit_once_def dest!: split_once_Some) (metis add_Suc_right length_append length_rev less_add_Suc2 list.size(4) add.commute add_0)

function ancestor_listed :: "string list \<Rightarrow> string \<Rightarrow> bool" where
  "ancestor_listed seen path =
     (case rsplit_once CHR ''/'' path of
        None \<Rightarrow> False
      | Some (parent, _) \<Rightarrow> parent \<in> set seen \<or> ancestor_listed seen parent)"
  by pat_completeness auto

termination ancestor_listed
  by (relation "measure (\<lambda>(seen, path). length path)") (auto dest: rsplit_once_shorter)

declare ancestor_listed.simps [simp del]

definition paths :: "string list \<Rightarrow> unit profiled" where
  "paths ps =
     andThen (distinct_paths [] ps) (\<lambda>seen.
     ensure (\<not> list_ex (ancestor_listed seen) seen) ''projected file conflicts with a directory'')"

subsection \<open>Defaults\<close>

definition profile_default :: "jmap \<Rightarrow> string \<Rightarrow> jmap" where
  "profile_default m k = (case map_of m k of Some (JBool b) \<Rightarrow> m | _ \<Rightarrow> put k (JBool False) m)"

definition profile_defaults :: "json \<Rightarrow> json" where
  "profile_defaults spec =
     (case spec of
        JObj m \<Rightarrow> JObj (profile_default (profile_default m ''automountServiceAccountToken'') ''enableServiceLinks'')
      | _ \<Rightarrow> spec)"

subsection \<open>The identity of a container\<close>

record container_execution =
  run_as_user :: int
  run_as_group :: int
  read_only_root_filesystem :: bool

definition MAX_UID :: int where
  "MAX_UID = 2 ^ 32 - 1"

definition container_identity :: "json \<Rightarrow> json \<Rightarrow> container_execution profiled" where
  "container_identity spec c =
     (let sc = idx c ''securityContext'';
          ps = idx spec ''securityContext'';
          gid = or_else (as_i64 (idx sc ''runAsGroup'')) (as_i64 (idx ps ''runAsGroup''))
      in andThen (ok_or ''runtime requires an explicit non-root UID''
             (Option.bind (or_else (as_i64 (idx sc ''runAsUser'')) (as_i64 (idx ps ''runAsUser'')))
                (\<lambda>u. if 1 \<le> u \<and> u \<le> MAX_UID then Some u else None))) (\<lambda>uid.
         if (case gid of None \<Rightarrow> False | Some g \<Rightarrow> \<not> (1 \<le> g \<and> g \<le> MAX_UID))
         then Inl ''runtime requires a non-root GID''
         else if idx sc ''allowPrivilegeEscalation'' \<noteq> JBool False
         then Inl ''runtime requires allowPrivilegeEscalation=false''
         else andThen (only_fields (idx sc ''capabilities'') [''add'', ''drop'']) (\<lambda>_.
         if (case as_array (at sc [''capabilities'', ''add'']) of None \<Rightarrow> False | Some a \<Rightarrow> a \<noteq> [])
            \<or> \<not> (case as_array (at sc [''capabilities'', ''drop'']) of None \<Rightarrow> False | Some a \<Rightarrow> list_ex (\<lambda>v. v = JStr ''ALL'') a)
         then Inl ''runtime requires all capabilities dropped''
         else
           let seccomp = (if is_null (idx sc ''seccompProfile'') then idx ps ''seccompProfile'' else idx sc ''seccompProfile'')
           in if idx seccomp ''type'' \<noteq> JStr ''RuntimeDefault'' \<or> \<not> is_ok (only_fields seccomp [''type''])
              then Inl ''runtime-default seccomp is required''
              else if \<not> is_null (idx sc ''readOnlyRootFilesystem'') \<and> \<not> is_boolean (idx sc ''readOnlyRootFilesystem'')
              then Inl ''readOnlyRootFilesystem must be a boolean''
              else Inr \<lparr>run_as_user = uid, run_as_group = or_default uid gid,
                        read_only_root_filesystem = or_default False (as_bool (idx sc ''readOnlyRootFilesystem''))\<rparr>)))"

subsection \<open>Claims and the projected token\<close>

definition claim_name :: "json \<Rightarrow> string option profiled" where
  "claim_name volume =
     (let source = idx volume ''persistentVolumeClaim'' in
      if is_null source then Inr None
      else andThen (ok_or ''invalid claim volume name''
             (Option.bind (as_str (idx volume ''name'')) (\<lambda>n. if safe_component n then Some n else None))) (\<lambda>name.
           andThen (only_fields source [''claimName'', ''readOnly'', ''subPath'']) (\<lambda>_.
           if \<not> (case text_field source ''claimName'' of Inl _ \<Rightarrow> False | Inr n \<Rightarrow> safe_component n)
           then Inl ''invalid claimName''
           else if \<not> is_null (idx source ''readOnly'') \<and> \<not> is_boolean (idx source ''readOnly'')
           then Inl ''readOnly must be a boolean''
           else Inr (Some name))))"

definition claims :: "json \<Rightarrow> string list profiled" where
  "claims spec = andThen (try_map claim_name (items (idx spec ''volumes''))) (\<lambda>xs. Inr (List.map_filter id xs))"

datatype projected_source = Bound_Token | Cluster_Ca | Pod_Namespace

definition projected_source :: "json \<Rightarrow> projected_source profiled" where
  "projected_source src =
     (let token = idx src ''serviceAccountToken''; ca = idx src ''configMap''; down = idx src ''downwardAPI'' in
      if \<not> is_null token then
        andThen (only_fields token [''audience'', ''expirationSeconds'', ''path'']) (\<lambda>_.
        andThen (text_field token ''path'') (\<lambda>path.
        if path \<noteq> ''token'' then Inl ''the bound token projects at `token`''
        else if (case as_i64 (idx token ''expirationSeconds'') of None \<Rightarrow> False | Some v \<Rightarrow> \<not> (600 \<le> v \<and> v \<le> 86400))
        then Inl ''token lifetime must be 600..86400 seconds''
        else if (case as_str (idx token ''audience'') of None \<Rightarrow> False | Some x \<Rightarrow> x = [] \<or> length x > 256)
        then Inl ''invalid token audience''
        else Inr Bound_Token))
      else if \<not> is_null ca then
        andThen (only_fields ca [''name'', ''items'', ''optional'']) (\<lambda>_.
        andThen (text_field ca ''name'') (\<lambda>name.
        if name \<noteq> ''kube-root-ca.crt'' \<or> idx ca ''optional'' = JBool True
        then Inl ''the cluster CA projects from kube-root-ca.crt''
        else Inr Cluster_Ca))
      else if \<not> is_null down then
        andThen (only_fields down [''items'']) (\<lambda>_.
        andThen (ok_or ''only the namespace is projected''
          (Option.bind (as_array (idx down ''items'')) (\<lambda>i. if length i = 1 then Some (hd i) else None))) (\<lambda>item.
        andThen (only_fields item [''path'', ''fieldRef'']) (\<lambda>_.
        andThen (text_field item ''path'') (\<lambda>path.
        if path \<noteq> ''namespace'' \<or> at item [''fieldRef'', ''fieldPath''] \<noteq> JStr ''metadata.namespace''
        then Inl ''only the namespace is projected''
        else Inr Pod_Namespace))))
      else Inl ''unsupported projected volume source'')"

definition projection :: "json \<Rightarrow> bool profiled" where
  "projection volume =
     (let projected = idx volume ''projected'';
          incomplete = ''a projected volume must carry the service-account token, the cluster CA and the namespace''
      in if is_null projected then Inr False
         else andThen (only_fields projected [''defaultMode'', ''sources'']) (\<lambda>_.
           if \<not> is_null (idx projected ''defaultMode'')
              \<and> (case as_u64 (idx projected ''defaultMode'') of None \<Rightarrow> True | Some m \<Rightarrow> m > 511)
           then Inl ''projected volume mode must be within 0000-0777''
           else andThen (ok_or incomplete
                  (Option.bind (as_array (idx projected ''sources'')) (\<lambda>s. if length s = 3 then Some s else None))) (\<lambda>sources.
             andThen (try_map projected_source sources) (\<lambda>found.
             if map (count_list found) [Bound_Token, Cluster_Ca, Pod_Namespace] \<noteq> [1, 1, 1]
             then Inl incomplete else Inr True))))"

definition projected_name :: "json \<Rightarrow> string option profiled" where
  "projected_name volume =
     andThen (projection volume) (\<lambda>p.
     if p then andThen (ok_or ''invalid projected volume name''
            (Option.bind (as_str (idx volume ''name'')) (\<lambda>n. if safe_component n then Some n else None))) (\<lambda>n. Inr (Some n))
     else Inr None)"

text \<open>The members whose name is one of the stripped volumes are dropped from the probe copy.\<close>

definition retain_unnamed :: "string list \<Rightarrow> json \<Rightarrow> json" where
  "retain_unnamed stripped v =
     (case v of JArr xs \<Rightarrow> JArr (filter (\<lambda>x. \<not> list_ex (\<lambda>n. as_str (idx x ''name'') = Some n) stripped) xs) | _ \<Rightarrow> v)"

definition strip_mounts :: "string list \<Rightarrow> json \<Rightarrow> (string, json) checked" where
  "strip_mounts stripped c = edit c ''volumeMounts'' (\<lambda>m. Inr (retain_unnamed stripped m))"

definition strip_volumes :: "string list \<Rightarrow> json \<Rightarrow> (string, json) checked" where
  "strip_volumes stripped probe =
     andThen (edit probe ''volumes'' (\<lambda>v. Inr (retain_unnamed stripped v))) (\<lambda>probe.
     andThen (edit probe ''containers'' (edit_items (strip_mounts stripped))) (\<lambda>probe.
     edit probe ''initContainers'' (edit_items (strip_mounts stripped))))"

definition extension :: "json \<Rightarrow> (string, json option) checked" where
  "extension spec =
     andThen (safely (claims spec)) (\<lambda>cs.
     andThen (safely (try_map projected_name (items (idx spec ''volumes'')))) (\<lambda>ps.
     let projected = List.map_filter id ps; stripped = cs @ projected
     in if cs = [] \<and> projected = [] \<and> idx spec ''automountServiceAccountToken'' \<noteq> JBool True then Inr None
        else andThen (assign_member spec ''automountServiceAccountToken'' (JBool False)) (\<lambda>probe.
             andThen (if stripped = [] then Inr probe else strip_volumes stripped probe) (\<lambda>probe. Inr (Some probe)))))"

subsection \<open>Probes\<close>

definition PROBE_TIMING :: "string list" where
  "PROBE_TIMING = [''initialDelaySeconds'', ''periodSeconds'', ''timeoutSeconds'', ''successThreshold'', ''failureThreshold'']"

definition readiness_probe :: "json \<Rightarrow> unit profiled" where
  "readiness_probe v =
     (if list_ex (\<lambda>f. \<not> is_null (idx v f)
           \<and> (case as_i64 (idx v f) of None \<Rightarrow> True | Some n \<Rightarrow> n < (if f = ''initialDelaySeconds'' then 0 else 1))) PROBE_TIMING
      then Inl ''invalid readiness timing or threshold''
      else andThen (only_fields v ([''exec'', ''httpGet'', ''tcpSocket''] @ PROBE_TIMING)) (\<lambda>_.
        if length (filter (\<lambda>k. \<not> is_null (idx v k)) [''exec'', ''httpGet'', ''tcpSocket'']) \<noteq> 1
        then Inl ''invalid readiness probe''
        else andThen (only_fields (idx v ''exec'') [''command'']) (\<lambda>_.
             andThen (only_fields (idx v ''httpGet'') [''path'', ''port'', ''scheme'']) (\<lambda>_.
             andThen (only_fields (idx v ''tcpSocket'') [''port'']) (\<lambda>_.
        if (case as_str (at v [''httpGet'', ''scheme'']) of None \<Rightarrow> False | Some s \<Rightarrow> s \<noteq> ''HTTP'')
        then Inl ''only HTTP readiness is supported''
        else if (case as_str (at v [''httpGet'', ''path'']) of None \<Rightarrow> False | Some s \<Rightarrow> \<not> starts_with ''/'' s \<or> starts_with ''//'' s)
        then Inl ''invalid readiness path''
        else Inr ())))))"


subsection \<open>The overlay\<close>

definition SPEC_FIELDS :: "string list" where
  "SPEC_FIELDS = [''nodeName'', ''containers'', ''volumes'', ''securityContext'', ''restartPolicy'',
     ''terminationGracePeriodSeconds'', ''dnsPolicy'', ''dnsConfig'', ''hostname'', ''serviceAccount'',
     ''serviceAccountName'', ''automountServiceAccountToken'', ''enableServiceLinks'', ''schedulerName'',
     ''nodeSelector'', ''tolerations'', ''affinity'', ''priority'', ''priorityClassName'', ''preemptionPolicy'',
     ''imagePullSecrets'']"

definition CONTAINER_FIELDS :: "string list" where
  "CONTAINER_FIELDS = [''name'', ''image'', ''imagePullPolicy'', ''command'', ''args'', ''workingDir'', ''env'',
     ''envFrom'', ''ports'', ''resources'', ''securityContext'', ''volumeMounts'', ''readinessProbe'',
     ''terminationMessagePath'', ''terminationMessagePolicy'']"

definition volume_item :: "int \<Rightarrow> json \<Rightarrow> string profiled" where
  "volume_item fallback item =
     andThen (only_fields item [''key'', ''path'', ''mode'']) (\<lambda>_.
     andThen (text_field item ''key'') (\<lambda>_.
     andThen (text_field item ''path'') (\<lambda>path.
     andThen (file_mode (idx item ''mode'') fallback) (\<lambda>_. Inr path))))"

definition volume_name :: "string list \<Rightarrow> json \<Rightarrow> string list profiled" where
  "volume_name names v =
     (if \<not> is_ok (only_fields v [''name'', ''configMap'', ''secret''])
      then Inl ''only ConfigMap and Secret volume sources are implemented''
      else andThen (text_field v ''name'') (\<lambda>name.
        if \<not> safe_component name \<or> starts_with ''.'' name \<or> name \<in> set names
        then Inl ''invalid or duplicate volume name''
        else andThen (case (is_null (idx v ''configMap''), is_null (idx v ''secret'')) of
             (False, True) \<Rightarrow> Inr (idx v ''configMap'', ''name'')
           | (True, False) \<Rightarrow> Inr (idx v ''secret'', ''secretName'')
           | _ \<Rightarrow> Inl ''exactly one ConfigMap or Secret volume source is required'') (\<lambda>(source, field).
        andThen (only_fields source [field, ''items'', ''defaultMode'', ''optional'']) (\<lambda>_.
        andThen (text_field source field) (\<lambda>ref.
        if \<not> safe_component ref \<or> (\<not> is_null (idx source ''optional'') \<and> \<not> is_boolean (idx source ''optional''))
        then Inl ''invalid volume object reference''
        else andThen (file_mode (idx source ''defaultMode'') 420) (\<lambda>fallback.
          andThen (array_field (idx source ''items'')) (\<lambda>its.
          if length its > 1024 then Inl ''too many projected files''
          else andThen (try_map (volume_item fallback) its) (\<lambda>item_paths.
            andThen (paths item_paths) (\<lambda>_. Inr (names @ [name]))))))))))"

definition volume_names :: "json \<Rightarrow> string list profiled" where
  "volume_names spec =
     andThen (array_field (idx spec ''volumes'')) (\<lambda>vs.
     if length vs > 32 then Inl ''too many Pod volumes'' else try_fold volume_name [] vs)"

definition env_check :: "json \<Rightarrow> unit profiled" where
  "env_check e =
     (let source = idx e ''valueFrom''; refs = [''configMapKeyRef'', ''secretKeyRef'', ''fieldRef'']; f = idx source ''fieldRef'' in
      andThen (only_fields e [''name'', ''value'', ''valueFrom'']) (\<lambda>_.
      andThen (only_fields source refs) (\<lambda>_.
      if \<not> is_null source \<and> length (filter (\<lambda>k. \<not> is_null (idx source k)) refs) \<noteq> 1
      then Inl ''invalid environment value source''
      else if \<not> is_null f then
        andThen (only_fields f [''fieldPath'', ''apiVersion'']) (\<lambda>_.
        ensure (case as_str (idx f ''fieldPath'') of None \<Rightarrow> False
                | Some p \<Rightarrow> p \<in> set [''metadata.name'', ''metadata.namespace'', ''metadata.uid'', ''spec.nodeName''])
          ''unsupported downward API field'')
      else Inr ())))"

definition mount_check :: "string list \<Rightarrow> string list \<Rightarrow> json \<Rightarrow> string list profiled" where
  "mount_check volumes destinations m =
     andThen (only_fields m [''name'', ''mountPath'', ''readOnly'']) (\<lambda>_.
     andThen (text_field m ''name'') (\<lambda>name.
     if name \<notin> set volumes then Inl ''mount references an undefined volume''
     else andThen (text_field m ''mountPath'') (\<lambda>path.
       if \<not> starts_with ''/'' path \<or> \<not> relative (tl path)
          \<or> list_ex (\<lambda>p. path = p \<or> starts_with (p @ ''/'') path) [''/proc'', ''/sys'', ''/dev'']
          \<or> path \<in> set destinations \<or> (\<not> is_null (idx m ''readOnly'') \<and> \<not> is_boolean (idx m ''readOnly''))
       then Inl ''invalid container mount path or options''
       else Inr (path # destinations))))"

definition container_check :: "json \<Rightarrow> json \<Rightarrow> string list \<Rightarrow> unit profiled" where
  "container_check spec c volumes =
     andThen (only_fields c CONTAINER_FIELDS) (\<lambda>_.
     andThen (text_field c ''image'') (\<lambda>_.
     if (case as_str (idx c ''terminationMessagePolicy'') of None \<Rightarrow> False | Some s \<Rightarrow> s \<noteq> ''File'')
     then Inl ''termination message policy is unsupported''
     else andThen (array_field (idx c ''ports'')) (\<lambda>ports.
     andThen (try_map (\<lambda>p. only_fields p [''name'', ''containerPort'', ''protocol'']) ports) (\<lambda>_.
     if (case as_str (idx c ''workingDir'') of None \<Rightarrow> False
         | Some s \<Rightarrow> s \<noteq> [] \<and> (\<not> starts_with ''/'' s \<or> CHR 0x00 \<in> set s))
     then Inl ''invalid working directory''
     else andThen (only_fields (idx c ''securityContext'') [''runAsUser'', ''runAsGroup'', ''runAsNonRoot'',
         ''allowPrivilegeEscalation'', ''readOnlyRootFilesystem'', ''capabilities'', ''seccompProfile'', ''procMount'']) (\<lambda>_.
     if (case as_str (at c [''securityContext'', ''procMount'']) of None \<Rightarrow> False | Some s \<Rightarrow> s \<noteq> ''Default'')
     then Inl ''unmasked proc mounts are unsupported''
     else andThen (container_identity spec c) (\<lambda>_.
     andThen (only_fields (idx c ''resources'') [''requests'', ''limits'']) (\<lambda>_.
     andThen (try_map (\<lambda>k. only_fields (at c [''resources'', k]) [''cpu'', ''memory'']) [''requests'', ''limits'']) (\<lambda>_.
     andThen (array_field (idx c ''env'')) (\<lambda>env.
     andThen (try_map env_check env) (\<lambda>_.
     andThen (array_field (idx c ''envFrom'')) (\<lambda>env_from.
     andThen (try_map (\<lambda>s. only_fields s [''prefix'', ''configMapRef'', ''secretRef'']) env_from) (\<lambda>_.
     andThen (array_field (idx c ''volumeMounts'')) (\<lambda>mounts.
     andThen (try_fold (mount_check volumes) [] mounts) (\<lambda>destinations.
     andThen (paths (map tl (sort destinations))) (\<lambda>_.
     if is_null (idx c ''readinessProbe'') then Inr () else readiness_probe (idx c ''readinessProbe''))))))))))))))))"

definition container_step :: "json \<Rightarrow> string list \<Rightarrow> string list \<Rightarrow> json \<Rightarrow> string list profiled" where
  "container_step spec volumes names c =
     andThen (text_field c ''name'') (\<lambda>name.
     if \<not> safe_component name \<or> name \<in> set names then Inl ''invalid or duplicate container name''
     else andThen (container_check spec c volumes) (\<lambda>_. Inr (name # names)))"

definition overlay_check :: "json \<Rightarrow> unit profiled" where
  "overlay_check spec =
     (if \<not> is_object spec then Inl ''Pod spec is required''
      else andThen (only_fields spec SPEC_FIELDS) (\<lambda>_.
      if (case as_str (idx spec ''restartPolicy'') of None \<Rightarrow> False | Some s \<Rightarrow> s \<notin> set [''Always'', ''OnFailure'', ''Never''])
      then Inl ''invalid restart policy''
      else if (case as_i64 (idx spec ''terminationGracePeriodSeconds'') of None \<Rightarrow> False | Some v \<Rightarrow> \<not> (0 \<le> v \<and> v \<le> 30))
      then Inl ''termination grace outside supported 0-30 seconds''
      else if idx spec ''automountServiceAccountToken'' \<noteq> JBool False
      then Inl ''service-account token projection is not implemented''
      else if idx spec ''enableServiceLinks'' \<noteq> JBool False
      then Inl ''service environment injection is not implemented''
      else if (case as_array (idx spec ''imagePullSecrets'') of None \<Rightarrow> False | Some l \<Rightarrow> l \<noteq> [])
      then Inl ''private image authentication is not implemented''
      else if (case as_str (idx spec ''dnsPolicy'') of None \<Rightarrow> False | Some s \<Rightarrow> s \<notin> set [''Default'', ''None'', ''ClusterFirst''])
      then Inl ''unsupported DNS policy''
      else andThen (only_fields (idx spec ''securityContext'') [''runAsUser'', ''runAsGroup'', ''runAsNonRoot'', ''seccompProfile'']) (\<lambda>_.
      if (case as_str (idx spec ''hostname'') of None \<Rightarrow> False | Some v \<Rightarrow> \<not> safe_component v \<or> length v > 63)
      then Inl ''invalid Pod hostname''
      else andThen (volume_names spec) (\<lambda>volumes.
      andThen (ok_or ''invalid container count''
        (Option.bind (as_array (idx spec ''containers'')) (\<lambda>v. if v \<noteq> [] \<and> length v \<le> 32 then Some v else None))) (\<lambda>cs.
      andThen (try_fold (container_step spec volumes) [] cs) (\<lambda>_. Inr ()))))))"

definition profile_check :: "json \<Rightarrow> (string, unit) checked" where
  "profile_check spec =
     andThen (extension spec) (\<lambda>probe.
     safely (overlay_check (case probe of None \<Rightarrow> spec | Some p \<Rightarrow> p)))"


subsection \<open>Projected paths are distinct files\<close>

lemma rsplit_once_SomeD: "rsplit_once c s = Some (a, b) \<Longrightarrow> s = a @ c # b \<and> c \<notin> set b"
  by (auto simp: rsplit_once_def dest!: split_once_Some) (metis append.assoc append_Cons append_Nil rev.simps(2) rev_append rev_rev_ident)

lemma rsplit_once_None_iff: "rsplit_once c s = None \<longleftrightarrow> c \<notin> set s"
  by (simp add: rsplit_once_def split_once_None)

lemma ancestor_listed_iff: "ancestor_listed seen path \<longleftrightarrow> (\<exists>p r. p \<in> set seen \<and> path = p @ CHR ''/'' # r)"
proof (induction seen path rule: ancestor_listed.induct)
  case (1 seen path)
  show ?case
  proof (cases "rsplit_once CHR ''/'' path")
    case None
    then have "CHR ''/'' \<notin> set path" by (simp add: rsplit_once_None_iff)
    with None show ?thesis by (subst ancestor_listed.simps) auto
  next
    case (Some ab)
    then obtain a b where ab: "rsplit_once CHR ''/'' path = Some (a, b)" by (cases ab) auto
    note path = rsplit_once_SomeD [OF ab]
    have split: "p = a \<or> (\<exists>r'. a = p @ CHR ''/'' # r')" if "a @ CHR ''/'' # b = p @ CHR ''/'' # r" for p r
      using that path by (auto simp: append_eq_append_conv2 append_eq_Cons_conv Cons_eq_append_conv)
    have "ancestor_listed seen path \<longleftrightarrow> a \<in> set seen \<or> (\<exists>p r. p \<in> set seen \<and> a = p @ CHR ''/'' # r)"
      using 1 [OF ab refl] ab by (subst ancestor_listed.simps) simp
    also have "\<dots> \<longleftrightarrow> (\<exists>p r. p \<in> set seen \<and> path = p @ CHR ''/'' # r)"
    proof
      assume "a \<in> set seen \<or> (\<exists>p r. p \<in> set seen \<and> a = p @ CHR ''/'' # r)"
      then show "\<exists>p r. p \<in> set seen \<and> path = p @ CHR ''/'' # r" using path by auto
    qed (use path split in metis)
    finally show ?thesis .
  qed
qed

lemma distinct_paths_Inr_iff:
  "distinct_paths seen ps = Inr t \<longleftrightarrow>
     t = rev ps @ seen \<and> list_all relative ps \<and> distinct ps \<and> set ps \<inter> set seen = {}"
  by (induction ps arbitrary: seen) auto

text \<open>
  A list of projected paths is accepted exactly when every path is relative (no empty, dot or
  overlong segment), no path occurs twice and none is a directory above another.  So each can be
  written as a file of its own below the volume.
\<close>

theorem paths_exact:
  "is_ok (paths ps) \<longleftrightarrow> list_all relative ps \<and> distinct ps
     \<and> \<not> (\<exists>p \<in> set ps. \<exists>q \<in> set ps. \<exists>r. q = p @ ''/'' @ r)"
  by (auto simp: is_ok_iff paths_def andThen_Inr_iff distinct_paths_Inr_iff list_ex_iff ancestor_listed_iff)


subsection \<open>What an accepted spec may do\<close>

named_theorems profile_simps \<open>success conditions of the profile checks\<close>

declare andThen_Inr_iff [profile_simps]

lemma only_fields_null: "only_fields v allowed = Inr u \<Longrightarrow> k \<notin> set allowed \<Longrightarrow> idx v k = JNull"
  by (cases v) (auto simp: only_fields_def list_ex_iff split: option.splits dest!: map_of_SomeD)

definition confined :: "json \<Rightarrow> json \<Rightarrow> bool" where
  "confined spec c \<longleftrightarrow>
     (\<exists>ex. container_identity spec c = Inr ex \<and> 1 \<le> run_as_user ex \<and> run_as_user ex \<le> MAX_UID
        \<and> 1 \<le> run_as_group ex \<and> run_as_group ex \<le> MAX_UID)
     \<and> at c [''securityContext'', ''allowPrivilegeEscalation''] = JBool False
     \<and> at c [''securityContext'', ''privileged''] = JNull
     \<and> items (at c [''securityContext'', ''capabilities'', ''add'']) = []
     \<and> JStr ''ALL'' \<in> set (items (at c [''securityContext'', ''capabilities'', ''drop'']))"

lemma items_as_array: "items v = or_default [] (as_array v)"
  by (cases v) auto

lemma container_identity_bounds:
  assumes "container_identity spec c = Inr ex"
  shows "1 \<le> run_as_user ex \<and> run_as_user ex \<le> MAX_UID \<and> 1 \<le> run_as_group ex \<and> run_as_group ex \<le> MAX_UID
    \<and> at c [''securityContext'', ''allowPrivilegeEscalation''] = JBool False
    \<and> items (at c [''securityContext'', ''capabilities'', ''add'']) = []
    \<and> JStr ''ALL'' \<in> set (items (at c [''securityContext'', ''capabilities'', ''drop'']))"
proof -
  let ?sc = "idx c ''securityContext''" and ?ps = "idx spec ''securityContext''"
  let ?gid = "or_else (as_i64 (idx ?sc ''runAsGroup'')) (as_i64 (idx ?ps ''runAsGroup''))"
  from assms obtain uid where uid: "Option.bind (or_else (as_i64 (idx ?sc ''runAsUser'')) (as_i64 (idx ?ps ''runAsUser'')))
                (\<lambda>u. if 1 \<le> u \<and> u \<le> MAX_UID then Some u else None) = Some uid"
    and gid: "\<not> (case ?gid of None \<Rightarrow> False | Some g \<Rightarrow> \<not> (1 \<le> g \<and> g \<le> MAX_UID))"
    and ape: "\<not> idx ?sc ''allowPrivilegeEscalation'' \<noteq> JBool False"
    and caps: "\<not> ((case as_array (at ?sc [''capabilities'', ''add'']) of None \<Rightarrow> False | Some a \<Rightarrow> a \<noteq> [])
            \<or> \<not> (case as_array (at ?sc [''capabilities'', ''drop'']) of None \<Rightarrow> False | Some a \<Rightarrow> list_ex (\<lambda>v. v = JStr ''ALL'') a))"
    and ex: "(Inr \<lparr>run_as_user = uid, run_as_group = or_default uid ?gid,
                        read_only_root_filesystem = or_default False (as_bool (idx ?sc ''readOnlyRootFilesystem''))\<rparr> :: container_execution profiled) = Inr ex"
    unfolding container_identity_def Let_def andThen_Inr_iff if_Inl_Inr_iff ok_or_Inr_iff
    by (elim exE conjE) (rule that; assumption)
  have "1 \<le> uid" "uid \<le> MAX_UID" using uid by (auto simp: bind_eq_Some_conv split: if_splits)
  moreover from this have "1 \<le> or_default uid ?gid \<and> or_default uid ?gid \<le> MAX_UID"
    using gid by (cases ?gid) auto
  moreover have "items (at ?sc [''capabilities'', ''add'']) = []"
    using caps unfolding items_as_array by (cases "as_array (at ?sc [''capabilities'', ''add''])") auto
  moreover have "JStr ''ALL'' \<in> set (items (at ?sc [''capabilities'', ''drop'']))"
    using caps unfolding items_as_array by (cases "as_array (at ?sc [''capabilities'', ''drop''])") (auto simp: list_ex_iff)
  ultimately show ?thesis using ape ex by auto
qed

lemma container_check_confined:
  assumes "container_check spec c volumes = Inr ()"
  shows "confined spec c"
proof -
  from assms obtain ex u where ex: "container_identity spec c = Inr ex"
    and f: "only_fields (idx c ''securityContext'') [''runAsUser'', ''runAsGroup'', ''runAsNonRoot'',
         ''allowPrivilegeEscalation'', ''readOnlyRootFilesystem'', ''capabilities'', ''seccompProfile'', ''procMount''] = Inr u"
    unfolding container_check_def andThen_Inr_iff if_Inl_Inr_iff by blast
  have "idx (idx c ''securityContext'') ''privileged'' = JNull" by (rule only_fields_null [OF f]) simp
  with container_identity_bounds [OF ex] ex show ?thesis by (auto simp: confined_def)
qed

lemma container_steps_confined:
  "try_fold (container_step spec volumes) names cs = Inr t \<Longrightarrow> \<forall>c \<in> set cs. confined spec c"
  by (induction cs arbitrary: names)
    (auto simp: container_step_def andThen_Inr_iff split: sum.splits dest: container_check_confined)

lemma overlay_confined:
  assumes "overlay_check spec = Inr ()"
  shows "is_object spec" and "\<And>k. k \<notin> set SPEC_FIELDS \<Longrightarrow> idx spec k = JNull"
    and "\<And>c. c \<in> set (items (idx spec ''containers'')) \<Longrightarrow> confined spec c"
proof -
  from assms obtain u vs cs t where u: "only_fields spec SPEC_FIELDS = Inr u"
    and cs: "Option.bind (as_array (idx spec ''containers'')) (\<lambda>v. if v \<noteq> [] \<and> length v \<le> 32 then Some v else None) = Some cs"
    and t: "try_fold (container_step spec vs) [] cs = Inr t"
    unfolding overlay_check_def andThen_Inr_iff if_Inl_Inr_iff ok_or_Inr_iff by blast
  show "is_object spec" using assms by (simp add: overlay_check_def split: if_splits)
  show "idx spec k = JNull" if "k \<notin> set SPEC_FIELDS" for k using only_fields_null [OF u that] .
  have "items (idx spec ''containers'') = cs"
    using cs by (auto simp: bind_eq_Some_conv as_array_Some_iff split: if_splits)
  then show "confined spec c" if "c \<in> set (items (idx spec ''containers''))" for c
    using container_steps_confined [OF t] that by blast
qed


text \<open>The probe copy differs from the spec in its mounts and its claim volumes only.\<close>

definition same_but_mounts :: "json \<Rightarrow> json \<Rightarrow> bool" where
  "same_but_mounts c c' \<longleftrightarrow> (\<forall>k. k \<noteq> ''volumeMounts'' \<longrightarrow> idx c' k = idx c k)"

lemma strip_mounts_same: "strip_mounts stripped c = Inr c' \<Longrightarrow> same_but_mounts c c'"
  by (auto simp: strip_mounts_def same_but_mounts_def dest: edit_other)

lemma strip_containers:
  assumes "edit_items (strip_mounts stripped) v = Inr w"
  shows "list_all2 same_but_mounts (items v) (items w)" and "w = JNull \<Longrightarrow> v = JNull"
  using edit_items_InrD [OF assms] assms
  by (auto elim!: list.rel_mono_strong dest: strip_mounts_same simp: edit_items_def andThen_Inr_iff split: json.splits)

lemma strip_volumes_frame:
  assumes "strip_volumes stripped v = Inr w"
  shows "k \<notin> {''volumes'', ''containers'', ''initContainers''} \<Longrightarrow> idx w k = idx v k"
    and "list_all2 same_but_mounts (items (idx v ''containers'')) (items (idx w ''containers''))"
    and "idx w ''initContainers'' = JNull \<Longrightarrow> idx v ''initContainers'' = JNull"
proof -
  from assms obtain v1 v2 where e: "edit v ''volumes'' (\<lambda>v. Inr (retain_unnamed stripped v)) = (Inr v1 :: (string, json) checked)"
    "edit v1 ''containers'' (edit_items (strip_mounts stripped)) = Inr v2"
    "edit v2 ''initContainers'' (edit_items (strip_mounts stripped)) = Inr w"
    unfolding strip_volumes_def andThen_Inr_iff by blast
  show "idx w k = idx v k" if "k \<notin> {''volumes'', ''containers'', ''initContainers''}"
    using edit_other [OF e(1)] edit_other [OF e(2)] edit_other [OF e(3)] that by simp
  have "idx v1 ''containers'' = idx v ''containers''" "idx w ''containers'' = idx v2 ''containers''"
    using edit_other [OF e(1)] edit_other [OF e(3)] by simp_all
  then show "list_all2 same_but_mounts (items (idx v ''containers'')) (items (idx w ''containers''))"
    using strip_containers(1) [OF edit_InrD(1) [OF e(2)]] by simp
  have "idx v2 ''initContainers'' = idx v ''initContainers''"
    using edit_other [OF e(1)] edit_other [OF e(2)] by simp
  then show "idx v ''initContainers'' = JNull" if "idx w ''initContainers'' = JNull"
    using strip_containers(2) [OF edit_InrD(1) [OF e(3)]] that by simp
qed

lemma extension_frame:
  assumes "extension spec = Inr (Some probe)" and "is_object probe"
  shows "is_object spec" and "k \<notin> {''automountServiceAccountToken'', ''volumes'', ''containers'', ''initContainers''} \<Longrightarrow> idx probe k = idx spec k"
    and "list_all2 same_but_mounts (items (idx spec ''containers'')) (items (idx probe ''containers''))"
    and "idx probe ''initContainers'' = JNull \<Longrightarrow> idx spec ''initContainers'' = JNull"
proof -
  from assms(1) obtain cs ps where cs: "claims spec = Inr cs" "try_map projected_name (items (idx spec ''volumes'')) = Inr ps"
    and i: "(if cs = [] \<and> List.map_filter id ps = [] \<and> idx spec ''automountServiceAccountToken'' \<noteq> JBool True then Inr None
       else andThen (assign_member spec ''automountServiceAccountToken'' (JBool False)) (\<lambda>probe.
             andThen (if cs @ List.map_filter id ps = [] then Inr probe else strip_volumes (cs @ List.map_filter id ps) probe)
               (\<lambda>probe. Inr (Some probe)))) = Inr (Some probe)"
    unfolding extension_def andThen_Inr_iff Let_def safely_Inr_iff by blast
  from i have g: "\<not> (cs = [] \<and> List.map_filter id ps = [] \<and> idx spec ''automountServiceAccountToken'' \<noteq> JBool True)" by (auto split: if_splits)
  from i obtain p where a: "assign_member spec ''automountServiceAccountToken'' (JBool False) = (Inr p :: (string, json) checked)"
    and s: "(if cs @ List.map_filter id ps = [] then Inr p else strip_volumes (cs @ List.map_filter id ps) p) = Inr probe"
    unfolding if_not_P [OF g] andThen_Inr_iff by blast
  note as = assign_member_InrD [OF a]
  have same: "idx p k = idx spec k" if "k \<noteq> ''automountServiceAccountToken''" for k using as(3) that .
  show "is_object spec"
  proof (rule ccontr)
    assume "\<not> is_object spec"
    with as(5) have "spec = JNull" by simp
    with g cs show False by (auto simp: claims_def andThen_Inr_iff map_filter_simps)
  qed
  have refl: "list_all2 same_but_mounts xs xs" for xs by (simp add: list_all2_same same_but_mounts_def)
  show "idx probe k = idx spec k" if "k \<notin> {''automountServiceAccountToken'', ''volumes'', ''containers'', ''initContainers''}"
    using s same that strip_volumes_frame(1) by (auto split: if_splits)
  show "list_all2 same_but_mounts (items (idx spec ''containers'')) (items (idx probe ''containers''))"
    using s same [of "''containers''"] strip_volumes_frame(2) [of _ p probe] refl by (fastforce split: if_splits)
  show "idx spec ''initContainers'' = JNull" if "idx probe ''initContainers'' = JNull"
    using s same [of "''initContainers''"] strip_volumes_frame(3) [of _ p probe] that by (auto split: if_splits)
qed

lemma confined_same:
  assumes "same_but_mounts c c'" and "idx spec' ''securityContext'' = idx spec ''securityContext''" and "confined spec' c'"
  shows "confined spec c"
proof -
  have "idx c' ''securityContext'' = idx c ''securityContext''" using assms(1) by (simp add: same_but_mounts_def)
  with assms(2,3) show ?thesis by (simp add: confined_def container_identity_def)
qed

text \<open>
  The runtime profile admits only confined Pods, with or without a claim or a projected token:
  no field outside the contract is set (so no host namespace and no init or ephemeral container), and
  every container runs under an explicit non-root user and group, without privilege escalation,
  not privileged, adding no capability and dropping all.
\<close>

theorem profile_confines:
  assumes "profile_check spec = Inr ()"
  shows "is_object spec \<and> (\<forall>k. k \<notin> set SPEC_FIELDS \<longrightarrow> idx spec k = JNull)
    \<and> (\<forall>c \<in> set (items (idx spec ''containers'')). confined spec c)"
proof -
  from assms obtain probe where p: "extension spec = Inr probe" and o: "overlay_check (case probe of None \<Rightarrow> spec | Some p \<Rightarrow> p) = Inr ()"
    by (auto simp: profile_check_def andThen_Inr_iff)
  show ?thesis
  proof (cases probe)
    case None
    with overlay_confined [of spec] o show ?thesis by simp
  next
    case (Some p')
    with o have o: "overlay_check p' = Inr ()" by simp
    note ov = overlay_confined [OF o] and fr = extension_frame [OF p [unfolded Some] overlay_confined(1) [OF o]]
    have null: "idx spec k = JNull" if "k \<notin> set SPEC_FIELDS" for k
    proof (cases "k = ''initContainers''")
      case True
      with fr(4) ov(2) that show ?thesis by blast
    next
      case False
      with that have "k \<notin> {''automountServiceAccountToken'', ''volumes'', ''containers'', ''initContainers''}"
        by (auto simp: SPEC_FIELDS_def)
      with fr(2) ov(2) that show ?thesis by metis
    qed
    have sc: "idx p' ''securityContext'' = idx spec ''securityContext''" by (rule fr(2)) simp
    have conf: "confined spec c" if c: "c \<in> set (items (idx spec ''containers''))" for c
    proof -
      obtain c' where c': "c' \<in> set (items (idx p' ''containers''))" "same_but_mounts c c'"
        using list_all2_left [OF fr(3) c] by blast
      show ?thesis by (rule confined_same [OF c'(2) sc ov(3) [OF c'(1)]])
    qed
    show ?thesis by (intro conjI allI impI ballI) (rule fr(1), erule null, erule conf)
  qed
qed


text \<open>A Pod with a claim, as the API stores it.\<close>

definition secure_container :: "string \<Rightarrow> json list \<Rightarrow> json" where
  "secure_container name mounts = JObj [(''image'', JStr ''busybox''), (''name'', JStr name),
     (''securityContext'', JObj [(''allowPrivilegeEscalation'', JBool False),
        (''capabilities'', JObj [(''drop'', JArr [JStr ''ALL''])]), (''runAsUser'', JInt 1000),
        (''seccompProfile'', JObj [(''type'', JStr ''RuntimeDefault'')])]),
     (''volumeMounts'', JArr mounts)]"

definition pod_spec :: "json list \<Rightarrow> json list \<Rightarrow> json" where
  "pod_spec containers volumes = JObj [(''automountServiceAccountToken'', JBool False),
     (''containers'', JArr containers), (''enableServiceLinks'', JBool False), (''volumes'', JArr volumes)]"

definition claim_volume :: json where
  "claim_volume = JObj [(''name'', JStr ''data''), (''persistentVolumeClaim'', JObj [(''claimName'', JStr ''web'')])]"

definition data_mount :: "string \<Rightarrow> json" where
  "data_mount path = JObj [(''mountPath'', JStr path), (''name'', JStr ''data'')]"

definition claim_pod :: json where
  "claim_pod = pod_spec [secure_container ''web'' [data_mount ''/data'']] [claim_volume]"

theorem profile_confines_witness:
  "profile_check claim_pod = Inr () \<and> confined claim_pod (secure_container ''web'' [data_mount ''/data''])
   \<and> idx claim_pod ''hostNetwork'' = JNull"
proof -
  have ok: "profile_check claim_pod = Inr ()" by code_simp
  have "secure_container ''web'' [data_mount ''/data''] \<in> set (items (idx claim_pod ''containers''))"
    by (simp add: claim_pod_def pod_spec_def)
  moreover have "''hostNetwork'' \<notin> set SPEC_FIELDS" by code_simp
  ultimately show ?thesis using profile_confines [OF ok] ok by simp
qed


subsection \<open>A volume hidden behind a claim\<close>

lemma try_map_snoc:
  "try_map f (xs @ [x]) = andThen (try_map f xs) (\<lambda>ys. andThen (f x) (\<lambda>y. Inr (ys @ [y])))"
  by (induction xs) (auto simp: andThen_def split: sum.splits)

lemma map_filter_snoc_None: "List.map_filter id (xs @ [None]) = List.map_filter id xs"
  by (simp add: List.map_filter_def)

lemma unclaimed_volume:
  assumes "idx v ''persistentVolumeClaim'' = JNull" and "idx v ''projected'' = JNull"
  shows "claim_name v = Inr None" and "projected_name v = Inr None"
  using assms by (simp_all add: claim_name_def projected_name_def projection_def)

text \<open>
  The profile does not look at a volume that shares the name of a claim volume, whatever its
  source: adding one, a \<^verbatim>\<open>hostPath\<close> say, to an object that carries such a claim never changes the
  answer.
\<close>

theorem claim_hides_volumes:
  assumes wf: "wf_json spec" and vs: "idx spec ''volumes'' = JArr vs" and cs: "claims spec = Inr cs" "n \<in> set cs"
    and v: "idx v ''name'' = JStr n" "idx v ''persistentVolumeClaim'' = JNull" "idx v ''projected'' = JNull"
    and add: "set_at spec [''volumes''] (JArr (vs @ [v])) = Some spec'"
  shows "profile_check spec' = profile_check spec"
proof -
  obtain m where m: "spec = JObj m" using vs by (cases spec) auto
  then have sorted: "key_sorted m" using wf by simp
  have spec': "spec' = JObj (put ''volumes'' (JArr (vs @ [v])) m)" using add m by simp
  have cs': "claims spec' = Inr cs"
    using cs(1) vs v unclaimed_volume [OF v(2,3)]
    by (auto simp: claims_def spec' try_map_snoc andThen_Inr_iff map_filter_snoc_None)
  have auto': "idx spec' ''automountServiceAccountToken'' = idx spec ''automountServiceAccountToken''"
    using m spec' by simp
  have "extension spec' = extension spec"
  proof (cases "try_map projected_name vs")
    case (Inl e)
    then show ?thesis using cs cs' vs by (simp add: extension_def spec' try_map_snoc safely_def)
  next
    case (Inr ps)
    let ?stripped = "cs @ List.map_filter id ps" and ?a = "put ''automountServiceAccountToken'' (JBool False)"
    have ps': "try_map projected_name (vs @ [v]) = Inr (ps @ [None])"
      using Inr unclaimed_volume [OF v(2,3)] by (simp add: try_map_snoc)
    have gone: "retain_unnamed ?stripped (JArr (vs @ [v])) = retain_unnamed ?stripped (JArr vs)"
      using v(1) cs(2) by (auto simp: retain_unnamed_def list_ex_iff)
    have "put ''volumes'' x (?a (put ''volumes'' y m)) = put ''volumes'' x (?a m)" for x y
      using sorted by (simp add: members.insert_commute [of m "''automountServiceAccountToken''"] members.insert_twice)
    then have edit: "edit (JObj (?a (put ''volumes'' (JArr (vs @ [v])) m))) ''volumes'' (\<lambda>v. Inr (retain_unnamed ?stripped v))
        = (edit (JObj (?a m)) ''volumes'' (\<lambda>v. Inr (retain_unnamed ?stripped v)) :: (string, json) checked)"
      using gone vs m by (simp add: edit_def)
    have "cs \<noteq> []" using cs(2) by auto
    then show ?thesis
      using cs(1) cs' vs Inr ps' edit m
      by (simp add: extension_def spec' Let_def map_filter_snoc_None assign_member_def edit_def [of "JObj _" "''automountServiceAccountToken''"] strip_volumes_def)
  qed
  moreover have "extension spec \<noteq> Inr None"
    using cs by (auto simp: extension_def andThen_Inr_iff Let_def split: if_splits)
  ultimately show ?thesis by (cases "extension spec") (auto simp: profile_check_def split: option.splits)
qed

definition host_volume :: json where
  "host_volume = JObj [(''hostPath'', JObj [(''path'', JStr ''/'')]), (''name'', JStr ''data'')]"

theorem claim_hides_volumes_witness:
  "profile_check (pod_spec [secure_container ''web'' [data_mount ''/data'']] [claim_volume, host_volume]) = Inr ()
   \<and> profile_check (pod_spec [secure_container ''web'' [data_mount ''/proc'']] [claim_volume]) = Inr ()"
proof -
  let ?spec' = "pod_spec [secure_container ''web'' [data_mount ''/data'']] [claim_volume, host_volume]"
  have "wf_json claim_pod" "idx claim_pod ''volumes'' = JArr [claim_volume]" "claims claim_pod = Inr [''data'']"
    "idx host_volume ''name'' = JStr ''data''" "idx host_volume ''persistentVolumeClaim'' = JNull"
    "idx host_volume ''projected'' = JNull" "set_at claim_pod [''volumes''] (JArr ([claim_volume] @ [host_volume])) = Some ?spec'"
    "profile_check claim_pod = Inr ()" "profile_check (pod_spec [secure_container ''web'' [data_mount ''/proc'']] [claim_volume]) = Inr ()"
    by code_simp+
  with claim_hides_volumes [of claim_pod "[claim_volume]" "[''data'']" "''data''" host_volume ?spec'] show ?thesis by simp
qed

end
