(* ===== verification/Pod_Security.thy ===== *)
theory Pod_Security
  imports Selectors Pod_Profile
begin

text \<open>
  Pod admission at the API write boundary (\<^verbatim>\<open>crates/h3s-apiserver/src/admission.rs\<close>): the namespace's
  Pod Security labels, the namespace lifecycle, the runtime profile, and the Pod Security check of a
  Pod at a level.
\<close>

definition PREFIX :: string where
  "PREFIX = ''pod-security.kubernetes.io/''"

datatype level = Privileged | Baseline | Restricted

definition denied :: "string \<Rightarrow> 'a answer" where
  "denied m = fail 403 ''Forbidden'' m"

lemma denied_not_Inr [simp]: "denied m \<noteq> Inr x"
  by (simp add: denied_def fail_def)

subsection \<open>Namespaces\<close>

definition setting_valid :: "string \<Rightarrow> json \<Rightarrow> bool" where
  "setting_valid setting v =
     (if setting = ''enforce'' then as_str v \<in> {Some ''privileged'', Some ''baseline'', Some ''restricted''}
      else if setting = ''enforce-version'' then as_str v \<in> {Some ''latest'', Some ''v1.34''}
      else False)"

definition namespace_policy :: "json \<Rightarrow> unit answer" where
  "namespace_policy ns =
     (case as_object (at ns [''metadata'', ''labels'']) of
        None \<Rightarrow> Inr ()
      | Some labels \<Rightarrow> for_each (\<lambda>(key, v).
          (case strip_prefix PREFIX key of
             None \<Rightarrow> Inr ()
           | Some setting \<Rightarrow>
               if setting_valid setting v then Inr ()
               else fail 422 ''Invalid'' (''unsupported Pod Security setting '' @ key
                 @ ''; supported: enforce and enforce-version (latest or v1.34)''))) labels)"

definition lifecycle :: "json \<Rightarrow> bool \<Rightarrow> unit answer" where
  "lifecycle ns creating =
     (if creating \<and> (at ns [''status'', ''phase''] = JStr ''Terminating'' \<or> \<not> is_null (at ns [''metadata'', ''deletionTimestamp'']))
      then denied ''cannot create new content in a terminating namespace'' else Inr ())"

definition PROFILE_NAME :: string where
  "PROFILE_NAME = ''restricted-v1''"

definition CONTRACT_SET :: string where
  "CONTRACT_SET = ''k8s-1.34-h3s-0.9.1''"

definition runtime :: "json \<Rightarrow> unit guarded" where
  "runtime pod =
     map_err (map_option (\<lambda>e. \<lparr>code = 422, reason = ''Invalid'',
         message = ''Pod cannot run under the '' @ PROFILE_NAME @ '' runtime profile ('' @ CONTRACT_SET @ ''): '' @ e\<rparr>))
       (profile_check (idx pod ''spec''))"

subsection \<open>The check of a Pod\<close>

definition filled_str :: "json \<Rightarrow> bool" where
  "filled_str v \<longleftrightarrow> (case as_str v of None \<Rightarrow> False | Some s \<Rightarrow> s \<noteq> [])"

definition value_in :: "json \<Rightarrow> string list \<Rightarrow> bool" where
  "value_in v vs \<longleftrightarrow> is_null v \<or> (case as_str v of None \<Rightarrow> False | Some s \<Rightarrow> s \<in> set vs)"

definition profile_ok :: "json \<Rightarrow> string \<Rightarrow> bool" where
  "profile_ok context profile \<longleftrightarrow>
     is_null (idx context profile) \<or> value_in (at context [profile, ''type'']) [''RuntimeDefault'', ''Localhost'']"

definition VOLUME_TYPES :: "string list" where
  "VOLUME_TYPES = [''configMap'', ''csi'', ''downwardAPI'', ''emptyDir'', ''ephemeral'', ''persistentVolumeClaim'', ''projected'', ''secret'']"

definition check_volume :: "bool \<Rightarrow> json \<Rightarrow> (string, unit) result" where
  "check_volume restricted volume =
     (if \<not> is_null (idx volume ''hostPath'') then Inl ''hostPath volumes are forbidden''
      else if restricted then
        let sources = filter (\<lambda>(k, v). k \<noteq> ''name'' \<and> \<not> is_null v) (or_default [] (as_object volume))
        in if length sources \<noteq> 1 \<or> fst (hd sources) \<notin> set VOLUME_TYPES
           then Inl ''restricted volume type is required'' else Inr ()
      else Inr ())"

definition SAFE_SYSCTLS :: "string list" where
  "SAFE_SYSCTLS = [''kernel.shm_rmid_forced'', ''net.ipv4.ip_local_port_range'', ''net.ipv4.ip_unprivileged_port_start'',
     ''net.ipv4.tcp_syncookies'', ''net.ipv4.ping_group_range'', ''net.ipv4.ip_local_reserved_ports'',
     ''net.ipv4.tcp_keepalive_time'', ''net.ipv4.tcp_fin_timeout'', ''net.ipv4.tcp_keepalive_intvl'',
     ''net.ipv4.tcp_keepalive_probes'', ''net.ipv4.tcp_rmem'', ''net.ipv4.tcp_wmem'']"

definition check_sysctl :: "json \<Rightarrow> (string, unit) result" where
  "check_sysctl sysctl =
     (let name = map (\<lambda>c. if c = CHR ''/'' then CHR ''.'' else c) (or_default '''' (as_str (idx sysctl ''name''))) in
      ensure (name \<in> set SAFE_SYSCTLS) ''unsafe sysctl is forbidden'')"

definition check_annotation :: "string \<times> json \<Rightarrow> (string, unit) result" where
  "check_annotation p =
     ensure (\<not> (starts_with ''container.apparmor.security.beta.kubernetes.io/'' (fst p)
               \<and> \<not> (case as_str (snd p) of None \<Rightarrow> False
                     | Some v \<Rightarrow> v = ''runtime/default'' \<or> starts_with ''localhost/'' v)))
       ''unconfined AppArmor annotation is forbidden''"

definition pod_containers :: "json \<Rightarrow> (string \<times> json) list" where
  "pod_containers spec =
     concat (map (\<lambda>f. map (\<lambda>(i, c). (''spec.'' @ f @ ''['' @ show_nat i @ '']'', c)) (enumerate 0 (items (idx spec f))))
       [''containers'', ''initContainers'', ''ephemeralContainers''])"

definition check_context :: "bool \<Rightarrow> string \<times> json \<Rightarrow> (string, unit) result" where
  "check_context restricted p =
     (let path = fst p; context = snd p; selinux = idx context ''seLinuxOptions'' in
      if at context [''windowsOptions'', ''hostProcess''] = JBool True
      then Inl (path @ ''.windowsOptions.hostProcess is forbidden'')
      else if \<not> profile_ok context ''appArmorProfile'' \<or> \<not> profile_ok context ''seccompProfile''
      then Inl (path @ '' requires RuntimeDefault or Localhost profiles'')
      else if filled_str (idx selinux ''user'') \<or> filled_str (idx selinux ''role'')
        \<or> \<not> value_in (idx selinux ''type'') ['''', ''container_t'', ''container_init_t'', ''container_kvm_t'', ''container_engine_t'']
      then Inl (path @ ''.seLinuxOptions is forbidden'')
      else if restricted \<and> (idx context ''runAsNonRoot'' = JBool False \<or> idx context ''runAsUser'' = JInt 0)
      then Inl (path @ '' must not request root'')
      else Inr ())"

definition HANDLERS :: "(string \<times> string list) list" where
  "HANDLERS = [(''/livenessProbe'', [''livenessProbe'']), (''/readinessProbe'', [''readinessProbe'']),
     (''/startupProbe'', [''startupProbe'']), (''/lifecycle/postStart'', [''lifecycle'', ''postStart'']),
     (''/lifecycle/preStop'', [''lifecycle'', ''preStop''])]"

definition BASELINE_CAPABILITIES :: "string list" where
  "BASELINE_CAPABILITIES = [''AUDIT_WRITE'', ''CHOWN'', ''DAC_OVERRIDE'', ''FOWNER'', ''FSETID'', ''KILL'', ''MKNOD'',
     ''NET_BIND_SERVICE'', ''SETFCAP'', ''SETGID'', ''SETPCAP'', ''SETUID'', ''SYS_CHROOT'']"

definition container_surface :: "string \<Rightarrow> json \<Rightarrow> (string, unit) result" where
  "container_surface path c =
     (let context = idx c ''securityContext'' in
      if idx context ''privileged'' = JBool True then Inl (path @ '' must not be privileged'')
      else if \<not> value_in (idx context ''procMount'') [''Default''] then Inl (path @ '' must use default procMount'')
      else if list_ex (\<lambda>q. case as_i64 (idx q ''hostPort'') of None \<Rightarrow> False | Some v \<Rightarrow> v \<noteq> 0) (items (idx c ''ports''))
      then Inl (path @ '' must not use host ports'')
      else for_each (\<lambda>(pointer, ks).
             if list_ex (\<lambda>q. filled_str (at c (ks @ [q, ''host'']))) [''httpGet'', ''tcpSocket'']
             then Inl (path @ pointer @ '' must not set a host'') else Inr ()) HANDLERS)"

definition capability_ok :: "bool \<Rightarrow> json \<Rightarrow> bool" where
  "capability_ok restricted cap \<longleftrightarrow> (if restricted then cap = JStr ''NET_BIND_SERVICE'' else value_in cap BASELINE_CAPABILITIES)"

definition container_restricted :: "json \<Rightarrow> string \<Rightarrow> json \<Rightarrow> (string, unit) result" where
  "container_restricted pc path context =
     (if idx context ''allowPrivilegeEscalation'' \<noteq> JBool False
      then Inl (path @ '' requires allowPrivilegeEscalation=false'')
      else if \<not> list_ex (\<lambda>d. d = JStr ''ALL'') (items (at context [''capabilities'', ''drop'']))
      then Inl (path @ '' must drop ALL capabilities'')
      else if idx context ''runAsNonRoot'' \<noteq> JBool True \<and> idx pc ''runAsNonRoot'' \<noteq> JBool True
      then Inl (path @ '' requires runAsNonRoot=true'')
      else
        let seccomp = (if is_null (idx context ''seccompProfile'') then idx pc ''seccompProfile'' else idx context ''seccompProfile'')
        in if as_str (idx seccomp ''type'') \<notin> {Some ''RuntimeDefault'', Some ''Localhost''}
           then Inl (path @ '' requires an explicit seccomp profile'') else Inr ())"

definition check_container :: "bool \<Rightarrow> json \<Rightarrow> string \<times> json \<Rightarrow> (string, unit) result" where
  "check_container restricted pc p =
     (let path = fst p; c = snd p; context = idx c ''securityContext'' in
      andThen (container_surface path c) (\<lambda>_.
      andThen (for_each (\<lambda>cap. if \<not> capability_ok restricted cap then Inl (path @ '' adds forbidden capabilities'') else Inr ())
                 (items (at context [''capabilities'', ''add'']))) (\<lambda>_.
      if restricted then container_restricted pc path context else Inr ())))"

definition check_pod :: "json \<Rightarrow> level \<Rightarrow> (string, unit) result" where
  "check_pod pod lv =
     (if lv = Privileged then Inr ()
      else
        let spec = idx pod ''spec''; pc = idx spec ''securityContext''; restricted = (lv = Restricted);
            containers = pod_containers spec
        in if \<not> value_in (at spec [''os'', ''name'']) [''linux'']
           then Inl ''spec.os.name must be linux for the supported worker''
           else andThen (for_each (\<lambda>f. if idx spec f = JBool True then Inl (''spec.'' @ f @ '' is forbidden'') else Inr ())
                  [''hostNetwork'', ''hostPID'', ''hostIPC'']) (\<lambda>_.
           andThen (for_each (check_volume restricted) (items (idx spec ''volumes''))) (\<lambda>_.
           andThen (for_each check_sysctl (items (idx pc ''sysctls''))) (\<lambda>_.
           andThen (for_each check_annotation (or_default [] (as_object (at pod [''metadata'', ''annotations''])))) (\<lambda>_.
           andThen (for_each (check_context restricted)
                  ((''spec.securityContext'', pc) # map (\<lambda>(q, c). (q @ ''.securityContext'', idx c ''securityContext'')) containers)) (\<lambda>_.
           for_each (check_container restricted pc) containers))))))"

definition SYSTEM_NAMESPACES :: "string list" where
  "SYSTEM_NAMESPACES = [''kube-system'', ''kube-public'', ''kube-node-lease'']"

definition enforced :: "json \<Rightarrow> string" where
  "enforced ns =
     (let fallback = (if or_default '''' (as_str (at ns [''metadata'', ''name''])) \<in> set SYSTEM_NAMESPACES
                      then ''privileged'' else ''restricted'')
      in or_default fallback (as_str (at ns [''metadata'', ''labels'', PREFIX @ ''enforce''])))"

definition level_of :: "string \<Rightarrow> level answer" where
  "level_of policy =
     (if policy = ''privileged'' then Inr Privileged
      else if policy = ''baseline'' then Inr Baseline
      else if policy = ''restricted'' then Inr Restricted
      else denied ''invalid stored namespace Pod Security policy'')"

definition pod_policy :: "json \<Rightarrow> json \<Rightarrow> unit answer" where
  "pod_policy ns pod =
     (let policy = enforced ns in
      andThen (level_of policy) (\<lambda>lv.
      if as_str (at ns [''metadata'', ''labels'', PREFIX @ ''enforce-version'']) \<notin> {None, Some ''latest'', Some ''v1.34''}
      then denied ''unsupported stored Pod Security policy version''
      else map_err (\<lambda>field. \<lparr>code = 403, reason = ''Forbidden'',
               message = ''violates PodSecurity '' @ policy @ '':v1.34: '' @ field\<rparr>) (check_pod pod lv)))"


subsection \<open>The levels are ordered\<close>

lemma check_volume_ok:
  "check_volume restricted v = Inr () \<longleftrightarrow> idx v ''hostPath'' = JNull
     \<and> (restricted \<longrightarrow> (let sources = filter (\<lambda>(k, v). k \<noteq> ''name'' \<and> \<not> is_null v) (or_default [] (as_object v))
        in length sources = 1 \<and> fst (hd sources) \<in> set VOLUME_TYPES))"
  by (simp add: check_volume_def Let_def)

lemma check_context_ok:
  "check_context restricted p = Inr () \<longleftrightarrow>
     check_context False p = Inr ()
     \<and> (restricted \<longrightarrow> idx (snd p) ''runAsNonRoot'' \<noteq> JBool False \<and> idx (snd p) ''runAsUser'' \<noteq> JInt 0)"
  unfolding check_context_def Let_def by auto

definition restricted_container :: "json \<Rightarrow> json \<Rightarrow> bool" where
  "restricted_container pc context \<longleftrightarrow>
     set (items (at context [''capabilities'', ''add''])) \<subseteq> {JStr ''NET_BIND_SERVICE''}
     \<and> idx context ''allowPrivilegeEscalation'' = JBool False
     \<and> JStr ''ALL'' \<in> set (items (at context [''capabilities'', ''drop'']))
     \<and> (idx context ''runAsNonRoot'' = JBool True \<or> idx pc ''runAsNonRoot'' = JBool True)
     \<and> at (if is_null (idx context ''seccompProfile'') then pc else context) [''seccompProfile'', ''type'']
         \<in> {JStr ''RuntimeDefault'', JStr ''Localhost''}"

lemma capability_restricted: "capability_ok True cap \<Longrightarrow> capability_ok False cap"
proof -
  have "value_in (JStr ''NET_BIND_SERVICE'') BASELINE_CAPABILITIES" by code_simp
  then show "capability_ok True cap \<Longrightarrow> capability_ok False cap" by (auto simp: capability_ok_def)
qed

lemma as_str_in: "as_str v \<in> {Some x, Some y} \<longleftrightarrow> v \<in> {JStr x, JStr y}"
  by (cases v) auto

lemma container_restrictedD:
  assumes "container_restricted pc path context = Inr ()"
  shows "idx context ''allowPrivilegeEscalation'' = JBool False"
    and "JStr ''ALL'' \<in> set (items (at context [''capabilities'', ''drop'']))"
    and "idx context ''runAsNonRoot'' = JBool True \<or> idx pc ''runAsNonRoot'' = JBool True"
    and "at (if is_null (idx context ''seccompProfile'') then pc else context) [''seccompProfile'', ''type'']
         \<in> {JStr ''RuntimeDefault'', JStr ''Localhost''}"
proof -
  have s: "as_str (idx (if is_null (idx context ''seccompProfile'') then idx pc ''seccompProfile'' else idx context ''seccompProfile'') ''type'')
      \<in> {Some ''RuntimeDefault'', Some ''Localhost''}"
    using assms unfolding container_restricted_def Let_def if_Inl_Inr_iff by blast
  show "idx context ''allowPrivilegeEscalation'' = JBool False"
    "JStr ''ALL'' \<in> set (items (at context [''capabilities'', ''drop'']))"
    "idx context ''runAsNonRoot'' = JBool True \<or> idx pc ''runAsNonRoot'' = JBool True"
    using assms unfolding container_restricted_def Let_def if_Inl_Inr_iff list_ex_iff by blast+
  show "at (if is_null (idx context ''seccompProfile'') then pc else context) [''seccompProfile'', ''type'']
         \<in> {JStr ''RuntimeDefault'', JStr ''Localhost''}"
    using s unfolding as_str_in by (simp split: if_splits)
qed

lemma check_container_ok:
  assumes "check_container True pc p = Inr ()"
  shows "check_container False pc p = Inr ()" and "restricted_container pc (idx (snd p) ''securityContext'')"
proof -
  let ?ctx = "idx (snd p) ''securityContext''"
  have surface: "container_surface (fst p) (snd p) = Inr ()"
    and caps: "\<forall>cap \<in> set (items (at ?ctx [''capabilities'', ''add''])). capability_ok True cap"
    and r: "container_restricted pc (fst p) ?ctx = Inr ()"
    using assms by (auto simp: check_container_def Let_def andThen_Inr_iff)
  from surface caps capability_restricted show "check_container False pc p = Inr ()"
    by (auto simp: check_container_def Let_def andThen_Inr_iff)
  from caps container_restrictedD [OF r] show "restricted_container pc ?ctx"
    unfolding restricted_container_def capability_ok_def by auto
qed


fun strictness :: "level \<Rightarrow> nat" where
  "strictness Privileged = 0"
| "strictness Baseline = 1"
| "strictness Restricted = 2"

instantiation level :: linorder
begin

definition less_eq_level :: "level \<Rightarrow> level \<Rightarrow> bool" where
  "less_eq_level x y \<longleftrightarrow> strictness x \<le> strictness y"

definition less_level :: "level \<Rightarrow> level \<Rightarrow> bool" where
  "less_level x y \<longleftrightarrow> strictness x < strictness y"

instance
proof
  fix x y z :: level
  show "x < y \<longleftrightarrow> x \<le> y \<and> \<not> y \<le> x" by (auto simp: less_eq_level_def less_level_def)
  show "x \<le> x" by (simp add: less_eq_level_def)
  show "x \<le> y \<Longrightarrow> y \<le> z \<Longrightarrow> x \<le> z" by (simp add: less_eq_level_def)
  show "x \<le> y \<Longrightarrow> y \<le> x \<Longrightarrow> x = y" by (cases x; cases y) (simp_all add: less_eq_level_def)
  show "x \<le> y \<or> y \<le> x" by (auto simp: less_eq_level_def)
qed

end

lemma baseline_of_restricted: "check_pod pod Restricted = Inr () \<Longrightarrow> check_pod pod Baseline = Inr ()"
  using check_container_ok(1)
  by (auto simp: check_pod_def Let_def andThen_Inr_iff check_volume_ok check_context_ok [of True] simp del: for_each.simps)

text \<open>
  The Pod Security levels are ordered: a Pod the check accepts at a level is accepted at every
  weaker one, so relaxing a namespace never refuses a Pod it admitted.
\<close>

theorem pod_security_monotone:
  assumes "check_pod pod l = Inr ()" and "l' \<le> l"
  shows "check_pod pod l' = Inr ()"
proof -
  have "l' = Privileged \<or> l' = l \<or> l = Restricted \<and> l' = Baseline"
    using assms(2) by (cases l; cases l') (simp_all add: less_eq_level_def)
  then show ?thesis using assms(1) baseline_of_restricted by (auto simp: check_pod_def)
qed

definition root_free :: "json \<Rightarrow> bool" where
  "root_free context \<longleftrightarrow> idx context ''runAsNonRoot'' \<noteq> JBool False \<and> idx context ''runAsUser'' \<noteq> JInt 0"

definition restricted_pod :: "json \<Rightarrow> bool" where
  "restricted_pod pod \<longleftrightarrow>
     (let spec = idx pod ''spec''; pc = idx spec ''securityContext'' in
      (\<forall>f \<in> {''hostNetwork'', ''hostPID'', ''hostIPC''}. idx spec f \<noteq> JBool True)
      \<and> (\<forall>v \<in> set (items (idx spec ''volumes'')). idx v ''hostPath'' = JNull)
      \<and> root_free pc
      \<and> (\<forall>(q, c) \<in> set (pod_containers spec).
           restricted_container pc (idx c ''securityContext'') \<and> root_free (idx c ''securityContext'')
           \<and> at c [''securityContext'', ''privileged''] \<noteq> JBool True))"

lemma check_pod_restricted:
  assumes "check_pod pod Restricted = Inr ()"
  shows "restricted_pod pod"
proof -
  let ?spec = "idx pod ''spec''"
  let ?pc = "idx ?spec ''securityContext''"
  from assms have f: "\<forall>f \<in> {''hostNetwork'', ''hostPID'', ''hostIPC''}. idx ?spec f \<noteq> JBool True"
    and v: "\<forall>v \<in> set (items (idx ?spec ''volumes'')). check_volume True v = Inr ()"
    and x: "check_context True (''spec.securityContext'', ?pc) = Inr ()"
      "\<forall>(q, c) \<in> set (pod_containers ?spec). check_context True (q @ ''.securityContext'', idx c ''securityContext'') = Inr ()"
    and c: "\<forall>p \<in> set (pod_containers ?spec). check_container True ?pc p = Inr ()"
    by (auto simp: check_pod_def Let_def andThen_Inr_iff simp del: for_each.simps)
  have priv: "at (snd p) [''securityContext'', ''privileged''] \<noteq> JBool True" if "p \<in> set (pod_containers ?spec)" for p
    using c that by (auto simp: check_container_def container_surface_def Let_def andThen_Inr_iff)
  have root: "root_free (snd p)" if "check_context True p = Inr ()" for p
    using that unfolding check_context_ok [of True] root_free_def by blast
  have "root_free ?pc" using root [OF x(1)] by simp
  moreover have "root_free (idx c ''securityContext'')" if "(q, c) \<in> set (pod_containers ?spec)" for q c
    using root x(2) that by fastforce
  moreover have "\<forall>v \<in> set (items (idx ?spec ''volumes'')). idx v ''hostPath'' = JNull"
    using v by (simp add: check_volume_ok)
  ultimately show ?thesis
    using f priv c check_container_ok(2) unfolding restricted_pod_def Let_def by fastforce
qed

text \<open>
  Outside the three system namespaces, a Pod admitted to a namespace that does not relax the
  policy is restricted: no host namespace, no host path, no root request, and every container of
  every kind drops all capabilities, adds at most NET_BIND_SERVICE, forbids privilege escalation,
  runs as non-root and under an explicit seccomp profile.
\<close>

theorem default_namespace_restricts:
  assumes "pod_policy ns pod = Inr ()"
    and "as_str (at ns [''metadata'', ''name'']) = Some name" and "name \<notin> set SYSTEM_NAMESPACES"
    and "as_str (at ns [''metadata'', ''labels'', PREFIX @ ''enforce'']) \<notin> {Some ''privileged'', Some ''baseline''}"
  shows "restricted_pod pod"
proof -
  from assms(1) obtain lv where lv: "level_of (enforced ns) = Inr lv" and ok: "check_pod pod lv = Inr ()"
    by (auto simp: pod_policy_def Let_def andThen_Inr_iff split: if_splits)
  have "enforced ns \<noteq> ''privileged''" "enforced ns \<noteq> ''baseline''"
    using assms(2-4) unfolding enforced_def Let_def
    by (cases "as_str (at ns [''metadata'', ''labels'', PREFIX @ ''enforce''])"; auto)+
  with lv have "lv = Restricted" by (auto simp: level_of_def denied_def fail_def split: if_splits)
  with ok check_pod_restricted show ?thesis by simp
qed


definition secured_pod :: json where
  "secured_pod = JObj [(''metadata'', JObj [(''name'', JStr ''web'')]),
     (''spec'', JObj [(''containers'', JArr [secure_container ''web'' [data_mount ''/data'']]),
        (''securityContext'', JObj [(''runAsNonRoot'', JBool True)]), (''volumes'', JArr [claim_volume])])]"

definition plain_namespace :: "string \<Rightarrow> json" where
  "plain_namespace name = JObj [(''metadata'', JObj [(''name'', JStr name)])]"

theorem pod_security_monotone_witness: "check_pod secured_pod Baseline = Inr ()"
proof (rule pod_security_monotone)
  show "check_pod secured_pod Restricted = Inr ()" by code_simp
  show "Baseline \<le> Restricted" by (simp add: less_eq_level_def)
qed

theorem default_namespace_restricts_witness:
  "pod_policy (plain_namespace ''shop'') secured_pod = Inr () \<and> restricted_pod secured_pod
   \<and> pod_policy (plain_namespace ''shop'') (JObj [(''spec'', claim_pod)]) \<noteq> Inr ()"
proof -
  have ok: "pod_policy (plain_namespace ''shop'') secured_pod = Inr ()" by code_simp
  have "as_str (at (plain_namespace ''shop'') [''metadata'', ''name'']) = Some ''shop''" "''shop'' \<notin> set SYSTEM_NAMESPACES"
    "as_str (at (plain_namespace ''shop'') [''metadata'', ''labels'', PREFIX @ ''enforce'']) \<notin> {Some ''privileged'', Some ''baseline''}"
    by code_simp+
  from default_namespace_restricts [OF ok this] ok show ?thesis by (intro conjI) (assumption, assumption, code_simp)
qed

end
