(* ===== verification/Strategy_Kinds.thy ===== *)
theory Strategy_Kinds
  imports Quantity Ipv4 Ipv6 Selectors Pod_Profile Pod_Security
begin

text \<open>
  The strategy of each kind (\<^verbatim>\<open>crates/h3s-apiserver/src/strategy.rs\<close>): the defaults and the validation
  of Pod specs, workload templates, Services, storage objects and endpoint slices, as edits of the
  normalized JSON.  A panic of the source is \<open>Inl None\<close>.
\<close>

subsection \<open>Helpers\<close>

definition refuse :: "string \<Rightarrow> 'a guarded" where
  "refuse m = Inl (Some \<lparr>code = 422, reason = ''Invalid'', message = m\<rparr>)"

definition absent :: "json \<Rightarrow> string \<Rightarrow> bool" where
  "absent v key \<longleftrightarrow> (case getf v key of None \<Rightarrow> True | Some x \<Rightarrow> is_null x)"

definition default_member :: "string \<Rightarrow> json \<Rightarrow> json \<Rightarrow> json guarded" where
  "default_member key fallback v =
     (if absent v key \<or> (is_string fallback \<and> as_str (idx v key) = Some '''')
      then assign_member v key fallback else Inr v)"

definition one_of :: "json \<Rightarrow> string list \<Rightarrow> string \<Rightarrow> unit guarded" where
  "one_of v choices m =
     (if (case as_str v of None \<Rightarrow> False | Some s \<Rightarrow> s \<in> set choices) then Inr () else refuse m)"

definition helm_owned :: "json \<Rightarrow> string \<Rightarrow> bool" where
  "helm_owned v knd \<longleftrightarrow>
     (case as_str (at v [''metadata'', ''name'']) of None \<Rightarrow> False | Some name \<Rightarrow>
        starts_with ''sh.helm.release.v1.'' name
        \<and> as_str (at v [''metadata'', ''labels'', ''owner'']) = Some ''helm''
        \<and> (knd = ''ConfigMap'' \<or> as_str (idx v ''type'') = Some ''helm.sh/release.v1''))"

definition copy_member :: "string \<Rightarrow> json \<Rightarrow> json \<Rightarrow> json guarded" where
  "copy_member key from_doc v =
     (if absent from_doc key then Inr (remove_member v key) else assign_member v key (idx from_doc key))"

definition valid_port :: "json \<Rightarrow> unit guarded" where
  "valid_port v =
     (case as_i64 v of None \<Rightarrow> refuse ''port must be in 1..65535''
      | Some n \<Rightarrow> if 1 \<le> n \<and> n \<le> 65535 then Inr () else refuse ''port must be in 1..65535'')"

text \<open>A loop over the items in place that threads a state.\<close>

fun edit_fold :: "('s \<Rightarrow> json \<Rightarrow> ('s \<times> json) guarded) \<Rightarrow> 's \<Rightarrow> json list \<Rightarrow> ('s \<times> json list) guarded" where
  "edit_fold f st [] = Inr (st, [])"
| "edit_fold f st (x # xs) =
     (case f st x of
        Inl e \<Rightarrow> Inl e
      | Inr (st', y) \<Rightarrow> (case edit_fold f st' xs of Inl e \<Rightarrow> Inl e | Inr (st'', ys) \<Rightarrow> Inr (st'', y # ys)))"

text \<open>\<^verbatim>\<open>if let Some(xs) = v.get_mut(k).and_then(as_array_mut) { for x in xs ... }\<close>.\<close>

definition fold_member :: "('s \<Rightarrow> json \<Rightarrow> ('s \<times> json) guarded) \<Rightarrow> string \<Rightarrow> 's \<times> json \<Rightarrow> ('s \<times> json) guarded" where
  "fold_member f key p =
     (case p of (st, v) \<Rightarrow>
        (case (v, getf v key) of
           (JObj m, Some (JArr xs)) \<Rightarrow> andThen (edit_fold f st xs) (\<lambda>(st', ys). Inr (st', JObj (put key (JArr ys) m)))
         | _ \<Rightarrow> Inr (st, v)))"

subsection \<open>Pod specs\<close>

definition pod_port :: "json \<Rightarrow> json guarded" where
  "pod_port port =
     andThen (valid_port (idx port ''containerPort'')) (\<lambda>_.
     andThen (default_member ''protocol'' (JStr ''TCP'') port) (\<lambda>port.
     andThen (one_of (idx port ''protocol'') [''TCP'', ''UDP'', ''SCTP''] ''invalid port protocol'') (\<lambda>_. Inr port)))"

text \<open>The tag \<^verbatim>\<open>latest\<close>, also the one an image without a tag or digest has.\<close>

definition latest_image :: "string \<Rightarrow> bool" where
  "latest_image img \<longleftrightarrow> CHR ''@'' \<notin> set img
     \<and> (ends_with '':latest'' img \<or> CHR '':'' \<notin> set (last (split_on CHR ''/'' img)))"

definition pod_container :: "string set \<Rightarrow> json \<Rightarrow> (string set \<times> json) guarded" where
  "pod_container names c =
     (let name = or_default '''' (as_str (idx c ''name'')) in
      if \<not> valid_label_name name \<or> name \<in> names then refuse ''container names must be unique DNS labels''
      else (case as_str (idx c ''image'') of
          None \<Rightarrow> refuse ''container image is required''
        | Some img \<Rightarrow>
            if trim img = [] then refuse ''container image is required''
            else andThen (default_member ''imagePullPolicy'' (JStr (if latest_image img then ''Always'' else ''IfNotPresent'')) c) (\<lambda>c.
              andThen (default_member ''terminationMessagePath'' (JStr ''/dev/termination-log'') c) (\<lambda>c.
              andThen (default_member ''terminationMessagePolicy'' (JStr ''File'') c) (\<lambda>c.
              andThen (one_of (idx c ''imagePullPolicy'') [''Always'', ''IfNotPresent'', ''Never''] ''invalid imagePullPolicy'') (\<lambda>_.
              andThen (edit_member c ''ports'' (edit_items pod_port)) (\<lambda>c.
              Inr (insert name names, c))))))))"

definition service_account_alias :: "json \<Rightarrow> json guarded" where
  "service_account_alias spec =
     andThen (case filled (as_str (idx spec ''serviceAccount'')) of
         None \<Rightarrow> Inr spec
       | Some alias \<Rightarrow>
           if (case as_str (idx spec ''serviceAccountName'') of None \<Rightarrow> False | Some name \<Rightarrow> name \<noteq> [] \<and> name \<noteq> alias)
           then refuse ''serviceAccount and serviceAccountName must agree''
           else assign_member spec ''serviceAccountName'' (JStr alias)) (\<lambda>spec.
     andThen (default_member ''serviceAccountName'' (JStr ''default'') spec) (\<lambda>spec.
     assign_member spec ''serviceAccount'' (idx spec ''serviceAccountName'')))"

definition pod_strategy :: "json \<Rightarrow> json guarded" where
  "pod_strategy spec =
     (if \<not> is_object spec then refuse ''Pod spec is required''
      else if (case as_array (idx spec ''containers'') of None \<Rightarrow> True | Some l \<Rightarrow> l = [])
      then refuse ''at least one container is required''
      else andThen (default_member ''restartPolicy'' (JStr ''Always'') spec) (\<lambda>spec.
        andThen (default_member ''dnsPolicy'' (JStr ''ClusterFirst'') spec) (\<lambda>spec.
        andThen (default_member ''schedulerName'' (JStr ''default-scheduler'') spec) (\<lambda>spec.
        andThen (service_account_alias spec) (\<lambda>spec.
        andThen (default_member ''terminationGracePeriodSeconds'' (JInt 30) spec) (\<lambda>spec.
        let spec = profile_defaults spec in
        andThen (one_of (idx spec ''restartPolicy'') [''Always'', ''OnFailure'', ''Never''] ''invalid restartPolicy'') (\<lambda>_.
        andThen (one_of (idx spec ''dnsPolicy'') [''ClusterFirst'', ''Default'', ''ClusterFirstWithHostNet'', ''None''] ''invalid dnsPolicy'') (\<lambda>_.
        if (case as_i64 (idx spec ''terminationGracePeriodSeconds'') of None \<Rightarrow> True | Some v \<Rightarrow> v < 0)
        then refuse ''termination grace must be nonnegative''
        else andThen (fold_member pod_container ''containers'' ({}, spec)) (\<lambda>p.
             andThen (fold_member pod_container ''initContainers'' p) (\<lambda>(names, spec). Inr spec))))))))))"

subsection \<open>Workload templates\<close>

definition expression_matches :: "json \<Rightarrow> json \<Rightarrow> unit guarded" where
  "expression_matches labels e =
     (let key = or_default '''' (as_str (idx e ''key'')); vs = or_default [] (as_array (idx e ''values''));
          present = getf labels key \<noteq> None; listed = idx labels key \<in> set vs; oper = as_str (idx e ''operator'')
      in if key = [] then refuse ''selector expression key is required''
         else andThen (if oper = Some ''In'' \<and> vs \<noteq> [] then Inr (present \<and> listed)
             else if oper = Some ''NotIn'' \<and> vs \<noteq> [] then Inr (\<not> present \<or> \<not> listed)
             else if oper = Some ''Exists'' \<and> vs = [] then Inr present
             else if oper = Some ''DoesNotExist'' \<and> vs = [] then Inr (\<not> present)
             else refuse ''invalid selector operator or values'') (\<lambda>b.
           if b then Inr () else refuse ''selector does not match template labels''))"

definition selector_matches :: "json \<Rightarrow> json \<Rightarrow> unit guarded" where
  "selector_matches selector labels =
     (let wanted = or_default [] (as_object (idx selector ''matchLabels''));
          expressions = or_default [] (as_array (idx selector ''matchExpressions''))
      in andThen (for_each (\<lambda>(key, v). if idx labels key \<noteq> v then refuse ''selector does not match template labels'' else Inr ()) wanted) (\<lambda>_.
         andThen (for_each (expression_matches labels) expressions) (\<lambda>_.
         if length wanted + length expressions = 0 then refuse ''workload selector must not be empty'' else Inr ())))"

definition template_strategy :: "json \<Rightarrow> json guarded" where
  "template_strategy template =
     andThen (edit template ''spec'' pod_strategy) (\<lambda>template.
     if at template [''spec'', ''restartPolicy''] \<noteq> JStr ''Always''
     then refuse ''workload template restartPolicy must be Always''
     else andThen (map_err (map_option (\<lambda>e. \<lparr>code = 422, reason = ''Invalid'',
              message = ''template cannot run under the '' @ PROFILE_NAME @ '' runtime profile ('' @ CONTRACT_SET @ ''): '' @ e\<rparr>))
            (profile_check (idx template ''spec''))) (\<lambda>_. Inr template))"

definition rolling_defaults :: "json \<Rightarrow> json guarded" where
  "rolling_defaults strategy =
     andThen (default_member ''type'' (JStr ''RollingUpdate'') strategy) (\<lambda>strategy.
     andThen (one_of (idx strategy ''type'') [''RollingUpdate'', ''Recreate''] ''invalid deployment strategy'') (\<lambda>_.
     if idx strategy ''type'' = JStr ''RollingUpdate'' then
       andThen (default_member ''rollingUpdate'' (JObj []) strategy) (\<lambda>strategy.
       edit strategy ''rollingUpdate'' (\<lambda>rolling.
         andThen (default_member ''maxSurge'' (JStr ''25%'') rolling) (default_member ''maxUnavailable'' (JStr ''25%''))))
     else if \<not> absent strategy ''rollingUpdate'' then refuse ''Recreate cannot set rollingUpdate''
     else Inr strategy))"

definition workload_strategy :: "string \<Rightarrow> json \<Rightarrow> json guarded" where
  "workload_strategy knd spec =
     (if \<not> is_object spec then refuse ''spec is required''
      else andThen (default_member ''replicas'' (JInt 1) spec) (\<lambda>spec.
        if (case as_i64 (idx spec ''replicas'') of None \<Rightarrow> True | Some v \<Rightarrow> v < 0)
        then refuse ''replicas must be nonnegative''
        else if \<not> is_object (idx spec ''template'') then refuse ''template is required''
        else andThen (edit_member spec ''template'' template_strategy) (\<lambda>spec.
        andThen (selector_matches (idx spec ''selector'') (at spec [''template'', ''metadata'', ''labels''])) (\<lambda>_.
        if knd = ''Deployment'' then
          andThen (default_member ''revisionHistoryLimit'' (JInt 10) spec) (\<lambda>spec.
          andThen (default_member ''progressDeadlineSeconds'' (JInt 600) spec) (\<lambda>spec.
          andThen (default_member ''strategy'' (JObj []) spec) (\<lambda>spec.
          edit spec ''strategy'' rolling_defaults)))
        else Inr spec))))"


subsection \<open>Storage\<close>

definition storage_bytes :: "json \<Rightarrow> string \<Rightarrow> int guarded" where
  "storage_bytes v field =
     (case Option.bind (Option.bind (as_str v) parse_quantity) as_bytes of
        None \<Rightarrow> refuse (field @ '' must be a resource quantity'')
      | Some n \<Rightarrow> Inr n)"

definition access_modes :: "json \<Rightarrow> unit guarded" where
  "access_modes v =
     (case as_array v of
        None \<Rightarrow> refuse ''accessModes are required''
      | Some modes \<Rightarrow>
          if modes = [] then refuse ''accessModes are required''
          else for_each (\<lambda>m. one_of m [''ReadWriteOnce'', ''ReadOnlyMany'', ''ReadWriteMany''] ''unsupported accessMode'') modes)"

definition claim_update :: "json \<Rightarrow> json \<Rightarrow> int \<Rightarrow> unit guarded" where
  "claim_update old spec requested =
     (if list_ex (\<lambda>f. idx old f \<noteq> idx spec f) [''storageClassName'', ''volumeMode'']
      then refuse ''claim storage class and volume mode are immutable''
      else if idx old ''accessModes'' \<noteq> idx spec ''accessModes'' then refuse ''claim access modes are immutable''
      else andThen (storage_bytes (at old [''resources'', ''requests'', ''storage'']) ''storage'') (\<lambda>before.
        if before > requested then refuse ''a claim may not shrink its storage request''
        else if (case as_str (idx old ''volumeName'') of None \<Rightarrow> False
                 | Some v \<Rightarrow> v \<noteq> [] \<and> idx old ''volumeName'' \<noteq> idx spec ''volumeName'')
        then refuse ''a bound claim keeps its volume'' else Inr ()))"

definition claim_strategy :: "json option \<Rightarrow> json \<Rightarrow> json guarded" where
  "claim_strategy old spec =
     (if \<not> is_object spec then refuse ''PersistentVolumeClaim spec is required''
      else andThen (default_member ''volumeMode'' (JStr ''Filesystem'') spec) (\<lambda>spec.
        andThen (one_of (idx spec ''volumeMode'') [''Filesystem''] ''the local-path driver supports Filesystem claims'') (\<lambda>_.
        andThen (access_modes (idx spec ''accessModes'')) (\<lambda>_.
        andThen (storage_bytes (at spec [''resources'', ''requests'', ''storage'']) ''resources.requests.storage'') (\<lambda>requested.
        andThen (case old of None \<Rightarrow> Inr () | Some o' \<Rightarrow> claim_update o' spec requested) (\<lambda>_. Inr spec))))))"

definition LOCAL_PATH :: string where
  "LOCAL_PATH = ''/var/lib/hedronetes/local-path''"

definition trim_slashes :: "string \<Rightarrow> string" where
  "trim_slashes s = rev (dropWhile (\<lambda>c. c = CHR ''/'') (rev s))"

definition volume_strategy :: "json \<Rightarrow> json guarded" where
  "volume_strategy spec =
     (if \<not> is_object spec then refuse ''PersistentVolume spec is required''
      else andThen (default_member ''persistentVolumeReclaimPolicy'' (JStr ''Delete'') spec) (\<lambda>spec.
        andThen (default_member ''volumeMode'' (JStr ''Filesystem'') spec) (\<lambda>spec.
        andThen (one_of (idx spec ''persistentVolumeReclaimPolicy'') [''Delete'', ''Retain''] ''unsupported PersistentVolume reclaim policy'') (\<lambda>_.
        andThen (one_of (idx spec ''volumeMode'') [''Filesystem''] ''the local-path driver supports Filesystem volumes'') (\<lambda>_.
        andThen (access_modes (idx spec ''accessModes'')) (\<lambda>_.
        andThen (storage_bytes (at spec [''capacity'', ''storage'']) ''capacity.storage'') (\<lambda>_.
        if \<not> is_null (idx spec ''hostPath'') then refuse ''hostPath volumes are not implemented; use a local volume''
        else (case as_str (at spec [''local'', ''path'']) of
            None \<Rightarrow> refuse ''a local volume requires an absolute path without . or ..''
          | Some p \<Rightarrow>
              if \<not> (starts_with ''/'' p \<and> length p \<le> 4096 \<and> CHR 0x00 \<notin> set p \<and> \<not> contains_str ''..'' p)
              then refuse ''a local volume requires an absolute path without . or ..''
              else if trim_slashes p = LOCAL_PATH then refuse ''the local-path driver owns its own directory''
              else Inr spec))))))))"

definition storage_class_strategy :: "json \<Rightarrow> json guarded" where
  "storage_class_strategy v =
     (let provisioner = or_default '''' (as_str (idx v ''provisioner'')) in
      if \<not> (1 \<le> length provisioner \<and> length provisioner \<le> 253) \<or> contains_str ''..'' provisioner
         \<or> starts_with ''/'' provisioner \<or> ends_with ''/'' provisioner
         \<or> \<not> list_all (\<lambda>c. is_alnum c \<or> c \<in> set ''-._/'') provisioner
      then refuse ''StorageClass provisioner is required''
      else andThen (default_member ''reclaimPolicy'' (JStr ''Delete'') v) (\<lambda>v.
        andThen (default_member ''volumeBindingMode'' (JStr ''Immediate'') v) (\<lambda>v.
        andThen (one_of (idx v ''reclaimPolicy'') [''Delete'', ''Retain''] ''unsupported StorageClass reclaim policy'') (\<lambda>_.
        andThen (one_of (idx v ''volumeBindingMode'') [''Immediate''] ''only immediate volume binding is implemented'') (\<lambda>_. Inr v)))))"

subsection \<open>Services\<close>

definition unset_zero :: "string \<Rightarrow> json \<Rightarrow> json guarded" where
  "unset_zero key port = (if idx port key = JInt 0 then assign_member port key JNull else Inr port)"

definition service_port :: "bool \<Rightarrow> bool \<Rightarrow> string set \<Rightarrow> json \<Rightarrow> (string set \<times> json) guarded" where
  "service_port multiple node_port_type names port =
     andThen (valid_port (idx port ''port'')) (\<lambda>_.
     let target = idx port ''port'' in
     andThen (unset_zero ''targetPort'' port) (\<lambda>port.
     andThen (unset_zero ''nodePort'' port) (\<lambda>port.
     let np = idx port ''nodePort'' in
     andThen (if node_port_type then
         (if \<not> is_null np \<and> (case as_i64 np of None \<Rightarrow> True | Some n \<Rightarrow> \<not> (30000 \<le> n \<and> n \<le> 32767))
          then refuse ''nodePort must be between 30000 and 32767'' else Inr ())
       else if \<not> is_null np then refuse ''nodePort requires Service type NodePort'' else Inr ()) (\<lambda>_.
     andThen (default_member ''targetPort'' target port) (\<lambda>port.
     andThen (if is_number (idx port ''targetPort'') then valid_port (idx port ''targetPort'')
       else if (case as_str (idx port ''targetPort'') of None \<Rightarrow> False | Some s \<Rightarrow> valid_label_name s) then Inr ()
       else refuse ''invalid named targetPort'') (\<lambda>_.
     andThen (default_member ''protocol'' (JStr ''TCP'') port) (\<lambda>port.
     andThen (one_of (idx port ''protocol'') [''TCP'', ''UDP''] ''native Service forwarding supports TCP and UDP'') (\<lambda>_.
     let name = or_default '''' (as_str (idx port ''name'')) in
     if (multiple \<and> name = []) \<or> (name \<noteq> [] \<and> \<not> valid_label_name name) \<or> name \<in> names
     then refuse ''Service port names must be valid and unique''
     else Inr (insert name names, port)))))))))"

definition service_strategy :: "json \<Rightarrow> json guarded" where
  "service_strategy spec =
     (if \<not> is_object spec then refuse ''Service spec is required''
      else andThen (default_member ''type'' (JStr ''ClusterIP'') spec) (\<lambda>spec.
        andThen (one_of (idx spec ''type'') [''ClusterIP'', ''NodePort'', ''ExternalName'', ''LoadBalancer'']
           ''currently supported Service types are ClusterIP, NodePort, ExternalName and LoadBalancer'') (\<lambda>_.
        if idx spec ''type'' = JStr ''ExternalName'' then
          (if (case as_str (idx spec ''externalName'') of None \<Rightarrow> False | Some s \<Rightarrow> valid_name s) then Inr spec
           else refuse ''externalName must be a DNS name'')
        else andThen (default_member ''externalTrafficPolicy'' (JStr ''Cluster'') spec) (\<lambda>spec.
        andThen (one_of (idx spec ''externalTrafficPolicy'') [''Cluster''] ''externalTrafficPolicy Local is not implemented by the native Service proxy'') (\<lambda>_.
        if (case as_i64 (idx spec ''healthCheckNodePort'') of None \<Rightarrow> False | Some n \<Rightarrow> n \<noteq> 0)
        then refuse ''healthCheckNodePort is not implemented by the native Service proxy''
        else if idx spec ''type'' = JStr ''NodePort'' \<and> as_str (idx spec ''clusterIP'') = Some ''None''
        then refuse ''a NodePort Service requires a ClusterIP''
        else andThen (default_member ''sessionAffinity'' (JStr ''None'') spec) (\<lambda>spec.
        andThen (one_of (idx spec ''sessionAffinity'') [''None''] ''ClientIP affinity is not implemented by the native Service proxy'') (\<lambda>_.
        if (case as_array (idx spec ''externalIPs'') of None \<Rightarrow> False | Some l \<Rightarrow> l \<noteq> []) \<or> \<not> is_null (idx spec ''trafficDistribution'')
        then refuse ''externalIPs and trafficDistribution are not implemented by the native Service proxy''
        else andThen (default_member ''internalTrafficPolicy'' (JStr ''Cluster'') spec) (\<lambda>spec.
        andThen (one_of (idx spec ''internalTrafficPolicy'') [''Cluster'', ''Local''] ''invalid internalTrafficPolicy'') (\<lambda>_.
        let ports = or_default [] (as_array (idx spec ''ports'')) in
        if ports = [] then refuse ''Service ports are required''
        else andThen (fold_member (service_port (length ports > 1) (idx spec ''type'' = JStr ''NodePort'')) ''ports'' ({}, spec))
               (\<lambda>(names, spec). Inr spec))))))))))"

subsection \<open>Endpoint slices\<close>

definition address_valid :: "string \<Rightarrow> string \<Rightarrow> bool" where
  "address_valid address_type address =
     (if address_type = ''IPv4'' then parse_ipv4 address \<noteq> None
      else if address_type = ''IPv6'' then valid_ipv6 address
      else valid_name address)"

definition endpoint_addresses :: "string \<Rightarrow> json \<Rightarrow> unit guarded" where
  "endpoint_addresses address_type endpoint =
     (case as_array (idx endpoint ''addresses'') of
        None \<Rightarrow> refuse ''endpoint addresses required''
      | Some l \<Rightarrow>
          if l = [] then refuse ''endpoint addresses required''
          else for_each (\<lambda>x. if address_valid address_type (or_default '''' (as_str x)) then Inr ()
                             else refuse ''endpoint address does not match addressType'') l)"

definition endpoint_port :: "json \<Rightarrow> json guarded" where
  "endpoint_port port =
     andThen (if \<not> is_null (idx port ''port'') then valid_port (idx port ''port'') else Inr ()) (\<lambda>_.
     andThen (default_member ''protocol'' (JStr ''TCP'') port) (\<lambda>port.
     andThen (one_of (idx port ''protocol'') [''TCP'', ''UDP'', ''SCTP''] ''invalid endpoint protocol'') (\<lambda>_. Inr port)))"

definition endpoints_strategy :: "json \<Rightarrow> json guarded" where
  "endpoints_strategy v =
     andThen (one_of (idx v ''addressType'') [''IPv4'', ''IPv6'', ''FQDN''] ''invalid EndpointSlice addressType'') (\<lambda>_.
     andThen (for_each (endpoint_addresses (or_default '''' (as_str (idx v ''addressType'')))) (items (idx v ''endpoints''))) (\<lambda>_.
     edit_member v ''ports'' (edit_items endpoint_port)))"

end
