(* ===== verification/Strategy.thy ===== *)
theory Strategy
  imports Strategy_Kinds
begin

text \<open>
  \<^verbatim>\<open>strategy::prepare\<close> (\<^verbatim>\<open>crates/h3s-apiserver/src/strategy.rs\<close>): what every write does to the normalized
  object before admission.  A status write keeps everything but the status, any other write keeps the
  status; updates obey the immutability rules of the kind; the generation counts the spec changes.
  Parsing a CIDR is the \<^verbatim>\<open>ipnet\<close> library's, the parameter \<open>cidr_ok\<close>.
\<close>

subsection \<open>The strategy of a kind\<close>

definition node_strategy :: "(string \<Rightarrow> bool) \<Rightarrow> json \<Rightarrow> json guarded" where
  "node_strategy cidr_ok v =
     andThen (default_member ''spec'' (JObj []) v) (\<lambda>v.
     case filled (as_str (at v [''spec'', ''podCIDR''])) of
       None \<Rightarrow> Inr v
     | Some cidr \<Rightarrow> if cidr_ok cidr then Inr v else refuse ''invalid node podCIDR'')"

definition ingress_strategy :: "json \<Rightarrow> json guarded" where
  "ingress_strategy v =
     (if \<not> is_object (idx v ''spec'') then refuse ''Ingress spec is required''
      else if (case getf (idx v ''spec'') ''rules'' of None \<Rightarrow> False | Some rules \<Rightarrow> \<not> is_array rules)
      then refuse ''spec.rules must be an array''
      else if (case getf (idx v ''spec'') ''defaultBackend'' of None \<Rightarrow> False | Some b \<Rightarrow> \<not> is_object b)
      then refuse ''spec.defaultBackend must name a Service''
      else Inr v)"

definition lease_strategy :: "json \<Rightarrow> json guarded" where
  "lease_strategy v =
     (if (case as_i64 (at v [''spec'', ''leaseDurationSeconds'']) of None \<Rightarrow> False | Some d \<Rightarrow> d \<le> 0)
      then refuse ''lease duration must be positive'' else Inr v)"

definition kind_strategy :: "(string \<Rightarrow> bool) \<Rightarrow> string \<Rightarrow> json option \<Rightarrow> json \<Rightarrow> json guarded" where
  "kind_strategy cidr_ok knd old v =
     (if knd = ''Pod'' then edit v ''spec'' pod_strategy
      else if knd = ''Deployment'' \<or> knd = ''ReplicaSet'' then
        (if \<not> is_object (idx v ''spec'') then refuse ''spec is required'' else edit_member v ''spec'' (workload_strategy knd))
      else if knd = ''Service'' then edit v ''spec'' service_strategy
      else if knd = ''PersistentVolumeClaim'' then edit v ''spec'' (claim_strategy (map_option (\<lambda>o'. idx o' ''spec'') old))
      else if knd = ''PersistentVolume'' then edit v ''spec'' volume_strategy
      else if knd = ''StorageClass'' then storage_class_strategy v
      else if knd = ''Node'' then node_strategy cidr_ok v
      else if knd = ''EndpointSlice'' then endpoints_strategy v
      else if knd = ''Ingress'' then ingress_strategy v
      else if knd = ''Lease'' then lease_strategy v
      else Inr v)"

subsection \<open>Status\<close>

definition initial_status :: "string \<Rightarrow> json" where
  "initial_status knd =
     (if knd = ''Namespace'' then JObj [(''phase'', JStr ''Active'')]
      else if knd = ''Pod'' \<or> knd = ''PersistentVolumeClaim'' then JObj [(''phase'', JStr ''Pending'')]
      else JObj [])"

definition kept_status :: "string \<Rightarrow> json option \<Rightarrow> json" where
  "kept_status knd old =
     (case old of None \<Rightarrow> initial_status knd
      | Some o' \<Rightarrow> if absent o' ''status'' then initial_status knd else idx o' ''status'')"

definition status_strategy :: "string \<Rightarrow> json \<Rightarrow> json option \<Rightarrow> json guarded" where
  "status_strategy knd v old =
     (case old of None \<Rightarrow> panic | Some o' \<Rightarrow>
        let rv = at v [''metadata'', ''resourceVersion''] in
        andThen (copy_member ''spec'' o' v) (\<lambda>v.
        andThen (if knd \<noteq> ''Node'' then assign_member v ''metadata'' (idx o' ''metadata'') else Inr v) (\<lambda>v.
        andThen (edit v ''metadata'' (\<lambda>m. assign_member m ''resourceVersion'' rv)) (\<lambda>v.
        andThen (if knd = ''Pod'' \<and> \<not> is_null (at v [''status'', ''phase''])
                 then one_of (at v [''status'', ''phase'']) [''Pending'', ''Running'', ''Succeeded'', ''Failed'', ''Unknown''] ''invalid Pod status.phase''
                 else Inr ()) (\<lambda>_. Inr v)))))"

subsection \<open>Updates\<close>

text \<open>The stored Pod spec with the images of the update, where the container lists have one length.\<close>

definition with_images :: "json \<Rightarrow> string \<Rightarrow> json \<Rightarrow> json guarded" where
  "with_images after field before =
     (case (before, getf before field, as_array (idx after field)) of
        (JObj m, Some (JArr xs), Some ys) \<Rightarrow>
          if length xs = length ys
          then andThen (try_map (\<lambda>(a, b). assign_member a ''image'' (idx b ''image'')) (zip xs ys))
                 (\<lambda>zs. Inr (JObj (put field (JArr zs) m)))
          else Inr before
      | _ \<Rightarrow> Inr before)"

definition update_rules :: "string \<Rightarrow> json \<Rightarrow> json \<Rightarrow> unit guarded" where
  "update_rules knd v old =
     (if (knd = ''Deployment'' \<or> knd = ''ReplicaSet'') \<and> at v [''spec'', ''selector''] \<noteq> at old [''spec'', ''selector'']
      then refuse ''workload selector is immutable''
      else andThen (if knd = ''Pod'' then
             andThen (with_images (idx v ''spec'') ''containers'' (idx old ''spec'')) (\<lambda>allowed.
             andThen (with_images (idx v ''spec'') ''initContainers'' allowed) (\<lambda>allowed.
             if allowed \<noteq> idx v ''spec''
             then refuse ''this Pod update changes immutable spec fields; scheduling requires binding'' else Inr ()))
           else Inr ()) (\<lambda>_.
      if knd = ''EndpointSlice'' \<and> idx v ''addressType'' \<noteq> idx old ''addressType'' then refuse ''addressType is immutable''
      else if (knd = ''Secret'' \<or> knd = ''ConfigMap'') \<and> idx old ''immutable'' = JBool True
        \<and> (idx v ''immutable'' \<noteq> JBool True \<or> idx v ''data'' \<noteq> idx old ''data'' \<or> idx v ''binaryData'' \<noteq> idx old ''binaryData'')
      then refuse ''immutable object data cannot change''
      else if knd = ''Secret'' \<and> idx v ''type'' \<noteq> idx old ''type'' then refuse ''Secret type is immutable''
      else Inr ()))"

definition carry_generation :: "json \<Rightarrow> json option \<Rightarrow> json guarded" where
  "carry_generation v old =
     edit v ''metadata'' (\<lambda>m. case old of
        Some o' \<Rightarrow> assign_member m ''generation'' (at o' [''metadata'', ''generation''])
      | None \<Rightarrow> if is_object m then Inr (remove_member m ''generation'') else panic)"

definition spec_changed :: "string \<Rightarrow> json \<Rightarrow> json option \<Rightarrow> bool" where
  "spec_changed knd v old =
     (case old of None \<Rightarrow> False | Some o' \<Rightarrow>
        idx o' ''spec'' \<noteq> idx v ''spec''
        \<or> (knd = ''Deployment'' \<and> at o' [''metadata'', ''annotations''] \<noteq> at v [''metadata'', ''annotations'']))"

definition old_generation :: "json option \<Rightarrow> int" where
  "old_generation old = or_default 1 (Option.bind old (\<lambda>o'. as_i64 (at o' [''metadata'', ''generation''])))"

definition next_generation :: "string \<Rightarrow> json \<Rightarrow> json option \<Rightarrow> json guarded" where
  "next_generation knd v old =
     (case checked_i64 (old_generation old + (if spec_changed knd v old then 1 else 0)) of
        None \<Rightarrow> refuse ''generation overflow''
      | Some g \<Rightarrow> edit v ''metadata'' (\<lambda>m. assign_member m ''generation'' (JInt g)))"

definition prepare :: "(string \<Rightarrow> bool) \<Rightarrow> resource \<Rightarrow> json \<Rightarrow> json option \<Rightarrow> bool \<Rightarrow> json guarded" where
  "prepare cidr_ok r v old sub =
     (if sub then status_strategy (kind r) v old
      else andThen (if has_status r then assign_member v ''status'' (kept_status (kind r) old) else Inr v) (\<lambda>v.
        andThen (kind_strategy cidr_ok (kind r) old v) (\<lambda>v.
        andThen (case old of None \<Rightarrow> Inr () | Some o' \<Rightarrow> update_rules (kind r) v o') (\<lambda>_.
        andThen (carry_generation v old) (\<lambda>v.
        if has_generation r then next_generation (kind r) v old else Inr v)))))"


subsection \<open>What a strategy leaves alone\<close>

lemma idx_remove_member [simp]: "idx (remove_member v k) j = (if j = k then JNull else idx v j)"
  by (cases v) auto

lemma default_member_other: "default_member k fb v = Inr w \<Longrightarrow> j \<noteq> k \<Longrightarrow> idx w j = idx v j"
  by (auto simp: default_member_def split: if_splits dest: assign_member_InrD(3))

lemma copy_member_InrD:
  assumes "copy_member k from_doc v = Inr w"
  shows "idx w k = idx from_doc k" and "j \<noteq> k \<Longrightarrow> idx w j = idx v j"
  using assms by (auto simp: copy_member_def absent_def idx_def [of from_doc] split: if_splits option.splits dest: assign_member_InrD)

lemma if_elim: "(if b then x else y) = z \<Longrightarrow> (b \<Longrightarrow> x = z \<Longrightarrow> P) \<Longrightarrow> (\<not> b \<Longrightarrow> y = z \<Longrightarrow> P) \<Longrightarrow> P"
  by (simp split: if_splits)

lemma kind_strategy_frame:
  assumes "kind_strategy cidr_ok knd old v = Inr w"
  shows "idx w ''status'' = idx v ''status''" and "idx w ''metadata'' = idx v ''metadata''"
proof -
  have spec: "idx w ''status'' = idx v ''status'' \<and> idx w ''metadata'' = idx v ''metadata''"
    if "edit v ''spec'' f = Inr w" for f
    using edit_other [OF that] by simp
  have member: "idx w ''status'' = idx v ''status'' \<and> idx w ''metadata'' = idx v ''metadata''"
    if "edit_member v k f = Inr w" "k \<noteq> ''status''" "k \<noteq> ''metadata''" for k f
    using edit_member_other [OF that(1)] that(2,3) by simp
  have sc: "idx w ''status'' = idx v ''status'' \<and> idx w ''metadata'' = idx v ''metadata''"
    if s: "storage_class_strategy v = Inr w"
  proof -
    from s obtain x where d: "default_member ''reclaimPolicy'' (JStr ''Delete'') v = Inr x"
      "default_member ''volumeBindingMode'' (JStr ''Immediate'') x = Inr w"
      unfolding storage_class_strategy_def Let_def refuse_def if_Inl_Inr_iff andThen_Inr_iff by blast
    show ?thesis using default_member_other [OF d(1)] default_member_other [OF d(2)] by simp
  qed
  have node: "idx w ''status'' = idx v ''status'' \<and> idx w ''metadata'' = idx v ''metadata''"
    if n: "node_strategy cidr_ok v = Inr w"
  proof -
    from n have d: "default_member ''spec'' (JObj []) v = Inr w"
      by (auto simp: node_strategy_def andThen_Inr_iff refuse_def split: if_splits option.splits)
    show ?thesis using default_member_other [OF d] by simp
  qed
  have ends: "idx w ''status'' = idx v ''status'' \<and> idx w ''metadata'' = idx v ''metadata''"
    if "endpoints_strategy v = Inr w"
    using that member [of "''ports''"] by (auto simp: endpoints_strategy_def andThen_Inr_iff)
  have same: "ingress_strategy v = Inr w \<Longrightarrow> w = v" "lease_strategy v = Inr w \<Longrightarrow> w = v"
    by (auto simp: ingress_strategy_def lease_strategy_def refuse_def split: if_splits option.splits)
  from assms have "idx w ''status'' = idx v ''status'' \<and> idx w ''metadata'' = idx v ''metadata''"
    unfolding kind_strategy_def
    by (elim if_elim) (auto simp: refuse_def dest: spec member [of "''spec''"] sc node ends same)
  then show "idx w ''status'' = idx v ''status''" "idx w ''metadata'' = idx v ''metadata''" by blast+
qed

lemma carry_generation_InrD:
  assumes "carry_generation v old = Inr w"
  shows "k \<noteq> ''metadata'' \<Longrightarrow> idx w k = idx v k" and "k \<noteq> ''generation'' \<Longrightarrow> at w [''metadata'', k] = at v [''metadata'', k]"
proof -
  from assms show "idx w k = idx v k" if "k \<noteq> ''metadata''" using that by (auto simp: carry_generation_def dest: edit_other)
  from edit_InrD(1) [OF assms [unfolded carry_generation_def]]
  show "at w [''metadata'', k] = at v [''metadata'', k]" if "k \<noteq> ''generation''"
    using that by (auto split: option.splits if_splits dest!: assign_member_InrD(3) dest: sym [of "remove_member _ _"])
qed

lemma next_generation_InrD:
  assumes "next_generation knd v old = Inr w"
  shows "k \<noteq> ''metadata'' \<Longrightarrow> idx w k = idx v k" and "k \<noteq> ''generation'' \<Longrightarrow> at w [''metadata'', k] = at v [''metadata'', k]"
    and "at w [''metadata'', ''generation''] = JInt (old_generation old + (if spec_changed knd v old then 1 else 0))"
proof -
  from assms obtain g where g: "g = old_generation old + (if spec_changed knd v old then 1 else 0)"
    and e: "edit v ''metadata'' (\<lambda>m. assign_member m ''generation'' (JInt g)) = (Inr w :: json guarded)"
    by (auto simp: next_generation_def refuse_def split: option.splits)
  show "idx w k = idx v k" if "k \<noteq> ''metadata''" using edit_other [OF e that] .
  note a = assign_member_InrD [OF edit_InrD(1) [OF e]]
  show "at w [''metadata'', k] = at v [''metadata'', k]" if "k \<noteq> ''generation''" using a(3) that by simp
  show "at w [''metadata'', ''generation''] = JInt (old_generation old + (if spec_changed knd v old then 1 else 0))"
    using a(1) g by simp
qed


lemma prepare_spec_InrD:
  assumes "prepare cidr_ok r v old False = Inr w"
  obtains v1 v2 v3 where "(if has_status r then assign_member v ''status'' (kept_status (kind r) old) else Inr v) = (Inr v1 :: json guarded)"
    and "kind_strategy cidr_ok (kind r) old v1 = Inr v2"
    and "(case old of None \<Rightarrow> Inr () | Some o' \<Rightarrow> update_rules (kind r) v2 o') = Inr ()"
    and "carry_generation v2 old = Inr v3"
    and "(if has_generation r then next_generation (kind r) v3 old else Inr v3) = Inr w"
  using assms by (auto simp: prepare_def andThen_Inr_iff)


text \<open>
  The generation counts spec changes: an accepted update of a Pod, Deployment or ReplicaSet has
  the stored generation, plus one exactly when the resulting spec differs from the stored one (or the
  annotations of a Deployment do); a creation has generation 1.
\<close>

theorem generation_exact:
  assumes "prepare cidr_ok r v old False = Inr w" and "has_generation r"
  shows "at w [''metadata'', ''generation''] = JInt (old_generation old + (if spec_changed (kind r) w old then 1 else 0))"
proof -
  from prepare_spec_InrD [OF assms(1)] obtain v1 v2 v3 where
    k: "kind_strategy cidr_ok (kind r) old v1 = Inr v2" and c: "carry_generation v2 old = Inr v3"
    and g: "(if has_generation r then next_generation (kind r) v3 old else Inr v3) = Inr w" .
  from g assms(2) have n: "next_generation (kind r) v3 old = Inr w" by simp
  have "idx w ''spec'' = idx v3 ''spec''" "at w [''metadata'', ''annotations''] = at v3 [''metadata'', ''annotations'']"
    using next_generation_InrD(1,2) [OF n] by simp_all
  then have "spec_changed (kind r) w old = spec_changed (kind r) v3 old"
    unfolding spec_changed_def by (simp split: option.split)
  then show ?thesis using next_generation_InrD(3) [OF n] by simp
qed

text \<open>Two container lists with the same containers but for their images.\<close>

definition same_but_image :: "json \<Rightarrow> json \<Rightarrow> bool" where
  "same_but_image c c' \<longleftrightarrow> (\<forall>k. k \<noteq> ''image'' \<longrightarrow> idx c' k = idx c k)"

lemma with_images_frame:
  assumes "with_images after field before = Inr w"
  shows "k \<noteq> field \<Longrightarrow> idx w k = idx before k"
    and "list_all2 same_but_image (items (idx before field)) (items (idx w field))"
proof -
  have refl: "list_all2 same_but_image xs xs" for xs by (simp add: list_all2_same same_but_image_def)
  have "(k \<noteq> field \<longrightarrow> idx w k = idx before k) \<and> list_all2 same_but_image (items (idx before field)) (items (idx w field))" for k
  proof (cases "w = before")
    case True
    then show ?thesis by (simp add: refl)
  next
    case False
    with assms obtain m xs ys zs where m: "before = JObj m" "map_of m field = Some (JArr xs)" "length xs = length ys"
      and z: "try_map (\<lambda>(a, b). assign_member a ''image'' (idx b ''image'')) (zip xs ys) = (Inr zs :: (failure option, json list) result)"
      and w: "w = JObj (put field (JArr zs) m)"
      by (auto simp: with_images_def andThen_Inr_iff split: json.splits option.splits if_splits)
    have "list_all2 same_but_image xs zs"
      using z m(3) unfolding try_map_Inr_iff list_all2_conv_all_nth
      by (auto simp: same_but_image_def dest: assign_member_InrD(3))
    with m w show ?thesis by simp
  qed
  then show "k \<noteq> field \<Longrightarrow> idx w k = idx before k"
    and "list_all2 same_but_image (items (idx before field)) (items (idx w field))" by blast+
qed

text \<open>
  An accepted update of a Pod changes nothing of its spec but container images: every other
  member is the stored one, and the containers agree one by one in everything else.  So it neither
  moves the Pod to another node nor changes its security context or volumes.
\<close>

theorem pod_update_frozen:
  assumes "prepare cidr_ok r v (Some old) False = Inr w" and "kind r = ''Pod''"
  shows "(\<forall>k. k \<notin> {''containers'', ''initContainers''} \<longrightarrow> at w [''spec'', k] = at old [''spec'', k])
    \<and> list_all2 same_but_image (items (at old [''spec'', ''containers''])) (items (at w [''spec'', ''containers'']))
    \<and> list_all2 same_but_image (items (at old [''spec'', ''initContainers''])) (items (at w [''spec'', ''initContainers'']))"
proof -
  from prepare_spec_InrD [OF assms(1)] obtain v2 v3 where
    u: "(case Some old of None \<Rightarrow> Inr () | Some o' \<Rightarrow> update_rules (kind r) v2 o') = Inr ()"
    and c: "carry_generation v2 (Some old) = Inr v3"
    and g: "(if has_generation r then next_generation (kind r) v3 (Some old) else Inr v3) = Inr w" .
  have spec: "idx w ''spec'' = idx v2 ''spec''"
    using g carry_generation_InrD(1) [OF c, of "''spec''"]
    by (auto split: if_splits dest: next_generation_InrD(1) [where k = "''spec''"])
  from u assms(2) obtain x where x: "with_images (idx v2 ''spec'') ''containers'' (idx old ''spec'') = Inr x"
    "with_images (idx v2 ''spec'') ''initContainers'' x = Inr (idx v2 ''spec'')"
    by (auto simp: update_rules_def andThen_Inr_iff refuse_def split: if_splits)
  note a = with_images_frame [OF x(1)] and b = with_images_frame [OF x(2)]
  have "at w [''spec'', k] = at old [''spec'', k]" if "k \<notin> {''containers'', ''initContainers''}" for k
    using a(1) [of k] b(1) [of k] spec that by simp
  moreover have "list_all2 same_but_image (items (at old [''spec'', ''containers''])) (items (at w [''spec'', ''containers'']))"
    using a(2) b(1) [of "''containers''"] spec by simp
  moreover have "list_all2 same_but_image (items (at old [''spec'', ''initContainers''])) (items (at w [''spec'', ''initContainers'']))"
    using b(2) a(1) [of "''initContainers''"] spec by simp
  ultimately show ?thesis by blast
qed


subsection \<open>A Pod, its status and its image updated\<close>

definition the_answer :: "json guarded \<Rightarrow> json" where
  "the_answer r = (case r of Inl _ \<Rightarrow> JNull | Inr w \<Rightarrow> w)"

definition pods :: resource where
  "pods = res '''' ''pods'' ''Pod'' True"

definition web_pod :: "string \<Rightarrow> (string \<times> json) list \<Rightarrow> json" where
  "web_pod img meta = JObj [(''metadata'', JObj ((''name'', JStr ''web'') # meta)),
     (''spec'', JObj [(''containers'', JArr [JObj [(''image'', JStr img), (''name'', JStr ''web'')]])]),
     (''status'', JObj [(''phase'', JStr ''Running'')])]"

definition created_pod :: json where
  "created_pod = the_answer (prepare (\<lambda>_. True) pods (web_pod ''nginx:1'' []) None False)"

definition updated_pod :: json where
  "updated_pod = the_answer (prepare (\<lambda>_. True) pods (web_pod ''nginx:2'' [(''resourceVersion'', JStr ''7'')]) (Some created_pod) False)"

definition running_pod :: json where
  "running_pod = the_answer (prepare (\<lambda>_. True) pods (web_pod ''evil'' [(''resourceVersion'', JStr ''8'')]) (Some updated_pod) True)"

lemma pod_writes:
  "prepare (\<lambda>_. True) pods (web_pod ''nginx:1'' []) None False = Inr created_pod"
  "prepare (\<lambda>_. True) pods (web_pod ''nginx:2'' [(''resourceVersion'', JStr ''7'')]) (Some created_pod) False = Inr updated_pod"
  "prepare (\<lambda>_. True) pods (web_pod ''evil'' [(''resourceVersion'', JStr ''8'')]) (Some updated_pod) True = Inr running_pod"
  by code_simp+


theorem generation_exact_witness:
  "at created_pod [''metadata'', ''generation''] = JInt 1 \<and> at updated_pod [''metadata'', ''generation''] = JInt 2"
proof -
  have "has_generation pods" "old_generation None = 1" "\<not> spec_changed (kind pods) created_pod None"
    "old_generation (Some created_pod) = 1" "spec_changed (kind pods) updated_pod (Some created_pod)"
    by code_simp+
  then show ?thesis using generation_exact [OF pod_writes(1)] generation_exact [OF pod_writes(2)] by simp
qed

theorem pod_update_frozen_witness:
  "at updated_pod [''spec'', ''serviceAccountName''] = at created_pod [''spec'', ''serviceAccountName'']
   \<and> items (at updated_pod [''spec'', ''containers'']) \<noteq> items (at created_pod [''spec'', ''containers''])"
proof -
  have k: "kind pods = ''Pod''" and n: "''serviceAccountName'' \<notin> {''containers'', ''initContainers''}"
    and i: "items (at updated_pod [''spec'', ''containers'']) \<noteq> items (at created_pod [''spec'', ''containers''])"
    by code_simp+
  show ?thesis
    by (rule conjI [OF mp [OF spec [OF conjunct1 [OF pod_update_frozen [OF pod_writes(2) k]]] n] i])
qed

end
