(* ===== verification/Service_Accounts.thy ===== *)
theory Service_Accounts
  imports Api_Actions Authz Pod_Security
begin

text \<open>
  Pod ServiceAccount admission (\<^verbatim>\<open>crates/h3s-apiserver/src/serviceaccounts.rs\<close>): the account must
  exist and live, the bound token is projected into the Pod on request, and an account that enforces
  its mountable secrets confines the Pod's references to them.
\<close>

subsection \<open>The projected token\<close>

definition MOUNT_PATH :: string where
  "MOUNT_PATH = ''/var/run/secrets/kubernetes.io/serviceaccount''"

definition token_volume :: "string \<Rightarrow> json" where
  "token_volume name =
     JObj [(''name'', JStr name),
       (''projected'', JObj [(''defaultMode'', JInt 420), (''sources'', JArr [
          JObj [(''serviceAccountToken'', JObj [(''expirationSeconds'', JInt 3607), (''path'', JStr ''token'')])],
          JObj [(''configMap'', JObj [(''items'', JArr [JObj [(''key'', JStr ''ca.crt''), (''path'', JStr ''ca.crt'')]]),
                   (''name'', JStr ''kube-root-ca.crt'')])],
          JObj [(''downwardAPI'', JObj [(''items'', JArr [JObj [
                   (''fieldRef'', JObj [(''apiVersion'', JStr ''v1''), (''fieldPath'', JStr ''metadata.namespace'')]),
                   (''path'', JStr ''namespace'')]])])]])])]"

definition token_mount :: "string \<Rightarrow> json" where
  "token_mount name = JObj [(''mountPath'', JStr MOUNT_PATH), (''name'', JStr name), (''readOnly'', JBool True)]"

definition projected_volume_name :: "env \<Rightarrow> json \<Rightarrow> string" where
  "projected_volume_name a spec =
     (case List.map_filter (\<lambda>v. if is_null (idx v ''projected'') then None else as_str (idx v ''name'')) (items (idx spec ''volumes'')) of
        n # _ \<Rightarrow> n
      | [] \<Rightarrow> ''kube-api-access-'' @ take 5 (new_uid a ''projection''))"

text \<open>\<^verbatim>\<open>entry(k).or_insert_with([])\<close> followed by \<^verbatim>\<open>as_array_mut().expect(..)\<close>.\<close>

definition push_entry :: "string \<Rightarrow> (json list \<Rightarrow> json list) \<Rightarrow> json \<Rightarrow> json guarded" where
  "push_entry key f v =
     (case v of
        JObj m \<Rightarrow> (case or_default (JArr []) (map_of m key) of JArr xs \<Rightarrow> Inr (JObj (put key (JArr (f xs)) m)) | _ \<Rightarrow> panic)
      | _ \<Rightarrow> panic)"

definition mount_token :: "string \<Rightarrow> json \<Rightarrow> json guarded" where
  "mount_token name =
     push_entry ''volumeMounts''
       (\<lambda>mounts. if list_ex (\<lambda>m. idx m ''mountPath'' = JStr MOUNT_PATH) mounts then mounts else mounts @ [token_mount name])"

definition project_token :: "env \<Rightarrow> json \<Rightarrow> json guarded" where
  "project_token a spec =
     (let name = projected_volume_name a spec in
      if \<not> is_object spec then Inr spec
      else andThen (if (case as_array (idx spec ''volumes'') of None \<Rightarrow> True
                        | Some vs \<Rightarrow> \<not> list_ex (\<lambda>v. as_str (idx v ''name'') = Some name) vs)
                    then push_entry ''volumes'' (\<lambda>vs. vs @ [token_volume name]) spec else Inr spec) (\<lambda>spec.
           andThen (edit_member spec ''containers'' (edit_items (mount_token name))) (\<lambda>spec.
           edit_member spec ''initContainers'' (edit_items (mount_token name)))))"

subsection \<open>Secret references\<close>

definition names_of :: "json \<Rightarrow> string list" where
  "names_of v = List.map_filter (\<lambda>x. as_str (idx x ''name'')) (items v)"

definition volume_secrets :: "json \<Rightarrow> string list" where
  "volume_secrets volume =
     (case as_str (at volume [''secret'', ''secretName'']) of None \<Rightarrow> [] | Some n \<Rightarrow> [n])
     @ List.map_filter (\<lambda>src. as_str (at src [''secret'', ''name''])) (items (at volume [''projected'', ''sources'']))"

definition container_secrets :: "json \<Rightarrow> string list" where
  "container_secrets c =
     List.map_filter (\<lambda>e. as_str (at e [''valueFrom'', ''secretKeyRef'', ''name''])) (items (idx c ''env''))
     @ List.map_filter (\<lambda>e. as_str (at e [''secretRef'', ''name''])) (items (idx c ''envFrom''))"

definition secret_refs :: "json \<Rightarrow> string list" where
  "secret_refs spec =
     concat (map volume_secrets (items (idx spec ''volumes'')))
     @ concat (map (\<lambda>f. concat (map container_secrets (items (idx spec f)))) [''containers'', ''initContainers'', ''ephemeralContainers''])"

definition validate_secret_references :: "json \<Rightarrow> json \<Rightarrow> unit answer" where
  "validate_secret_references spec account =
     (let allowed = set (names_of (idx account ''secrets'')); pulls = set (names_of (idx account ''imagePullSecrets'')) in
      if list_ex (\<lambda>n. n \<notin> allowed) (secret_refs spec)
      then denied ''Pod references a secret not allowed by its service account''
      else if list_ex (\<lambda>v. case as_str (idx v ''name'') of None \<Rightarrow> True | Some n \<Rightarrow> n \<notin> pulls) (items (idx spec ''imagePullSecrets''))
      then denied ''Pod references an image pull secret not allowed by its service account''
      else Inr ())"

subsection \<open>Admission\<close>

definition ascii_lower :: "string \<Rightarrow> string" where
  "ascii_lower s = map (\<lambda>c. if is_upper c then char_of ((of_char c :: nat) + 32) else c) s"

definition account_enforces :: "json \<Rightarrow> bool" where
  "account_enforces account \<longleftrightarrow>
     (case as_str (at account [''metadata'', ''annotations'', ''kubernetes.io/enforce-mountable-secrets'']) of
        None \<Rightarrow> False
      | Some v \<Rightarrow> v = ''1'' \<or> ascii_lower v = ''true'' \<or> ascii_lower v = ''t'')"

definition load_account :: "env \<Rightarrow> registry \<Rightarrow> string \<Rightarrow> string \<Rightarrow> json answer" where
  "load_account a db ns name =
     andThen (api_key (''/registry/serviceaccounts/'' @ ns @ ''/'' @ name)) (\<lambda>k.
     andThen (api_get a db k) (\<lambda>x.
     case x of
       None \<Rightarrow> denied ''Pod service account does not exist in its namespace''
     | Some ob \<Rightarrow> object a ob))"

definition account_of :: "json \<Rightarrow> string" where
  "account_of spec = or_default ''default'' (as_str (idx spec ''serviceAccountName''))"

definition admit_spec :: "env \<Rightarrow> registry \<Rightarrow> string \<Rightarrow> json \<Rightarrow> json guarded" where
  "admit_spec a db ns spec =
     (let name = account_of spec in
      if \<not> resource_valid_name (res '''' ''serviceaccounts'' ''ServiceAccount'' True) name
      then no_panic (fail 422 ''Invalid'' ''invalid serviceAccountName'')
      else andThen (no_panic (load_account a db ns name)) (\<lambda>account.
        if \<not> is_null (at account [''metadata'', ''deletionTimestamp'']) then no_panic (denied ''Pod service account is terminating'')
        else andThen (if items (idx spec ''imagePullSecrets'') = [] \<and> \<not> is_null (idx account ''imagePullSecrets'')
                      then assign_member spec ''imagePullSecrets'' (idx account ''imagePullSecrets'') else Inr spec) (\<lambda>spec.
        andThen (if idx spec ''automountServiceAccountToken'' = JBool True then project_token a spec else Inr spec) (\<lambda>spec.
        andThen (if account_enforces account then no_panic (validate_secret_references spec account) else Inr ()) (\<lambda>_.
        Inr spec)))))"

definition admit_account :: "env \<Rightarrow> registry \<Rightarrow> string \<Rightarrow> json \<Rightarrow> json guarded" where
  "admit_account a db ns pod =
     (if getf (at pod [''metadata'', ''annotations'']) ''kubernetes.io/config.mirror'' \<noteq> None
      then no_panic (denied ''mirror Pod admission is not implemented'')
      else edit pod ''spec'' (admit_spec a db ns))"

subsection \<open>Enforced accounts confine their Pods\<close>

text \<open>
  A Pod admitted under an account that enforces its mountable secrets refers, through volumes,
  projections, environment and image pulls of every container, only to the secrets the account
  lists, also after the account's pull secrets and the token projection were added; and its account
  exists in its namespace and is not being deleted.
\<close>

theorem mountable_secrets_enforced:
  assumes "admit_account a db ns pod = Inr pod'"
  shows "\<exists>account. load_account a db ns (account_of (idx pod ''spec'')) = Inr account
    \<and> at account [''metadata'', ''deletionTimestamp''] = JNull
    \<and> (account_enforces account \<longrightarrow>
        set (secret_refs (idx pod' ''spec'')) \<subseteq> set (names_of (idx account ''secrets''))
        \<and> (\<forall>v \<in> set (items (at pod' [''spec'', ''imagePullSecrets''])).
             \<exists>n \<in> set (names_of (idx account ''imagePullSecrets'')). as_str (idx v ''name'') = Some n))"
proof -
  from assms have "edit pod ''spec'' (admit_spec a db ns) = Inr pod'"
    by (auto simp: admit_account_def denied_def fail_def no_panic_def map_err_def split: if_splits)
  from edit_InrD(1) [OF this] have ok: "admit_spec a db ns (idx pod ''spec'') = Inr (idx pod' ''spec'')" .
  have inl: "\<And>m. no_panic (denied m) = Inl (Some \<lparr>code = 403, reason = ''Forbidden'', message = m\<rparr>)"
    "\<And>m. no_panic (fail 422 ''Invalid'' m) = Inl (Some \<lparr>code = 422, reason = ''Invalid'', message = m\<rparr>)"
    by (simp_all add: denied_def fail_def no_panic_def)
  from ok obtain account where acc: "load_account a db ns (account_of (idx pod ''spec'')) = Inr account"
    and live: "\<not> \<not> is_null (at account [''metadata'', ''deletionTimestamp''])"
    and chk: "(if account_enforces account then no_panic (validate_secret_references (idx pod' ''spec'') account) else Inr ()) = Inr ()"
    unfolding admit_spec_def Let_def inl if_Inl_Inr_iff andThen_Inr_iff no_panic_simps by auto
  have "set (secret_refs (idx pod' ''spec'')) \<subseteq> set (names_of (idx account ''secrets''))
      \<and> (\<forall>v \<in> set (items (at pod' [''spec'', ''imagePullSecrets''])).
             \<exists>n \<in> set (names_of (idx account ''imagePullSecrets'')). as_str (idx v ''name'') = Some n)"
    if "account_enforces account"
    using chk that
    by (auto simp: validate_secret_references_def Let_def no_panic_simps list_ex_iff split: if_splits option.splits)
  with acc live show ?thesis by auto
qed


definition strict_account :: json where
  "strict_account = JObj [(''imagePullSecrets'', JArr [JObj [(''name'', JStr ''regcred'')]]),
     (''metadata'', JObj [(''annotations'', JObj [(''kubernetes.io/enforce-mountable-secrets'', JStr ''True'')]), (''name'', JStr ''app'')]),
     (''secrets'', JArr [JObj [(''name'', JStr ''db'')]])]"

definition account_registry :: registry where
  "account_registry = foldl store_text empty_registry [(''/registry/serviceaccounts/shop/app'', ''A'')]"

definition secret_pod :: "string \<Rightarrow> json" where
  "secret_pod secret = JObj [(''metadata'', JObj []), (''spec'', JObj [
     (''automountServiceAccountToken'', JBool True), (''containers'', JArr [JObj [(''name'', JStr ''web'')]]),
     (''serviceAccountName'', JStr ''app''),
     (''volumes'', JArr [JObj [(''name'', JStr ''v''), (''secret'', JObj [(''secretName'', JStr secret)])]])])]"

definition admitted_pod :: json where
  "admitted_pod = JObj [(''metadata'', JObj []), (''spec'', JObj [
     (''automountServiceAccountToken'', JBool True),
     (''containers'', JArr [JObj [(''name'', JStr ''web''), (''volumeMounts'', JArr [token_mount ''kube-api-access-uid-p''])]]),
     (''imagePullSecrets'', JArr [JObj [(''name'', JStr ''regcred'')]]),
     (''serviceAccountName'', JStr ''app''),
     (''volumes'', JArr [JObj [(''name'', JStr ''v''), (''secret'', JObj [(''secretName'', JStr ''db'')])],
        token_volume ''kube-api-access-uid-p''])])]"

theorem mountable_secrets_enforced_witness:
  "admit_account (demo_env [(''A'', strict_account)]) account_registry ''shop'' (secret_pod ''db'') = Inr admitted_pod
   \<and> set (secret_refs (idx admitted_pod ''spec'')) \<subseteq> {''db''}
   \<and> \<not> is_ok (admit_account (demo_env [(''A'', strict_account)]) account_registry ''shop'' (secret_pod ''root''))"
proof -
  let ?a = "demo_env [(''A'', strict_account)]"
  have ok: "admit_account ?a account_registry ''shop'' (secret_pod ''db'') = Inr admitted_pod" by code_simp
  from mountable_secrets_enforced [OF ok] obtain account where
    acc: "load_account ?a account_registry ''shop'' (account_of (idx (secret_pod ''db'') ''spec'')) = Inr account"
    and e: "account_enforces account \<longrightarrow> set (secret_refs (idx admitted_pod ''spec'')) \<subseteq> set (names_of (idx account ''secrets''))"
    by blast
  have "load_account ?a account_registry ''shop'' (account_of (idx (secret_pod ''db'') ''spec''))
      = object ?a \<lparr>okey = ''/registry/serviceaccounts/shop/app'', ovalue = ''A'', orevision = 1\<rparr>" by code_simp
  with acc have o: "object ?a \<lparr>okey = ''/registry/serviceaccounts/shop/app'', ovalue = ''A'', orevision = 1\<rparr> = Inr account" by simp
  have "object ?a \<lparr>okey = ''/registry/serviceaccounts/shop/app'', ovalue = ''A'', orevision = 1\<rparr>
     = Inr (JObj (put ''metadata'' (JObj [(''annotations'', JObj [(''kubernetes.io/enforce-mountable-secrets'', JStr ''True'')]),
         (''name'', JStr ''app''), (''resourceVersion'', JStr ''1'')]) [(''imagePullSecrets'', JArr [JObj [(''name'', JStr ''regcred'')]]),
         (''secrets'', JArr [JObj [(''name'', JStr ''db'')]])]))" (is "_ = Inr ?doc") by code_simp
  with o have doc: "account = ?doc" by simp
  have "account_enforces ?doc" "names_of (idx ?doc ''secrets'') = [''db'']" by code_simp+
  with e have "set (secret_refs (idx admitted_pod ''spec'')) \<subseteq> {''db''}" unfolding doc by simp
  moreover have "\<not> is_ok (admit_account ?a account_registry ''shop'' (secret_pod ''root''))" by code_simp
  ultimately show ?thesis using ok by blast
qed

end
