(* ===== verification/Volume_Claims.thy ===== *)
theory Volume_Claims
  imports Api_Actions Authz Quantity Pod_Security
begin

text \<open>
  Local-path claim binding (\<^verbatim>\<open>crates/h3s-apiserver/src/pvc.rs\<close>): a new claim either binds the
  PersistentVolume it names or, where its StorageClass is the API's own, gets one provisioned.
\<close>

definition PROVISIONER :: string where
  "PROVISIONER = ''h3s.io/local-path''"

definition BASE :: string where
  "BASE = ''/var/lib/hedronetes/local-path''"

definition invalid_claim :: "string \<Rightarrow> 'a guarded" where
  "invalid_claim m = Inl (Some \<lparr>code = 422, reason = ''Invalid'', message = m\<rparr>)"

definition claim_path :: "string \<Rightarrow> string \<Rightarrow> string" where
  "claim_path ns claim = BASE @ ''/'' @ ns @ ''_'' @ claim"

definition claim_bytes :: "json \<Rightarrow> int option" where
  "claim_bytes v = Option.bind (Option.bind (as_str v) parse_quantity) as_bytes"

definition get_document :: "env \<Rightarrow> string \<Rightarrow> registry \<Rightarrow> json option answer" where
  "get_document a path db =
     andThen (api_key path) (\<lambda>k.
     andThen (api_get a db k) (\<lambda>x.
     case x of None \<Rightarrow> Inr None | Some ob \<Rightarrow> andThen (object a ob) (\<lambda>v. Inr (Some v))))"

definition bound_status :: "json \<Rightarrow> json \<Rightarrow> json" where
  "bound_status volume requested =
     JObj [(''accessModes'', at volume [''spec'', ''accessModes'']),
       (''capacity'', JObj [(''storage'', JStr (or_default (or_default '''' (as_str requested))
           (as_str (at volume [''spec'', ''capacity'', ''storage'']))))]),
       (''phase'', JStr ''Bound'')]"

definition bound :: "json \<Rightarrow> json \<Rightarrow> string \<Rightarrow> json guarded" where
  "bound claim volume name =
     (let requested = at claim [''spec'', ''resources'', ''requests'', ''storage''] in
      andThen (edit claim ''spec'' (\<lambda>s. assign_member s ''volumeName'' (JStr name))) (\<lambda>claim.
      assign_member claim ''status'' (bound_status volume requested)))"

definition local_volume :: "env \<Rightarrow> json \<Rightarrow> json \<Rightarrow> int \<Rightarrow> string \<Rightarrow> string \<Rightarrow> string \<Rightarrow> json" where
  "local_volume a claim class_doc storage ns name uid =
     JObj [(''apiVersion'', JStr ''v1''), (''kind'', JStr ''PersistentVolume''),
       (''metadata'', JObj [(''creationTimestamp'', JStr (clock a)),
          (''labels'', JObj [(''app.kubernetes.io/managed-by'', JStr ''h3s-local-path'')]),
          (''name'', JStr (''pvc-'' @ uid)), (''uid'', JStr (new_uid a ''volume''))]),
       (''spec'', JObj [(''accessModes'', at claim [''spec'', ''accessModes'']),
          (''capacity'', JObj [(''storage'', JStr (show_int storage))]),
          (''claimRef'', JObj [(''apiVersion'', JStr ''v1''), (''kind'', JStr ''PersistentVolumeClaim''),
             (''name'', JStr name), (''namespace'', JStr ns), (''uid'', JStr uid)]),
          (''local'', JObj [(''path'', JStr (claim_path ns name))]),
          (''persistentVolumeReclaimPolicy'', JStr ''Delete''),
          (''storageClassName'', at class_doc [''metadata'', ''name'']),
          (''volumeMode'', at claim [''spec'', ''volumeMode''])])]"

text \<open>A volume that is already there is not an error.\<close>

definition create_volume :: "env \<Rightarrow> string \<Rightarrow> json \<Rightarrow> unit action" where
  "create_volume a k volume db =
     (case create (custody a) (stored a k volume) db of
        (Inr _, db') \<Rightarrow> (Inr (), db')
      | (Inl (AlreadyExists _), db') \<Rightarrow> (Inr (), db')
      | (Inl e, db') \<Rightarrow> (Inl (Some (of_store_error e)), db'))"

definition claimed_by_other :: "json \<Rightarrow> string \<Rightarrow> string \<Rightarrow> bool" where
  "claimed_by_other volume uid ns \<longleftrightarrow>
     (let ref = at volume [''spec'', ''claimRef''] in
      \<not> is_null ref \<and> (as_str (idx ref ''uid'') \<noteq> Some uid \<or> as_str (idx ref ''namespace'') \<noteq> Some ns))"

definition bind_named :: "env \<Rightarrow> json \<Rightarrow> string \<Rightarrow> string \<Rightarrow> string \<Rightarrow> json action" where
  "bind_named a claim requested uid ns =
     bindA (readA (get_document a (''/registry/persistentvolumes/'' @ requested))) (\<lambda>x.
     case x of
       None \<Rightarrow> pureA (invalid_claim ''the requested PersistentVolume does not exist'')
     | Some volume \<Rightarrow>
         if claimed_by_other volume uid ns then pureA (invalid_claim ''the PersistentVolume is claimed by another object'')
         else pureA (bound claim volume requested))"

definition provision :: "env \<Rightarrow> json \<Rightarrow> json \<Rightarrow> string \<Rightarrow> string \<Rightarrow> string \<Rightarrow> json action" where
  "provision a claim class_doc uid ns name =
     (case claim_bytes (at claim [''spec'', ''resources'', ''requests'', ''storage'']) of
        None \<Rightarrow> pureA (invalid_claim ''resources.requests.storage must be a resource quantity'')
      | Some storage \<Rightarrow>
          let volume = local_volume a claim class_doc storage ns name uid in
          bindA (pureA (no_panic (api_key (''/registry/persistentvolumes/pvc-'' @ uid)))) (\<lambda>k.
          bindA (create_volume a k volume) (\<lambda>_.
          pureA (bound claim volume (''pvc-'' @ uid)))))"

definition bind_claim :: "env \<Rightarrow> json \<Rightarrow> json action" where
  "bind_claim a claim =
     (case filled (as_str (at claim [''metadata'', ''namespace''])) of
        None \<Rightarrow> pureA (invalid_claim ''a claim requires a namespace'')
      | Some ns \<Rightarrow>
     (case filled (as_str (at claim [''metadata'', ''name''])) of
        None \<Rightarrow> pureA (invalid_claim ''a claim requires a name'')
      | Some name \<Rightarrow>
          let uid = or_default '''' (as_str (at claim [''metadata'', ''uid'']));
              requested = or_default '''' (as_str (at claim [''spec'', ''volumeName'']))
          in if requested \<noteq> [] then bind_named a claim requested uid ns
             else (case filled (as_str (at claim [''spec'', ''storageClassName''])) of
                 None \<Rightarrow> pureA (Inr claim)
               | Some class_name \<Rightarrow>
                   bindA (readA (get_document a (''/registry/storageclasses/'' @ class_name))) (\<lambda>x.
                   case x of
                     None \<Rightarrow> pureA (invalid_claim ''the named StorageClass does not exist'')
                   | Some class_doc \<Rightarrow>
                       if as_str (idx class_doc ''provisioner'') \<noteq> Some PROVISIONER then pureA (Inr claim)
                       else provision a claim class_doc uid ns name))))"


subsection \<open>Claims that name a volume\<close>

lemma bound_InrD:
  assumes "bound claim volume name = Inr claim'"
  shows "at claim' [''spec'', ''volumeName''] = JStr name" and "at claim' [''status'', ''phase''] = JStr ''Bound''"
    and "k \<notin> {''spec'', ''status''} \<Longrightarrow> idx claim' k = idx claim k"
proof -
  from assms obtain c where e: "edit claim ''spec'' (\<lambda>s. assign_member s ''volumeName'' (JStr name)) = (Inr c :: json guarded)"
    and s: "assign_member c ''status'' (bound_status volume (at claim [''spec'', ''resources'', ''requests'', ''storage''])) = (Inr claim' :: json guarded)"
    by (auto simp: bound_def Let_def andThen_Inr_iff)
  note a = assign_member_InrD [OF s] and b = assign_member_InrD [OF edit_InrD(1) [OF e]]
  show "at claim' [''spec'', ''volumeName''] = JStr name" using a(3) b(1) by simp
  show "at claim' [''status'', ''phase''] = JStr ''Bound''" using a(1) by (simp add: bound_status_def)
  show "idx claim' k = idx claim k" if "k \<notin> {''spec'', ''status''}"
    using a(3) [of k] edit_other [OF e, of k] that by simp
qed

lemma edit_total: "is_object v \<Longrightarrow> f (idx v k) = Inr c \<Longrightarrow> \<exists>w. edit v k f = Inr w \<and> is_object w"
  by (cases v) (auto simp: edit_def simp del: idx_simps)

lemma bound_total:
  assumes "is_object claim" and "is_object (idx claim ''spec'')"
  shows "is_ok (bound claim volume name)"
proof -
  obtain s where "assign_member (idx claim ''spec'') ''volumeName'' (JStr name) = (Inr s :: json guarded)"
    using assign_member_total assms(2) by blast
  from edit_total [where f = "\<lambda>s. assign_member s ''volumeName'' (JStr name)", OF assms(1) this]
  obtain c where c: "edit claim ''spec'' (\<lambda>s. assign_member s ''volumeName'' (JStr name)) = (Inr c :: json guarded)" "is_object c"
    by blast
  from assign_member_total [of c] c(2) obtain w where
    "assign_member c ''status'' (bound_status volume (at claim [''spec'', ''resources'', ''requests'', ''storage''])) = (Inr w :: json guarded)"
    by blast
  with c(1) show ?thesis by (simp add: bound_def Let_def)
qed

text \<open>
  A new claim that names its volume binds exactly when the volume is stored and is claimed by
  nobody or by this very claim, and binding leaves the registry as it was.  So nothing records the
  claim in an unclaimed volume, and any number of claims may bind to it.
\<close>

theorem named_claim_exact:
  assumes "filled (as_str (at claim [''metadata'', ''namespace''])) = Some ns"
    and "filled (as_str (at claim [''metadata'', ''name''])) = Some name"
    and "filled (as_str (at claim [''spec'', ''volumeName''])) = Some vol"
    and "is_object claim" and "is_object (idx claim ''spec'')"
  shows "snd (bind_claim a claim db) = db
    \<and> (is_ok (fst (bind_claim a claim db)) \<longleftrightarrow>
        (\<exists>volume. get_document a (''/registry/persistentvolumes/'' @ vol) db = Inr (Some volume)
          \<and> (at volume [''spec'', ''claimRef''] = JNull
             \<or> as_str (at volume [''spec'', ''claimRef'', ''uid'']) = Some (or_default '''' (as_str (at claim [''metadata'', ''uid''])))
               \<and> as_str (at volume [''spec'', ''claimRef'', ''namespace'']) = Some ns)))"
proof -
  let ?uid = "or_default '''' (as_str (at claim [''metadata'', ''uid'']))"
  have vol: "as_str (at claim [''spec'', ''volumeName'']) = Some vol" "vol \<noteq> []" using assms(3) by simp_all
  have "bind_claim a claim db = bind_named a claim vol ?uid ns db"
    unfolding bind_claim_def assms(1,2) option.case Let_def vol(1) or_default_simps if_P [OF vol(2)] by (rule refl)
  moreover have "is_ok (bound claim v vol)" for v using bound_total [OF assms(4,5)] .
  ultimately show ?thesis
    by (auto simp: bind_named_def bindA_def readA_def pureA_def no_panic_def map_err_def claimed_by_other_def Let_def
        invalid_claim_def is_ok_iff split: sum.splits option.splits)
qed


definition unclaimed_disk :: json where
  "unclaimed_disk = JObj [(''metadata'', JObj [(''name'', JStr ''disk'')]),
     (''spec'', JObj [(''capacity'', JObj [(''storage'', JStr ''1Gi'')])])]"

definition disk_claim :: "string \<Rightarrow> json" where
  "disk_claim uid = JObj [(''metadata'', JObj [(''name'', JStr uid), (''namespace'', JStr ''a''), (''uid'', JStr uid)]),
     (''spec'', JObj [(''volumeName'', JStr ''disk'')])]"

definition disk_registry :: registry where
  "disk_registry = foldl store_text empty_registry [(''/registry/persistentvolumes/disk'', ''V'')]"

text \<open>Two claims of one volume.\<close>

theorem named_claim_exact_witness:
  "is_ok (fst (bind_claim (demo_env [(''V'', unclaimed_disk)]) (disk_claim ''u1'') disk_registry))
   \<and> is_ok (fst (bind_claim (demo_env [(''V'', unclaimed_disk)]) (disk_claim ''u2'')
        (snd (bind_claim (demo_env [(''V'', unclaimed_disk)]) (disk_claim ''u1'') disk_registry))))"
proof -
  let ?a = "demo_env [(''V'', unclaimed_disk)]"
  let ?v = "JObj [(''metadata'', JObj [(''name'', JStr ''disk''), (''resourceVersion'', JStr ''1'')]),
     (''spec'', JObj [(''capacity'', JObj [(''storage'', JStr ''1Gi'')])])]"
  have stored: "get_document ?a (''/registry/persistentvolumes/'' @ ''disk'') disk_registry = Inr (Some ?v)"
    and free: "at ?v [''spec'', ''claimRef''] = JNull" by code_simp+
  have "filled (as_str (at (disk_claim u) [''metadata'', ''namespace''])) = Some ''a''"
    "filled (as_str (at (disk_claim u) [''spec'', ''volumeName''])) = Some ''disk''"
    "is_object (disk_claim u)" "is_object (idx (disk_claim u) ''spec'')" for u
    by (simp_all add: disk_claim_def)
  moreover have "filled (as_str (at (disk_claim ''u1'') [''metadata'', ''name''])) = Some ''u1''"
    "filled (as_str (at (disk_claim ''u2'') [''metadata'', ''name''])) = Some ''u2''"
    by (simp_all add: disk_claim_def)
  ultimately have "snd (bind_claim ?a (disk_claim u) disk_registry) = disk_registry \<and> is_ok (fst (bind_claim ?a (disk_claim u) disk_registry))"
    if "u = ''u1'' \<or> u = ''u2''" for u
    using named_claim_exact [of "disk_claim u" "''a''" u "''disk''" ?a disk_registry] stored free that by auto
  then show ?thesis by metis
qed

subsection \<open>Claims that get a volume\<close>

lemma wf_json_at: "wf_json v \<Longrightarrow> wf_json (at v ks)"
  by (induction ks arbitrary: v) (auto simp: wf_json_idx)

lemma wf_local_volume:
  assumes "wf_json claim" and "as_str (at class_doc [''metadata'', ''name'']) = Some cn"
  shows "wf_json (local_volume a claim class_doc storage ns name uid)"
proof -
  have c: "at class_doc [''metadata'', ''name''] = JStr cn" using assms(2) unfolding as_str_Some_iff .
  have "wf_json (at claim [''spec'', ''accessModes''])" "wf_json (at claim [''spec'', ''volumeMode''])"
    using wf_json_at [OF assms(1)] by blast+
  then show ?thesis unfolding local_volume_def c by (simp add: key_sorted_def)
qed

text \<open>
  A claim of the API's own StorageClass leaves with a volume of its own: when its binding
  succeeds, the registry holds a new PersistentVolume under the name derived from the claim's uid,
  which reads back as naming this claim and the directory derived from its namespace and name; the
  claim names that volume and is bound, and nothing else in the registry changed.
\<close>

theorem claim_provisioned:
  assumes law: "text_law (to_vec a) (from_slice a)" and a: "custody a = Unsealed" and wf: "wf_registry db" "wf_json claim"
    and ns: "filled (as_str (at claim [''metadata'', ''namespace''])) = Some ns"
    and name: "filled (as_str (at claim [''metadata'', ''name''])) = Some name"
    and uid: "as_str (at claim [''metadata'', ''uid'']) = Some uid"
    and unnamed: "filled (as_str (at claim [''spec'', ''volumeName''])) = None"
    and cn: "filled (as_str (at claim [''spec'', ''storageClassName''])) = Some cn"
    and cdoc: "get_document a (''/registry/storageclasses/'' @ cn) db = Inr (Some class_doc)"
      "as_str (idx class_doc ''provisioner'') = Some PROVISIONER" "as_str (at class_doc [''metadata'', ''name'']) = Some cn"
    and fresh: "get_current db (''/registry/persistentvolumes/pvc-'' @ uid) = None"
    and run: "bind_claim a claim db = (Inr claim', db')"
  shows "\<exists>ob volume. get_current db' = (get_current db) (''/registry/persistentvolumes/pvc-'' @ uid \<mapsto> ob)
    \<and> object a ob = Inr volume
    \<and> at volume [''spec'', ''claimRef'', ''uid''] = JStr uid \<and> at volume [''spec'', ''claimRef'', ''namespace''] = JStr ns
    \<and> at volume [''spec'', ''local'', ''path''] = JStr (claim_path ns name)
    \<and> at claim' [''spec'', ''volumeName''] = JStr (''pvc-'' @ uid) \<and> at claim' [''status'', ''phase''] = JStr ''Bound''"
proof -
  have none: "\<not> or_default '''' (as_str (at claim [''spec'', ''volumeName''])) \<noteq> []"
    using unnamed by (auto simp: filled_None_iff or_default_def split: option.splits)
  have "bind_claim a claim db = provision a claim class_doc uid ns name db"
    unfolding bind_claim_def ns name option.case Let_def if_not_P [OF none] cn uid or_default_simps
    using cdoc(1,2) by (simp add: bindA_def readA_def no_panic_def map_err_def)
  with run obtain storage k db1 where
    k: "api_key (''/registry/persistentvolumes/pvc-'' @ uid) = Inr k"
    and c: "create_volume a k (local_volume a claim class_doc storage ns name uid) db = (Inr (), db')"
    and b: "bound claim (local_volume a claim class_doc storage ns name uid) (''pvc-'' @ uid) = Inr claim'"
    by (auto simp: provision_def Let_def action_simps no_panic_simps invalid_claim_def split: option.splits)
  let ?k = "''/registry/persistentvolumes/pvc-'' @ uid" and ?volume = "local_volume a claim class_doc storage ns name uid"
  have key: "k = ?k" "valid_key ?k" using k by (auto simp: api_key_Inr_iff)
  have "\<exists>ob. api_create a (stored a ?k ?volume) db = (Inr ob, db')"
  proof (cases "create (custody a) (stored a ?k ?volume) db")
    case (Pair r db2)
    have "is_ok r"
    proof (rule ccontr)
      assume "\<not> is_ok r"
      then obtain e where r: "r = Inl e" by (cases r) auto
      with Pair c key(1) obtain x where "e = AlreadyExists x"
        by (auto simp: create_volume_def split: store_error.splits)
      with Pair r have m: "mutate Unsealed (stored a ?k ?volume) None False db = (Inl (AlreadyExists x), db2)"
        by (simp add: create_def a)
      have "is_ok (new_store_key (okey (stored a ?k ?volume)))" using key(2) by (simp add: valid_key_def stored_def)
      from mutate_cases [OF wf(1) this _ m] have "mutate_tx Unsealed (stored a ?k ?volume) None False db = Inl (AlreadyExists x)"
        by auto
      then show False using fresh
        by (auto simp: mutate_tx_def Let_def cas_guard_def stored_def andThen_Inl_iff insert_version_def revision_i64_def split: if_splits)
    qed
    with Pair c key(1) show ?thesis by (cases r) (auto simp: create_volume_def api_create_def no_panic_def map_err_def)
  qed
  then obtain ob where ob: "api_create a (stored a ?k ?volume) db = (Inr ob, db')" by blast
  note commit = api_create_commit [OF a wf(1) key(2) ob]
  have "is_object (idx ?volume ''metadata'')" by (simp add: local_volume_def)
  from committed_object [OF law wf_local_volume [OF wf(2) cdoc(3)] this, of ?k "Suc (revision db)", folded commit(1)]
  obtain w where w0: "object a ob = Inr w" "\<forall>j. j \<noteq> ''metadata'' \<longrightarrow> idx w j = idx ?volume j"
    by (elim exE conjE) (rule that; assumption)
  have w: "object a ob = Inr w" "idx w ''spec'' = idx ?volume ''spec''" using w0 by simp_all
  have "at ?volume [''spec'', ''claimRef'', ''uid''] = JStr uid" "at ?volume [''spec'', ''claimRef'', ''namespace''] = JStr ns"
    "at ?volume [''spec'', ''local'', ''path''] = JStr (claim_path ns name)"
    by (simp_all add: local_volume_def)
  with w have f: "at w [''spec'', ''claimRef'', ''uid''] = JStr uid" "at w [''spec'', ''claimRef'', ''namespace''] = JStr ns"
    "at w [''spec'', ''local'', ''path''] = JStr (claim_path ns name)"
    by simp_all
  show ?thesis
    by (intro exI [of _ ob] exI [of _ w] conjI)
      (rule commit(2), rule w(1), rule f(1), rule f(2), rule f(3), rule bound_InrD(1) [OF b], rule bound_InrD(2) [OF b])
qed


definition local_class :: json where
  "local_class = JObj [(''metadata'', JObj [(''name'', JStr ''fast'')]), (''provisioner'', JStr ''h3s.io/local-path'')]"

definition class_registry :: registry where
  "class_registry = foldl store_text empty_registry [(''/registry/storageclasses/fast'', frame_json local_class)]"

definition data_claim :: json where
  "data_claim = JObj [(''metadata'', JObj [(''name'', JStr ''data''), (''namespace'', JStr ''shop''), (''uid'', JStr ''u1'')]),
     (''spec'', JObj [(''accessModes'', JArr [JStr ''ReadWriteOnce'']),
        (''resources'', JObj [(''requests'', JObj [(''storage'', JStr ''1Gi'')])]), (''storageClassName'', JStr ''fast'')])]"

definition bound_claim :: json where
  "bound_claim = JObj [(''metadata'', JObj [(''name'', JStr ''data''), (''namespace'', JStr ''shop''), (''uid'', JStr ''u1'')]),
     (''spec'', JObj [(''accessModes'', JArr [JStr ''ReadWriteOnce'']),
        (''resources'', JObj [(''requests'', JObj [(''storage'', JStr ''1Gi'')])]), (''storageClassName'', JStr ''fast''),
        (''volumeName'', JStr ''pvc-u1'')]),
     (''status'', JObj [(''accessModes'', JArr [JStr ''ReadWriteOnce'']),
        (''capacity'', JObj [(''storage'', JStr ''1073741824'')]), (''phase'', JStr ''Bound'')])]"

theorem claim_provisioned_witness:
  "fst (bind_claim framed_env data_claim class_registry) = Inr bound_claim
   \<and> get_current (snd (bind_claim framed_env data_claim class_registry)) ''/registry/persistentvolumes/pvc-u1'' \<noteq> None"
proof -
  let ?doc = "JObj [(''metadata'', JObj [(''name'', JStr ''fast''), (''resourceVersion'', JStr ''1'')]), (''provisioner'', JStr ''h3s.io/local-path'')]"
  have ok: "fst (bind_claim framed_env data_claim class_registry) = Inr bound_claim" by code_simp
  then have run: "bind_claim framed_env data_claim class_registry = (Inr bound_claim, snd (bind_claim framed_env data_claim class_registry))"
    by (simp only: prod_eq_iff fst_conv snd_conv simp_thms)
  have wf: "wf_registry class_registry" unfolding class_registry_def by (rule wf_store_texts [OF _ wf_empty]) code_simp
  have c: "wf_json data_claim" "filled (as_str (at data_claim [''metadata'', ''namespace''])) = Some ''shop''"
    "filled (as_str (at data_claim [''metadata'', ''name''])) = Some ''data''" "as_str (at data_claim [''metadata'', ''uid'']) = Some ''u1''"
    "filled (as_str (at data_claim [''spec'', ''volumeName''])) = None"
    "filled (as_str (at data_claim [''spec'', ''storageClassName''])) = Some ''fast''" by code_simp+
  have d: "get_document framed_env (''/registry/storageclasses/'' @ ''fast'') class_registry = Inr (Some ?doc)"
    "as_str (idx ?doc ''provisioner'') = Some PROVISIONER" "as_str (at ?doc [''metadata'', ''name'']) = Some ''fast''"
    "get_current class_registry (''/registry/persistentvolumes/pvc-'' @ ''u1'') = None" by code_simp+
  have u: "custody framed_env = Unsealed" by (simp add: framed_env_def)
  from claim_provisioned [OF framed_env_law u wf c d run] obtain ob where
    "get_current (snd (bind_claim framed_env data_claim class_registry))
       = (get_current class_registry) (''/registry/persistentvolumes/pvc-'' @ ''u1'' \<mapsto> ob)" by blast
  then have "get_current (snd (bind_claim framed_env data_claim class_registry)) (''/registry/persistentvolumes/pvc-'' @ ''u1'') \<noteq> None"
    by (simp only: fun_upd_same option.simps) simp
  with ok show ?thesis by simp
qed

end
