(* ===== verification/Write.thy ===== *)
theory Write
  imports Server_Side_Apply Patches Strategy Service_Accounts Volume_Claims Services Cidr_Admission
begin

text \<open>
  The write pipeline (\<^verbatim>\<open>crates/h3s-apiserver/src/write.rs\<close>): decode, concurrency, prepare, admit and
  persist, the deletion of objects and namespaces, and the binding of Pods.  A handler is an action
  on the registry: the admission lock is held from the decoding to the commit.  The typed decoding of
  requests (k8s-openapi, protobuf) and base64 are fields of the record \<open>service\<close>.
\<close>

record pod_binding =
  bound_pod :: "string option"
  bound_namespace :: "string option"
  bound_uid :: "string option"
  bound_version :: "string option"
  target_kind :: "string option"
  target_version :: "string option"
  target_node :: "string option"

record ('n, 'op) service =
  world :: env
  ipnet :: "'n ipnet"
  pool :: "node_cidr_allocations option"
  rbac_text :: rbac_codec
  patches :: "'op patch_lib"
  normalize :: "resource \<Rightarrow> json \<Rightarrow> json option"
  protobuf :: "string \<Rightarrow> json answer"
  base64 :: "string \<Rightarrow> string"
  network_ok :: "string \<Rightarrow> bool"
  decode_binding :: "json \<Rightarrow> pod_binding option"

datatype response = Success nat | Document nat json

text \<open>A step that reads the registry and may panic.\<close>

definition guardA :: "(registry \<Rightarrow> 'a guarded) \<Rightarrow> 'a action" where
  "guardA f db = (f db, db)"

lemma guardA_Inr_iff [action_simps]: "guardA f db = (Inr y, db2) \<longleftrightarrow> f db = Inr y \<and> db2 = db"
  by (auto simp: guardA_def)

subsection \<open>Decoding\<close>

definition wire_decode :: "('n, 'op) service \<Rightarrow> string \<Rightarrow> string \<Rightarrow> json answer" where
  "wire_decode s body content_type =
     (if body = [] then Inr (JObj [])
      else
        (let m = content_kind content_type in
         if m = '''' \<or> m = ''application/json'' then from_bytes (world s) body
         else if m = ''application/vnd.kubernetes.protobuf'' then protobuf s body
         else fail 415 ''UnsupportedMediaType'' ''supported request types are JSON and Kubernetes Protobuf''))"

record decoded =
  document :: json
  doc_key :: string
  doc_namespace :: "json option"

definition assign_at :: "json \<Rightarrow> string list \<Rightarrow> json \<Rightarrow> json guarded" where
  "assign_at v ks x = ok_or None (set_at v ks x)"

definition generated_name :: "env \<Rightarrow> string \<Rightarrow> json \<Rightarrow> json guarded" where
  "generated_name a verb v =
     (if verb = ''create'' \<and> filled (as_str (at v [''metadata'', ''name''])) = None then
        (case as_str (at v [''metadata'', ''generateName'']) of
           None \<Rightarrow> Inr v
         | Some pre \<Rightarrow> assign_at v [''metadata'', ''name''] (JStr (pre @ take 8 (new_uid a ''generateName''))))
      else Inr v)"

definition namespaced_document :: "('n, 'op) service \<Rightarrow> string \<Rightarrow> string \<Rightarrow> json \<Rightarrow> registry \<Rightarrow> (json \<times> json option) guarded" where
  "namespaced_document s verb ns v db =
     (if filled (as_str (at v [''metadata'', ''namespace''])) \<notin> {None, Some ns} then no_panic (bad ''metadata.namespace mismatch'')
      else andThen (assign_at v [''metadata'', ''namespace''] (JStr ns)) (\<lambda>v.
        andThen (no_panic (api_key (''/registry/namespaces/'' @ ns))) (\<lambda>k.
        andThen (no_panic (fetch (world s) db k ''namespace not found'')) (\<lambda>ob.
        andThen (no_panic (object (world s) ob)) (\<lambda>current.
        andThen (no_panic (lifecycle current (verb = ''create''))) (\<lambda>_. Inr (v, Some current)))))))"

definition cluster_document :: "json \<Rightarrow> (json \<times> json option) guarded" where
  "cluster_document v =
     (if filled (as_str (at v [''metadata'', ''namespace''])) \<noteq> None
      then no_panic (bad ''cluster-scoped resource cannot set namespace'')
      else andThen (edit v ''metadata'' (\<lambda>m. if is_object m then Inr (remove_member m ''namespace'') else panic)) (\<lambda>v. Inr (v, None)))"

definition normalized :: "('n, 'op) service \<Rightarrow> target \<Rightarrow> string \<Rightarrow> json \<Rightarrow> registry \<Rightarrow> decoded guarded" where
  "normalized s t verb v db =
     (if as_str (idx v ''apiVersion'') \<noteq> Some (api_version (resource t)) \<or> as_str (idx v ''kind'') \<noteq> Some (kind (resource t))
      then no_panic (bad ''apiVersion/kind does not match the endpoint'')
      else andThen (no_panic (ok_or invalid_json (normalize s (resource t) v))) (\<lambda>v.
        andThen (generated_name (world s) verb v) (\<lambda>v.
        (case as_str (at v [''metadata'', ''name'']) of
           None \<Rightarrow> no_panic (bad ''metadata.name is required'')
         | Some name \<Rightarrow>
             if \<not> resource_valid_name (resource t) name \<or> (tname t \<noteq> None \<and> tname t \<noteq> Some name)
             then no_panic (bad ''invalid or mismatched metadata.name'')
             else andThen (case namespace t of
                 Some ns \<Rightarrow> namespaced_document s verb ns v db
               | None \<Rightarrow> cluster_document v) (\<lambda>(v, ns).
               andThen (no_panic (api_key (target_prefix t @ name))) (\<lambda>k.
                 Inr \<lparr>document = v, doc_key = k, doc_namespace = ns\<rparr>))))))"

definition patched :: "('n, 'op) service \<Rightarrow> target \<Rightarrow> string \<Rightarrow> string \<Rightarrow> registry \<Rightarrow> json guarded" where
  "patched s t body content_type db =
     andThen (no_panic (named t)) (\<lambda>k.
     andThen (no_panic (fetch (world s) db k ''object not found'')) (\<lambda>current.
     andThen (no_panic (object (world s) current)) (\<lambda>doc.
     andThen (no_panic (patch_apply (world s) (patches s) (kind (resource t)) doc body content_type)) (\<lambda>v.
       let rv = at v [''metadata'', ''resourceVersion''] in
       if \<not> is_object v \<or> \<not> is_object (idx v ''metadata'')
       then no_panic (fail 422 ''Invalid'' ''patch must preserve object metadata'')
       else if \<not> is_null rv \<and> \<not> is_string rv then no_panic (fail 422 ''Invalid'' ''resourceVersion must be a string'')
       else if as_str rv \<noteq> None \<and> as_str rv \<noteq> Some (show_nat (orevision current))
       then no_panic (fail 409 ''Conflict'' ''patch resourceVersion precondition failed'')
       else assign_at v [''metadata'', ''resourceVersion''] (JStr (show_nat (orevision current)))))))"

definition decode :: "('n, 'op) service \<Rightarrow> target \<Rightarrow> string \<Rightarrow> string \<Rightarrow> string \<Rightarrow> registry \<Rightarrow> decoded guarded" where
  "decode s t verb body content_type db =
     andThen (if verb = ''patch'' then patched s t body content_type db else no_panic (wire_decode s body content_type)) (\<lambda>v.
       normalized s t verb v db)"

subsection \<open>Concurrency\<close>

definition expected_revision :: "resource \<Rightarrow> json \<Rightarrow> nat \<Rightarrow> nat answer" where
  "expected_revision r v current =
     (case filled (as_str (at v [''metadata'', ''resourceVersion''])) of
        Some t \<Rightarrow>
          (case parse_u64 t of
             None \<Rightarrow> bad ''invalid resourceVersion''
           | Some rv \<Rightarrow> if current \<noteq> rv then fail 409 ''Conflict'' ''resourceVersion precondition failed'' else Inr rv)
      | None \<Rightarrow>
          if (kind r = ''ConfigMap'' \<or> kind r = ''Secret'') \<and> helm_owned v (kind r) then Inr current
          else bad ''update requires metadata.resourceVersion'')"

definition new_identity :: "env \<Rightarrow> json \<Rightarrow> json guarded" where
  "new_identity a v =
     andThen (assign_at v [''metadata'', ''uid''] (JStr (new_uid a ''uid''))) (\<lambda>v.
       assign_at v [''metadata'', ''creationTimestamp''] (JStr (clock a)))"

definition kept_identity :: "json \<Rightarrow> json \<Rightarrow> json guarded" where
  "kept_identity old v =
     andThen (assign_at v [''metadata'', ''uid''] (at old [''metadata'', ''uid''])) (\<lambda>v.
       assign_at v [''metadata'', ''creationTimestamp''] (at old [''metadata'', ''creationTimestamp'']))"

definition concurrency :: "('n, 'op) service \<Rightarrow> target \<Rightarrow> string \<Rightarrow> string \<Rightarrow> json \<Rightarrow> registry
    \<Rightarrow> (json \<times> nat option \<times> json option) guarded" where
  "concurrency s t verb k v db =
     (if verb \<noteq> ''update'' \<and> verb \<noteq> ''patch'' then
        if filled (as_str (at v [''metadata'', ''resourceVersion''])) \<noteq> None
        then no_panic (bad ''create cannot set resourceVersion'')
        else andThen (new_identity (world s) v) (\<lambda>v. Inr (v, None, None))
      else
        andThen (no_panic (fetch (world s) db k ''object not found'')) (\<lambda>old_stored.
        andThen (no_panic (expected_revision (resource t) v (orevision old_stored))) (\<lambda>rv.
        andThen (no_panic (object (world s) old_stored)) (\<lambda>old.
        let u = as_str (at v [''metadata'', ''uid'']) in
        if u \<noteq> None \<and> u \<noteq> as_str (at old [''metadata'', ''uid''])
        then no_panic (fail 409 ''Conflict'' ''UID is immutable'')
        else andThen (kept_identity old v) (\<lambda>v. Inr (v, Some rv, Some old))))))"

subsection \<open>Preparation\<close>

definition add_plain :: "('n, 'op) service \<Rightarrow> json \<Rightarrow> string \<times> json \<Rightarrow> json guarded" where
  "add_plain s v kv =
     (case as_str (snd kv) of
        None \<Rightarrow> no_panic (bad ''stringData values must be strings'')
      | Some str \<Rightarrow> assign_at v [''data'', fst kv] (JStr (base64 s str)))"

definition fold_string_data :: "('n, 'op) service \<Rightarrow> json \<Rightarrow> json guarded" where
  "fold_string_data s v =
     (case getf v ''stringData'' of
        None \<Rightarrow> Inr v
      | Some (JObj sm) \<Rightarrow>
          (let v = remove_member v ''stringData'' in
           andThen (if is_object (idx v ''data'') then Inr v else assign_at v [''data''] (JObj [])) (\<lambda>v.
             try_fold (add_plain s) v sm))
      | Some _ \<Rightarrow> no_panic (bad ''stringData must be a string map''))"

definition prepare_write :: "('n, 'op) service \<Rightarrow> target \<Rightarrow> json \<Rightarrow> json option \<Rightarrow> json guarded" where
  "prepare_write s t v old =
     andThen (if kind (resource t) = ''Secret'' then fold_string_data s v else Inr v) (\<lambda>v.
       prepare (network_ok s) (resource t) v old (subresource t \<noteq> None))"

subsection \<open>Admission\<close>

definition admit_kind :: "('n, 'op) service \<Rightarrow> target \<Rightarrow> json \<Rightarrow> json option \<Rightarrow> json option \<Rightarrow> json action" where
  "admit_kind s t v old ns db =
     (let a = world s; k = kind (resource t) in
      if subresource t \<noteq> None then (Inr v, db)
      else if k = ''Namespace'' then pureA (andThen (no_panic (namespace_policy v)) (\<lambda>_. Inr v)) db
      else if k = ''Pod'' then
        pureA (andThen (ok_or None ns) (\<lambda>n. andThen (no_panic (pod_policy n v)) (\<lambda>_. andThen (runtime v) (\<lambda>_. Inr v)))) db
      else if k = ''Service'' then pureA (assign a db v old) db
      else if k = ''PersistentVolumeClaim'' \<and> old = None then bind_claim a v db
      else (Inr v, db))"

definition admit_cidrs :: "('n, 'op) service \<Rightarrow> target \<Rightarrow> string \<Rightarrow> json \<Rightarrow> json option \<Rightarrow> unit action" where
  "admit_cidrs s t k v old =
     (if kind (resource t) \<noteq> ''Node'' then pureA (Inr ())
      else case pool s of
        None \<Rightarrow> pureA (Inr ())
      | Some configured \<Rightarrow>
          bindA (if old \<noteq> None then pureA (Inr ()) else guardA (\<lambda>db. andThen (no_panic (api_get (world s) db k)) (\<lambda>x.
              if x \<noteq> None then no_panic (fail 409 ''AlreadyExists'' ''Node already exists'') else Inr ()))) (\<lambda>_.
            admit_cidr (world s) (ipnet s) configured v old))"

definition admit_write :: "('n, 'op) service \<Rightarrow> user \<Rightarrow> target \<Rightarrow> string \<Rightarrow> string \<Rightarrow> json \<Rightarrow> json option \<Rightarrow> json option \<Rightarrow> json action" where
  "admit_write s u t verb k v old ns =
     bindA (guardA (\<lambda>db. if kind (resource t) = ''Pod'' \<and> verb = ''create''
        then andThen (ok_or None (namespace t)) (\<lambda>n. admit_account (world s) db n v) else Inr v)) (\<lambda>v.
     bindA (admit_kind s t v old ns) (\<lambda>v.
     bindA (readA (\<lambda>db. escalation (world s) (rbac_text s) db u t verb v)) (\<lambda>_.
     bindA (pureA (no_panic (nodes_admit u t verb v old))) (\<lambda>_.
     bindA (pureA (no_panic (check_size (world s) v))) (\<lambda>_.
     bindA (admit_cidrs s t k v old) (\<lambda>_. pureA (Inr v)))))))"

subsection \<open>Commit\<close>

definition deletion_requested :: "json \<Rightarrow> bool" where
  "deletion_requested v \<longleftrightarrow> filled (as_str (at v [''metadata'', ''deletionTimestamp''])) \<noteq> None"

definition finalizers_pending :: "json \<Rightarrow> bool" where
  "finalizers_pending v \<longleftrightarrow> list_ex (\<lambda>f. filled (as_str f) \<noteq> None) (items (at v [''metadata'', ''finalizers'']))"

definition reply :: "env \<Rightarrow> nat \<Rightarrow> stored_object \<Rightarrow> response action" where
  "reply a c ob = pureA (no_panic (andThen (object a ob) (\<lambda>v. Inr (Document c v))))"

definition persist :: "('n, 'op) service \<Rightarrow> target \<Rightarrow> string \<Rightarrow> json \<Rightarrow> nat option \<Rightarrow> response action" where
  "persist s t k v expected =
     (let a = world s in
      bindA (case expected of Some rv \<Rightarrow> api_update a (stored a k v) rv | None \<Rightarrow> api_create a (stored a k v)) (\<lambda>ob.
        bindA (if kind (resource t) = ''Namespace'' \<and> expected \<noteq> None
               then bindA (pureA (no_panic (object a ob))) (\<lambda>current.
                  pureA (Inr (deletion_requested current \<and> \<not> finalizers_pending current)))
               else pureA (Inr False)) (\<lambda>gone.
          if gone then bindA (api_delete a k (orevision ob)) (\<lambda>_. pureA (Inr (Success 200)))
          else reply a (if expected \<noteq> None then 200 else 201) ob)))"

subsection \<open>Deletion\<close>

definition PROTECTED_NAMESPACES :: "string list" where
  "PROTECTED_NAMESPACES = [''default'', ''kube-system'', ''kube-public'', ''kube-node-lease'']"

definition NAMESPACE_FINALIZER :: string where
  "NAMESPACE_FINALIZER = ''kubernetes''"

definition terminating :: "env \<Rightarrow> json \<Rightarrow> json guarded" where
  "terminating a v =
     andThen (assign_at v [''metadata'', ''deletionTimestamp''] (JStr (clock a))) (\<lambda>v.
     andThen (assign_at v [''status'', ''phase''] (JStr ''Terminating'')) (\<lambda>v.
       let fs = List.map_filter (\<lambda>f. filled (as_str f)) (items (at v [''metadata'', ''finalizers'']));
           fs = (if NAMESPACE_FINALIZER \<in> set fs then fs else fs @ [NAMESPACE_FINALIZER])
       in assign_at v [''metadata'', ''finalizers''] (JArr (map JStr fs))))"

definition delete_namespace :: "env \<Rightarrow> string \<Rightarrow> stored_object \<Rightarrow> json \<Rightarrow> response action" where
  "delete_namespace a k current v =
     (if or_default '''' (as_str (at v [''metadata'', ''name''])) \<in> set PROTECTED_NAMESPACES
      then pureA (no_panic (fail 403 ''Forbidden'' ''this namespace cannot be deleted''))
      else if deletion_requested v \<and> \<not> finalizers_pending v
      then bindA (api_delete a k (orevision current)) (\<lambda>_. pureA (Inr (Success 200)))
      else if deletion_requested v then pureA (Inr (Document 200 v))
      else bindA (pureA (terminating a v)) (\<lambda>v.
        bindA (api_update a (stored a k v) (orevision current)) (\<lambda>ob. reply a 200 ob)))"

definition precondition :: "json \<Rightarrow> json \<Rightarrow> string \<Rightarrow> unit answer" where
  "precondition opts v f =
     (case as_str (at opts [''preconditions'', f]) of
        None \<Rightarrow> Inr ()
      | Some w \<Rightarrow> if w \<noteq> or_default '''' (as_str (at v [''metadata'', f])) then fail 409 ''Conflict'' ''delete precondition failed'' else Inr ())"

definition delete_checks :: "user \<Rightarrow> target \<Rightarrow> string \<Rightarrow> json \<Rightarrow> json \<Rightarrow> unit answer" where
  "delete_checks u t verb v opts =
     andThen (nodes_admit u t verb v (Some v)) (\<lambda>_.
     andThen (precondition opts v ''uid'') (\<lambda>_.
     andThen (precondition opts v ''resourceVersion'') (\<lambda>_.
       if items (at v [''metadata'', ''finalizers'']) \<noteq> [] then fail 409 ''Conflict'' ''object has pending finalizers'' else Inr ())))"

definition delete_write :: "('n, 'op) service \<Rightarrow> user \<Rightarrow> target \<Rightarrow> string \<Rightarrow> json \<Rightarrow> response action" where
  "delete_write s u t verb opts =
     (let a = world s in
      bindA (pureA (no_panic (named t))) (\<lambda>k.
      bindA (readA (\<lambda>db. fetch a db k ''object not found'')) (\<lambda>current.
      bindA (pureA (no_panic (object a current))) (\<lambda>v.
      bindA (pureA (no_panic (delete_checks u t verb v opts))) (\<lambda>_.
        if kind (resource t) = ''Namespace'' then delete_namespace a k current v
        else if as_str (idx opts ''propagationPolicy'') \<notin> {None, Some ''Background''} \<or> idx opts ''orphanDependents'' = JBool True
        then pureA (no_panic (fail 422 ''Invalid''
          ''only background deletion is implemented; foreground and orphan propagation are unsupported''))
        else bindA (api_delete a k (orevision current)) (\<lambda>_. pureA (Inr (Success 200))))))))"

subsection \<open>Binding\<close>

definition binding_ok :: "target \<Rightarrow> pod_binding \<Rightarrow> string answer" where
  "binding_ok t b =
     (if bound_pod b \<noteq> tname t \<or> (bound_namespace b \<noteq> None \<and> bound_namespace b \<noteq> namespace t)
      then bad ''binding metadata does not match endpoint''
      else if target_kind b \<noteq> Some ''Node'' \<or> (target_version b \<noteq> None \<and> target_version b \<noteq> Some ''v1'')
      then bad ''binding target must be a v1 Node''
      else (case target_node b of
          Some n \<Rightarrow> if valid_name n then Inr n else bad ''binding target node name is required''
        | None \<Rightarrow> bad ''binding target node name is required''))"

definition unbound :: "json \<Rightarrow> bool" where
  "unbound pod \<longleftrightarrow> filled (as_str (at pod [''spec'', ''nodeName''])) = None \<and> is_null (at pod [''metadata'', ''deletionTimestamp''])"

definition assigned_pod :: "pod_binding \<Rightarrow> string \<Rightarrow> nat \<Rightarrow> json \<Rightarrow> json guarded" where
  "assigned_pod b node rv pod =
     (if \<not> unbound pod
      then no_panic (fail 409 ''Conflict'' ''Pod is already bound or terminating'')
      else if (bound_uid b \<noteq> None \<and> bound_uid b \<noteq> as_str (at pod [''metadata'', ''uid'']))
        \<or> (bound_version b \<noteq> None \<and> bound_version b \<noteq> Some (show_nat rv))
      then no_panic (fail 409 ''Conflict'' ''binding precondition failed'')
      else andThen (assign_at pod [''spec'', ''nodeName''] (JStr node)) (\<lambda>pod.
        case checked_i64 (or_default 1 (as_i64 (at pod [''metadata'', ''generation''])) + 1) of
          None \<Rightarrow> no_panic (fail 422 ''Invalid'' ''generation overflow'')
        | Some g \<Rightarrow> assign_at pod [''metadata'', ''generation''] (JInt g)))"

definition bind_pod :: "('n, 'op) service \<Rightarrow> target \<Rightarrow> json \<Rightarrow> response action" where
  "bind_pod s t v =
     (let a = world s in
      if idx v ''kind'' \<noteq> JStr ''Binding'' \<or> idx v ''apiVersion'' \<noteq> JStr ''v1''
      then pureA (no_panic (bad ''binding requires v1 Binding''))
      else
        bindA (pureA (no_panic (ok_or invalid_json (decode_binding s v)))) (\<lambda>b.
        bindA (pureA (no_panic (binding_ok t b))) (\<lambda>node.
        bindA (pureA (no_panic (api_key (''/registry/nodes/'' @ node)))) (\<lambda>nk.
        bindA (readA (\<lambda>db. fetch a db nk ''binding target node not found'')) (\<lambda>_.
        bindA (pureA (no_panic (named t))) (\<lambda>k.
        bindA (readA (\<lambda>db. fetch a db k ''Pod not found'')) (\<lambda>current.
        bindA (pureA (no_panic (object a current))) (\<lambda>pod.
        bindA (pureA (assigned_pod b node (orevision current) pod)) (\<lambda>pod.
        bindA (api_update a (stored a k pod) (orevision current)) (\<lambda>_. pureA (Inr (Success 201))))))))))))"

subsection \<open>The handler\<close>

definition apply_write :: "('n, 'op) service \<Rightarrow> user \<Rightarrow> target \<Rightarrow> string \<Rightarrow> string \<Rightarrow> options \<Rightarrow> response action" where
  "apply_write s u t verb body opts =
     (let a = world s in
      if subresource t \<noteq> None then
        pureA (no_panic (fail 400 ''BadRequest'' ''server-side apply writes the whole object, not a subresource''))
      else
        bindA (guardA (\<lambda>db. andThen (no_panic (wire_decode s body ''application/json'')) (\<lambda>v. normalized s t verb v db))) (\<lambda>d.
        bindA (readA (\<lambda>db. api_get a db (doc_key d))) (\<lambda>st.
        bindA (pureA (case st of None \<Rightarrow> Inr None | Some ob \<Rightarrow> andThen (no_panic (object a ob)) (\<lambda>v. Inr (Some v)))) (\<lambda>old.
        bindA (pureA (case old of
            Some current \<Rightarrow> server_side a current (document d) opts
          | None \<Rightarrow> andThen (server_side a (JObj [(''apiVersion'', idx (document d) ''apiVersion''),
                (''kind'', idx (document d) ''kind''), (''metadata'', JObj [])]) (document d) opts) (new_identity a))) (\<lambda>v.
        bindA (pureA (prepare_write s t v old)) (\<lambda>v.
        bindA (admit_write s u t verb (doc_key d) v old (doc_namespace d)) (\<lambda>v.
          persist s t (doc_key d) v (map_option orevision st))))))))"

definition ordinary_write :: "('n, 'op) service \<Rightarrow> user \<Rightarrow> target \<Rightarrow> string \<Rightarrow> string \<Rightarrow> string \<Rightarrow> response action" where
  "ordinary_write s u t verb body content_type =
     bindA (guardA (decode s t verb body content_type)) (\<lambda>d.
     bindA (guardA (concurrency s t verb (doc_key d) (document d))) (\<lambda>(v, expected, old).
     bindA (pureA (prepare_write s t v old)) (\<lambda>v.
     bindA (admit_write s u t verb (doc_key d) v old (doc_namespace d)) (\<lambda>v.
       persist s t (doc_key d) v expected))))"

definition execute :: "('n, 'op) service \<Rightarrow> user \<Rightarrow> target \<Rightarrow> string \<Rightarrow> (string \<times> string) list \<Rightarrow> string \<Rightarrow> string \<Rightarrow> response action" where
  "execute s u t verb query content_type body =
     (if map_of query ''dryRun'' \<noteq> None then pureA (no_panic (bad ''dryRun is not yet implemented''))
      else if subresource t = Some ''binding'' then
        (if node_name u \<noteq> None then pureA (no_panic (fail 403 ''Forbidden'' ''nodes may not bind Pods''))
         else bindA (pureA (no_panic (wire_decode s body content_type))) (bind_pod s t))
      else if verb = ''delete'' then bindA (pureA (no_panic (wire_decode s body content_type))) (delete_write s u t verb)
      else bindA (pureA (no_panic (apply_options content_type query))) (\<lambda>opts.
        case opts of
          Some opts \<Rightarrow> apply_write s u t verb body opts
        | None \<Rightarrow> ordinary_write s u t verb body content_type))"

end
