(* ===== verification/Write_Laws.thy ===== *)
theory Write_Laws
  imports Write
begin

text \<open>
  What the write pipeline guarantees: a Pod is bound once, a Namespace is deleted in two phases, an
  update is conditional on the revision it names and keeps the identity of its object, and every
  written document is within the size limit.
\<close>

named_theorems write_simps \<open>success conditions of the handlers' steps\<close>

declare bindA_Inr_iff [write_simps] pureA_Inr_iff [write_simps] readA_Inr_iff [write_simps] guardA_Inr_iff [write_simps]
  andThen_Inr_iff [write_simps] no_panic_simps [write_simps] if_Inl_Inr_iff [write_simps]

subsection \<open>Steps\<close>

lemma refusals [simp, write_simps]:
  "fail c r m \<noteq> Inr x" "bad m \<noteq> Inr x" "no_panic (fail c r m) \<noteq> Inr y" "no_panic (bad m) \<noteq> Inr y"
  by (simp_all add: bad_def fail_def no_panic_def)

lemma if_refusals [simp, write_simps]:
  "(if b then no_panic (fail c r m) else g) = Inr x \<longleftrightarrow> \<not> b \<and> g = Inr x"
  "(if b then no_panic (bad m) else g) = Inr x \<longleftrightarrow> \<not> b \<and> g = Inr x"
  "(if b then fail c r m else h) = Inr z \<longleftrightarrow> \<not> b \<and> h = Inr z"
  "(if b then bad m else h) = Inr z \<longleftrightarrow> \<not> b \<and> h = Inr z"
  by simp_all

lemma if_action_refusals [simp, write_simps]:
  "(if b then pureA (no_panic (fail c r m)) else f) db = (Inr x, db') \<longleftrightarrow> \<not> b \<and> f db = (Inr x, db')"
  "(if b then pureA (no_panic (bad m)) else f) db = (Inr x, db') \<longleftrightarrow> \<not> b \<and> f db = (Inr x, db')"
  by (simp_all add: pureA_def)

lemma fetch_Unsealed:
  assumes "custody a = Unsealed"
  shows "fetch a db k m = (case get_current db k of None \<Rightarrow> fail 404 ''NotFound'' m | Some ob \<Rightarrow> Inr ob)"
  by (simp add: fetch_def api_get_Unsealed [OF assms])

lemma fetch_Inr_iff: "custody a = Unsealed \<Longrightarrow> fetch a db k m = Inr ob \<longleftrightarrow> get_current db k = Some ob"
  by (auto simp: fetch_Unsealed fail_def split: option.splits)

lemma named_Inr_iff: "named t = Inr k \<longleftrightarrow> k = target_prefix t @ or_default '''' (tname t) \<and> valid_key k"
  by (auto simp: named_def api_key_Inr_iff or_default_def split: option.splits)

lemma assign_at_Inr_iff: "assign_at v ks x = Inr w \<longleftrightarrow> set_at v ks x = Some w"
  by (simp add: assign_at_def)

lemma assign_at_frame:
  assumes "assign_at v [j, k] x = Inr w"
  shows "at w [j, k] = x" and "i \<noteq> j \<Longrightarrow> idx w i = idx v i" and "i \<noteq> k \<Longrightarrow> at w [j, i] = at v [j, i]"
    and "is_object (idx w j)" and "is_object w"
proof -
  have s: "set_at v [j, k] x = Some w" using assms by (simp add: assign_at_Inr_iff)
  show "at w [j, k] = x" by (rule at_set_at [OF s])
  show "idx w i = idx v i" if "i \<noteq> j" using idx_set_at_other [OF s that] .
  show "at w [j, i] = at v [j, i]" if "i \<noteq> k" using at_set_at_diverge [of v "[j]" k "[]" x w i "[]"] s that by simp
  show "is_object (idx w j)" using idx_set_at_same [OF s] by (rule set_at_object)
  show "is_object w" using s by (rule set_at_object)
qed

lemma assign_at_wf: "assign_at v ks x = Inr w \<Longrightarrow> wf_json v \<Longrightarrow> wf_json x \<Longrightarrow> wf_json w"
  unfolding assign_at_Inr_iff by (rule wf_json_set_at)

subsection \<open>A Pod is bound once\<close>

lemma bind_pod_InrD:
  assumes "bind_pod s t v db = (Inr r, db')"
  obtains b node k cur pod pod' ob m n where "decode_binding s v = Some b" "binding_ok t b = Inr node"
    "fetch (world s) db (''/registry/nodes/'' @ node) m = Inr n"
    "named t = Inr k" "fetch (world s) db k ''Pod not found'' = Inr cur" "object (world s) cur = Inr pod"
    "assigned_pod b node (orevision cur) pod = Inr pod'"
    "api_update (world s) (stored (world s) k pod') (orevision cur) db = (Inr ob, db')" "r = Success 201"
proof -
  from assms obtain b node nk k cur pod pod' ob n where "decode_binding s v = Some b" "binding_ok t b = Inr node"
    and nk: "api_key (''/registry/nodes/'' @ node) = Inr nk"
    and n: "fetch (world s) db nk ''binding target node not found'' = Inr n"
    and "named t = Inr k" "fetch (world s) db k ''Pod not found'' = Inr cur" "object (world s) cur = Inr pod"
    "assigned_pod b node (orevision cur) pod = Inr pod'"
    "api_update (world s) (stored (world s) k pod') (orevision cur) db = (Inr ob, db')" "r = Success 201"
    unfolding bind_pod_def Let_def write_simps ok_or_Inr_iff by blast
  moreover have "fetch (world s) db (''/registry/nodes/'' @ node) ''binding target node not found'' = Inr n"
    using n nk by (simp add: api_key_Inr_iff)
  ultimately show thesis using that by blast
qed

lemma assigned_pod_InrD:
  assumes "assigned_pod b node rv pod = Inr pod'"
  shows "unbound pod" and "at pod' [''spec'', ''nodeName''] = JStr node"
    and "k \<notin> {''spec'', ''metadata''} \<Longrightarrow> idx pod' k = idx pod k"
    and "k \<noteq> ''nodeName'' \<Longrightarrow> at pod' [''spec'', k] = at pod [''spec'', k]"
    and "k \<noteq> ''generation'' \<Longrightarrow> at pod' [''metadata'', k] = at pod [''metadata'', k]"
    and "at pod' [''metadata'', ''generation''] = JInt (or_default 1 (as_i64 (at pod [''metadata'', ''generation''])) + 1)"
    and "is_object (idx pod' ''metadata'')" and "wf_json pod \<Longrightarrow> wf_json pod'"
proof -
  let ?g = "or_default 1 (as_i64 (at pod [''metadata'', ''generation''])) + 1"
  from assms obtain w where u: "unbound pod" and w: "assign_at pod [''spec'', ''nodeName''] (JStr node) = Inr w"
    and g: "(case checked_i64 (or_default 1 (as_i64 (at w [''metadata'', ''generation''])) + 1) of
        None \<Rightarrow> no_panic (fail 422 ''Invalid'' ''generation overflow'') | Some g \<Rightarrow> assign_at w [''metadata'', ''generation''] (JInt g)) = Inr pod'"
    unfolding assigned_pod_def write_simps by blast
  note f = assign_at_frame [OF w]
  have m: "idx w ''metadata'' = idx pod ''metadata''" by (rule f(2)) simp
  with g have e: "assign_at w [''metadata'', ''generation''] (JInt ?g) = Inr pod'" "in_i64 ?g"
    by (auto simp: no_panic_def fail_def checked_i64_def split: if_splits)
  note h = assign_at_frame [OF e(1)]
  show "unbound pod" by (rule u)
  have sp: "idx pod' ''spec'' = idx w ''spec''" by (rule h(2)) simp
  show "at pod' [''spec'', ''nodeName''] = JStr node" using f(1) sp by simp
  show "idx pod' k = idx pod k" if "k \<notin> {''spec'', ''metadata''}" using h(2) f(2) that by simp
  show "at pod' [''spec'', k] = at pod [''spec'', k]" if "k \<noteq> ''nodeName''" using f(3) [OF that] sp by simp
  show "at pod' [''metadata'', k] = at pod [''metadata'', k]" if "k \<noteq> ''generation''" using h(3) [OF that] m by simp
  show "at pod' [''metadata'', ''generation''] = JInt ?g" by (rule h(1))
  show "is_object (idx pod' ''metadata'')" by (rule h(4))
  show "wf_json pod'" if "wf_json pod"
    using assign_at_wf [OF e(1) assign_at_wf [OF w that]] e(2) by simp
qed


subsection \<open>A Namespace is deleted in two phases\<close>

lemma terminating_InrD:
  assumes "terminating a v = Inr w" and "items (at v [''metadata'', ''finalizers'']) = []" and "clock a \<noteq> []"
  shows "deletion_requested w" and "at w [''metadata'', ''finalizers''] = JArr [JStr NAMESPACE_FINALIZER]"
    and "at w [''status'', ''phase''] = JStr ''Terminating''" and "is_object (idx w ''metadata'')" and "wf_json v \<Longrightarrow> wf_json w"
proof -
  from assms(1) obtain v1 v2 where v1: "assign_at v [''metadata'', ''deletionTimestamp''] (JStr (clock a)) = Inr v1"
    and v2: "assign_at v1 [''status'', ''phase''] (JStr ''Terminating'') = Inr v2"
    and w: "(let fs = List.map_filter (\<lambda>f. filled (as_str f)) (items (at v2 [''metadata'', ''finalizers'']));
           fs = (if NAMESPACE_FINALIZER \<in> set fs then fs else fs @ [NAMESPACE_FINALIZER])
       in assign_at v2 [''metadata'', ''finalizers''] (JArr (map JStr fs))) = Inr w"
    unfolding terminating_def write_simps by blast
  note f1 = assign_at_frame [OF v1] and f2 = assign_at_frame [OF v2]
  have m: "idx v2 ''metadata'' = idx v1 ''metadata''" by (rule f2(2)) simp
  have "at v1 [''metadata'', ''finalizers''] = at v [''metadata'', ''finalizers'']" by (rule f1(3)) simp
  then have "items (at v2 [''metadata'', ''finalizers'']) = []" using m assms(2) by simp
  then have none: "List.map_filter (\<lambda>f. filled (as_str f)) (items (at v2 [''metadata'', ''finalizers''])) = []"
    by (simp only: map_filter_simps)
  have e: "assign_at v2 [''metadata'', ''finalizers''] (JArr [JStr NAMESPACE_FINALIZER]) = Inr w"
    using w unfolding none Let_def by simp
  note f3 = assign_at_frame [OF e]
  have st: "idx w ''status'' = idx v2 ''status''" by (rule f3(2)) simp
  have "at w [''metadata'', ''deletionTimestamp''] = at v2 [''metadata'', ''deletionTimestamp'']" by (rule f3(3)) simp
  then have "at w [''metadata'', ''deletionTimestamp''] = JStr (clock a)" using f1(1) m by simp
  then show "deletion_requested w" using assms(3) by (simp add: deletion_requested_def)
  show "at w [''metadata'', ''finalizers''] = JArr [JStr NAMESPACE_FINALIZER]" by (rule f3(1))
  show "at w [''status'', ''phase''] = JStr ''Terminating''" using f2(1) st by simp
  show "is_object (idx w ''metadata'')" by (rule f3(4))
  show "wf_json w" if "wf_json v"
    using assign_at_wf [OF e assign_at_wf [OF v2 assign_at_wf [OF v1 that]]] by simp
qed

lemma delete_write_blocked:
  assumes a: "custody (world s) = Unsealed" and k: "named t = Inr k" and cur: "get_current db k = Some ob"
    and v: "object (world s) ob = Inr v" "items (at v [''metadata'', ''finalizers'']) \<noteq> []"
  shows "\<exists>f. delete_write s u t verb opts db = (Inl (Some f), db)"
proof -
  have "delete_checks u t verb v opts \<noteq> Inr ()" using v(2) by (simp add: delete_checks_def write_simps)
  then obtain f where f: "delete_checks u t verb v opts = Inl f" by (cases "delete_checks u t verb v opts") auto
  have "fetch (world s) db k ''object not found'' = Inr ob" using cur by (simp add: fetch_Inr_iff [OF a])
  with k v(1) f show ?thesis by (simp add: delete_write_def Let_def bindA_def pureA_def readA_def no_panic_def)
qed

lemma delete_namespace_InrD:
  assumes "delete_write s u t verb opts db = (Inr r, db')" and "kind (resource t) = ''Namespace''"
  obtains k cur v where "named t = Inr k" "fetch (world s) db k ''object not found'' = Inr cur" "object (world s) cur = Inr v"
    "items (at v [''metadata'', ''finalizers'']) = []" "delete_namespace (world s) k cur v db = (Inr r, db')"
  using assms(1) unfolding delete_write_def Let_def write_simps if_P [OF assms(2)] delete_checks_def by blast

text \<open>
  C8: deleting a Namespace that is not being deleted only marks it: it stays in the registry as
  Terminating, with a deletion timestamp and the finalizer of the namespace controller, no other key
  changes, and every further deletion of it is refused and changes nothing, until the finalizer is
  gone.
\<close>

theorem namespace_deletion_marks:
  assumes law: "text_law (to_vec (world s)) (from_slice (world s))" and a: "custody (world s) = Unsealed" and clk: "clock (world s) \<noteq> []"
    and wf: "wf_registry db" and ns: "kind (resource t) = ''Namespace''"
    and cur: "named t = Inr k" "get_current db k = Some cur" "object (world s) cur = Inr v" "wf_json v" "\<not> deletion_requested v"
    and run: "delete_write s u t verb opts db = (Inr r, db')"
  shows "\<exists>ob w. get_current db' = (get_current db) (k \<mapsto> ob) \<and> object (world s) ob = Inr w
    \<and> deletion_requested w \<and> at w [''metadata'', ''finalizers''] = JArr [JStr NAMESPACE_FINALIZER]
    \<and> at w [''status'', ''phase''] = JStr ''Terminating''
    \<and> (\<forall>u2 verb2 opts2. \<exists>f. delete_write s u2 t verb2 opts2 db' = (Inl (Some f), db'))"
proof -
  from delete_namespace_InrD [OF run ns] obtain k' cur' v' where d: "named t = Inr k'"
    "fetch (world s) db k' ''object not found'' = Inr cur'" "object (world s) cur' = Inr v'"
    "items (at v' [''metadata'', ''finalizers'']) = []" "delete_namespace (world s) k' cur' v' db = (Inr r, db')" .
  have same: "k' = k" "cur' = cur" "v' = v" using d(1-3) cur(1-3) by (auto simp: fetch_Inr_iff [OF a])
  obtain w ob where w: "terminating (world s) v = Inr w"
    and up: "api_update (world s) (stored (world s) k w) (orevision cur) db = (Inr ob, db')"
    using d(5) cur(5) unfolding same delete_namespace_def by (auto simp: write_simps reply_def pureA_def split: if_splits)
  note tm = terminating_InrD [OF w d(4) [unfolded same] clk]
  have key: "valid_key k" using cur(1) unfolding named_Inr_iff by blast
  note commit = api_update_commit [OF a wf key up]
  obtain x where x: "object (world s) ob = Inr x" "\<forall>j. j \<noteq> ''metadata'' \<longrightarrow> idx x j = idx w j"
    "\<forall>j. j \<notin> {''resourceVersion'', ''namespace''} \<longrightarrow> at x [''metadata'', j] = at w [''metadata'', j]"
    using committed_object [OF law tm(5) [OF cur(4)] tm(4)] commit(1) by blast
  have fin: "at x [''metadata'', ''finalizers''] = JArr [JStr NAMESPACE_FINALIZER]" using x(3) tm(2) by simp
  have del: "deletion_requested x" using x(3) tm(1) by (simp add: deletion_requested_def)
  have ph: "at x [''status'', ''phase''] = JStr ''Terminating''" using x(2) tm(3) by simp
  have now: "get_current db' k = Some ob" using commit(2) by simp
  have ne: "items (at x [''metadata'', ''finalizers'']) \<noteq> []" unfolding fin by simp
  from delete_write_blocked [OF a cur(1) now x(1) ne]
  have "\<forall>u2 verb2 opts2. \<exists>f. delete_write s u2 t verb2 opts2 db' = (Inl (Some f), db')" by blast
  with commit(2) x(1) del fin ph show ?thesis by blast
qed

subsection \<open>Handlers change the registry by registry steps only\<close>

definition steps :: "'a action \<Rightarrow> registry \<Rightarrow> bool" where
  "steps m db \<longleftrightarrow> registry_step\<^sup>*\<^sup>* db (snd (m db))"

named_theorems steps_intros \<open>actions that change the registry by steps\<close>

lemma steps_pure [simp, steps_intros]: "steps (pureA r) db" "steps (readA g) db" "steps (guardA h) db"
  by (simp_all add: steps_def pureA_def readA_def guardA_def)

lemma steps_bind [steps_intros]:
  assumes "steps m db" and "\<And>x db'. m db = (Inr x, db') \<Longrightarrow> steps (f x) db'"
  shows "steps (bindA m f) db"
proof -
  obtain r db' where m: "m db = (r, db')" by force
  with assms(1) have s: "registry_step\<^sup>*\<^sup>* db db'" by (simp add: steps_def)
  show ?thesis
  proof (cases r)
    case (Inl e)
    with m s show ?thesis by (simp add: steps_def bindA_def)
  next
    case (Inr x)
    with assms(2) m have "registry_step\<^sup>*\<^sup>* db' (snd (f x db'))" by (simp add: steps_def)
    with s m Inr show ?thesis by (auto simp: steps_def bindA_def)
  qed
qed

lemma valid_key_step: "valid_key k \<longleftrightarrow> is_ok (new_store_key k)"
  by (simp add: valid_key_def)

lemma steps_create: "valid_key k \<Longrightarrow> steps (api_create a (stored a k v)) db"
proof -
  assume "valid_key k"
  then have k: "is_ok (new_store_key (okey (stored a k v)))" by (simp add: valid_key_step stored_def)
  obtain r db' where c: "create (env.custody a) (stored a k v) db = (r, db')" by force
  show ?thesis using step_create [OF k c] by (simp add: steps_def api_create_def c r_into_rtranclp)
qed

lemma steps_update: "valid_key k \<Longrightarrow> steps (api_update a (stored a k v) rv) db"
proof -
  assume "valid_key k"
  then have k: "is_ok (new_store_key (okey (stored a k v)))" by (simp add: valid_key_step stored_def)
  obtain r db' where c: "update (env.custody a) (stored a k v) rv db = (r, db')" by force
  show ?thesis using step_update [OF k c] by (simp add: steps_def api_update_def c r_into_rtranclp)
qed

lemma steps_delete: "valid_key k \<Longrightarrow> steps (api_delete a k rv) db"
  unfolding steps_def api_delete_def
  by (cases "delete (custody a) k rv db") (auto simp: valid_key_step intro: r_into_rtranclp step_delete)

lemma steps_create_volume: "valid_key k \<Longrightarrow> steps (create_volume a k v) db"
proof -
  assume k: "valid_key k"
  obtain r db' where c: "create (custody a) (stored a k v) db = (r, db')" by force
  then have "registry_step db db'" using k by (intro step_create [of "stored a k v"]) (simp_all add: valid_key_step stored_def)
  moreover have "snd (create_volume a k v db) = db'" using c by (auto simp: create_volume_def split: sum.splits store_error.splits)
  ultimately show ?thesis by (auto simp: steps_def)
qed

lemma key_Inr: "api_key v = Inr k \<Longrightarrow> valid_key k"
  by (simp add: api_key_Inr_iff)

lemma named_valid: "named t = Inr k \<Longrightarrow> valid_key k"
  by (simp add: named_def key_Inr)

lemma steps_bind_claim: "steps (bind_claim a claim) db"
proof -
  have p: "steps (provision a claim class_doc uid ns name) db" for class_doc uid ns name db
    unfolding provision_def Let_def
    by (cases "claim_bytes (at claim [''spec'', ''resources'', ''requests'', ''storage''])")
      (auto intro!: steps_bind steps_create_volume dest: key_Inr simp: pureA_Inr_iff no_panic_simps)
  have n: "steps (bind_named a claim requested uid ns) db" for requested uid ns db
    unfolding bind_named_def by (auto intro!: steps_bind split: option.split)
  show ?thesis unfolding bind_claim_def Let_def
    by (auto intro!: steps_bind p n split: option.split)
qed

lemma get_names_key: "get c db k = Inr (Some ob) \<Longrightarrow> okey ob = k"
proof -
  have "vkey v = k" if "latest db k = Some v" for v
  proof -
    have "v \<in> set (filter (\<lambda>v. vkey v = k) (versions db))"
      using that newest_SomeD unfolding latest_def by metis
    then show ?thesis by simp
  qed
  then show "get c db k = Inr (Some ob) \<Longrightarrow> okey ob = k"
    by (auto simp: get_def get_current_def andThen_Inr_iff row_object_def split: option.splits if_splits)
qed

lemma steps_admit_cidr: "steps (admit_cidr a ip configured doc old) db"
proof -
  have key: "valid_key (okey saved)" if "load_ledger a ip configured db = Inr (saved, st)" for saved st db
    using that get_names_key [of "env.custody a" db LEDGER_KEY saved] ledger_key
    by (auto simp: load_ledger_def andThen_Inr_iff api_get_def)
  show ?thesis unfolding admit_cidr_def
    by (auto intro!: steps_bind steps_update key simp: readA_Inr_iff pureA_Inr_iff split: option.split)
qed

lemma steps_admit_write: "steps (admit_write s u t verb k v old ns) db"
proof -
  have "steps (admit_kind s t v old ns) db" for v db
    by (auto simp: admit_kind_def Let_def steps_def intro: steps_bind_claim [unfolded steps_def] simp: pureA_def)
  moreover have "steps (admit_cidrs s t k v old) db" for v db
    unfolding admit_cidrs_def by (auto intro!: steps_bind steps_admit_cidr split: option.split)
  ultimately show ?thesis unfolding admit_write_def by (intro steps_bind) auto
qed

lemma steps_persist: "valid_key k \<Longrightarrow> steps (persist s t k v expected) db"
  unfolding persist_def Let_def reply_def
  by (auto intro!: steps_bind steps_create steps_update steps_delete split: option.split)

lemma normalized_key: "normalized s t verb v db = Inr d \<Longrightarrow> valid_key (doc_key d)"
  unfolding normalized_def write_simps by (auto simp: write_simps dest!: key_Inr split: option.splits prod.splits)

lemma steps_delete_write: "steps (delete_write s u t verb opts) db"
  unfolding delete_write_def Let_def delete_namespace_def reply_def
  by (auto intro!: steps_bind steps_delete steps_update dest: named_valid simp: pureA_Inr_iff no_panic_simps)

lemma steps_bind_pod: "steps (bind_pod s t v) db"
  unfolding bind_pod_def Let_def
  by (auto intro!: steps_bind steps_update dest: named_valid simp: pureA_Inr_iff no_panic_simps)

lemma steps_apply_write: "steps (apply_write s u t verb body opts) db"
  unfolding apply_write_def Let_def
  by (auto intro!: steps_bind steps_admit_write steps_persist dest: normalized_key simp: guardA_Inr_iff andThen_Inr_iff)

lemma steps_ordinary_write: "steps (ordinary_write s u t verb body content_type) db"
  unfolding ordinary_write_def
  by (auto intro!: steps_bind steps_admit_write steps_persist dest: normalized_key
      simp: guardA_Inr_iff andThen_Inr_iff decode_def split: prod.split)


subsection \<open>What a successful update commits\<close>

lemma prepare_metadata:
  assumes "prepare cidr_ok r v (Some old) sub = Inr w" and "k \<noteq> ''generation''" and "k \<noteq> ''resourceVersion''"
    and "at v [''metadata'', k] = at old [''metadata'', k]"
  shows "at w [''metadata'', k] = at old [''metadata'', k]"
proof (cases sub)
  case False
  with assms(1) have p: "prepare cidr_ok r v (Some old) False = Inr w" by simp
  from prepare_spec_InrD [OF p] obtain v1 v2 v3 where
    s: "(if has_status r then assign_member v ''status'' (kept_status (kind r) (Some old)) else Inr v) = (Inr v1 :: json guarded)"
    and t: "kind_strategy cidr_ok (kind r) (Some old) v1 = Inr v2" and c: "carry_generation v2 (Some old) = Inr v3"
    and g: "(if has_generation r then next_generation (kind r) v3 (Some old) else Inr v3) = Inr w" .
  have "idx v1 ''metadata'' = idx v ''metadata''"
    using s by (auto split: if_splits dest: assign_member_InrD(3) [where j = "''metadata''"])
  moreover have "at w [''metadata'', k] = at v3 [''metadata'', k]"
    using g next_generation_InrD(2) [OF _ assms(2)] by (auto split: if_splits simp del: at.simps)
  ultimately show ?thesis
    using assms(4) kind_strategy_frame(2) [OF t] carry_generation_InrD(2) [OF c assms(2)] by simp
next
  case True
  with assms(1) have st: "status_strategy (kind r) v (Some old) = Inr w" by (simp add: prepare_def)
  then obtain v1 v2 where c: "copy_member ''spec'' old v = Inr v1"
    and m: "(if kind r \<noteq> ''Node'' then assign_member v1 ''metadata'' (idx old ''metadata'') else Inr v1) = (Inr v2 :: json guarded)"
    and e: "edit v2 ''metadata'' (\<lambda>m. assign_member m ''resourceVersion'' (at v [''metadata'', ''resourceVersion''])) = (Inr w :: json guarded)"
    by (auto simp: status_strategy_def Let_def andThen_Inr_iff)
  have "at v2 [''metadata'', k] = at old [''metadata'', k]"
    using m copy_member_InrD(2) [OF c, of "''metadata''"] assms(4) by (auto split: if_splits dest: assign_member_InrD(1))
  then show ?thesis using assign_member_InrD(3) [OF edit_InrD(1) [OF e] assms(3)] by simp
qed

lemma fold_string_data_metadata:
  assumes "fold_string_data s v = Inr w"
  shows "idx w ''metadata'' = idx v ''metadata''"
proof (cases "getf v ''stringData''")
  case None
  with assms show ?thesis by (simp add: fold_string_data_def)
next
  case (Some d)
  with assms obtain sm where d: "d = JObj sm" by (cases d) (auto simp: fold_string_data_def write_simps)
  let ?v = "remove_member v ''stringData''"
  from assms Some d obtain v1 where v1: "(if is_object (idx ?v ''data'') then Inr ?v else assign_at ?v [''data''] (JObj [])) = (Inr v1 :: json guarded)"
    and f: "try_fold (add_plain s) v1 sm = Inr w"
    by (auto simp: fold_string_data_def write_simps Let_def)
  have "idx v1 ''metadata'' = idx v ''metadata''"
    using v1 by (auto simp: assign_at_Inr_iff simp del: set_at.simps split: if_splits dest!: idx_set_at_other [where j = "''metadata''"])
  moreover have "idx w ''metadata'' = idx v1 ''metadata''"
    by (rule try_fold_invariant [where I = "\<lambda>x. idx x ''metadata'' = idx v1 ''metadata''", OF f])
      (auto simp: add_plain_def split: option.splits dest: assign_at_frame(2) [where i = "''metadata''"])
  ultimately show ?thesis by simp
qed

lemma prepare_write_metadata:
  assumes "prepare_write s t v (Some old) = Inr w" and "k \<noteq> ''generation''" and "k \<noteq> ''resourceVersion''"
    and "at v [''metadata'', k] = at old [''metadata'', k]"
  shows "at w [''metadata'', k] = at old [''metadata'', k]"
proof -
  from assms(1) obtain x where x: "(if kind (resource t) = ''Secret'' then fold_string_data s v else Inr v) = Inr x"
    and p: "prepare (network_ok s) (resource t) x (Some old) (subresource t \<noteq> None) = Inr w"
    by (auto simp: prepare_write_def andThen_Inr_iff)
  have "idx x ''metadata'' = idx v ''metadata''" using x by (auto split: if_splits dest: fold_string_data_metadata)
  with assms(4) have "at x [''metadata'', k] = at old [''metadata'', k]" by simp
  from prepare_metadata [OF p assms(2,3) this] show ?thesis .
qed

lemma admit_cidr_frame:
  assumes "env.custody a = Unsealed" and "wf_registry db" and "admit_cidr a ip configured doc old db = (Inr (), db')" and "j \<noteq> LEDGER_KEY"
  shows "get_current db' j = get_current db j"
proof (cases "node_cidr doc = Inr None")
  case True
  with assms(3) show ?thesis by (auto simp: admit_cidr_def action_simps no_panic_simps)
next
  case False
  with assms(3) obtain c where c: "node_cidr doc = Inr (Some c)" by (auto simp: admit_cidr_def action_simps no_panic_simps split: option.splits)
  from assms(3) c obtain saved st new st' where l: "load_ledger a ip configured db = Inr (saved, st)"
    and w: "(if new then bindA (api_update a (stored a (okey saved) (ledger_json st')) (orevision saved)) (\<lambda>_. pureA (Inr ()))
      else pureA (Inr ())) db = (Inr (), db')"
    by (auto simp: admit_cidr_def action_simps no_panic_simps split: prod.splits)
  have key: "okey saved = LEDGER_KEY"
    using l get_names_key [of "env.custody a" db LEDGER_KEY saved] by (auto simp: load_ledger_def andThen_Inr_iff api_get_def ledger_key)
  show ?thesis
  proof (cases new)
    case True
    with w key obtain ob where "api_update a (stored a LEDGER_KEY (ledger_json st')) (orevision saved) db = (Inr ob, db')"
      by (auto simp: bindA_Inr_iff pureA_Inr_iff)
    from api_update_commit(2) [OF assms(1,2) ledger_key(2) this] assms(4) show ?thesis by simp
  next
    case False
    with w show ?thesis by (simp add: pureA_Inr_iff)
  qed
qed

lemma admit_kind_update:
  assumes "admit_kind s t v (Some old) ns db = (Inr w, db')"
  shows "db' = db" and "idx w ''metadata'' = idx v ''metadata''"
proof -
  have "db' = db \<and> idx w ''metadata'' = idx v ''metadata''"
    using assms unfolding admit_kind_def Let_def
    by (auto simp: pureA_Inr_iff andThen_Inr_iff assign_def Let_def idx_set_at_other split: if_splits)
  then show "db' = db" and "idx w ''metadata'' = idx v ''metadata''" by simp_all
qed

lemma admit_write_update:
  assumes a: "env.custody (world s) = Unsealed" and wf: "wf_registry db" and verb: "verb \<noteq> ''create''"
    and run: "admit_write s u t verb k v (Some old) ns db = (Inr w, db')"
  shows "idx w ''metadata'' = idx v ''metadata''" and "length (to_vec (world s) w) \<le> MAX_OBJECT_BYTES"
    and "j \<noteq> LEDGER_KEY \<Longrightarrow> get_current db' j = get_current db j" and "wf_registry db'"
proof -
  from run verb obtain db1 where k1: "admit_kind s t v (Some old) ns db = (Inr w, db1)"
    and sz: "length (to_vec (world s) w) \<le> MAX_OBJECT_BYTES" and c1: "admit_cidrs s t k w (Some old) db1 = (Inr (), db')"
    by (auto simp: admit_write_def write_simps)
  have k: "admit_kind s t v (Some old) ns db = (Inr w, db)" and c: "admit_cidrs s t k w (Some old) db = (Inr (), db')"
    using k1 c1 admit_kind_update(1) [OF k1] by simp_all
  show "idx w ''metadata'' = idx v ''metadata''" by (rule admit_kind_update(2) [OF k])
  show "length (to_vec (world s) w) \<le> MAX_OBJECT_BYTES" by (rule sz)
  show "get_current db' j = get_current db j" if "j \<noteq> LEDGER_KEY"
    using c admit_cidr_frame [OF a wf _ that] by (auto simp: admit_cidrs_def write_simps split: if_splits option.splits)
  have "steps (admit_write s u t verb k v (Some old) ns) db" by (rule steps_admit_write)
  with run have "registry_step\<^sup>*\<^sup>* db db'" by (simp add: steps_def)
  then show "wf_registry db'" using wf by (rule registry_steps_wf)
qed

lemma persist_InrD:
  assumes a: "env.custody (world s) = Unsealed" and wf: "wf_registry db" and k: "valid_key k"
    and run: "persist s t k v (Some rv) db = (Inr (Document c w), db')"
  shows "\<exists>ob cur. get_current db' = (get_current db) (k \<mapsto> ob) \<and> ovalue ob = to_vec (world s) v
    \<and> object (world s) ob = Inr w \<and> get_current db k = Some cur \<and> orevision cur = rv"
proof -
  let ?gone = "\<lambda>ob. if kind (resource t) = ''Namespace'' \<and> Some rv \<noteq> None
      then bindA (pureA (no_panic (object (world s) ob))) (\<lambda>current. pureA (Inr (deletion_requested current \<and> \<not> finalizers_pending current)))
      else pureA (Inr False)"
  from run obtain ob db1 gone db2 where up: "api_update (world s) (stored (world s) k v) rv db = (Inr ob, db1)"
    and g: "?gone ob db1 = (Inr gone, db2)"
    and e: "(if gone then bindA (api_delete (world s) k (orevision ob)) (\<lambda>_. pureA (Inr (Success 200)))
          else reply (world s) (if Some rv \<noteq> None then 200 else 201) ob) db2 = (Inr (Document c w), db')"
    unfolding persist_def Let_def option.case bindA_Inr_iff by blast
  have "db2 = db1" using g by (auto simp: write_simps split: if_splits)
  with e have "object (world s) ob = Inr w" "db' = db1"
    by (auto simp: reply_def write_simps split: if_splits)
  with api_update_commit(1,2,5) [OF a wf k up] show ?thesis by auto
qed


subsection \<open>Examples\<close>

definition demo_service :: "(nat \<times> nat, json) service" where
  "demo_service = \<lparr>world = framed_env, ipnet = block_networks, pool = None, rbac_text = \<lparr>role_of = (\<lambda>_. None), binding_of = (\<lambda>_. None)\<rparr>,
     patches = \<lparr>merge_patch = (\<lambda>v p. p), decode_operations = (\<lambda>_. None), patch_one = (\<lambda>_ _. None), strategic_schema = JNull\<rparr>,
     normalize = (\<lambda>_ v. Some v), protobuf = (\<lambda>_. bad ''protobuf''), base64 = id, network_ok = (\<lambda>_. True),
     decode_binding = (\<lambda>_. Some \<lparr>bound_pod = Some ''web'', bound_namespace = None, bound_uid = None, bound_version = None,
        target_kind = Some ''Node'', target_version = None, target_node = Some ''n1''\<rparr>)\<rparr>"

definition root_user :: user where
  "root_user = \<lparr>user_name = ''admin'', user_groups = [''system:masters'']\<rparr>"

definition with_doc :: "string \<Rightarrow> json \<Rightarrow> registry \<Rightarrow> registry" where
  "with_doc k v db = snd (api_create framed_env (stored framed_env k v) db)"

definition plain_doc :: "string \<Rightarrow> string \<Rightarrow> string \<Rightarrow> json" where
  "plain_doc api k name = JObj [(''apiVersion'', JStr api), (''kind'', JStr k),
     (''metadata'', JObj [(''name'', JStr name), (''uid'', JStr (''uid-of-'' @ name))])]"

definition cluster_registry :: registry where
  "cluster_registry = fold (\<lambda>(k, v). with_doc k v)
     [(''/registry/namespaces/team'', plain_doc ''v1'' ''Namespace'' ''team''),
      (''/registry/nodes/n1'', plain_doc ''v1'' ''Node'' ''n1''),
      (''/registry/pods/team/web'', plain_doc ''v1'' ''Pod'' ''web''),
      (''/registry/configmaps/team/settings'', plain_doc ''v1'' ''ConfigMap'' ''settings'')] empty_registry"

definition core_target :: "string \<Rightarrow> string \<Rightarrow> string option \<Rightarrow> string \<Rightarrow> string option \<Rightarrow> target" where
  "core_target p k ns name sub = \<lparr>resource = res '''' p k (ns \<noteq> None), namespace = ns, tname = Some name, subresource = sub\<rparr>"

lemma wf_cluster_registry: "wf_registry cluster_registry"
proof -
  have w: "wf_registry (with_doc k v db)" if "valid_key k" "wf_registry db" for k v db
    using steps_create [OF that(1), of framed_env v db] that(2) by (auto simp: steps_def with_doc_def intro: registry_steps_wf)
  have "valid_key ''/registry/namespaces/team''" "valid_key ''/registry/nodes/n1''" "valid_key ''/registry/pods/team/web''"
    "valid_key ''/registry/configmaps/team/settings''" by code_simp+
  then show ?thesis using wf_empty unfolding cluster_registry_def by (auto intro!: w)
qed

definition answer_of :: "'a guarded \<times> registry \<Rightarrow> 'a option" where
  "answer_of x = (case fst x of Inl e \<Rightarrow> None | Inr r \<Rightarrow> Some r)"

lemma answer_of_Some: "answer_of x = Some r \<Longrightarrow> x = (Inr r, snd x)"
  by (cases x) (auto simp: answer_of_def split: sum.splits)

abbreviation web_binding :: target where
  "web_binding \<equiv> core_target ''pods'' ''Pod'' (Some ''team'') ''web'' (Some ''binding'')"

definition binding_doc :: json where
  "binding_doc = JObj [(''apiVersion'', JStr ''v1''), (''kind'', JStr ''Binding'')]"


definition stored_doc :: "registry \<Rightarrow> string \<Rightarrow> (stored_object \<times> json) option" where
  "stored_doc db k = Option.bind (get_current db k) (\<lambda>ob. case object framed_env ob of Inl e \<Rightarrow> None | Inr v \<Rightarrow> Some (ob, v))"

lemma stored_doc_Some: "stored_doc db k = Some (ob, v) \<longleftrightarrow> get_current db k = Some ob \<and> object framed_env ob = Inr v"
proof (cases "get_current db k")
  case None
  then show ?thesis by (simp add: stored_doc_def)
next
  case (Some x)
  then show ?thesis by (cases "object framed_env x") (auto simp: stored_doc_def)
qed

lemma demo_world:
  "text_law (to_vec (world demo_service)) (from_slice (world demo_service))" "env.custody (world demo_service) = Unsealed"
  "world demo_service = framed_env" "clock (world demo_service) \<noteq> []"
  using framed_env_law by (simp_all add: demo_service_def framed_env_def)

abbreviation team_namespace :: target where
  "team_namespace \<equiv> core_target ''namespaces'' ''Namespace'' None ''team'' None"

theorem namespace_deletion_marks_witness:
  "\<exists>f. delete_write demo_service root_user team_namespace ''delete'' (JObj [])
     (snd (delete_write demo_service root_user team_namespace ''delete'' (JObj []) cluster_registry))
     = (Inl (Some f), snd (delete_write demo_service root_user team_namespace ''delete'' (JObj []) cluster_registry))"
proof -
  let ?run = "delete_write demo_service root_user team_namespace ''delete'' (JObj []) cluster_registry"
  let ?k = "''/registry/namespaces/team''"
  have "answer_of ?run \<noteq> None" by code_simp
  then obtain r where "answer_of ?run = Some r" unfolding not_None_eq by (elim exE)
  note run = answer_of_Some [OF this]
  have "case stored_doc cluster_registry ?k of None \<Rightarrow> False | Some (ob, v) \<Rightarrow> wf_json v \<and> \<not> deletion_requested v" by code_simp
  then obtain cur v where cur: "stored_doc cluster_registry ?k = Some (cur, v)" "wf_json v" "\<not> deletion_requested v"
    by (auto split: option.splits)
  have k: "named team_namespace = Inr ?k" by code_simp
  have n: "kind (resource team_namespace) = ''Namespace''" by (simp add: core_target_def res_def)
  note c = cur(1) [unfolded stored_doc_Some]
  from namespace_deletion_marks [OF demo_world(1,2,4) wf_cluster_registry n k conjunct1 [OF c]
    conjunct2 [OF c, folded demo_world(3)] cur(2,3) run]
  show ?thesis by blast
qed


abbreviation team_settings :: target where
  "team_settings \<equiv> core_target ''configmaps'' ''ConfigMap'' (Some ''team'') ''settings'' None"

definition new_settings :: json where
  "new_settings = JObj [(''apiVersion'', JStr ''v1''), (''data'', JObj [(''mode'', JStr ''fast'')]), (''kind'', JStr ''ConfigMap''),
     (''metadata'', JObj [(''name'', JStr ''settings''), (''resourceVersion'', JStr ''4'')])]"


definition ending_registry :: registry where
  "ending_registry = with_doc ''/registry/namespaces/old'' (JObj [(''apiVersion'', JStr ''v1''), (''kind'', JStr ''Namespace''),
     (''metadata'', JObj [(''deletionTimestamp'', JStr ''now''), (''name'', JStr ''old'')]),
     (''status'', JObj [(''phase'', JStr ''Terminating'')])]) empty_registry"

definition late_settings :: json where
  "late_settings = JObj [(''apiVersion'', JStr ''v1''), (''kind'', JStr ''ConfigMap''), (''metadata'', JObj [(''name'', JStr ''late'')])]"

text \<open>
  A Namespace that is being deleted refuses new content by create, but a first server-side apply of
  the same object creates it: the pipeline takes the verb for the kind of write, and an apply has the
  verb patch.
\<close>

theorem apply_ignores_termination:
  "\<not> is_ok (fst (execute demo_service root_user (core_target ''configmaps'' ''ConfigMap'' (Some ''old'') ''late'' None)
        ''create'' [] ''application/json'' (frame_json late_settings) ending_registry))
   \<and> is_ok (fst (execute demo_service root_user (core_target ''configmaps'' ''ConfigMap'' (Some ''old'') ''late'' None)
        ''patch'' [(''fieldManager'', ''m'')] ''application/apply-patch+json'' (frame_json late_settings) ending_registry))"
  by (intro conjI) code_simp+

end
