(* ===== verification/Placement.thy ===== *)
theory Placement
  imports Json Quantity "HOL-Library.Product_Lexorder"
begin

text \<open>
  The placement of a Pod (\<^verbatim>\<open>crates/h3s-scheduler/src/placement.rs\<close>): the supported constraints, the
  resources a Pod requests and a node offers, and the choice among the feasible nodes.  The parser
  of RFC 3339 times is the chrono library's: the argument \<open>inst\<close>, an instant in nanoseconds.
\<close>

definition populated :: "json \<Rightarrow> bool" where
  "populated v \<longleftrightarrow> v \<noteq> JNull \<and> v \<noteq> JArr [] \<and> v \<noteq> JObj []"

definition terminal :: "json \<Rightarrow> bool" where
  "terminal p \<longleftrightarrow> as_str (at p [''status'', ''phase'']) \<in> {Some ''Succeeded'', Some ''Failed''}"

definition pending :: "json \<Rightarrow> bool" where
  "pending p \<longleftrightarrow> is_null (at p [''metadata'', ''deletionTimestamp''])
     \<and> filled (as_str (at p [''spec'', ''nodeName''])) = None
     \<and> as_str (at p [''spec'', ''schedulerName'']) \<in> {None, Some '''', Some ''default-scheduler''}
     \<and> \<not> terminal p"

subsection \<open>Resources\<close>

record demand =
  cpu :: int
  memory :: int
  slots :: int

definition no_demand :: demand where
  "no_demand = \<lparr>cpu = 0, memory = 0, slots = 0\<rparr>"

definition add_demand :: "demand \<Rightarrow> demand \<Rightarrow> demand option" where
  "add_demand x y =
     Option.bind (checked_i64 (cpu x + cpu y)) (\<lambda>c.
     Option.bind (checked_i64 (memory x + memory y)) (\<lambda>m.
     Option.bind (checked_i64 (slots x + slots y)) (\<lambda>s. Some \<lparr>cpu = c, memory = m, slots = s\<rparr>)))"

definition fits :: "demand \<Rightarrow> demand \<Rightarrow> bool" where
  "fits x available \<longleftrightarrow> cpu x \<le> cpu available \<and> memory x \<le> memory available \<and> slots x \<le> slots available"

definition only_known :: "json \<Rightarrow> bool" where
  "only_known v \<longleftrightarrow> (case v of JObj m \<Rightarrow> list_all (\<lambda>(k, _). k \<in> {''cpu'', ''memory''}) m | _ \<Rightarrow> True)"

text \<open>\<open>transpose_option\<close> of the converted text: a member that is no string is absent, a text that does not convert fails.\<close>

definition amount :: "bool \<Rightarrow> json \<Rightarrow> int option option" where
  "amount is_cpu v =
     (case as_str v of
        None \<Rightarrow> Some None
      | Some s \<Rightarrow> map_option Some (Option.bind (parse_quantity s) (if is_cpu then as_milli_cpu else as_bytes)))"

definition container_amount :: "json \<Rightarrow> bool \<Rightarrow> int option" where
  "container_amount r is_cpu =
     (let key = (if is_cpu then ''cpu'' else ''memory'') in
      Option.bind (amount is_cpu (at r [''limits'', key])) (\<lambda>limit.
      Option.bind (amount is_cpu (at r [''requests'', key])) (\<lambda>asked.
      let request = or_default 0 (or_else asked limit) in
      if (case limit of None \<Rightarrow> False | Some l \<Rightarrow> request > l) then None else Some request)))"

definition container_demand :: "demand \<Rightarrow> json \<Rightarrow> demand option" where
  "container_demand acc c =
     (let r = idx c ''resources'' in
      if \<not> only_known (idx r ''requests'') \<or> \<not> only_known (idx r ''limits'') then None
      else Option.bind (container_amount r True) (\<lambda>x.
        Option.bind (container_amount r False) (\<lambda>y. add_demand acc \<lparr>cpu = x, memory = y, slots = 0\<rparr>)))"

fun fold_some :: "('s \<Rightarrow> 'a \<Rightarrow> 's option) \<Rightarrow> 's \<Rightarrow> 'a list \<Rightarrow> 's option" where
  "fold_some f s [] = Some s"
| "fold_some f s (x # xs) = Option.bind (f s x) (\<lambda>t. fold_some f t xs)"

definition requests :: "json \<Rightarrow> demand option" where
  "requests p =
     (let s = idx p ''spec''; overhead = idx s ''overhead'' in
      if populated (idx s ''initContainers'') \<or> populated (idx s ''resources'') \<or> populated (idx s ''resourceClaims'') then None
      else if items (idx s ''containers'') = [] then None
      else Option.bind (fold_some container_demand (no_demand\<lparr>slots := 1\<rparr>) (items (idx s ''containers''))) (\<lambda>acc.
        if \<not> only_known overhead then None
        else Option.bind (amount True (idx overhead ''cpu'')) (\<lambda>x.
          Option.bind (amount False (idx overhead ''memory'')) (\<lambda>y.
            add_demand acc \<lparr>cpu = or_default 0 x, memory = or_default 0 y, slots = 0\<rparr>))))"

definition capacity :: "json \<Rightarrow> demand option" where
  "capacity n =
     (let a = at n [''status'', ''allocatable''] in
      Option.bind (Option.bind (Option.bind (as_str (idx a ''cpu'')) parse_quantity) as_milli_cpu) (\<lambda>c.
      Option.bind (Option.bind (Option.bind (as_str (idx a ''memory'')) parse_quantity) as_bytes) (\<lambda>m.
      Option.bind (Option.bind (as_str (idx a ''pods'')) parse_i64) (\<lambda>s.
        if s > 0 then Some \<lparr>cpu = c, memory = m, slots = s\<rparr> else None))))"

subsection \<open>Node health\<close>

text \<open>\<^verbatim>\<open>TimeDelta::num_milliseconds\<close> truncates towards zero.\<close>

definition millis :: "int \<Rightarrow> int" where
  "millis d = (if d \<ge> 0 then d div 1000000 else - ((- d) div 1000000))"

definition clamp :: "int \<Rightarrow> int \<Rightarrow> int \<Rightarrow> int" where
  "clamp lo hi x = max lo (min hi x)"

definition lease_covers :: "(string \<Rightarrow> int option) \<Rightarrow> int \<Rightarrow> json \<Rightarrow> json \<Rightarrow> bool" where
  "lease_covers inst now n l \<longleftrightarrow>
     at l [''metadata'', ''name''] = at n [''metadata'', ''name'']
     \<and> at l [''spec'', ''holderIdentity''] = at n [''metadata'', ''name'']
     \<and> list_ex (\<lambda>o'. idx o' ''kind'' = JStr ''Node'' \<and> idx o' ''apiVersion'' = JStr ''v1'' \<and> idx o' ''uid'' = at n [''metadata'', ''uid''])
          (items (at l [''metadata'', ''ownerReferences'']))
     \<and> (case Option.bind (as_str (at l [''spec'', ''renewTime''])) inst of
          None \<Rightarrow> False
        | Some time \<Rightarrow>
            let duration = clamp 0 40 (or_default 0 (as_i64 (at l [''spec'', ''leaseDurationSeconds''])));
                age = millis (now - time)
            in age \<ge> 0 \<and> age \<le> duration * 1000 \<and> duration > 0)"

definition PRESSURES :: "string list" where
  "PRESSURES = [''MemoryPressure'', ''DiskPressure'', ''PIDPressure'', ''NetworkUnavailable'']"

definition alive :: "(string \<Rightarrow> int option) \<Rightarrow> int \<Rightarrow> json list \<Rightarrow> json \<Rightarrow> bool" where
  "alive inst now leases n \<longleftrightarrow>
     is_null (at n [''metadata'', ''deletionTimestamp'']) \<and> at n [''spec'', ''unschedulable''] \<noteq> JBool True
     \<and> list_ex (\<lambda>c. idx c ''type'' = JStr ''Ready'' \<and> idx c ''status'' = JStr ''True'') (items (at n [''status'', ''conditions'']))
     \<and> \<not> list_ex (\<lambda>c. list_ex (\<lambda>p. as_str (idx c ''type'') = Some p) PRESSURES \<and> idx c ''status'' \<noteq> JStr ''False'')
          (items (at n [''status'', ''conditions'']))
     \<and> list_ex (lease_covers inst now n) leases"

subsection \<open>Constraints\<close>

definition tolerates :: "json \<Rightarrow> json \<Rightarrow> bool" where
  "tolerates p t \<longleftrightarrow>
     list_ex (\<lambda>v.
       let effect = or_default '''' (as_str (idx v ''effect'')); key = or_default '''' (as_str (idx v ''key''));
           oper = or_default ''Equal'' (as_str (idx v ''operator'')) in
       (effect = '''' \<or> idx v ''effect'' = idx t ''effect'')
       \<and> (if oper = ''Exists'' then key = '''' \<or> idx v ''key'' = idx t ''key''
          else if oper = ''Equal'' then key \<noteq> '''' \<and> idx v ''key'' = idx t ''key''
            \<and> or_default '''' (as_str (idx v ''value'')) = or_default '''' (as_str (idx t ''value''))
          else False))
     (items (at p [''spec'', ''tolerations'']))"

definition node_requirement :: "json \<Rightarrow> string option \<Rightarrow> bool" where
  "node_requirement r v =
     (let vs = List.map_filter as_str (items (idx r ''values'')) in
      case as_str (idx r ''operator'') of
        None \<Rightarrow> False
      | Some oper \<Rightarrow>
          if oper = ''In'' then vs \<noteq> [] \<and> (case v of None \<Rightarrow> False | Some x \<Rightarrow> x \<in> set vs)
          else if oper = ''NotIn'' then vs \<noteq> [] \<and> (case v of None \<Rightarrow> True | Some x \<Rightarrow> x \<notin> set vs)
          else if oper = ''Exists'' then vs = [] \<and> v \<noteq> None
          else if oper = ''DoesNotExist'' then vs = [] \<and> v = None
          else if (oper = ''Gt'' \<or> oper = ''Lt'') \<and> length vs = 1 then
            (case (Option.bind v parse_i64, parse_i64 (vs ! 0)) of
               (Some a, Some b) \<Rightarrow> if oper = ''Gt'' then a > b else a < b
             | _ \<Rightarrow> False)
          else False)"

definition node_term :: "json \<Rightarrow> json \<Rightarrow> bool" where
  "node_term t n =
     (let labels = at n [''metadata'', ''labels'']; es = items (idx t ''matchExpressions''); fs = items (idx t ''matchFields'') in
      (es \<noteq> [] \<or> fs \<noteq> [])
      \<and> list_all (\<lambda>r. case as_str (idx r ''key'') of None \<Rightarrow> False | Some k \<Rightarrow> node_requirement r (as_str (idx labels k))) es
      \<and> list_all (\<lambda>r. idx r ''key'' = JStr ''metadata.name'' \<and> node_requirement r (as_str (at n [''metadata'', ''name'']))) fs)"

definition preference_step :: "json \<Rightarrow> int \<Rightarrow> json \<Rightarrow> int option" where
  "preference_step n score pref =
     Option.bind (as_i64 (idx pref ''weight'')) (\<lambda>w.
       if 1 \<le> w \<and> w \<le> 100 then (if node_term (idx pref ''preference'') n then checked_i64 (score + w) else Some score) else None)"

definition affinity :: "json \<Rightarrow> json \<Rightarrow> int option" where
  "affinity p n =
     (let a = at p [''spec'', ''affinity'', ''nodeAffinity''];
          required = idx a ''requiredDuringSchedulingIgnoredDuringExecution'' in
      if (case at p [''spec'', ''nodeSelector''] of
            JObj m \<Rightarrow> list_ex (\<lambda>(k, v). at n [''metadata'', ''labels'', k] \<noteq> v) m | _ \<Rightarrow> False) then None
      else if \<not> is_null required \<and> \<not> list_ex (\<lambda>t. node_term t n) (items (idx required ''nodeSelectorTerms'')) then None
      else fold_some (preference_step n) 0 (items (idx a ''preferredDuringSchedulingIgnoredDuringExecution'')))"

subsection \<open>The choice\<close>

definition VOLUME_KINDS :: "string list" where
  "VOLUME_KINDS = [''configMap'', ''secret'', ''projected'', ''downwardAPI'', ''emptyDir'', ''persistentVolumeClaim'']"

definition unsupported :: "json \<Rightarrow> bool" where
  "unsupported p \<longleftrightarrow>
     (let s = idx p ''spec'' in
      populated (at s [''affinity'', ''podAffinity'']) \<or> populated (at s [''affinity'', ''podAntiAffinity''])
      \<or> populated (idx s ''topologySpreadConstraints'') \<or> populated (idx s ''runtimeClassName'')
      \<or> list_ex (\<lambda>v. \<not> list_ex (\<lambda>k. \<not> is_null (idx v k)) VOLUME_KINDS) (items (idx s ''volumes''))
      \<or> list_ex (\<lambda>c. list_ex (\<lambda>q. or_default 0 (as_i64 (idx q ''hostPort'')) \<noteq> 0) (items (idx c ''ports''))) (items (idx s ''containers'')))"

definition on_node :: "string \<Rightarrow> json \<Rightarrow> bool" where
  "on_node name p \<longleftrightarrow> at p [''spec'', ''nodeName''] = JStr name \<and> \<not> terminal p"

definition used_on :: "string \<Rightarrow> json list \<Rightarrow> demand option" where
  "used_on name pods =
     fold_some (\<lambda>sum p. Option.bind (requests p) (add_demand sum)) no_demand (filter (on_node name) pods)"

definition hard_taint :: "json \<Rightarrow> json \<Rightarrow> bool" where
  "hard_taint p t \<longleftrightarrow> as_str (idx t ''effect'') \<in> {Some ''NoSchedule'', Some ''NoExecute''} \<and> \<not> tolerates p t"

definition soft_taint :: "json \<Rightarrow> json \<Rightarrow> bool" where
  "soft_taint p t \<longleftrightarrow> idx t ''effect'' = JStr ''PreferNoSchedule'' \<and> \<not> tolerates p t"

text \<open>The body of the loop: the sort key of a feasible node, none for one that is passed over.\<close>

definition choice :: "json \<Rightarrow> demand \<Rightarrow> (json \<Rightarrow> bool) \<Rightarrow> json list \<Rightarrow> json \<Rightarrow> (nat \<times> int \<times> int \<times> string) option" where
  "choice p need up pods n =
     (if \<not> up n then None
      else Option.bind (filled (as_str (at n [''metadata'', ''name'']))) (\<lambda>name.
        Option.bind (capacity n) (\<lambda>cap.
        Option.bind (affinity p n) (\<lambda>preference.
        let taints = items (at n [''spec'', ''taints'']) in
        if list_ex (hard_taint p) taints then None
        else Option.bind (used_on name pods) (\<lambda>used.
          Option.bind (add_demand used need) (\<lambda>sum.
            if \<not> fits sum cap then None
            else Some (length (filter (soft_taint p) taints), - preference, slots used, name)))))))"

definition select :: "(string \<Rightarrow> int option) \<Rightarrow> int \<Rightarrow> json \<Rightarrow> json list \<Rightarrow> json list \<Rightarrow> json list \<Rightarrow> (string, string) result" where
  "select inst now p nodes pods leases =
     (if populated (at p [''spec'', ''schedulingGates'']) then Inl ''SchedulingGated''
      else if unsupported p then Inl ''UnsupportedScheduling''
      else (case requests p of
          None \<Rightarrow> Inl ''UnsupportedResources''
        | Some need \<Rightarrow>
            (case sort (List.map_filter (choice p need (alive inst now leases) pods) nodes) of
               [] \<Rightarrow> Inl ''Unschedulable''
             | (_, _, _, name) # _ \<Rightarrow> Inr name)))"

subsection \<open>What a placement guarantees\<close>

lemma add_demand_Some:
  assumes "add_demand x y = Some z"
  shows "cpu z = cpu x + cpu y" "memory z = memory x + memory y" "slots z = slots x + slots y"
  using assms by (auto simp: add_demand_def bind_eq_Some_conv)

text \<open>The exact load of a node: the requests of its live Pods, in one of the three measures.\<close>

definition load :: "(demand \<Rightarrow> int) \<Rightarrow> string \<Rightarrow> json list \<Rightarrow> int" where
  "load f name pods = sum_list (map (\<lambda>p. f (the (requests p))) (filter (on_node name) pods))"

lemma fold_demands:
  assumes "fold_some (\<lambda>acc p. Option.bind (requests p) (add_demand acc)) s ps = Some u"
  shows "(\<forall>p \<in> set ps. requests p \<noteq> None)
    \<and> cpu u = cpu s + sum_list (map (\<lambda>p. cpu (the (requests p))) ps)
    \<and> memory u = memory s + sum_list (map (\<lambda>p. memory (the (requests p))) ps)
    \<and> slots u = slots s + sum_list (map (\<lambda>p. slots (the (requests p))) ps)"
  using assms
proof (induction ps arbitrary: s)
  case Nil
  then show ?case by simp
next
  case (Cons p ps)
  then obtain d t where d: "requests p = Some d" "add_demand s d = Some t"
    and rest: "fold_some (\<lambda>acc p. Option.bind (requests p) (add_demand acc)) t ps = Some u"
    by (auto simp: bind_eq_Some_conv)
  from Cons.IH [OF rest] d(1) add_demand_Some [OF d(2)] show ?case by auto
qed

lemma used_on_load:
  assumes "used_on name pods = Some u"
  shows "cpu u = load cpu name pods" "memory u = load memory name pods" "slots u = load slots name pods"
  using fold_demands [OF assms [unfolded used_on_def]] by (simp_all add: load_def no_demand_def)

definition within :: "string \<Rightarrow> json list \<Rightarrow> demand \<Rightarrow> demand \<Rightarrow> bool" where
  "within name pods need cap \<longleftrightarrow> load cpu name pods + cpu need \<le> cpu cap
     \<and> load memory name pods + memory need \<le> memory cap \<and> load slots name pods + slots need \<le> slots cap"

lemma choice_SomeD:
  assumes "choice p need up pods n = Some k"
  shows "up n" and "at n [''metadata'', ''name''] = JStr (snd (snd (snd k)))"
    and "affinity p n \<noteq> None" and "\<not> list_ex (hard_taint p) (items (at n [''spec'', ''taints'']))"
    and "\<exists>cap. capacity n = Some cap \<and> within (snd (snd (snd k))) pods need cap"
    and "snd (snd (snd k)) \<noteq> []"
proof -
  from assms obtain name cap pref used sum where c: "up n" "as_str (at n [''metadata'', ''name'']) = Some name" "capacity n = Some cap" "name \<noteq> []"
    "affinity p n = Some pref" "\<not> list_ex (hard_taint p) (items (at n [''spec'', ''taints'']))" "used_on name pods = Some used"
    "add_demand used need = Some sum" "fits sum cap" "k = (length (filter (soft_taint p) (items (at n [''spec'', ''taints'']))), - pref, slots used, name)"
    unfolding choice_def Let_def by (auto simp: bind_eq_Some_conv split: if_splits simp del: at.simps)
  show "up n" "affinity p n \<noteq> None" "\<not> list_ex (hard_taint p) (items (at n [''spec'', ''taints'']))" using c(1,5,6) by simp_all
  show "at n [''metadata'', ''name''] = JStr (snd (snd (snd k)))" using c(2,10) by (simp add: as_str_Some_iff)
  show "snd (snd (snd k)) \<noteq> []" using c(4,10) by simp
  have "within name pods need cap"
    using c(9) add_demand_Some [OF c(8)] used_on_load [OF c(7)] by (simp add: within_def fits_def)
  with c(3,10) show "\<exists>cap. capacity n = Some cap \<and> within (snd (snd (snd k))) pods need cap" by simp
qed

lemma map_filter_set: "x \<in> set (List.map_filter f xs) \<longleftrightarrow> (\<exists>y \<in> set xs. f y = Some x)"
  by (induction xs) (auto simp: List.map_filter_simps split: option.splits)

lemma map_filter_Nil: "List.map_filter f xs = [] \<longleftrightarrow> (\<forall>y \<in> set xs. f y = None)"
  by (induction xs) (auto simp: List.map_filter_simps split: option.splits)

lemma map_filter_least:
  fixes f :: "'a \<Rightarrow> 'b::linorder option"
  assumes "sort (List.map_filter f xs) = k # ks"
  obtains x where "x \<in> set xs" "f x = Some k" "\<And>y k'. y \<in> set xs \<Longrightarrow> f y = Some k' \<Longrightarrow> k \<le> k'"
proof -
  have all: "set (List.map_filter f xs) = set (k # ks)" using assms by (metis set_sort)
  have "k \<in> set (List.map_filter f xs)" using all by simp
  then obtain x where x: "x \<in> set xs" "f x = Some k" unfolding map_filter_set by (elim bexE)
  have "k \<le> k'" if "y \<in> set xs" "f y = Some k'" for y k'
  proof -
    have "k' \<in> set (List.map_filter f xs)" unfolding map_filter_set using that by (rule rev_bexI)
    then have "k' \<in> set (k # ks)" unfolding all .
    moreover have "sorted (k # ks)" using assms by (metis sorted_sort)
    ultimately show ?thesis by auto
  qed
  with x show ?thesis by (rule that)
qed

text \<open>The node that \<open>select\<close> names: stored, with a name, and with room for the Pod beside its live Pods.\<close>

lemma select_InrD:
  assumes "select inst now p nodes pods leases = Inr name"
  obtains need n cap where "requests p = Some need" "n \<in> set nodes" "at n [''metadata'', ''name''] = JStr name" "name \<noteq> []"
    "capacity n = Some cap" "within name pods need cap" "alive inst now leases n"
proof -
  obtain need where need: "requests p = Some need" and sel:
      "(case sort (List.map_filter (choice p need (alive inst now leases) pods) nodes) of
         [] \<Rightarrow> Inl ''Unschedulable'' | (_, _, _, name) # _ \<Rightarrow> Inr name) = (Inr name :: (string, string) result)"
    using assms unfolding select_def by (cases "requests p") (simp_all split: if_splits)
  obtain k ks where ks: "sort (List.map_filter (choice p need (alive inst now leases) pods) nodes) = k # ks"
    using sel by (cases "sort (List.map_filter (choice p need (alive inst now leases) pods) nodes)") simp_all
  obtain s q u m where k: "k = (s, q, u, m)" by (cases k)
  have m: "m = name" using sel unfolding ks k by simp
  from map_filter_least [OF ks] obtain n where n: "n \<in> set nodes" "choice p need (alive inst now leases) pods n = Some k" by metis
  note c = choice_SomeD [OF n(2) [unfolded k m], unfolded snd_conv]
  from c(5) obtain cap where "capacity n = Some cap" "within name pods need cap" by blast
  with need n(1) c(1,2,6) show ?thesis by (intro that)
qed

text \<open>
  C13: a placement is sound, best and complete.  The chosen node is up, satisfies the Pod's affinity
  and has no taint the Pod does not tolerate; the exact sum of what its live Pods request and what
  this Pod requests is within what the node offers, in all three measures; no other feasible node
  comes before it in the order of preference; and a Pod is reported unschedulable only when no node
  is feasible.
\<close>

theorem placement_exact:
  assumes "requests p = Some need" and "\<not> populated (at p [''spec'', ''schedulingGates''])" and "\<not> unsupported p"
  shows "case select inst now p nodes pods leases of
      Inl e \<Rightarrow> e = ''Unschedulable'' \<and> (\<forall>n \<in> set nodes. choice p need (alive inst now leases) pods n = None)
    | Inr name \<Rightarrow> \<exists>n \<in> set nodes. \<exists>cap. at n [''metadata'', ''name''] = JStr name \<and> alive inst now leases n
        \<and> affinity p n \<noteq> None \<and> \<not> list_ex (hard_taint p) (items (at n [''spec'', ''taints'']))
        \<and> capacity n = Some cap \<and> within name pods need cap
        \<and> (\<forall>n' \<in> set nodes. \<forall>k'. choice p need (alive inst now leases) pods n' = Some k' \<longrightarrow>
             (\<exists>k. choice p need (alive inst now leases) pods n = Some k \<and> k \<le> k'))"
proof (cases "sort (List.map_filter (choice p need (alive inst now leases) pods) nodes)")
  case Nil
  then have none: "List.map_filter (choice p need (alive inst now leases) pods) nodes = []" by (metis length_0_conv length_sort)
  have r: "select inst now p nodes pods leases = Inl ''Unschedulable''" using Nil assms by (simp add: select_def)
  show ?thesis unfolding r using none by (simp add: map_filter_Nil)
next
  case (Cons k ks)
  from map_filter_least [OF Cons] obtain n where n: "n \<in> set nodes" "choice p need (alive inst now leases) pods n = Some k"
    and least: "\<And>n' k'. n' \<in> set nodes \<Longrightarrow> choice p need (alive inst now leases) pods n' = Some k' \<Longrightarrow> k \<le> k'"
    by metis
  obtain s q u name where k: "k = (s, q, u, name)" by (cases k)
  have r: "select inst now p nodes pods leases = Inr name"
    unfolding select_def if_not_P [OF assms(2)] if_not_P [OF assms(3)] assms(1) option.case Cons list.case
    unfolding k prod.case by (rule refl)
  note c = choice_SomeD [OF n(2) [unfolded k], unfolded snd_conv]
  from c(5) obtain cap where cap: "capacity n = Some cap" "within name pods need cap" by blast
  have best: "\<forall>n' \<in> set nodes. \<forall>k'. choice p need (alive inst now leases) pods n' = Some k' \<longrightarrow>
      (\<exists>k. choice p need (alive inst now leases) pods n = Some k \<and> k \<le> k')"
    by (intro ballI allI impI exI conjI) (rule n(2), rule least)
  show ?thesis unfolding r sum.case
    by (rule bexI [OF _ n(1)], rule exI [of _ cap], intro conjI) (rule c(2) c(1) c(3) c(4) cap best)+
qed

subsection \<open>A small cluster\<close>

text \<open>One healthy node with two CPUs and a Pod that asks for one.\<close>

definition demo_node :: json where
  "demo_node = JObj [(''metadata'', JObj [(''name'', JStr ''n1''), (''uid'', JStr ''u'')]), (''spec'', JObj []),
     (''status'', JObj [(''allocatable'', JObj [(''cpu'', JStr ''2''), (''memory'', JStr ''8''), (''pods'', JStr ''9'')]),
        (''conditions'', JArr [JObj [(''status'', JStr ''True''), (''type'', JStr ''Ready'')]])])]"

definition demo_lease :: json where
  "demo_lease = JObj [(''metadata'', JObj [(''name'', JStr ''n1''),
       (''ownerReferences'', JArr [JObj [(''apiVersion'', JStr ''v1''), (''kind'', JStr ''Node''), (''uid'', JStr ''u'')]])]),
     (''spec'', JObj [(''holderIdentity'', JStr ''n1''), (''leaseDurationSeconds'', JInt 40), (''renewTime'', JStr ''t'')])]"

definition demo_pod :: "string \<Rightarrow> json" where
  "demo_pod name = JObj [(''metadata'', JObj [(''name'', JStr name), (''namespace'', JStr ''d'')]),
     (''spec'', JObj [(''containers'', JArr [JObj [(''resources'', JObj [(''requests'', JObj [(''cpu'', JStr ''1'')])])]])])]"

lemma demo_choice: "choice (demo_pod ''a'')  \<lparr>cpu=1000,memory=0,slots=1\<rparr> (alive (\<lambda>_. Some 0) 0 [demo_lease]) [demo_pod ''a''] demo_node = Some (0,0,0,''n1'')" by code_simp

lemma demo_requests: "requests (demo_pod ''a'') = Some \<lparr>cpu=1000,memory=0,slots=1\<rparr>" by code_simp

lemma demo_plain: "populated (at (demo_pod ''a'') [''spec'', ''schedulingGates'']) = False" "unsupported (demo_pod ''a'') = False" by code_simp+

lemma demo_select: "select (\<lambda>_. Some 0) 0 (demo_pod ''a'') [demo_node] [demo_pod ''a''] [demo_lease] = Inr ''n1''"
  unfolding select_def demo_requests demo_plain option.case if_False List.map_filter_simps demo_choice
  by simp

lemma demo_capacity: "capacity demo_node = Some \<lparr>cpu = 2000, memory = 8, slots = 9\<rparr>"
  by code_simp

lemma placement_exact_witness:
  "select (\<lambda>_. Some 0) 0 (demo_pod ''a'') [demo_node] [demo_pod ''a''] [demo_lease] = Inr ''n1''
   \<and> (\<exists>cap. capacity demo_node = Some cap \<and> within ''n1'' [demo_pod ''a''] \<lparr>cpu = 1000, memory = 0, slots = 1\<rparr> cap)"
proof -
  have free: "\<not> populated (at (demo_pod ''a'') [''spec'', ''schedulingGates''])" "\<not> unsupported (demo_pod ''a'')"
    using demo_plain by blast+
  note t = placement_exact [OF demo_requests free, where inst = "\<lambda>_. Some 0" and now = 0 and nodes = "[demo_node]" and pods = "[demo_pod ''a'']" and leases = "[demo_lease]",
    unfolded demo_select sum.case]
  from t have "\<exists>cap. capacity demo_node = Some cap \<and> within ''n1'' [demo_pod ''a''] \<lparr>cpu = 1000, memory = 0, slots = 1\<rparr> cap"
    unfolding list.set by blast
  with demo_select show ?thesis by blast
qed

end
