(* ===== verification/Scheduler.thy ===== *)
theory Scheduler
  imports Placement "HOL-Library.Word"
begin

text \<open>
  One scheduling cycle (\<^verbatim>\<open>crates/h3s-scheduler/src/lib.rs\<close>): the three complete listings, the
  candidates in order of priority, one binding and one status write per candidate, and the view of
  the Pods that later candidates are placed against.  The API server behind the kube client, the
  typed documents of k8s-openapi, the clock and the text of a time are the argument \<open>api\<close>, over an
  arbitrary outside state.
\<close>

datatype call_error = Api_status nat | Unreachable

datatype scheduler_error = Call_failed call_error | Json_failed | Snapshot | Index_panic

record listing =
  listed :: "json list"
  continue :: "string option"

type_synonym ('s, 'a) call = "'s \<Rightarrow> (call_error, 'a) result \<times> 's"

record 's scheduler_api =
  list_nodes :: "('s, listing) call"
  list_leases :: "('s, listing) call"
  list_pods :: "('s, listing) call"
  create_binding :: "string \<Rightarrow> string \<Rightarrow> json \<Rightarrow> ('s, json) call"
  get_opt :: "string \<Rightarrow> string \<Rightarrow> ('s, json option) call"
  replace_status :: "string \<Rightarrow> string \<Rightarrow> json \<Rightarrow> ('s, json) call"
  read_clock :: "'s \<Rightarrow> int \<times> 's"
  parse_time :: "string \<Rightarrow> int option"
  show_time :: "int \<Rightarrow> string"
  typed_binding :: "json \<Rightarrow> json option"
  typed_pod :: "json \<Rightarrow> json option"
  name_any :: "json \<Rightarrow> string"

text \<open>The state of a cycle: the world outside, the Pods as the cycle sees them, the two counters.\<close>

record 's cycle =
  outside :: 's
  pod_view :: "json list"
  bound :: nat
  binds :: "64 word"

definition record_bind :: "'s cycle \<Rightarrow> 's cycle" where
  "record_bind c = c\<lparr>bound := bound c + 1, binds := binds c + 1\<rparr>"

subsection \<open>The snapshot\<close>

definition complete :: "listing \<Rightarrow> bool" where
  "complete l \<longleftrightarrow> filled (continue l) = None"

definition bounded :: "listing \<Rightarrow> bool" where
  "bounded l \<longleftrightarrow> length (listed l) \<le> 4096"

definition ask :: "('s, 'a) call \<Rightarrow> 's \<Rightarrow> ('a \<Rightarrow> 's \<Rightarrow> (scheduler_error, 'b) result \<times> 's) \<Rightarrow> (scheduler_error, 'b) result \<times> 's" where
  "ask f s k = (case f s of (Inl e, t) \<Rightarrow> (Inl (Call_failed e), t) | (Inr x, t) \<Rightarrow> k x t)"

definition load_cluster :: "'s scheduler_api \<Rightarrow> 's \<Rightarrow> (scheduler_error, json list \<times> json list \<times> json list) result \<times> 's" where
  "load_cluster api s =
     ask (list_nodes api) s (\<lambda>nodes s. ask (list_leases api) s (\<lambda>leases s. ask (list_pods api) s (\<lambda>pods s.
       if \<not> list_all complete [nodes, leases, pods] \<or> \<not> list_all bounded [nodes, leases, pods] then (Inl Snapshot, s)
       else (Inr (listed nodes, listed leases, listed pods), s))))"

subsection \<open>The order of the candidates\<close>

definition urgency :: "json list \<Rightarrow> nat \<Rightarrow> int \<times> string \<times> string" where
  "urgency pods i =
     (- or_default 0 (as_i64 (at (pods ! i) [''spec'', ''priority''])),
      or_default '''' (as_str (at (pods ! i) [''metadata'', ''creationTimestamp''])),
      or_default '''' (as_str (at (pods ! i) [''metadata'', ''uid''])))"

definition candidates :: "json list \<Rightarrow> nat list" where
  "candidates pods = sort_key (urgency pods) (filter (\<lambda>i. pending (pods ! i)) [0..<length pods])"

subsection \<open>The condition of a Pod\<close>

definition scheduled_text :: "bool \<Rightarrow> string" where
  "scheduled_text scheduled = (if scheduled then ''True'' else ''False'')"

definition pod_scheduled :: "json \<Rightarrow> bool" where
  "pod_scheduled c \<longleftrightarrow> idx c ''type'' = JStr ''PodScheduled''"

definition same_condition :: "bool \<Rightarrow> string \<Rightarrow> json \<Rightarrow> bool" where
  "same_condition scheduled reason c \<longleftrightarrow>
     pod_scheduled c \<and> idx c ''status'' = JStr (scheduled_text scheduled) \<and> idx c ''reason'' = JStr reason"

definition transition_time :: "bool \<Rightarrow> string \<Rightarrow> json list \<Rightarrow> string" where
  "transition_time scheduled now cs =
     or_default now (Option.bind (List.find (\<lambda>c. pod_scheduled c \<and> idx c ''status'' = JStr (scheduled_text scheduled)) cs)
       (\<lambda>c. as_str (idx c ''lastTransitionTime'')))"

definition new_condition :: "bool \<Rightarrow> string \<Rightarrow> string \<Rightarrow> json" where
  "new_condition scheduled reason transition =
     JObj [(''lastTransitionTime'', JStr transition),
           (''message'', JStr (if scheduled then ''bound by native h3s scheduler''
              else ''no placement satisfying the supported scheduling constraints is available'')),
           (''reason'', JStr reason), (''status'', JStr (scheduled_text scheduled)), (''type'', JStr ''PodScheduled'')]"

definition tolerate :: "(call_error, json) result \<times> 's \<Rightarrow> (scheduler_error, unit) result \<times> 's" where
  "tolerate r = (case r of
      (Inr _, t) \<Rightarrow> (Inr (), t)
    | (Inl e, t) \<Rightarrow> (if e \<in> {Api_status 404, Api_status 409} then Inr () else Inl (Call_failed e), t))"

definition with_condition :: "json \<Rightarrow> bool \<Rightarrow> string \<Rightarrow> string \<Rightarrow> json option" where
  "with_condition pod scheduled reason now =
     (let cs = items (at pod [''status'', ''conditions'']);
          kept = filter (\<lambda>c. \<not> pod_scheduled c) cs
      in set_at pod [''status'', ''conditions''] (JArr (kept @ [new_condition scheduled reason (transition_time scheduled now cs)])))"

definition set_condition ::
  "'s scheduler_api \<Rightarrow> string \<Rightarrow> json \<Rightarrow> bool \<Rightarrow> string \<Rightarrow> 's \<Rightarrow> (scheduler_error, unit) result \<times> 's" where
  "set_condition api ns pod scheduled reason s =
     (if list_ex (same_condition scheduled reason) (items (at pod [''status'', ''conditions''])) then (Inr (), s)
      else
        let (now, s) = read_clock api s in
        (case with_condition pod scheduled reason (show_time api now) of
           None \<Rightarrow> (Inl Index_panic, s)
         | Some pod \<Rightarrow>
             (case typed_pod api pod of
                None \<Rightarrow> (Inl Json_failed, s)
              | Some doc \<Rightarrow> tolerate (replace_status api ns (name_any api doc) doc s))))"

subsection \<open>One candidate, and the cycle\<close>

definition binding_document :: "json \<Rightarrow> string \<Rightarrow> string \<Rightarrow> string \<Rightarrow> json" where
  "binding_document pod ns name node =
     JObj [(''metadata'', JObj [(''name'', JStr name), (''namespace'', JStr ns),
              (''resourceVersion'', at pod [''metadata'', ''resourceVersion'']), (''uid'', at pod [''metadata'', ''uid''])]),
           (''target'', JObj [(''apiVersion'', JStr ''v1''), (''kind'', JStr ''Node''), (''name'', JStr node)])]"

text \<open>After a successful binding: the view, the counters, and a fresh status write when the Pod is still the same.\<close>

definition after_bind ::
  "'s scheduler_api \<Rightarrow> string \<Rightarrow> string \<Rightarrow> string \<Rightarrow> nat \<Rightarrow> 's cycle \<Rightarrow> (scheduler_error, unit) result \<times> 's cycle" where
  "after_bind api ns name node i c =
     (let pod = pod_view c ! i in
      case set_at pod [''spec'', ''nodeName''] (JStr node) of
        None \<Rightarrow> (Inl Index_panic, c)
      | Some placed \<Rightarrow>
          let c = record_bind (c\<lparr>pod_view := (pod_view c)[i := placed]\<rparr>) in
          (case get_opt api ns name (outside c) of
             (Inl e, t) \<Rightarrow> (Inl (Call_failed e), c\<lparr>outside := t\<rparr>)
           | (Inr None, t) \<Rightarrow> (Inr (), c\<lparr>outside := t\<rparr>)
           | (Inr (Some current), t) \<Rightarrow>
               if as_str (at current [''metadata'', ''uid'']) = as_str (at pod [''metadata'', ''uid'']) then
                 (let (r, t) = set_condition api ns current True ''Scheduled'' t in (r, c\<lparr>outside := t\<rparr>))
               else (Inr (), c\<lparr>outside := t\<rparr>)))"

definition schedule_one ::
  "'s scheduler_api \<Rightarrow> json list \<Rightarrow> json list \<Rightarrow> nat \<Rightarrow> 's cycle \<Rightarrow> (scheduler_error, unit) result \<times> 's cycle" where
  "schedule_one api nodes leases i c =
     (let pod = pod_view c ! i in
      case (as_str (at pod [''metadata'', ''namespace'']), as_str (at pod [''metadata'', ''name''])) of
        (Some ns, Some name) \<Rightarrow>
          (let (now, s) = read_clock api (outside c) in
           case select (parse_time api) now pod nodes (pod_view c) leases of
             Inl reason \<Rightarrow> (let (r, t) = set_condition api ns pod False reason s in (r, c\<lparr>outside := t\<rparr>))
           | Inr node \<Rightarrow>
               (case typed_binding api (binding_document pod ns name node) of
                  None \<Rightarrow> (Inl Json_failed, c\<lparr>outside := s\<rparr>)
                | Some binding \<Rightarrow>
                    (case create_binding api ns name binding s of
                       (Inr _, t) \<Rightarrow> after_bind api ns name node i (c\<lparr>outside := t\<rparr>)
                     | (Inl e, t) \<Rightarrow>
                         (if e \<in> {Api_status 404, Api_status 409} then Inr () else Inl (Call_failed e), c\<lparr>outside := t\<rparr>))))
      | _ \<Rightarrow> (Inl Snapshot, c))"

fun schedule ::
  "'s scheduler_api \<Rightarrow> json list \<Rightarrow> json list \<Rightarrow> nat list \<Rightarrow> 's cycle \<Rightarrow> (scheduler_error, unit) result \<times> 's cycle" where
  "schedule api nodes leases [] c = (Inr (), c)"
| "schedule api nodes leases (i # is) c =
     (case schedule_one api nodes leases i c of
        (Inl e, c) \<Rightarrow> (Inl e, c)
      | (Inr _, c) \<Rightarrow> schedule api nodes leases is c)"

definition reconcile_once :: "'s scheduler_api \<Rightarrow> 's \<Rightarrow> 64 word \<Rightarrow> (scheduler_error, nat) result \<times> 's cycle" where
  "reconcile_once api s b =
     (case load_cluster api s of
        (Inl e, t) \<Rightarrow> (Inl e, \<lparr>outside = t, pod_view = [], bound = 0, binds = b\<rparr>)
      | (Inr (nodes, leases, pods), t) \<Rightarrow>
          (case schedule api nodes leases (candidates pods) \<lparr>outside = t, pod_view = pods, bound = 0, binds = b\<rparr> of
             (Inl e, c) \<Rightarrow> (Inl e, c)
           | (Inr _, c) \<Rightarrow> (Inr (bound c), c)))"


subsection \<open>What one candidate changes\<close>

lemma candidates_pending: "i \<in> set (candidates pods) \<Longrightarrow> i < length pods \<and> pending (pods ! i)"
  by (simp add: candidates_def)

lemma candidates_distinct: "distinct (candidates pods)"
  by (simp add: candidates_def)

lemma record_bind_view [simp]: "pod_view (record_bind c) = pod_view c" "outside (record_bind c) = outside c"
  by (simp_all add: record_bind_def)

text \<open>A candidate leaves the view as it is, or places its Pod on the node that \<open>select\<close> chose, and counts it.\<close>

definition placed_step :: "'s scheduler_api \<Rightarrow> json list \<Rightarrow> json list \<Rightarrow> nat \<Rightarrow> 's cycle \<Rightarrow> 's cycle \<Rightarrow> bool" where
  "placed_step api nodes leases i c c' \<longleftrightarrow>
     (\<exists>now node placed. select (parse_time api) now (pod_view c ! i) nodes (pod_view c) leases = Inr node
        \<and> set_at (pod_view c ! i) [''spec'', ''nodeName''] (JStr node) = Some placed
        \<and> pod_view c' = (pod_view c)[i := placed] \<and> bound c' = bound c + 1 \<and> binds c' = binds c + 1)"

definition still :: "'s cycle \<Rightarrow> 's cycle \<Rightarrow> bool" where
  "still c c' \<longleftrightarrow> pod_view c' = pod_view c \<and> bound c' = bound c \<and> binds c' = binds c"

lemma still_outside [simp]: "still c (c\<lparr>outside := t\<rparr>)" "still c c" "still (c\<lparr>outside := t\<rparr>) c' = still c c'"
  by (simp_all add: still_def)

lemma after_bind_view:
  assumes "after_bind api ns name node i c = (r, c')"
  shows "still c c' \<or> (\<exists>placed. set_at (pod_view c ! i) [''spec'', ''nodeName''] (JStr node) = Some placed
    \<and> pod_view c' = (pod_view c)[i := placed] \<and> bound c' = bound c + 1 \<and> binds c' = binds c + 1)"
  using assms unfolding after_bind_def Let_def
  by (auto simp: record_bind_def still_def split: option.splits prod.splits sum.splits if_splits simp del: set_at.simps at.simps)

lemma schedule_one_view:
  assumes "schedule_one api nodes leases i c = (r, c')"
  shows "still c c' \<or> placed_step api nodes leases i c c'"
proof -
  have step: "still c c' \<or> placed_step api nodes leases i c c'"
    if "select (parse_time api) now (pod_view c ! i) nodes (pod_view c) leases = Inr node"
      "after_bind api ns name node i (c\<lparr>outside := t\<rparr>) = (r, c')" for now node ns name t
  proof -
    have v: "pod_view (c\<lparr>outside := t\<rparr>) = pod_view c" "bound (c\<lparr>outside := t\<rparr>) = bound c" "binds (c\<lparr>outside := t\<rparr>) = binds c" by simp_all
    show ?thesis using that(1) after_bind_view [OF that(2), unfolded v still_outside] unfolding placed_step_def by blast
  qed
  show ?thesis
    using assms unfolding schedule_one_def Let_def
    by (auto split: option.splits prod.splits sum.splits if_splits simp del: set_at.simps at.simps dest: step)
qed

subsection \<open>The load of the nodes\<close>

lemma assigned_members:
  assumes "set_at p [''spec'', ''nodeName''] x = Some q" and "k \<noteq> ''nodeName''"
  shows "idx (idx q ''spec'') k = idx (idx p ''spec'') k"
proof -
  have "at q [''spec'', k] = at p [''spec'', k]" using at_set_at_diverge [of p "[''spec'']" "''nodeName''" "[]" x q k "[]"] assms by simp
  then show ?thesis by simp
qed

lemma requests_assigned:
  assumes "set_at p [''spec'', ''nodeName''] x = Some q"
  shows "requests q = requests p"
proof -
  have m: "idx (idx q ''spec'') ''initContainers'' = idx (idx p ''spec'') ''initContainers''"
    "idx (idx q ''spec'') ''resources'' = idx (idx p ''spec'') ''resources''"
    "idx (idx q ''spec'') ''resourceClaims'' = idx (idx p ''spec'') ''resourceClaims''"
    "idx (idx q ''spec'') ''containers'' = idx (idx p ''spec'') ''containers''"
    "idx (idx q ''spec'') ''overhead'' = idx (idx p ''spec'') ''overhead''"
    using assigned_members [OF assms] by simp_all
  show ?thesis unfolding requests_def Let_def m by (rule refl)
qed

lemma terminal_assigned:
  assumes "set_at p [''spec'', ''nodeName''] x = Some q"
  shows "terminal q = terminal p"
proof -
  have "idx q ''status'' = idx p ''status''" by (rule idx_set_at_other [OF assms]) simp
  then show ?thesis by (simp add: terminal_def)
qed

lemma pending_unplaced: "pending p \<Longrightarrow> name \<noteq> [] \<Longrightarrow> \<not> on_node name p"
  by (auto simp: pending_def on_node_def filled_None_iff)

lemma load_update:
  assumes i: "i < length view" and free: "\<not> on_node m (view ! i)"
  shows "load f m (view[i := q]) = load f m view + (if on_node m q then f (the (requests q)) else 0)"
proof -
  have v: "view = take i view @ view ! i # drop (Suc i) view" using i by (rule id_take_nth_drop)
  have l: "load f m view = load f m (take i view) + load f m (drop (Suc i) view)"
    by (subst v) (simp add: load_def free)
  show ?thesis unfolding upd_conv_take_nth_drop [OF i] l by (simp add: load_def)
qed


text \<open>A Pod of the view is accounted for: its node is stored and holds the whole load the view puts on it.\<close>

definition settled :: "json list \<Rightarrow> json list \<Rightarrow> nat \<Rightarrow> bool" where
  "settled nodes view i \<longleftrightarrow> (\<exists>name. \<exists>n \<in> set nodes. \<exists>cap.
     name \<noteq> [] \<and> at (view ! i) [''spec'', ''nodeName''] = JStr name \<and> at n [''metadata'', ''name''] = JStr name \<and> capacity n = Some cap
     \<and> load cpu name view \<le> cpu cap \<and> load memory name view \<le> memory cap \<and> load slots name view \<le> slots cap)"

definition accounted :: "json list \<Rightarrow> json list \<Rightarrow> json list \<Rightarrow> bool" where
  "accounted nodes pods view \<longleftrightarrow> length view = length pods
     \<and> (\<forall>i < length pods. view ! i = pods ! i \<or> (pending (pods ! i) \<and> settled nodes view i))"

lemma place_settles:
  assumes sel: "select inst now (view ! i) nodes view leases = Inr name" and i: "i < length view"
    and p: "pending (view ! i)" and q: "set_at (view ! i) [''spec'', ''nodeName''] (JStr name) = Some q"
  shows "settled nodes (view[i := q]) i"
    and "settled nodes view j \<Longrightarrow> j < length view \<Longrightarrow> j \<noteq> i \<Longrightarrow> settled nodes (view[i := q]) j"
proof -
  obtain need n cap where s: "requests (view ! i) = Some need" "n \<in> set nodes" "at n [''metadata'', ''name''] = JStr name" "name \<noteq> []"
    "capacity n = Some cap" "within name view need cap"
    using select_InrD [OF sel] by metis
  have node: "at q [''spec'', ''nodeName''] = JStr name" by (rule at_set_at [OF q])
  have on: "on_node m q \<longleftrightarrow> m = name" for m
    using p terminal_assigned [OF q] unfolding on_node_def node by (auto simp: pending_def)
  have req: "requests q = Some need" unfolding requests_assigned [OF q] by (rule s(1))
  have l: "load f m (view[i := q]) = load f m view + (if m = name then f need else 0)" if "m \<noteq> []" for f m
    using load_update [OF i pending_unplaced [OF p that], of f q] by (simp add: on req)
  have fit: "load cpu name (view[i := q]) \<le> cpu cap" "load memory name (view[i := q]) \<le> memory cap" "load slots name (view[i := q]) \<le> slots cap"
    using s(6) l [OF s(4)] by (simp_all add: within_def)
  show "settled nodes (view[i := q]) i"
    unfolding settled_def nth_list_update_eq [OF i] using s(2,3,4,5) fit node by blast
  assume old: "settled nodes view j" and j: "j < length view" "j \<noteq> i"
  from old obtain m n' cap' where o: "m \<noteq> []" "n' \<in> set nodes" "at (view ! j) [''spec'', ''nodeName''] = JStr m" "at n' [''metadata'', ''name''] = JStr m"
      "capacity n' = Some cap'" "load cpu m view \<le> cpu cap'" "load memory m view \<le> memory cap'" "load slots m view \<le> slots cap'"
    unfolding settled_def by blast
  have same: "view[i := q] ! j = view ! j" using j by simp
  show "settled nodes (view[i := q]) j"
  proof (cases "m = name")
    case True
    show ?thesis unfolding settled_def same using s(2,3,4,5) fit o(3) unfolding True by blast
  next
    case False
    have "load f m (view[i := q]) = load f m view" for f using l [OF o(1)] False by simp
    then show ?thesis unfolding settled_def same using o by metis
  qed
qed


lemma schedule_accounted:
  assumes "schedule api nodes leases is c = (r, c')" and "accounted nodes pods (pod_view c)" and "distinct is"
    and "\<forall>i \<in> set is. i < length pods \<and> pending (pods ! i) \<and> pod_view c ! i = pods ! i"
  shows "accounted nodes pods (pod_view c')"
  using assms
proof (induction "is" arbitrary: c)
  case Nil
  then show ?case by simp
next
  case (Cons i "is")
  obtain r1 c1 where one: "schedule_one api nodes leases i c = (r1, c1)" by fastforce
  have i: "i < length pods" "pending (pods ! i)" "pod_view c ! i = pods ! i" using Cons.prems(4) by auto
  have len: "length (pod_view c) = length pods" using Cons.prems(2) by (simp add: accounted_def)
  have next_step: "accounted nodes pods (pod_view c1) \<and> (\<forall>j. j \<noteq> i \<longrightarrow> pod_view c1 ! j = pod_view c ! j)"
    using schedule_one_view [OF one] unfolding still_def placed_step_def
  proof (elim disjE exE conjE)
    assume "pod_view c1 = pod_view c"
    with Cons.prems(2) show ?thesis by simp
  next
    fix now name q
    assume s: "select (parse_time api) now (pod_view c ! i) nodes (pod_view c) leases = Inr name"
      and q: "set_at (pod_view c ! i) [''spec'', ''nodeName''] (JStr name) = Some q"
      and v: "pod_view c1 = (pod_view c)[i := q]"
    have lt: "i < length (pod_view c)" and pen: "pending (pod_view c ! i)" using i len by simp_all
    note new = place_settles [OF s lt pen q]
    have "accounted nodes pods ((pod_view c)[i := q])"
      unfolding accounted_def length_list_update
    proof (intro conjI allI impI)
      show "length (pod_view c) = length pods" by (rule len)
      fix j assume j: "j < length pods"
      show "(pod_view c)[i := q] ! j = pods ! j \<or> pending (pods ! j) \<and> settled nodes ((pod_view c)[i := q]) j"
      proof (cases "j = i")
        case True
        then show ?thesis using i(2) new(1) by simp
      next
        case False
        then have "(pod_view c)[i := q] ! j = pod_view c ! j" by simp
        moreover have "pod_view c ! j = pods ! j \<or> pending (pods ! j) \<and> settled nodes (pod_view c) j"
          using Cons.prems(2) j unfolding accounted_def by blast
        moreover have "settled nodes (pod_view c) j \<Longrightarrow> settled nodes ((pod_view c)[i := q]) j"
          using new(2) False j len by simp
        ultimately show ?thesis by metis
      qed
    qed
    then show ?thesis unfolding v by simp
  qed
  show ?case
  proof (cases r1)
    case (Inl e)
    then show ?thesis using Cons.prems(1) one next_step by simp
  next
    case (Inr u)
    have rest: "schedule api nodes leases is c1 = (r, c')" using Cons.prems(1) one Inr by simp
    have "\<forall>j \<in> set is. j < length pods \<and> pending (pods ! j) \<and> pod_view c1 ! j = pods ! j"
    proof
      fix j assume j: "j \<in> set is"
      then have "j \<noteq> i" using Cons.prems(3) by auto
      then show "j < length pods \<and> pending (pods ! j) \<and> pod_view c1 ! j = pods ! j"
        using next_step Cons.prems(4) j by simp
    qed
    then show ?thesis using Cons.IH [OF rest] next_step Cons.prems(3) by simp
  qed
qed


text \<open>The counters of a cycle agree with the Pods it placed.\<close>

definition moved :: "json list \<Rightarrow> json list \<Rightarrow> nat set" where
  "moved pods view = {i. i < length pods \<and> view ! i \<noteq> pods ! i}"

lemma moved_update:
  assumes "i < length pods" and "length view = length pods" and "view ! i = pods ! i" and "q \<noteq> pods ! i"
  shows "moved pods (view[i := q]) = insert i (moved pods view)" and "i \<notin> moved pods view"
proof -
  show "i \<notin> moved pods view" using assms(3) by (simp add: moved_def)
  have "j \<in> moved pods (view[i := q]) \<longleftrightarrow> j \<in> insert i (moved pods view)" for j
    using assms by (cases "j = i") (simp_all add: moved_def)
  then show "moved pods (view[i := q]) = insert i (moved pods view)" by blast
qed

lemma finite_moved [simp]: "finite (moved pods view)"
  by (simp add: moved_def)

lemma moved_same [simp]: "moved pods pods = {}"
  by (simp add: moved_def)

lemma placed_differs:
  assumes "pending p" and "set_at p [''spec'', ''nodeName''] (JStr name) = Some q" and "name \<noteq> []"
  shows "q \<noteq> p"
proof
  assume "q = p"
  with at_set_at [OF assms(2)] have "at p [''spec'', ''nodeName''] = JStr name" by simp
  with assms(1,3) show False unfolding pending_def filled_None_iff by simp
qed

lemma schedule_counts:
  assumes "schedule api nodes leases is c = (r, c')" and "length (pod_view c) = length pods" and "distinct is"
    and "\<forall>i \<in> set is. i < length pods \<and> pending (pods ! i) \<and> pod_view c ! i = pods ! i"
  shows "bound c' + card (moved pods (pod_view c)) = bound c + card (moved pods (pod_view c'))
    \<and> binds c' - of_nat (bound c') = binds c - of_nat (bound c)"
  using assms
proof (induction "is" arbitrary: c)
  case Nil
  then show ?case by simp
next
  case (Cons i "is")
  obtain r1 c1 where one: "schedule_one api nodes leases i c = (r1, c1)" by fastforce
  have i: "i < length pods" "pending (pods ! i)" "pod_view c ! i = pods ! i" using Cons.prems(4) by auto
  have step: "bound c1 + card (moved pods (pod_view c)) = bound c + card (moved pods (pod_view c1))
      \<and> binds c1 - of_nat (bound c1) = binds c - of_nat (bound c) \<and> length (pod_view c1) = length pods
      \<and> (\<forall>j. j \<noteq> i \<longrightarrow> pod_view c1 ! j = pod_view c ! j)"
    using schedule_one_view [OF one]
  proof
    assume "still c c1"
    with Cons.prems(2) show ?thesis by (simp add: still_def)
  next
    assume "placed_step api nodes leases i c c1"
    then obtain now name q where s: "select (parse_time api) now (pod_view c ! i) nodes (pod_view c) leases = Inr name"
      and q: "set_at (pod_view c ! i) [''spec'', ''nodeName''] (JStr name) = Some q"
      and v: "pod_view c1 = (pod_view c)[i := q]" "bound c1 = bound c + 1" "binds c1 = binds c + 1"
      unfolding placed_step_def by blast
    from select_InrD [OF s] have "name \<noteq> []" by metis
    then have "q \<noteq> pods ! i" using placed_differs q i by metis
    note m = moved_update [OF i(1) Cons.prems(2) i(3) this]
    show ?thesis unfolding v m(1) using m(2) Cons.prems(2) by simp
  qed
  show ?case
  proof (cases r1)
    case (Inl e)
    then show ?thesis using Cons.prems(1) one step by simp
  next
    case (Inr u)
    have rest: "schedule api nodes leases is c1 = (r, c')" using Cons.prems(1) one Inr by simp
    have "j < length pods \<and> pending (pods ! j) \<and> pod_view c1 ! j = pods ! j" if "j \<in> set is" for j
      using step Cons.prems(3,4) that by (metis distinct.simps(2) list.set_intros(2))
    then have "bound c' + card (moved pods (pod_view c1)) = bound c1 + card (moved pods (pod_view c'))
        \<and> binds c' - of_nat (bound c') = binds c1 - of_nat (bound c1)"
      using Cons.IH [OF rest] step Cons.prems(3) by simp
    with step show ?thesis by (intro conjI) (linarith, simp)
  qed
qed


subsection \<open>What a cycle guarantees\<close>


text \<open>
  The condition a Pod is given is the only one of its kind, the other conditions keep their
  place, the time of the last transition moves only when the status does, and setting the same
  condition again makes no request.
\<close>

theorem condition_settles:
  assumes "with_condition pod scheduled reason now = Some q"
  shows "filter (\<lambda>c. \<not> pod_scheduled c) (items (at q [''status'', ''conditions'']))
       = filter (\<lambda>c. \<not> pod_scheduled c) (items (at pod [''status'', ''conditions'']))"
    and "\<exists>c. filter pod_scheduled (items (at q [''status'', ''conditions''])) = [c] \<and> same_condition scheduled reason c
       \<and> (\<forall>old. List.find (\<lambda>o'. pod_scheduled o' \<and> idx o' ''status'' = idx c ''status'') (items (at pod [''status'', ''conditions''])) = Some old
            \<longrightarrow> is_string (idx old ''lastTransitionTime'') \<longrightarrow> idx c ''lastTransitionTime'' = idx old ''lastTransitionTime'')"
    and "set_condition api ns q scheduled reason s = (Inr (), s)"
proof -
  let ?cs = "items (at pod [''status'', ''conditions''])"
  define new where "new = new_condition scheduled reason (transition_time scheduled now ?cs)"
  have "set_at pod [''status'', ''conditions''] (JArr (filter (\<lambda>c. \<not> pod_scheduled c) ?cs @ [new])) = Some q"
    using assms unfolding with_condition_def Let_def new_def .
  from at_set_at [OF this] have q: "items (at q [''status'', ''conditions'']) = filter (\<lambda>c. \<not> pod_scheduled c) ?cs @ [new]" by simp
  have new: "pod_scheduled new" "same_condition scheduled reason new" "idx new ''status'' = JStr (scheduled_text scheduled)"
    "idx new ''lastTransitionTime'' = JStr (transition_time scheduled now ?cs)"
    by (simp_all add: new_def new_condition_def pod_scheduled_def same_condition_def)
  show "filter (\<lambda>c. \<not> pod_scheduled c) (items (at q [''status'', ''conditions''])) = filter (\<lambda>c. \<not> pod_scheduled c) ?cs"
    unfolding q using new(1) by simp
  have one: "filter pod_scheduled (items (at q [''status'', ''conditions''])) = [new]" unfolding q using new(1) by simp
  have "transition_time scheduled now ?cs = t"
    if "List.find (\<lambda>o'. pod_scheduled o' \<and> idx o' ''status'' = JStr (scheduled_text scheduled)) ?cs = Some old"
      "idx old ''lastTransitionTime'' = JStr t" for old t
    using that by (simp add: transition_time_def)
  then show "\<exists>c. filter pod_scheduled (items (at q [''status'', ''conditions''])) = [c] \<and> same_condition scheduled reason c
       \<and> (\<forall>old. List.find (\<lambda>o'. pod_scheduled o' \<and> idx o' ''status'' = idx c ''status'') ?cs = Some old
            \<longrightarrow> is_string (idx old ''lastTransitionTime'') \<longrightarrow> idx c ''lastTransitionTime'' = idx old ''lastTransitionTime'')"
    unfolding one using new(2,3,4) by (intro exI [of _ new]) (auto elim!: is_string.elims)
  show "set_condition api ns q scheduled reason s = (Inr (), s)"
    unfolding set_condition_def q using new(2) by simp
qed


subsection \<open>A small cluster\<close>

definition demo_api :: "json list \<Rightarrow> nat scheduler_api" where
  "demo_api pods = \<lparr>list_nodes = (\<lambda>s. (Inr \<lparr>listed = [demo_node], continue = None\<rparr>, s)),
     list_leases = (\<lambda>s. (Inr \<lparr>listed = [demo_lease], continue = None\<rparr>, s)),
     list_pods = (\<lambda>s. (Inr \<lparr>listed = pods, continue = None\<rparr>, s)),
     create_binding = (\<lambda>ns name d s. (Inr d, s + 1)), get_opt = (\<lambda>ns name s. (Inr None, s)),
     replace_status = (\<lambda>ns name d s. (Inr d, s + 1)), read_clock = (\<lambda>s. (0, s)), parse_time = (\<lambda>_. Some 0),
     show_time = (\<lambda>_. ''t''), typed_binding = Some, typed_pod = Some, name_any = (\<lambda>_. ''p'')\<rparr>"

lemma demo_candidates: "candidates [demo_pod ''a''] = [0]" by code_simp

lemma demo_members: "as_str (at (demo_pod ''a'') [''metadata'', ''namespace'']) = Some ''d''" 
  "as_str (at (demo_pod ''a'') [''metadata'', ''name'']) = Some ''a''" 
  "set_at (demo_pod ''a'') [''spec'', ''nodeName''] (JStr ''n1'') \<noteq> None"
 by code_simp+

lemma demo_load: "load_cluster (demo_api [demo_pod ''a'']) 0 = (Inr ([demo_node], [demo_lease], [demo_pod ''a'']), 0)"
  by (simp add: load_cluster_def ask_def demo_api_def complete_def bounded_def)

lemma demo_cycle: "\<exists>c. reconcile_once (demo_api [demo_pod ''a'']) 0 5 = (Inr 1, c) \<and> outside c = 1"
proof -
  obtain q where q: "set_at (demo_pod ''a'') [''spec'', ''nodeName''] (JStr ''n1'') = Some q" using demo_members(3) by blast
  show ?thesis
    unfolding reconcile_once_def demo_load demo_candidates sum.case prod.case schedule.simps schedule_one_def Let_def cycle.simps
      nth_Cons_0 demo_members(1,2) option.case
    by (simp add: demo_api_def demo_select after_bind_def q record_bind_def Let_def del: set_at.simps at.simps)
qed


lemma condition_settles_witness:
  "\<exists>q. with_condition (JObj []) False ''Unschedulable'' ''t'' = Some q \<and> length (filter pod_scheduled (items (at q [''status'', ''conditions'']))) = 1
     \<and> set_condition (demo_api []) ''d'' q False ''Unschedulable'' 0 = (Inr (), 0)"
proof -
  obtain q where q: "with_condition (JObj []) False ''Unschedulable'' ''t'' = Some q"
    unfolding with_condition_def Let_def by auto
  note c = condition_settles [OF q]
  from c(2) have "length (filter pod_scheduled (items (at q [''status'', ''conditions'']))) = 1" by (elim exE conjE) simp
  then show ?thesis by (intro exI [of _ q] conjI) (rule q, assumption, rule c(3))
qed

end
