(* ===== verification/Service_Forwarding.thy ===== *)
theory Service_Forwarding
  imports Strategy_Kinds
begin

text \<open>
  The forwarding class of a Service (\<^verbatim>\<open>crates/h3s-api/src/service_forwarding.rs\<close>) and how it relates
  to what the API admits (\<open>service_strategy\<close>): the two are written apart in the sources.
\<close>

datatype forwarding = Cluster_Ip | Node_Port | External_Name | Headless | Load_Balancer | Unsupported_Type | Unsupported_Policy

definition unsupported_policy :: "json \<Rightarrow> bool" where
  "unsupported_policy spec \<longleftrightarrow>
     (case as_str (idx spec ''sessionAffinity'') of None \<Rightarrow> False | Some s \<Rightarrow> s \<noteq> ''None'')
     \<or> (case as_array (idx spec ''externalIPs'') of None \<Rightarrow> False | Some vs \<Rightarrow> vs \<noteq> [])
     \<or> \<not> is_null (idx spec ''trafficDistribution'')
     \<or> (case as_str (idx spec ''externalTrafficPolicy'') of None \<Rightarrow> False | Some p \<Rightarrow> p \<noteq> ''Cluster'')
     \<or> (case as_i64 (idx spec ''healthCheckNodePort'') of None \<Rightarrow> False | Some p \<Rightarrow> p \<noteq> 0)"

definition classify :: "json \<Rightarrow> forwarding" where
  "classify spec =
     (let kind = or_default ''ClusterIP'' (as_str (idx spec ''type'')) in
      if kind = ''ExternalName'' then External_Name
      else if as_str (idx spec ''clusterIP'') = Some ''None'' then
        (if kind = ''ClusterIP'' then Headless else Unsupported_Type)
      else if kind \<notin> {''ClusterIP'', ''NodePort'', ''LoadBalancer''} then Unsupported_Type
      else if unsupported_policy spec then Unsupported_Policy
      else if kind = ''NodePort'' then Node_Port
      else if kind = ''LoadBalancer'' then Load_Balancer
      else Cluster_Ip)"

definition proxied :: "forwarding \<Rightarrow> bool" where
  "proxied f \<longleftrightarrow> f \<in> {Cluster_Ip, Node_Port, Load_Balancer}"

definition skip_in_plan :: "forwarding \<Rightarrow> bool" where
  "skip_in_plan f \<longleftrightarrow> \<not> proxied f"

lemma proxied_simps [simp]:
  "proxied Cluster_Ip" "proxied Node_Port" "proxied Load_Balancer" "\<not> proxied External_Name" "\<not> proxied Headless"
  "\<not> proxied Unsupported_Type" "\<not> proxied Unsupported_Policy"
  by (simp_all add: proxied_def)


subsection \<open>Admission and forwarding agree\<close>

lemma default_member_keeps: "default_member k d v = Inr w \<Longrightarrow> j \<noteq> k \<Longrightarrow> idx w j = idx v j"
  using assign_member_InrD [of v k d w] by (auto simp: default_member_def split: if_splits)

lemma one_of_Inr_iff: "(one_of v choices m = Inr u) \<longleftrightarrow> (\<exists>s \<in> set choices. v = JStr s)"
  by (auto simp: one_of_def refuse_def as_str_Some_iff split: option.splits if_splits)

lemma fold_member_keeps:
  assumes "fold_member f k (st, v) = Inr (st', w)" and "j \<noteq> k"
  shows "idx w j = idx v j"
  using assms by (auto simp: fold_member_def andThen_Inr_iff split: json.splits option.splits)

text \<open>What the strategy leaves of a Service that is no external name.\<close>

definition forwardable :: "json \<Rightarrow> bool" where
  "forwardable spec \<longleftrightarrow> (\<exists>t \<in> {''ClusterIP'', ''NodePort'', ''LoadBalancer''}. idx spec ''type'' = JStr t
     \<and> \<not> (t = ''NodePort'' \<and> as_str (idx spec ''clusterIP'') = Some ''None''))
     \<and> idx spec ''externalTrafficPolicy'' = JStr ''Cluster'' \<and> idx spec ''sessionAffinity'' = JStr ''None''
     \<and> \<not> (case as_i64 (idx spec ''healthCheckNodePort'') of None \<Rightarrow> False | Some n \<Rightarrow> n \<noteq> 0)
     \<and> \<not> (case as_array (idx spec ''externalIPs'') of None \<Rightarrow> False | Some l \<Rightarrow> l \<noteq> []) \<and> is_null (idx spec ''trafficDistribution'')"

lemma service_strategy_forwardable:
  assumes "service_strategy spec = (Inr out :: json guarded)"
  shows "idx out ''type'' = JStr ''ExternalName'' \<or> forwardable out"
proof (cases "\<exists>s1. default_member ''type'' (JStr ''ClusterIP'') spec = (Inr s1 :: json guarded) \<and> idx s1 ''type'' = JStr ''ExternalName''")
  case True
  then show ?thesis using assms by (auto simp: service_strategy_def andThen_Inr_iff one_of_Inr_iff refuse_def split: if_splits)
next
  case False
  with assms obtain s1 t s2 s3 s4 names where
    s1: "default_member ''type'' (JStr ''ClusterIP'') spec = (Inr s1 :: json guarded)"
    and t: "idx s1 ''type'' = JStr t" "t \<in> {''ClusterIP'', ''NodePort'', ''LoadBalancer''}"
    and s2: "default_member ''externalTrafficPolicy'' (JStr ''Cluster'') s1 = (Inr s2 :: json guarded)" "idx s2 ''externalTrafficPolicy'' = JStr ''Cluster''"
      "\<not> (case as_i64 (idx s2 ''healthCheckNodePort'') of None \<Rightarrow> False | Some n \<Rightarrow> n \<noteq> 0)"
      "\<not> (idx s2 ''type'' = JStr ''NodePort'' \<and> as_str (idx s2 ''clusterIP'') = Some ''None'')"
    and s3: "default_member ''sessionAffinity'' (JStr ''None'') s2 = (Inr s3 :: json guarded)" "idx s3 ''sessionAffinity'' = JStr ''None''"
      "\<not> (case as_array (idx s3 ''externalIPs'') of None \<Rightarrow> False | Some l \<Rightarrow> l \<noteq> [])" "is_null (idx s3 ''trafficDistribution'')"
    and s4: "default_member ''internalTrafficPolicy'' (JStr ''Cluster'') s3 = (Inr s4 :: json guarded)"
      "fold_member (service_port (length (or_default [] (as_array (idx s4 ''ports''))) > 1) (idx s4 ''type'' = JStr ''NodePort'')) ''ports'' ({}, s4) = Inr (names, out)"
    unfolding service_strategy_def Let_def andThen_Inr_iff by (auto simp: andThen_Inr_iff one_of_Inr_iff refuse_def split: if_splits)
  note keep = default_member_keeps [OF s2(1)] default_member_keeps [OF s3(1)] default_member_keeps [OF s4(1)] fold_member_keeps [OF s4(2)]
  show ?thesis
    unfolding forwardable_def using t s2(2-) s3(2-) by (simp add: keep)
qed



end
