(* ===== verification/Proxy_Plan.thy ===== *)
theory Proxy_Plan
  imports Service_Forwarding Node_Cidrs "HOL-Library.Product_Lexorder"
begin

text \<open>
  What the service proxy programs (\<^verbatim>\<open>crates/h3s-proxy/src/plan.rs\<close>, the function \<open>plan\<close>): the Pod
  subnets, one frontend per Service port with its ready backends, one more per node address for a
  node port, and the reports.  The networks of \<^verbatim>\<open>ipnet\<close> and the digest of \<^verbatim>\<open>sha2\<close> are arguments.
\<close>

datatype proxy_error = Invalid string | Transport | Status nat | Io | Json_text | Private_state | Nft string

type_synonym 'a planned = "(proxy_error, 'a) checked"

definition invalid_plan :: "string \<Rightarrow> 'a planned" where
  "invalid_plan m = Inl (Some (Invalid m))"

lemma invalid_plan_simps [simp]: "invalid_plan m \<noteq> Inr x" "invalid_plan m = Inl e \<longleftrightarrow> e = Some (Invalid m)"
  by (auto simp: invalid_plan_def)

lemma if_invalid_Inr [simp]: "(if b then invalid_plan m else r) = Inr x \<longleftrightarrow> \<not> b \<and> r = Inr x"
  by simp

datatype protocol = Tcp | Udp

type_synonym backend = "nat \<times> nat"

record frontend =
  chain :: string
  front_ip :: nat
  front_port :: nat
  proto :: protocol
  local_only :: bool
  backends :: "backend list"

record service_status =
  st_namespace :: string
  st_name :: string
  st_port :: nat
  st_backends :: nat

text \<open>The text of a warning is not modelled, what it reports is.\<close>

datatype warning = Unmatched_port string string json string string string protocol | No_endpoint string string nat protocol

record 'n plan =
  pod_cidrs :: "'n list"
  fronts :: "frontend list"
  warnings :: "warning list"
  statuses :: "service_status list"

subsection \<open>Fields\<close>

definition parse_protocol :: "json \<Rightarrow> protocol planned" where
  "parse_protocol v =
     (let s = or_default ''TCP'' (as_str v) in
      if s = ''TCP'' then Inr Tcp else if s = ''UDP'' then Inr Udp
      else invalid_plan ''proxy supports TCP and UDP Service ports'')"

definition nft_name :: "protocol \<Rightarrow> string" where
  "nft_name p = (case p of Tcp \<Rightarrow> ''tcp'' | Udp \<Rightarrow> ''udp'')"

text \<open>\<^verbatim>\<open>protocol.nft().to_uppercase()\<close>.\<close>

definition upper_name :: "protocol \<Rightarrow> string" where
  "upper_name p = (case p of Tcp \<Rightarrow> ''TCP'' | Udp \<Rightarrow> ''UDP'')"

definition identity_text :: "json \<Rightarrow> string \<Rightarrow> string planned" where
  "identity_text v k =
     (case as_str (idx v k) of
        None \<Rightarrow> invalid_plan ''missing resource identity''
      | Some s \<Rightarrow> if s \<noteq> [] \<and> length s \<le> 256 then Inr s else invalid_plan ''missing resource identity'')"

definition port_number :: "json \<Rightarrow> nat planned" where
  "port_number v =
     (case as_u64 v of
        None \<Rightarrow> invalid_plan ''invalid proxy port''
      | Some n \<Rightarrow> if 1 \<le> n \<and> n \<le> 65535 then Inr (nat n) else invalid_plan ''invalid proxy port'')"

definition node_port_number :: "json \<Rightarrow> nat planned" where
  "node_port_number v =
     (case as_u64 v of
        None \<Rightarrow> invalid_plan ''invalid Service node port''
      | Some n \<Rightarrow> if 30000 \<le> n \<and> n \<le> 32767 then Inr (nat n) else invalid_plan ''invalid Service node port'')"

definition first_octet :: "nat \<Rightarrow> nat" where
  "first_octet a = a div 256 div 256 div 256"

definition second_octet :: "nat \<Rightarrow> nat" where
  "second_octet a = a div 256 div 256 mod 256"

definition unicast :: "nat \<Rightarrow> bool" where
  "unicast a \<longleftrightarrow> \<not> (a = 0 \<or> first_octet a = 127 \<or> (224 \<le> first_octet a \<and> first_octet a \<le> 239)
     \<or> (first_octet a = 169 \<and> second_octet a = 254) \<or> a = 2 ^ 32 - 1 \<or> first_octet a = 0 \<or> first_octet a \<ge> 240)"

definition ip_address :: "json \<Rightarrow> nat planned" where
  "ip_address v =
     (case Option.bind (as_str v) parse_ipv4 of
        None \<Rightarrow> invalid_plan ''invalid IPv4 address''
      | Some a \<Rightarrow> if unicast a then Inr a else invalid_plan ''endpoint must be a unicast IPv4 address'')"

subsection \<open>Nodes\<close>

text \<open>\<^verbatim>\<open>BTreeSet<Ipv4Net>\<close>: networks in the order of address and prefix length; insertion tells a new element.\<close>

definition net_key :: "'n ipnet \<Rightarrow> 'n \<Rightarrow> nat \<times> nat" where
  "net_key ip n = (net_addr ip n, net_prefix ip n)"

fun insert_net :: "'n ipnet \<Rightarrow> 'n \<Rightarrow> 'n list \<Rightarrow> 'n list option" where
  "insert_net ip n [] = Some [n]"
| "insert_net ip n (m # ms) =
     (if net_key ip n = net_key ip m then None
      else if net_key ip n < net_key ip m then Some (n # m # ms)
      else map_option ((#) m) (insert_net ip n ms))"

definition service_range :: "'n ipnet \<Rightarrow> 'n planned" where
  "service_range ip = ok_or None (parse_net ip ''10.43.0.0/16'')"

definition node_subnet :: "'n ipnet \<Rightarrow> 'n \<Rightarrow> string \<Rightarrow> 'n planned" where
  "node_subnet ip services cidr =
     (case parse_net ip cidr of
        None \<Rightarrow> invalid_plan ''node CIDR must be IPv4''
      | Some s \<Rightarrow>
          if net_addr ip s \<noteq> net_network ip s \<or> show_net ip s \<noteq> cidr \<or> \<not> is_private (net_network ip s)
             \<or> \<not> is_private (net_broadcast ip s) \<or> net_contains ip s (net_network ip services)
             \<or> net_contains ip services (net_network ip s)
          then invalid_plan ''invalid node CIDR'' else Inr s)"

record 'n node_view =
  seen_cidrs :: "'n list"
  own :: bool
  node_ips :: "nat list"

definition is_node :: "string \<Rightarrow> json \<Rightarrow> bool" where
  "is_node name node \<longleftrightarrow> at node [''metadata'', ''name''] = JStr name"

definition node_address :: "nat list \<Rightarrow> json \<Rightarrow> nat list planned" where
  "node_address ips address =
     (if as_str (idx address ''type'') \<notin> {Some ''InternalIP'', Some ''ExternalIP''} then Inr ips
      else andThen (ip_address (idx address ''address'')) (\<lambda>a. Inr (if a \<in> set ips then ips else ips @ [a])))"

definition node_step :: "'n ipnet \<Rightarrow> 'n \<Rightarrow> string \<Rightarrow> 'n node_view \<Rightarrow> json \<Rightarrow> 'n node_view planned" where
  "node_step ip services name v node =
     andThen (case filled (as_str (at node [''spec'', ''podCIDR''])) of
         None \<Rightarrow> Inr v
       | Some cidr \<Rightarrow>
           andThen (node_subnet ip services cidr) (\<lambda>s.
             case insert_net ip s (seen_cidrs v) of
               None \<Rightarrow> invalid_plan ''duplicate node CIDR''
             | Some cs \<Rightarrow> Inr (v\<lparr>seen_cidrs := cs, own := own v \<or> is_node name node\<rparr>))) (\<lambda>v.
     if is_node name node then
       andThen (try_fold node_address (node_ips v) (items (at node [''status'', ''addresses'']))) (\<lambda>ips. Inr (v\<lparr>node_ips := ips\<rparr>))
     else Inr v)"

fun disjoint_nets :: "'n ipnet \<Rightarrow> 'n option \<Rightarrow> 'n list \<Rightarrow> bool" where
  "disjoint_nets ip prev [] \<longleftrightarrow> True"
| "disjoint_nets ip prev (c # cs) \<longleftrightarrow>
     (case prev of None \<Rightarrow> True | Some p \<Rightarrow> \<not> net_contains ip p (net_network ip c)) \<and> disjoint_nets ip (Some c) cs"

definition read_nodes :: "'n ipnet \<Rightarrow> 'n \<Rightarrow> string \<Rightarrow> json list \<Rightarrow> 'n node_view planned" where
  "read_nodes ip services name nodes =
     andThen (try_fold (node_step ip services name) \<lparr>seen_cidrs = [], own = False, node_ips = []\<rparr> nodes) (\<lambda>v.
     if \<not> disjoint_nets ip None (seen_cidrs v) then invalid_plan ''overlapping node CIDRs''
     else if \<not> own v then invalid_plan ''local node has no allocated Pod CIDR yet''
     else Inr v)"

subsection \<open>Endpoint slices\<close>

text \<open>The slices by the Service they name: pairs of the namespace and name with the slice, in order.\<close>

definition slice_step :: "((string \<times> string) \<times> json) list \<Rightarrow> json \<Rightarrow> ((string \<times> string) \<times> json) list planned" where
  "slice_step groups es =
     (if idx es ''addressType'' \<noteq> JStr ''IPv4'' \<or> \<not> is_null (at es [''metadata'', ''deletionTimestamp'']) then Inr groups
      else case as_str (at es [''metadata'', ''labels'', ''kubernetes.io/service-name'']) of
          None \<Rightarrow> Inr groups
        | Some name \<Rightarrow> andThen (identity_text (idx es ''metadata'') ''namespace'') (\<lambda>ns. Inr (groups @ [((ns, name), es)])))"

definition slices_of :: "((string \<times> string) \<times> json) list \<Rightarrow> string \<Rightarrow> string \<Rightarrow> json list" where
  "slices_of groups ns name = map snd (filter (\<lambda>g. fst g = (ns, name)) groups)"

text \<open>What collecting the backends of one Service port threads through: the set, the total, the warnings.\<close>

record collected =
  found :: "backend list"
  total_found :: nat
  remarks :: "warning list"

definition add_address :: "'n ipnet \<Rightarrow> 'n \<Rightarrow> nat \<Rightarrow> collected \<Rightarrow> json \<Rightarrow> collected planned" where
  "add_address ip services target c address =
     andThen (ip_address address) (\<lambda>a.
     if net_contains ip services a then invalid_plan ''Service IP cannot be an endpoint''
     else if (a, target) \<in> set (found c) then Inr c
     else if total_found c + 1 > 16384 then invalid_plan ''too many Service backends''
     else Inr (c\<lparr>found := insort (a, target) (found c), total_found := total_found c + 1\<rparr>))"

definition endpoint_serves :: "string \<Rightarrow> bool \<Rightarrow> json \<Rightarrow> bool" where
  "endpoint_serves node_name local endpoint \<longleftrightarrow>
     \<not> (at endpoint [''conditions'', ''ready''] = JBool False \<or> at endpoint [''conditions'', ''terminating''] = JBool True
        \<or> (local \<and> idx endpoint ''nodeName'' \<noteq> JStr node_name))"

definition add_endpoint :: "'n ipnet \<Rightarrow> 'n \<Rightarrow> string \<Rightarrow> bool \<Rightarrow> nat \<Rightarrow> collected \<Rightarrow> json \<Rightarrow> collected planned" where
  "add_endpoint ip services node_name local target c endpoint =
     (if \<not> endpoint_serves node_name local endpoint then Inr c
      else try_fold (add_address ip services target) c (items (idx endpoint ''addresses'')))"

definition port_matches :: "nat \<Rightarrow> nat \<Rightarrow> string \<Rightarrow> protocol \<Rightarrow> json \<Rightarrow> bool" where
  "port_matches service_ports slice_ports port_name protocol sp \<longleftrightarrow>
     (let slice_name = or_default '''' (as_str (idx sp ''name''));
          unambiguous = service_ports \<le> 1 \<and> slice_ports \<le> 1;
          both = port_name \<noteq> '''' \<and> slice_name \<noteq> ''''
      in \<not> ((\<not> unambiguous \<and> both \<and> slice_name \<noteq> port_name) \<or> (\<not> unambiguous \<and> \<not> both)
           \<or> or_default ''TCP'' (as_str (idx sp ''protocol'')) \<noteq> upper_name protocol \<or> is_null (idx sp ''port'')))"

definition add_slice_port ::
  "'n ipnet \<Rightarrow> 'n \<Rightarrow> string \<Rightarrow> bool \<Rightarrow> string \<times> string \<Rightarrow> nat \<Rightarrow> string \<Rightarrow> protocol \<Rightarrow> json \<Rightarrow> collected \<Rightarrow> json \<Rightarrow> collected planned" where
  "add_slice_port ip services node_name local ident service_ports port_name protocol es c sp =
     (if \<not> port_matches service_ports (length (items (idx es ''ports''))) port_name protocol sp then
        Inr (c\<lparr>remarks := remarks c @ [Unmatched_port (fst ident) (snd ident) (at es [''metadata'', ''name''])
          (or_default '''' (as_str (idx sp ''name''))) (or_default ''TCP'' (as_str (idx sp ''protocol''))) port_name protocol]\<rparr>)
      else andThen (port_number (idx sp ''port'')) (\<lambda>target.
        try_fold (add_endpoint ip services node_name local target) c (items (idx es ''endpoints''))))"

definition foreign_owner :: "string \<Rightarrow> string \<Rightarrow> json \<Rightarrow> bool" where
  "foreign_owner uid name es \<longleftrightarrow>
     list_ex (\<lambda>r. idx r ''kind'' = JStr ''Service'' \<and> (idx r ''uid'' \<noteq> JStr uid \<or> idx r ''name'' \<noteq> JStr name))
       (items (at es [''metadata'', ''ownerReferences'']))"

definition add_slice ::
  "'n ipnet \<Rightarrow> 'n \<Rightarrow> string \<Rightarrow> bool \<Rightarrow> string \<Rightarrow> string \<times> string \<Rightarrow> nat \<Rightarrow> string \<Rightarrow> protocol \<Rightarrow> collected \<Rightarrow> json \<Rightarrow> collected planned" where
  "add_slice ip services node_name local uid ident service_ports port_name protocol c es =
     (if foreign_owner uid (snd ident) es then Inr c
      else try_fold (add_slice_port ip services node_name local ident service_ports port_name protocol es) c (items (idx es ''ports'')))"


subsection \<open>Services\<close>

record plan_state =
  frontends :: "frontend list"
  tuples :: "(nat \<times> nat \<times> protocol) list"
  ids :: "string list"
  reports :: "warning list"
  resolved :: "service_status list"
  total_backends :: nat

definition claim_tuple :: "nat \<times> nat \<times> protocol \<Rightarrow> plan_state \<Rightarrow> plan_state planned" where
  "claim_tuple t st =
     (if t \<in> set (tuples st) then invalid_plan ''duplicate Service frontend'' else Inr (st\<lparr>tuples := tuples st @ [t]\<rparr>))"

definition claim_id :: "string \<Rightarrow> plan_state \<Rightarrow> plan_state planned" where
  "claim_id i st =
     (if i \<in> set (ids st) then invalid_plan ''duplicate Service chain identity'' else Inr (st\<lparr>ids := ids st @ [i]\<rparr>))"

definition chain_id :: "(string \<Rightarrow> string) \<Rightarrow> string \<Rightarrow> string \<Rightarrow> string \<Rightarrow> nat \<Rightarrow> nat \<Rightarrow> protocol \<Rightarrow> string \<Rightarrow> string" where
  "chain_id sha ns name uid a p protocol tail =
     ''svc_'' @ sha (ns @ ''/'' @ name @ ''/'' @ uid @ ''/'' @ show_ipv4 a @ ''/'' @ show_nat p @ ''/'' @ nft_name protocol @ tail)"

text \<open>One frontend of a node port, on one address of the node.\<close>

definition node_frontend ::
  "(string \<Rightarrow> string) \<Rightarrow> string \<Rightarrow> string \<Rightarrow> string \<Rightarrow> nat \<Rightarrow> protocol \<Rightarrow> backend list \<Rightarrow> plan_state \<Rightarrow> nat \<Rightarrow> plan_state planned" where
  "node_frontend sha ns name uid np protocol bs st node_ip =
     andThen (claim_tuple (node_ip, np, protocol) st) (\<lambda>st.
     let i = chain_id sha ns name uid node_ip np protocol ''/nodeport'' in
     andThen (claim_id i st) (\<lambda>st.
     Inr (st\<lparr>frontends := frontends st @
       [\<lparr>chain = i, front_ip = node_ip, front_port = np, proto = protocol, local_only = False, backends = bs\<rparr>]\<rparr>)))"

definition node_frontends ::
  "(string \<Rightarrow> string) \<Rightarrow> string \<Rightarrow> string \<Rightarrow> string \<Rightarrow> nat list \<Rightarrow> protocol \<Rightarrow> json \<Rightarrow> backend list \<Rightarrow> plan_state \<Rightarrow> plan_state planned" where
  "node_frontends sha ns name uid ips protocol p bs st =
     andThen (node_port_number (idx p ''nodePort'')) (\<lambda>np.
     if ips = [] then invalid_plan ''local node reports no address for NodePort Services''
     else try_fold (node_frontend sha ns name uid np protocol bs) st ips)"

text \<open>What is fixed for a plan, and what is read of a Service before its ports.\<close>

record 'n plan_input =
  nets :: "'n ipnet"
  range_net :: 'n
  digest :: "string \<Rightarrow> string"
  on_this :: string
  groups :: "((string \<times> string) \<times> json) list"
  this_ips :: "nat list"

record service_view =
  sv_uid :: string
  sv_name :: string
  sv_ns :: string
  sv_ip :: nat
  sv_local :: bool
  sv_node_port :: bool
  sv_ports :: "json list"

definition collect_backends :: "'n plan_input \<Rightarrow> service_view \<Rightarrow> string \<Rightarrow> protocol \<Rightarrow> nat \<Rightarrow> warning list \<Rightarrow> collected planned" where
  "collect_backends x sv port_name protocol already ws =
     try_fold (add_slice (nets x) (range_net x) (on_this x) (sv_local sv) (sv_uid sv) (sv_ns sv, sv_name sv) (length (sv_ports sv)) port_name protocol)
       \<lparr>found = [], total_found = already, remarks = ws\<rparr> (slices_of (groups x) (sv_ns sv) (sv_name sv))"

definition publish_port :: "service_view \<Rightarrow> nat \<Rightarrow> protocol \<Rightarrow> string \<Rightarrow> backend list \<Rightarrow> plan_state \<Rightarrow> plan_state" where
  "publish_port sv front protocol i bs st =
     st\<lparr>resolved := resolved st @
          [\<lparr>st_namespace = sv_ns sv, st_name = sv_name sv, st_port = front, st_backends = length bs\<rparr>],
        reports := (if bs = [] then reports st @ [No_endpoint (sv_ns sv) (sv_name sv) front protocol] else reports st),
        frontends := frontends st @
          [\<lparr>chain = i, front_ip = sv_ip sv, front_port = front, proto = protocol, local_only = sv_local sv, backends = bs\<rparr>]\<rparr>"

text \<open>A port up to its own frontend, which hands on the protocol and the backends; then its node port.\<close>

definition cluster_step :: "'n plan_input \<Rightarrow> service_view \<Rightarrow> plan_state \<Rightarrow> json \<Rightarrow> (plan_state \<times> protocol \<times> backend list) planned" where
  "cluster_step x sv st p =
     andThen (port_number (idx p ''port'')) (\<lambda>front.
     andThen (parse_protocol (idx p ''protocol'')) (\<lambda>protocol.
     andThen (claim_tuple (sv_ip sv, front, protocol) st) (\<lambda>st.
     andThen (collect_backends x sv (or_default [] (as_str (idx p ''name''))) protocol (total_backends st) (reports st)) (\<lambda>c.
     let i = chain_id (digest x) (sv_ns sv) (sv_name sv) (sv_uid sv) (sv_ip sv) front protocol [] in
     andThen (claim_id i (st\<lparr>total_backends := total_found c, reports := remarks c\<rparr>)) (\<lambda>st.
     Inr (publish_port sv front protocol i (found c) st, protocol, found c))))))"

definition port_step :: "'n plan_input \<Rightarrow> service_view \<Rightarrow> plan_state \<Rightarrow> json \<Rightarrow> plan_state planned" where
  "port_step x sv st p =
     andThen (cluster_step x sv st p) (\<lambda>(st, protocol, bs).
     andThen (if sv_node_port sv
         then node_frontends (digest x) (sv_ns sv) (sv_name sv) (sv_uid sv) (this_ips x) protocol p bs st else Inr st) (\<lambda>st.
     if length (frontends st) > 4096 then invalid_plan ''too many Service ports'' else Inr st))"

definition read_service :: "'n plan_input \<Rightarrow> json \<Rightarrow> service_view planned" where
  "read_service x svc =
     (let spec = idx svc ''spec'' in
      andThen (identity_text (idx svc ''metadata'') ''uid'') (\<lambda>uid.
      andThen (identity_text (idx svc ''metadata'') ''name'') (\<lambda>name.
      andThen (identity_text (idx svc ''metadata'') ''namespace'') (\<lambda>ns.
      andThen (ip_address (idx spec ''clusterIP'')) (\<lambda>a.
      if \<not> net_contains (nets x) (range_net x) a then invalid_plan ''Service IP is outside the configured range''
      else let policy = or_default ''Cluster'' (as_str (idx spec ''internalTrafficPolicy'')) in
        if policy \<notin> {''Cluster'', ''Local''} then invalid_plan ''unsupported internal traffic policy''
        else Inr \<lparr>sv_uid = uid, sv_name = name, sv_ns = ns, sv_ip = a, sv_local = (policy = ''Local''),
               sv_node_port = (idx spec ''type'' = JStr ''NodePort''), sv_ports = items (idx spec ''ports'')\<rparr>)))))"

definition skipped :: "json \<Rightarrow> bool" where
  "skipped svc \<longleftrightarrow> \<not> is_null (at svc [''metadata'', ''deletionTimestamp'']) \<or> skip_in_plan (classify (idx svc ''spec''))"

definition service_step :: "'n plan_input \<Rightarrow> plan_state \<Rightarrow> json \<Rightarrow> plan_state planned" where
  "service_step x st svc =
     (if skipped svc then Inr st
      else andThen (read_service x svc) (\<lambda>sv. try_fold (port_step x sv) st (sv_ports sv)))"

definition no_frontends :: plan_state where
  "no_frontends = \<lparr>frontends = [], tuples = [], ids = [], reports = [], resolved = [], total_backends = 0\<rparr>"

text \<open>The part of a plan that precedes the Services: the input of their loop, and the Pod subnets.\<close>

definition read_cluster ::
  "'n ipnet \<Rightarrow> (string \<Rightarrow> string) \<Rightarrow> json list \<Rightarrow> json list \<Rightarrow> string \<Rightarrow> ('n plan_input \<times> 'n list) planned" where
  "read_cluster ip sha slices nodes name =
     andThen (service_range ip) (\<lambda>services.
     andThen (read_nodes ip services name nodes) (\<lambda>v.
     andThen (try_fold slice_step [] slices) (\<lambda>gs.
     Inr (\<lparr>nets = ip, range_net = services, digest = sha, on_this = name, groups = gs, this_ips = node_ips v\<rparr>, seen_cidrs v))))"

definition make_plan ::
  "'n ipnet \<Rightarrow> (string \<Rightarrow> string) \<Rightarrow> json list \<Rightarrow> json list \<Rightarrow> json list \<Rightarrow> string \<Rightarrow> 'n plan planned" where
  "make_plan ip sha svcs slices nodes name =
     (if \<not> valid_node_name name \<or> length svcs > 8192 \<or> length slices > 8192 \<or> length nodes > 8192
      then invalid_plan ''invalid or excessive proxy snapshot''
      else andThen (read_cluster ip sha slices nodes name) (\<lambda>(x, cidrs).
        andThen (try_fold (service_step x) no_frontends svcs) (\<lambda>st.
        Inr \<lparr>pod_cidrs = cidrs, fronts = sort_key chain (frontends st), warnings = reports st, statuses = resolved st\<rparr>)))"

end
