(* ===== verification/Proxy_Laws.thy ===== *)
theory Proxy_Laws
  imports Proxy_Plan "HOL-Library.Multiset"
begin

text \<open>
  What a plan of the service proxy guarantees: the backends of a frontend are exactly the serving
  endpoints, every forwarded Service port has its frontends and no other frontend exists, addresses
  and chain names are unique, Pod subnets are disjoint; and what one endpoint can do to a plan.
\<close>

subsection \<open>Collecting backends\<close>

text \<open>The set grows by what is offered, the total with it.\<close>

definition gains :: "collected \<Rightarrow> collected \<Rightarrow> backend set \<Rightarrow> bool" where
  "gains c c' B \<longleftrightarrow> set (found c') = set (found c) \<union> B
     \<and> (distinct (found c) \<longrightarrow> distinct (found c')) \<and> (sorted (found c) \<longrightarrow> sorted (found c'))
     \<and> total_found c' + length (found c) = total_found c + length (found c')
     \<and> (total_found c \<le> 16384 \<longrightarrow> total_found c' \<le> 16384)"

lemma gains_refl [simp]: "gains c c {}"
  by (simp add: gains_def)

lemma gains_remark [simp]: "gains c (c\<lparr>remarks := w\<rparr>) {}"
  by (simp add: gains_def)

lemma gains_trans: "gains c d A \<Longrightarrow> gains d e B \<Longrightarrow> gains c e (A \<union> B)"
  unfolding gains_def by auto

lemma try_fold_gains:
  assumes "\<And>x s t. x \<in> set xs \<Longrightarrow> f s x = (Inr t :: collected planned) \<Longrightarrow> gains s t (G x)"
    and "try_fold f s xs = Inr t"
  shows "gains s t (\<Union>x \<in> set xs. G x)"
  using assms
proof (induction xs arbitrary: s)
  case Nil
  then show ?case by simp
next
  case (Cons x xs)
  from Cons.prems(2) obtain u where u: "f s x = Inr u" "try_fold f u xs = Inr t" unfolding try_fold_Cons_Inr_iff by blast
  have "gains s u (G x)" using Cons.prems(1) u(1) by simp
  moreover have "gains u t (\<Union>x \<in> set xs. G x)" using Cons.IH [OF _ u(2)] Cons.prems(1) by simp
  ultimately show ?case using gains_trans by simp
qed

definition address_offers :: "nat \<Rightarrow> json \<Rightarrow> backend set" where
  "address_offers target address = {(a, target) | a. ip_address address = Inr a}"

definition endpoint_offers :: "string \<Rightarrow> bool \<Rightarrow> nat \<Rightarrow> json \<Rightarrow> backend set" where
  "endpoint_offers node local target e =
     (if endpoint_serves node local e then \<Union>ad \<in> set (items (idx e ''addresses'')). address_offers target ad else {})"

definition port_offers :: "string \<Rightarrow> bool \<Rightarrow> nat \<Rightarrow> string \<Rightarrow> protocol \<Rightarrow> json \<Rightarrow> json \<Rightarrow> backend set" where
  "port_offers node local n port_name protocol es sp =
     (if port_matches n (length (items (idx es ''ports''))) port_name protocol sp
      then \<Union>target \<in> {t. port_number (idx sp ''port'') = Inr t}. \<Union>e \<in> set (items (idx es ''endpoints'')). endpoint_offers node local target e
      else {})"

definition slice_offers :: "string \<Rightarrow> bool \<Rightarrow> string \<Rightarrow> string \<Rightarrow> nat \<Rightarrow> string \<Rightarrow> protocol \<Rightarrow> json \<Rightarrow> backend set" where
  "slice_offers node local uid name n port_name protocol es =
     (if foreign_owner uid name es then {}
      else \<Union>sp \<in> set (items (idx es ''ports'')). port_offers node local n port_name protocol es sp)"

text \<open>The serving endpoints of one Service port.\<close>

definition offers :: "'n plan_input \<Rightarrow> service_view \<Rightarrow> string \<Rightarrow> protocol \<Rightarrow> backend set" where
  "offers x sv port_name protocol =
     (\<Union>es \<in> set (slices_of (groups x) (sv_ns sv) (sv_name sv)).
        slice_offers (on_this x) (sv_local sv) (sv_uid sv) (sv_name sv) (length (sv_ports sv)) port_name protocol es)"

lemma add_address_gains:
  assumes "add_address ip services target c ad = Inr d"
  shows "gains c d (address_offers target ad)"
proof -
  from assms obtain a where a: "ip_address ad = Inr a"
    and d: "(a, target) \<in> set (found c) \<and> d = c \<or> (a, target) \<notin> set (found c) \<and> total_found c + 1 \<le> 16384
      \<and> d = c\<lparr>found := insort (a, target) (found c), total_found := total_found c + 1\<rparr>"
    unfolding add_address_def andThen_Inr_iff by (auto split: if_splits)
  have off: "address_offers target ad = {(a, target)}" using a by (auto simp: address_offers_def)
  from d show ?thesis unfolding off gains_def
    by (elim disjE conjE) (auto simp: set_insort_key distinct_insort sorted_insort)
qed

lemma add_endpoint_gains: "add_endpoint ip services node local target c e = Inr d \<Longrightarrow> gains c d (endpoint_offers node local target e)"
  unfolding add_endpoint_def endpoint_offers_def
  by (auto split: if_splits intro: try_fold_gains add_address_gains)

lemma add_slice_port_gains:
  assumes "add_slice_port ip services node local ident n port_name protocol es c sp = Inr d"
  shows "gains c d (port_offers node local n port_name protocol es sp)"
proof (cases "port_matches n (length (items (idx es ''ports''))) port_name protocol sp")
  case True
  with assms obtain t where t: "port_number (idx sp ''port'') = Inr t"
    "try_fold (add_endpoint ip services node local t) c (items (idx es ''endpoints'')) = Inr d"
    by (auto simp: add_slice_port_def andThen_Inr_iff)
  have one: "{u. port_number (idx sp ''port'') = Inr u} = {t}" using t(1) by auto
  show ?thesis using True try_fold_gains [OF add_endpoint_gains t(2)] by (simp add: port_offers_def one)
next
  case False
  then show ?thesis using assms by (auto simp: add_slice_port_def port_offers_def)
qed

lemma add_slice_gains:
  assumes "add_slice ip services node local uid ident n port_name protocol c es = Inr d"
  shows "gains c d (slice_offers node local uid (snd ident) n port_name protocol es)"
  using assms try_fold_gains [OF add_slice_port_gains] by (auto simp: add_slice_def slice_offers_def split: if_splits)

lemma collect_backends_gains:
  assumes "collect_backends x sv port_name protocol already ws = Inr c"
  shows "set (found c) = offers x sv port_name protocol" "distinct (found c)" "sorted (found c)"
    "total_found c = already + length (found c)" "already \<le> 16384 \<Longrightarrow> total_found c \<le> 16384"
proof -
  have "gains \<lparr>found = [], total_found = already, remarks = ws\<rparr> c (offers x sv port_name protocol)"
    unfolding offers_def
    by (rule try_fold_gains [OF _ assms [unfolded collect_backends_def]]) (drule add_slice_gains, simp)
  then show "set (found c) = offers x sv port_name protocol" "distinct (found c)" "sorted (found c)"
    "total_found c = already + length (found c)" "already \<le> 16384 \<Longrightarrow> total_found c \<le> 16384"
    by (simp_all add: gains_def)
qed


subsection \<open>Frontends\<close>

definition front_tuple :: "frontend \<Rightarrow> nat \<times> nat \<times> protocol" where
  "front_tuple f = (front_ip f, front_port f, proto f)"

text \<open>Between two ports the claimed tuples and chain names are those of the frontends.\<close>

definition in_sync :: "plan_state \<Rightarrow> bool" where
  "in_sync st \<longleftrightarrow> tuples st = map front_tuple (frontends st) \<and> ids st = map chain (frontends st)
     \<and> distinct (tuples st) \<and> distinct (ids st)"

lemma claim_tuple_Inr [simp]: "claim_tuple t st = Inr st' \<longleftrightarrow> t \<notin> set (tuples st) \<and> st' = st\<lparr>tuples := tuples st @ [t]\<rparr>"
  by (auto simp: claim_tuple_def)

lemma claim_id_Inr [simp]: "claim_id i st = Inr st' \<longleftrightarrow> i \<notin> set (ids st) \<and> st' = st\<lparr>ids := ids st @ [i]\<rparr>"
  by (auto simp: claim_id_def)

definition node_front :: "'n plan_input \<Rightarrow> service_view \<Rightarrow> nat \<Rightarrow> protocol \<Rightarrow> backend list \<Rightarrow> nat \<Rightarrow> frontend" where
  "node_front x sv np protocol bs a =
     \<lparr>chain = chain_id (digest x) (sv_ns sv) (sv_name sv) (sv_uid sv) a np protocol ''/nodeport'', front_ip = a, front_port = np,
      proto = protocol, local_only = False, backends = bs\<rparr>"

definition cluster_front :: "'n plan_input \<Rightarrow> service_view \<Rightarrow> nat \<Rightarrow> protocol \<Rightarrow> backend list \<Rightarrow> frontend" where
  "cluster_front x sv n protocol bs =
     \<lparr>chain = chain_id (digest x) (sv_ns sv) (sv_name sv) (sv_uid sv) (sv_ip sv) n protocol '''', front_ip = sv_ip sv, front_port = n,
      proto = protocol, local_only = sv_local sv, backends = bs\<rparr>"

text \<open>The frontends one Service port asks for.\<close>

definition port_fronts :: "'n plan_input \<Rightarrow> service_view \<Rightarrow> json \<Rightarrow> frontend list \<Rightarrow> bool" where
  "port_fronts x sv p fs \<longleftrightarrow> (\<exists>n protocol bs.
     port_number (idx p ''port'') = Inr n \<and> parse_protocol (idx p ''protocol'') = Inr protocol
     \<and> set bs = offers x sv (or_default '''' (as_str (idx p ''name''))) protocol \<and> distinct bs \<and> sorted bs
     \<and> (if sv_node_port sv
        then \<exists>np. node_port_number (idx p ''nodePort'') = Inr np \<and> this_ips x \<noteq> []
               \<and> fs = cluster_front x sv n protocol bs # map (node_front x sv np protocol bs) (this_ips x)
        else fs = [cluster_front x sv n protocol bs]))"

definition limited :: "plan_state \<Rightarrow> bool" where
  "limited st \<longleftrightarrow> length (frontends st) \<le> 4096 \<and> total_backends st \<le> 16384"

lemma node_frontend_Inr:
  assumes "node_frontend (digest x) (sv_ns sv) (sv_name sv) (sv_uid sv) np protocol bs st a = Inr st'" and "in_sync st"
  shows "in_sync st' \<and> frontends st' = frontends st @ [node_front x sv np protocol bs a] \<and> total_backends st' = total_backends st"
  using assms unfolding node_frontend_def andThen_Inr_iff Let_def
  by (auto simp: in_sync_def node_front_def front_tuple_def)

lemma node_frontend_fold:
  assumes "try_fold (node_frontend (digest x) (sv_ns sv) (sv_name sv) (sv_uid sv) np protocol bs) st as = Inr st'" and "in_sync st"
  shows "in_sync st' \<and> frontends st' = frontends st @ map (node_front x sv np protocol bs) as \<and> total_backends st' = total_backends st"
  using assms
proof (induction as arbitrary: st)
  case Nil
  then show ?case by simp
next
  case (Cons a as)
  from Cons.prems(1) obtain u where u: "node_frontend (digest x) (sv_ns sv) (sv_name sv) (sv_uid sv) np protocol bs st a = Inr u"
    "try_fold (node_frontend (digest x) (sv_ns sv) (sv_name sv) (sv_uid sv) np protocol bs) u as = Inr st'"
    unfolding try_fold_Cons_Inr_iff by blast
  show ?case using node_frontend_Inr [OF u(1) Cons.prems(2)] Cons.IH [OF u(2)] by simp
qed

lemma publish_port_front:
  "publish_port sv n protocol (chain_id (digest x) (sv_ns sv) (sv_name sv) (sv_uid sv) (sv_ip sv) n protocol []) bs st =
     st\<lparr>resolved := resolved st @
          [\<lparr>st_namespace = sv_ns sv, st_name = sv_name sv, st_port = n, st_backends = length bs\<rparr>],
        reports := (if bs = [] then reports st @ [No_endpoint (sv_ns sv) (sv_name sv) n protocol] else reports st),
        frontends := frontends st @ [cluster_front x sv n protocol bs]\<rparr>"
  by (simp add: publish_port_def cluster_front_def)

lemma cluster_front_keys:
  "front_tuple (cluster_front x sv n protocol bs) = (sv_ip sv, n, protocol)"
  "chain (cluster_front x sv n protocol bs) = chain_id (digest x) (sv_ns sv) (sv_name sv) (sv_uid sv) (sv_ip sv) n protocol []"
  by (simp_all add: cluster_front_def front_tuple_def)

lemma cluster_step_Inr:
  assumes "cluster_step x sv st p = Inr (st', protocol, bs)" and "in_sync st" and "limited st"
  shows "in_sync st' \<and> total_backends st' \<le> 16384 \<and> parse_protocol (idx p ''protocol'') = Inr protocol
    \<and> set bs = offers x sv (or_default [] (as_str (idx p ''name''))) protocol \<and> distinct bs \<and> sorted bs
    \<and> (\<exists>n. port_number (idx p ''port'') = Inr n \<and> frontends st' = frontends st @ [cluster_front x sv n protocol bs])"
proof -
  let ?i = "\<lambda>n. chain_id (digest x) (sv_ns sv) (sv_name sv) (sv_uid sv) (sv_ip sv) n protocol []"
  from assms(1) obtain n c where h: "port_number (idx p ''port'') = Inr n" "parse_protocol (idx p ''protocol'') = Inr protocol"
    and new: "(sv_ip sv, n, protocol) \<notin> set (tuples st)" "?i n \<notin> set (ids st)"
    and c: "collect_backends x sv (or_default [] (as_str (idx p ''name''))) protocol (total_backends st) (reports st) = Inr c"
    and st': "st' = publish_port sv n protocol (?i n) bs
      (st\<lparr>tuples := tuples st @ [(sv_ip sv, n, protocol)], total_backends := total_found c, reports := remarks c, ids := ids st @ [?i n]\<rparr>)"
    and bs: "bs = found c"
    by (auto simp: cluster_step_def andThen_Inr_iff Let_def)
  note g = collect_backends_gains [OF c, folded bs]
  have "total_found c \<le> 16384" using g(5) assms(3) by (simp add: limited_def)
  then have "in_sync st' \<and> total_backends st' \<le> 16384 \<and> frontends st' = frontends st @ [cluster_front x sv n protocol bs]"
    using assms(2) new unfolding st' publish_port_front [of sv n protocol x] by (auto simp: in_sync_def cluster_front_keys)
  then show ?thesis using h g(1,2,3) by blast
qed

lemma port_step_Inr:
  assumes "port_step x sv st p = Inr st'" and "in_sync st" and "limited st"
  shows "in_sync st' \<and> limited st' \<and> (\<exists>fs. port_fronts x sv p fs \<and> frontends st' = frontends st @ fs)"
proof -
  from assms(1) obtain st1 protocol bs where one: "cluster_step x sv st p = Inr (st1, protocol, bs)"
    and st2: "(if sv_node_port sv then node_frontends (digest x) (sv_ns sv) (sv_name sv) (sv_uid sv) (this_ips x) protocol p bs st1 else Inr st1) = Inr st'"
    and small: "length (frontends st') \<le> 4096"
    by (auto simp: port_step_def andThen_Inr_iff simp del: if_split)
  from cluster_step_Inr [OF one assms(2,3)] obtain n where c: "in_sync st1" "total_backends st1 \<le> 16384"
    "parse_protocol (idx p ''protocol'') = Inr protocol" "set bs = offers x sv (or_default [] (as_str (idx p ''name''))) protocol"
    "distinct bs" "sorted bs" "port_number (idx p ''port'') = Inr n" "frontends st1 = frontends st @ [cluster_front x sv n protocol bs]"
    by blast
  show ?thesis
  proof (cases "sv_node_port sv")
    case False
    then have "st' = st1" using st2 by simp
    then show ?thesis using c small False unfolding limited_def port_fronts_def by auto
  next
    case True
    with st2 obtain np where np: "node_port_number (idx p ''nodePort'') = Inr np" "this_ips x \<noteq> []"
      "try_fold (node_frontend (digest x) (sv_ns sv) (sv_name sv) (sv_uid sv) np protocol bs) st1 (this_ips x) = Inr st'"
      unfolding node_frontends_def by (auto simp: andThen_Inr_iff)
    note p2 = node_frontend_fold [OF np(3) c(1)]
    have "port_fronts x sv p (cluster_front x sv n protocol bs # map (node_front x sv np protocol bs) (this_ips x))"
      unfolding port_fronts_def using c(3-7) np(1,2) True by auto
    then show ?thesis using c p2 small unfolding limited_def by auto
  qed
qed


lemma try_fold_concat:
  assumes "\<And>s x t. x \<in> set xs \<Longrightarrow> I s \<Longrightarrow> f s x = Inr t \<Longrightarrow> I t \<and> (\<exists>ys. P x ys \<and> g t = g s @ ys)"
    and "I s" and "try_fold f s xs = Inr t"
  shows "I t \<and> (\<exists>yss. list_all2 P xs yss \<and> g t = g s @ concat yss)"
  using assms
proof (induction xs arbitrary: s)
  case Nil
  then show ?case by (intro conjI exI [of _ "[]"]) auto
next
  case (Cons x xs)
  from Cons.prems(3) obtain u where u: "f s x = Inr u" "try_fold f u xs = Inr t" unfolding try_fold_Cons_Inr_iff by blast
  from Cons.prems(1) [OF _ Cons.prems(2) u(1)] obtain ys where ys: "I u" "P x ys" "g u = g s @ ys" by auto
  from Cons.IH [OF _ ys(1) u(2)] Cons.prems(1) obtain yss where "I t" "list_all2 P xs yss" "g t = g u @ concat yss" by auto
  with ys show ?case by (intro conjI exI [of _ "ys # yss"]) simp_all
qed

text \<open>The frontends one Service asks for.\<close>

definition service_fronts :: "'n plan_input \<Rightarrow> json \<Rightarrow> frontend list \<Rightarrow> bool" where
  "service_fronts x svc fs \<longleftrightarrow>
     (if skipped svc then fs = []
      else \<exists>sv fss. read_service x svc = Inr sv \<and> list_all2 (port_fronts x sv) (sv_ports sv) fss \<and> fs = concat fss)"

lemma service_step_Inr:
  assumes "service_step x st svc = Inr st'" and "in_sync st \<and> limited st"
  shows "(in_sync st' \<and> limited st') \<and> (\<exists>fs. service_fronts x svc fs \<and> frontends st' = frontends st @ fs)"
proof (cases "skipped svc")
  case True
  then show ?thesis using assms by (simp add: service_step_def service_fronts_def)
next
  case False
  with assms(1) obtain sv where sv: "read_service x svc = Inr sv" "try_fold (port_step x sv) st (sv_ports sv) = Inr st'"
    unfolding service_step_def by (auto simp: andThen_Inr_iff)
  have "(in_sync st' \<and> limited st') \<and> (\<exists>fss. list_all2 (port_fronts x sv) (sv_ports sv) fss \<and> frontends st' = frontends st @ concat fss)"
    by (rule try_fold_concat [where I = "\<lambda>st. in_sync st \<and> limited st" and g = frontends, OF _ assms(2) sv(2)]) (use port_step_Inr in blast)
  then show ?thesis using False sv(1) unfolding service_fronts_def by auto
qed

lemma services_Inr:
  assumes "try_fold (service_step x) no_frontends svcs = Inr st"
  shows "in_sync st \<and> limited st \<and> (\<exists>fss. list_all2 (service_fronts x) svcs fss \<and> frontends st = concat fss)"
proof -
  have start: "in_sync no_frontends \<and> limited no_frontends" by (simp add: in_sync_def limited_def no_frontends_def)
  have "(in_sync st \<and> limited st) \<and> (\<exists>fss. list_all2 (service_fronts x) svcs fss \<and> frontends st = frontends no_frontends @ concat fss)"
    by (rule try_fold_concat [where I = "\<lambda>st. in_sync st \<and> limited st" and g = frontends, OF _ start assms]) (use service_step_Inr in blast)
  then show ?thesis by (simp add: no_frontends_def)
qed

subsection \<open>The slices of a Service\<close>

definition slice_for :: "string \<Rightarrow> string \<Rightarrow> json \<Rightarrow> bool" where
  "slice_for ns name es \<longleftrightarrow> idx es ''addressType'' = JStr ''IPv4'' \<and> is_null (at es [''metadata'', ''deletionTimestamp''])
     \<and> at es [''metadata'', ''labels'', ''kubernetes.io/service-name''] = JStr name \<and> at es [''metadata'', ''namespace''] = JStr ns"

lemma slice_step_concat:
  assumes "slice_step gs es = Inr gs'"
  shows "\<exists>new. (\<forall>g. g \<in> set new \<longleftrightarrow> snd g = es \<and> slice_for (fst (fst g)) (snd (fst g)) es) \<and> gs' = gs @ new"
proof (cases "idx es ''addressType'' = JStr ''IPv4'' \<and> is_null (at es [''metadata'', ''deletionTimestamp''])
    \<and> (\<exists>name. at es [''metadata'', ''labels'', ''kubernetes.io/service-name''] = JStr name)")
  case True
  then obtain name where n: "at es [''metadata'', ''labels'', ''kubernetes.io/service-name''] = JStr name" by blast
  from assms True n obtain ns where ns: "at es [''metadata'', ''namespace''] = JStr ns" "gs' = gs @ [((ns, name), es)]"
    by (auto simp: slice_step_def identity_text_def andThen_Inr_iff as_str_Some_iff split: option.splits if_splits)
  show ?thesis using True n ns by (intro exI [of _ "[((ns, name), es)]"]) (auto simp: slice_for_def)
next
  case False
  then have "gs' = gs"
    using assms by (auto simp: slice_step_def andThen_Inr_iff as_str_Some_iff split: option.splits if_splits)
  then show ?thesis using False by (intro exI [of _ "[]"]) (auto simp: slice_for_def)
qed

lemma slices_of_exact:
  assumes "try_fold slice_step [] slices = Inr gs"
  shows "set (slices_of gs ns name) = {es \<in> set slices. slice_for ns name es}"
proof -
  have "True \<and> (\<exists>news. list_all2 (\<lambda>es new. \<forall>g. g \<in> set new \<longleftrightarrow> snd g = es \<and> slice_for (fst (fst g)) (snd (fst g)) es) slices news
      \<and> gs = [] @ concat news)"
    by (rule try_fold_concat [where I = "\<lambda>_. True" and g = "\<lambda>x. x", OF _ _ assms]) (use slice_step_concat in blast)+
  then obtain news where news: "list_all2 (\<lambda>es new. \<forall>g. g \<in> set new \<longleftrightarrow> snd g = es \<and> slice_for (fst (fst g)) (snd (fst g)) es) slices news"
    and gs: "gs = concat news" by auto
  have "g \<in> set gs \<longleftrightarrow> (\<exists>es \<in> set slices. snd g = es \<and> slice_for (fst (fst g)) (snd (fst g)) es)" for g
    unfolding gs using news by (induction rule: list_all2_induct) (auto simp del: split_paired_All)
  then show ?thesis unfolding slices_of_def by force
qed


subsection \<open>Plans\<close>

lemma make_plan_Inr:
  assumes "make_plan ip sha svcs slices nodes name = Inr pl"
  obtains services v gs x st where "service_range ip = Inr services" "read_nodes ip services name nodes = Inr v"
    "try_fold slice_step [] slices = Inr gs"
    "x = \<lparr>nets = ip, range_net = services, digest = sha, on_this = name, groups = gs, this_ips = node_ips v\<rparr>"
    "read_cluster ip sha slices nodes name = Inr (x, seen_cidrs v)"
    "try_fold (service_step x) no_frontends svcs = Inr st"
    "pl = \<lparr>pod_cidrs = seen_cidrs v, fronts = sort_key chain (frontends st), warnings = reports st, statuses = resolved st\<rparr>"
  using assms unfolding make_plan_def read_cluster_def by (auto simp: andThen_Inr_iff)

lemma make_plan_parts:
  assumes "make_plan ip sha svcs slices nodes name = Inr pl"
  obtains gs x st where "try_fold slice_step [] slices = Inr gs" "try_fold (service_step x) no_frontends svcs = Inr st"
    "read_cluster ip sha slices nodes name = Inr (x, pod_cidrs pl)" "groups x = gs" "on_this x = name"
    "fronts pl = sort_key chain (frontends st)"
  using assms
proof (rule make_plan_Inr)
  fix services v gs x st
  assume a: "try_fold slice_step [] slices = Inr gs" "try_fold (service_step x) no_frontends svcs = Inr st"
    "read_cluster ip sha slices nodes name = Inr (x, seen_cidrs v)"
    "x = \<lparr>nets = ip, range_net = services, digest = sha, on_this = name, groups = gs, this_ips = node_ips v\<rparr>"
    "pl = \<lparr>pod_cidrs = seen_cidrs v, fronts = sort_key chain (frontends st), warnings = reports st, statuses = resolved st\<rparr>"
  show thesis
    by (rule that [OF a(1,2)]) (use a(3-5) in simp_all)
qed

text \<open>
  C14: a plan is exact.  Its frontends are, in the order of their chain names, those of the Services
  that are forwarded and not being deleted: for each port one on the cluster address and, for a node
  port, one on each address of the node, with the serving endpoints of the Service's slices as
  backends and nothing else.  No two frontends share an address, port and protocol or a chain name,
  and there are at most 4096.
\<close>

theorem plan_exact:
  assumes "make_plan ip sha svcs slices nodes name = Inr pl"
  shows "\<exists>x cidrs fss. read_cluster ip sha slices nodes name = Inr (x, cidrs) \<and> pod_cidrs pl = cidrs
    \<and> (\<forall>ns svc. set (slices_of (groups x) ns svc) = {es \<in> set slices. slice_for ns svc es})
    \<and> list_all2 (service_fronts x) svcs fss \<and> mset (fronts pl) = mset (concat fss)
    \<and> sorted (map chain (fronts pl)) \<and> distinct (map chain (fronts pl)) \<and> distinct (map front_tuple (fronts pl))
    \<and> length (fronts pl) \<le> 4096"
proof -
  from assms obtain gs x st where p: "try_fold slice_step [] slices = Inr gs" "groups x = gs"
    "read_cluster ip sha slices nodes name = Inr (x, pod_cidrs pl)" "try_fold (service_step x) no_frontends svcs = Inr st"
    "fronts pl = sort_key chain (frontends st)"
    by (rule make_plan_parts) (rule that)
  from services_Inr [OF p(4)] obtain fss where f: "in_sync st" "limited st" "list_all2 (service_fronts x) svcs fss" "frontends st = concat fss"
    by blast
  have d: "distinct (map chain (frontends st))" "distinct (map front_tuple (frontends st))"
    using f(1) unfolding in_sync_def by (elim conjE, simp)+
  have "mset (fronts pl) = mset (concat fss)" "sorted (map chain (fronts pl))" "distinct (map chain (fronts pl))"
    "distinct (map front_tuple (fronts pl))" "length (fronts pl) \<le> 4096"
    using f(2,4) d by (simp_all add: p(5) distinct_map limited_def)
  with p(3) f(3) slices_of_exact [OF p(1)] p(2) show ?thesis by (intro exI [of _ x] exI [of _ "pod_cidrs pl"] exI [of _ fss]) simp
qed

subsection \<open>Subnets\<close>

definition in_order :: "'n ipnet \<Rightarrow> 'n list \<Rightarrow> bool" where
  "in_order ip ns \<longleftrightarrow> sorted_wrt (\<lambda>a b. net_key ip a < net_key ip b) ns"

lemma insert_net_Some:
  assumes "insert_net ip n ms = Some ms'" and "in_order ip ms"
  shows "in_order ip ms' \<and> set ms' = insert n (set ms)"
  using assms
proof (induction ms arbitrary: ms')
  case Nil
  then show ?case by (auto simp: in_order_def)
next
  case (Cons m ms)
  then show ?case by (fastforce simp: in_order_def split: if_splits)
qed

definition own_range :: "'n ipnet \<Rightarrow> 'n \<Rightarrow> 'n \<Rightarrow> bool" where
  "own_range ip services s \<longleftrightarrow> net_addr ip s = net_network ip s \<and> is_private (net_network ip s) \<and> is_private (net_broadcast ip s)
     \<and> \<not> net_contains ip s (net_network ip services) \<and> \<not> net_contains ip services (net_network ip s)"

text \<open>The subnet a node of the listing has been given.\<close>

definition subnet_of :: "'n ipnet \<Rightarrow> json \<Rightarrow> 'n \<Rightarrow> bool" where
  "subnet_of ip node s \<longleftrightarrow> (\<exists>cidr. at node [''spec'', ''podCIDR''] = JStr cidr \<and> cidr \<noteq> [] \<and> parse_net ip cidr = Some s \<and> show_net ip s = cidr)"

definition view_ok :: "'n ipnet \<Rightarrow> 'n \<Rightarrow> string \<Rightarrow> json list \<Rightarrow> 'n node_view \<Rightarrow> bool" where
  "view_ok ip services name nodes v \<longleftrightarrow> in_order ip (seen_cidrs v)
     \<and> (\<forall>s \<in> set (seen_cidrs v). own_range ip services s \<and> (\<exists>node \<in> set nodes. subnet_of ip node s))
     \<and> (own v \<longrightarrow> (\<exists>node \<in> set nodes. \<exists>s \<in> set (seen_cidrs v). is_node name node \<and> subnet_of ip node s))"

lemma node_subnet_Inr:
  assumes "node_subnet ip services cidr = Inr s"
  shows "own_range ip services s \<and> parse_net ip cidr = Some s \<and> show_net ip s = cidr"
  using assms by (auto simp: node_subnet_def own_range_def split: option.splits)

lemma node_step_ok:
  assumes "node_step ip services name v node = Inr w" and "view_ok ip services name nodes v" and "node \<in> set nodes"
  shows "view_ok ip services name nodes w"
proof -
  from assms(1) obtain u where u: "(case filled (as_str (at node [''spec'', ''podCIDR''])) of
         None \<Rightarrow> Inr v
       | Some cidr \<Rightarrow>
           andThen (node_subnet ip services cidr) (\<lambda>s.
             case insert_net ip s (seen_cidrs v) of
               None \<Rightarrow> invalid_plan ''duplicate node CIDR''
             | Some cs \<Rightarrow> Inr (v\<lparr>seen_cidrs := cs, own := own v \<or> is_node name node\<rparr>))) = Inr u"
    and w: "seen_cidrs w = seen_cidrs u" "own w = own u"
    unfolding node_step_def andThen_Inr_iff by (auto simp: andThen_Inr_iff split: if_splits)
  have "view_ok ip services name nodes u"
  proof (cases "filled (as_str (at node [''spec'', ''podCIDR'']))")
    case None
    then show ?thesis using u assms(2) by simp
  next
    case (Some cidr)
    with u obtain s cs where s: "node_subnet ip services cidr = Inr s" "insert_net ip s (seen_cidrs v) = Some cs"
      "u = v\<lparr>seen_cidrs := cs, own := own v \<or> is_node name node\<rparr>"
      by (auto simp: andThen_Inr_iff split: option.splits)
    from Some have cidr: "at node [''spec'', ''podCIDR''] = JStr cidr" "cidr \<noteq> []" by (simp_all add: as_str_Some_iff)
    note r = node_subnet_Inr [OF s(1)]
    have sub: "subnet_of ip node s" unfolding subnet_of_def using cidr r by blast
    have i: "in_order ip cs \<and> set cs = insert s (set (seen_cidrs v))"
      by (rule insert_net_Some [OF s(2)]) (use assms(2) in \<open>simp add: view_ok_def\<close>)
    show ?thesis using assms(2,3) i r sub unfolding s(3) view_ok_def by auto
  qed
  then show ?thesis using w by (simp add: view_ok_def)
qed

lemma disjoint_nets_sorted:
  assumes "disjoint_nets ip prev cs" and "in_order ip cs" and "\<forall>c \<in> set cs. net_addr ip c = net_network ip c"
    and "\<forall>n. net_network ip n \<le> net_broadcast ip n"
    and "\<forall>p c. prev = Some p \<longrightarrow> c \<in> set cs \<longrightarrow> net_network ip p \<le> net_network ip c"
  shows "sorted_wrt (\<lambda>a b. net_broadcast ip a < net_network ip b) cs \<and> (\<forall>p. prev = Some p \<longrightarrow> (\<forall>c \<in> set cs. net_broadcast ip p < net_network ip c))"
  using assms(1-3,5)
proof (induction cs arbitrary: prev)
  case Nil
  then show ?case by simp
next
  case (Cons c cs)
  have later: "net_network ip c \<le> net_network ip d" if "d \<in> set cs" for d
    using Cons.prems(2,3) that by (auto simp: in_order_def net_key_def)
  have rest: "sorted_wrt (\<lambda>a b. net_broadcast ip a < net_network ip b) cs \<and> (\<forall>d \<in> set cs. net_broadcast ip c < net_network ip d)"
    using Cons.IH [of "Some c"] Cons.prems(1,2,3) later by (auto simp: in_order_def)
  have first: "net_broadcast ip p < net_network ip c" if "prev = Some p" for p
    using Cons.prems(1,4) that by (auto simp: net_contains_def)
  have far: "net_broadcast ip p < net_network ip d" if "prev = Some p" "d \<in> set cs" for p d
    using first [OF that(1)] later [OF that(2)] by simp
  show ?case using rest first far by simp
qed

text \<open>
  The subnets of a plan are disjoint, from each other and from the Service range, and the one of
  the node itself is among them.  The assumption is the order of the two ends of a network, which
  the network library promises.
\<close>

theorem plan_subnets_disjoint:
  assumes "make_plan ip sha svcs slices nodes name = Inr pl" and "\<forall>n. net_network ip n \<le> net_broadcast ip n"
  shows "\<exists>services. parse_net ip ''10.43.0.0/16'' = Some services
    \<and> sorted_wrt (\<lambda>a b. net_broadcast ip a < net_network ip b) (pod_cidrs pl)
    \<and> (\<forall>s \<in> set (pod_cidrs pl). \<forall>a. \<not> (net_contains ip s a \<and> net_contains ip services a))
    \<and> (\<exists>node \<in> set nodes. \<exists>s \<in> set (pod_cidrs pl). is_node name node \<and> subnet_of ip node s)"
proof -
  from assms(1) obtain services v where p: "service_range ip = Inr services" "read_nodes ip services name nodes = Inr v" "pod_cidrs pl = seen_cidrs v"
    by (auto elim!: make_plan_Inr)
  from p(2) have fold: "try_fold (node_step ip services name) \<lparr>seen_cidrs = [], own = False, node_ips = []\<rparr> nodes = Inr v"
    and checked: "disjoint_nets ip None (seen_cidrs v)" "own v"
    by (auto simp: read_nodes_def andThen_Inr_iff)
  have ok: "view_ok ip services name nodes v"
    by (rule try_fold_invariant [OF fold]) (simp add: view_ok_def in_order_def, rule node_step_ok)
  have range: "parse_net ip ''10.43.0.0/16'' = Some services" using p(1) by (simp add: service_range_def)
  have apart: "\<not> (net_contains ip s a \<and> net_contains ip services a)" if "s \<in> set (seen_cidrs v)" for s a
    using ok that assms(2) unfolding view_ok_def own_range_def net_contains_def by (metis le_trans linorder_le_cases)
  have "sorted_wrt (\<lambda>a b. net_broadcast ip a < net_network ip b) (seen_cidrs v)"
    using disjoint_nets_sorted [OF checked(1) _ _ assms(2)] ok by (simp add: view_ok_def own_range_def)
  then show ?thesis using range apart ok checked(2) unfolding p(3) view_ok_def by blast
qed


subsection \<open>What one endpoint does to a plan\<close>

lemma try_fold_each: "try_fold f s xs = Inr t \<Longrightarrow> x \<in> set xs \<Longrightarrow> \<exists>u v. f u x = Inr v"
  by (induction xs arbitrary: s) (auto split: sum.splits)

lemma port_step_addresses:
  assumes "port_step x sv st p = Inr st'" and "es \<in> set (slices_of (groups x) (sv_ns sv) (sv_name sv))"
    and "\<not> foreign_owner (sv_uid sv) (sv_name sv) es" and "parse_protocol (idx p ''protocol'') = Inr protocol"
    and "sp \<in> set (items (idx es ''ports''))"
    and "port_matches (length (sv_ports sv)) (length (items (idx es ''ports''))) (or_default [] (as_str (idx p ''name''))) protocol sp"
    and "e \<in> set (items (idx es ''endpoints''))" and "endpoint_serves (on_this x) (sv_local sv) e" and "ad \<in> set (items (idx e ''addresses''))"
  shows "\<exists>a. ip_address ad = Inr a"
proof -
  from assms(1,4) obtain already ws c where
    "collect_backends x sv (or_default [] (as_str (idx p ''name''))) protocol already ws = Inr c"
    by (auto simp: port_step_def cluster_step_def andThen_Inr_iff)
  from try_fold_each [OF this [unfolded collect_backends_def] assms(2)] obtain c1 c2 where
    s: "add_slice (nets x) (range_net x) (on_this x) (sv_local sv) (sv_uid sv) (sv_ns sv, sv_name sv) (length (sv_ports sv))
          (or_default [] (as_str (idx p ''name''))) protocol c1 es = Inr c2" by blast
  then have "try_fold (add_slice_port (nets x) (range_net x) (on_this x) (sv_local sv) (sv_ns sv, sv_name sv) (length (sv_ports sv))
          (or_default [] (as_str (idx p ''name''))) protocol es) c1 (items (idx es ''ports'')) = Inr c2"
    using assms(3) by (simp add: add_slice_def)
  from try_fold_each [OF this assms(5)] obtain c3 c4 where
    "add_slice_port (nets x) (range_net x) (on_this x) (sv_local sv) (sv_ns sv, sv_name sv) (length (sv_ports sv))
          (or_default [] (as_str (idx p ''name''))) protocol es c3 sp = Inr c4" by blast
  then obtain target where "try_fold (add_endpoint (nets x) (range_net x) (on_this x) (sv_local sv) target) c3 (items (idx es ''endpoints'')) = Inr c4"
    using assms(6) by (auto simp: add_slice_port_def andThen_Inr_iff)
  from try_fold_each [OF this assms(7)] obtain c5 c6 where
    "add_endpoint (nets x) (range_net x) (on_this x) (sv_local sv) target c5 e = Inr c6" by blast
  then have "try_fold (add_address (nets x) (range_net x) target) c5 (items (idx e ''addresses'')) = Inr c6"
    using assms(8) by (simp add: add_endpoint_def)
  from try_fold_each [OF this assms(9)] show ?thesis by (auto simp: add_address_def andThen_Inr_iff)
qed

lemma read_service_Inr:
  assumes "read_service x svc = Inr sv"
  shows "at svc [''metadata'', ''uid''] = JStr (sv_uid sv)" "at svc [''metadata'', ''name''] = JStr (sv_name sv)"
    "at svc [''metadata'', ''namespace''] = JStr (sv_ns sv)" "sv_ports sv = items (at svc [''spec'', ''ports''])"
    "sv_local sv \<longleftrightarrow> at svc [''spec'', ''internalTrafficPolicy''] = JStr ''Local''"
    "sv_node_port sv \<longleftrightarrow> at svc [''spec'', ''type''] = JStr ''NodePort''"
  using assms unfolding read_service_def Let_def identity_text_def
  by (auto simp: andThen_Inr_iff as_str_Some_iff or_default_def split: option.splits if_splits)

text \<open>
  One endpoint stops the proxy.  When a slice of a forwarded Service has, on a port that matches
  and for an endpoint that serves, an address that is not a unicast IPv4 address, there is no plan
  at all, for any Service.  Admission of slices accepts such an address, a loopback one for instance.
\<close>

theorem one_endpoint_stops_the_plan:
  assumes "svc \<in> set svcs" and "\<not> skipped svc" and "at svc [''metadata'', ''uid''] = JStr uid"
    and "at svc [''metadata'', ''name''] = JStr nm" and "at svc [''metadata'', ''namespace''] = JStr ns"
    and "p \<in> set (items (at svc [''spec'', ''ports'']))" and "parse_protocol (idx p ''protocol'') = Inr protocol"
    and "es \<in> set slices" and "slice_for ns nm es" and "\<not> foreign_owner uid nm es"
    and "sp \<in> set (items (idx es ''ports''))"
    and "port_matches (length (items (at svc [''spec'', ''ports'']))) (length (items (idx es ''ports''))) (or_default [] (as_str (idx p ''name''))) protocol sp"
    and "e \<in> set (items (idx es ''endpoints''))" and "endpoint_serves name True e" and "ad \<in> set (items (idx e ''addresses''))"
    and "ip_address ad = Inl err"
  shows "\<not> is_ok (make_plan ip sha svcs slices nodes name)"
proof
  assume "is_ok (make_plan ip sha svcs slices nodes name)"
  then obtain pl where "make_plan ip sha svcs slices nodes name = Inr pl" unfolding is_ok_iff by blast
  then obtain gs x st where q: "try_fold slice_step [] slices = Inr gs" "groups x = gs" "on_this x = name"
    "try_fold (service_step x) no_frontends svcs = Inr st" "read_cluster ip sha slices nodes name = Inr (x, pod_cidrs pl)"
    by (rule make_plan_parts) (rule that)
  from try_fold_each [OF q(4) assms(1)] obtain st1 st2 where "service_step x st1 svc = Inr st2" by blast
  then obtain sv where sv: "read_service x svc = Inr sv" "try_fold (port_step x sv) st1 (sv_ports sv) = Inr st2"
    using assms(2) by (auto simp: service_step_def andThen_Inr_iff)
  note r = read_service_Inr [OF sv(1)]
  have v: "sv_uid sv = uid" "sv_name sv = nm" "sv_ns sv = ns" using r(1,2,3) assms(3,4,5) by simp_all
  from try_fold_each [OF sv(2)] assms(6) r(4) obtain st3 st4 where step: "port_step x sv st3 p = Inr st4" by metis
  have es: "es \<in> set (slices_of (groups x) (sv_ns sv) (sv_name sv))"
    using slices_of_exact [OF q(1)] assms(8,9) v q(2) by simp
  have serves: "endpoint_serves (on_this x) (sv_local sv) e" using assms(14) q(3) by (auto simp: endpoint_serves_def)
  have "\<exists>a. ip_address ad = Inr a"
    by (rule port_step_addresses [OF step es _ assms(7,11) _ assms(13) serves assms(15)]) (use assms(10,12) v r(4) in simp_all)
  then show False using assms(16) by simp
qed

text \<open>
  The node port of a Service whose internal traffic policy is local reaches the endpoints of
  this node only, although its frontend is not marked local: the backends were filtered before.
\<close>

theorem node_port_stays_local:
  assumes "make_plan ip sha svcs slices nodes name = Inr pl" and "svc \<in> set svcs" and "\<not> skipped svc"
    and "at svc [''spec'', ''internalTrafficPolicy''] = JStr ''Local''" and "at svc [''spec'', ''type''] = JStr ''NodePort''"
    and "p \<in> set (items (at svc [''spec'', ''ports'']))"
  shows "\<exists>f np. f \<in> set (fronts pl) \<and> node_port_number (idx p ''nodePort'') = Inr np \<and> front_port f = np \<and> \<not> local_only f
    \<and> (\<forall>b \<in> set (backends f). \<exists>es \<in> set slices. \<exists>e \<in> set (items (idx es ''endpoints'')). \<exists>ad \<in> set (items (idx e ''addresses'')).
          idx e ''nodeName'' = JStr name \<and> ip_address ad = Inr (fst b))"
proof -
  obtain gs x st where q: "try_fold slice_step [] slices = Inr gs" "groups x = gs" "on_this x = name"
    "try_fold (service_step x) no_frontends svcs = Inr st" "fronts pl = sort_key chain (frontends st)"
    "read_cluster ip sha slices nodes name = Inr (x, pod_cidrs pl)"
    using assms(1) by (rule make_plan_parts) (rule that)
  from services_Inr [OF q(4)] obtain fss where fss: "list_all2 (service_fronts x) svcs fss" "frontends st = concat fss" by blast
  from list_all2_left [OF fss(1) assms(2)] obtain fs where fs: "fs \<in> set fss" "service_fronts x svc fs" by blast
  from fs(2) assms(3) obtain sv pss where sv: "read_service x svc = Inr sv" "list_all2 (port_fronts x sv) (sv_ports sv) pss" "fs = concat pss"
    by (auto simp: service_fronts_def)
  note r = read_service_Inr [OF sv(1)]
  from list_all2_left [OF sv(2)] assms(6) r(4) obtain ps where ps: "ps \<in> set pss" "port_fronts x sv p ps" by metis
  from ps(2) r(6) assms(5) obtain protocol bs np n where pf: "node_port_number (idx p ''nodePort'') = Inr np" "this_ips x \<noteq> []"
    "set bs = offers x sv (or_default [] (as_str (idx p ''name''))) protocol"
    "ps = cluster_front x sv n protocol bs # map (node_front x sv np protocol bs) (this_ips x)"
    unfolding port_fronts_def by auto
  let ?f = "node_front x sv np protocol bs (hd (this_ips x))"
  have "?f \<in> set ps" using pf(2) unfolding pf(4) by simp
  then have "?f \<in> set fs" using ps(1) unfolding sv(3) set_concat by blast
  then have "?f \<in> set (fronts pl)" using fs(1) unfolding q(5) fss(2) set_sort set_concat by blast
  moreover have "\<exists>es \<in> set slices. \<exists>e \<in> set (items (idx es ''endpoints'')). \<exists>ad \<in> set (items (idx e ''addresses'')).
          idx e ''nodeName'' = JStr name \<and> ip_address ad = Inr (fst b)" if "b \<in> set (backends ?f)" for b
  proof -
    have "b \<in> offers x sv (or_default [] (as_str (idx p ''name''))) protocol" using that pf(3) by (simp add: node_front_def)
    then obtain es sp t e ad where o: "es \<in> set (slices_of (groups x) (sv_ns sv) (sv_name sv))" "e \<in> set (items (idx es ''endpoints''))"
      "endpoint_serves (on_this x) (sv_local sv) e" "ad \<in> set (items (idx e ''addresses''))" "b \<in> address_offers t ad"
      unfolding offers_def slice_offers_def port_offers_def endpoint_offers_def by (auto split: if_splits)
    have "es \<in> set slices" using o(1) slices_of_exact [OF q(1)] q(2) by simp
    moreover have "idx e ''nodeName'' = JStr name" using o(3) r(5) assms(4) q(3) by (simp add: endpoint_serves_def)
    moreover have "ip_address ad = Inr (fst b)" using o(5) by (auto simp: address_offers_def)
    ultimately show ?thesis using o(2,4) by blast
  qed
  ultimately show ?thesis using pf(1) by (intro exI [of _ ?f] exI [of _ np]) (simp add: node_front_def)
qed


subsection \<open>A small cluster\<close>

text \<open>One node, one node port Service with a local policy, one slice with the given address.\<close>

definition proxy_node :: json where
  "proxy_node = JObj [(''metadata'', JObj [(''name'', JStr ''n1'')]), (''spec'', JObj [(''podCIDR'', JStr ''10.42.0.0/24'')]),
     (''status'', JObj [(''addresses'', JArr [JObj [(''address'', JStr ''10.0.0.5''), (''type'', JStr ''InternalIP'')]])])]"

definition proxy_service :: json where
  "proxy_service = JObj [(''metadata'', JObj [(''name'', JStr ''web''), (''namespace'', JStr ''d''), (''uid'', JStr ''u'')]),
     (''spec'', JObj [(''clusterIP'', JStr ''10.43.0.9''), (''internalTrafficPolicy'', JStr ''Local''),
        (''ports'', JArr [JObj [(''nodePort'', JInt 30080), (''port'', JInt 80)]]), (''type'', JStr ''NodePort'')])]"

definition proxy_slice :: "string \<Rightarrow> json" where
  "proxy_slice address = JObj [(''addressType'', JStr ''IPv4''),
     (''endpoints'', JArr [JObj [(''addresses'', JArr [JStr address]), (''nodeName'', JStr ''n1'')]]),
     (''metadata'', JObj [(''labels'', JObj [(''kubernetes.io/service-name'', JStr ''web'')]), (''namespace'', JStr ''d'')]),
     (''ports'', JArr [JObj [(''port'', JInt 8080), (''protocol'', JStr ''TCP'')]])]"

abbreviation demo_plan :: "string \<Rightarrow> (nat \<times> nat) plan planned" where
  "demo_plan address \<equiv> make_plan block_networks (\<lambda>s. s) [proxy_service] [proxy_slice address] [proxy_node] ''n1''"

lemma demo_nodes:
  "read_nodes block_networks (170590208, 16) ''n1'' [proxy_node] = Inr \<lparr>seen_cidrs = [(170524672, 24)], own = True, node_ips = [167772165]\<rparr>"
  by code_simp
lemma demo_range: "service_range block_networks = Inr (170590208, 16)" by code_simp

lemma demo_plan_ok: "is_ok (demo_plan ''10.42.0.7'')"
  by code_simp


lemma demo_plan_Inr: "\<exists>pl. demo_plan ''10.42.0.7'' = Inr pl"
  using demo_plan_ok unfolding is_ok_iff .

lemma demo_service: "\<not> skipped proxy_service" "at proxy_service [''metadata'', ''uid''] = JStr ''u''"
  "at proxy_service [''metadata'', ''name''] = JStr ''web''" "at proxy_service [''metadata'', ''namespace''] = JStr ''d''"
  "at proxy_service [''spec'', ''internalTrafficPolicy''] = JStr ''Local''" "at proxy_service [''spec'', ''type''] = JStr ''NodePort''"
  "items (at proxy_service [''spec'', ''ports'']) = [JObj [(''nodePort'', JInt 30080), (''port'', JInt 80)]]"
  by code_simp+

lemma plan_exact_witness:
  "\<exists>pl x cidrs fss. demo_plan ''10.42.0.7'' = Inr pl
     \<and> read_cluster block_networks (\<lambda>s. s) [proxy_slice ''10.42.0.7''] [proxy_node] ''n1'' = Inr (x, cidrs)
     \<and> list_all2 (service_fronts x) [proxy_service] fss \<and> mset (fronts pl) = mset (concat fss)"
proof -
  from demo_plan_Inr obtain pl where pl: "demo_plan ''10.42.0.7'' = Inr pl" by blast
  from plan_exact [OF pl] pl show ?thesis by blast
qed

lemma block_order: "net_network block_networks n \<le> net_broadcast block_networks n"
  by (cases "block_size (snd n)") (use block_size_pos [of "snd n"] in \<open>simp_all add: block_networks_def\<close>)

lemma plan_subnets_disjoint_witness:
  "\<exists>pl. demo_plan ''10.42.0.7'' = Inr pl
     \<and> (\<forall>s \<in> set (pod_cidrs pl). \<forall>a. \<not> (net_contains block_networks s a \<and> net_contains block_networks (170590208, 16) a))
     \<and> (\<exists>s. s \<in> set (pod_cidrs pl))"
proof -
  from demo_plan_Inr obtain pl where pl: "demo_plan ''10.42.0.7'' = Inr pl" by blast
  have range: "parse_net block_networks ''10.43.0.0/16'' = Some (170590208, 16)" using demo_range by (simp add: service_range_def)
  from plan_subnets_disjoint [OF pl] block_order range
  have "(\<forall>s \<in> set (pod_cidrs pl). \<forall>a. \<not> (net_contains block_networks s a \<and> net_contains block_networks (170590208, 16) a))
     \<and> (\<exists>s. s \<in> set (pod_cidrs pl))" unfolding range option.inject by blast
  with pl show ?thesis by blast
qed

lemma one_endpoint_stops_the_plan_witness:
  "endpoints_strategy (proxy_slice ''127.0.0.1'') = (Inr (proxy_slice ''127.0.0.1'') :: json guarded)
   \<and> is_ok (demo_plan ''10.42.0.7'') \<and> \<not> is_ok (demo_plan ''127.0.0.1'')"
proof -
  let ?es = "proxy_slice ''127.0.0.1''"
  let ?sp = "JObj [(''port'', JInt 8080), (''protocol'', JStr ''TCP'')]"
  let ?e = "JObj [(''addresses'', JArr [JStr ''127.0.0.1'']), (''nodeName'', JStr ''n1'')]"
  let ?p = "JObj [(''nodePort'', JInt 30080), (''port'', JInt 80)]"
  have admitted: "(endpoints_strategy ?es :: json guarded) = Inr ?es" by code_simp
  have s: "slice_for ''d'' ''web'' ?es" "\<not> foreign_owner ''u'' ''web'' ?es" "?sp \<in> set (items (idx ?es ''ports''))"
    "?e \<in> set (items (idx ?es ''endpoints''))" "endpoint_serves ''n1'' True ?e" "JStr ''127.0.0.1'' \<in> set (items (idx ?e ''addresses''))"
    by code_simp+
  have p: "?p \<in> set (items (at proxy_service [''spec'', ''ports'']))" unfolding demo_service(7) by simp
  have q: "parse_protocol (idx ?p ''protocol'') = Inr Tcp" by code_simp
  have m: "port_matches (length (items (at proxy_service [''spec'', ''ports'']))) (length (items (idx ?es ''ports''))) (or_default [] (as_str (idx ?p ''name''))) Tcp ?sp"
    by code_simp
  have bad: "ip_address (JStr ''127.0.0.1'') = Inl (Some (Invalid ''endpoint must be a unicast IPv4 address''))" by code_simp
  have "\<not> is_ok (demo_plan ''127.0.0.1'')"
    by (rule one_endpoint_stops_the_plan [OF _ demo_service(1-4) p q _ s(1-3) m s(4-6) bad]) simp_all
  with admitted demo_plan_ok show ?thesis by blast
qed

lemma node_port_stays_local_witness:
  "\<exists>pl f. demo_plan ''10.42.0.7'' = Inr pl \<and> f \<in> set (fronts pl) \<and> \<not> local_only f
     \<and> (\<forall>b \<in> set (backends f). \<exists>e \<in> set (items (idx (proxy_slice ''10.42.0.7'') ''endpoints'')). idx e ''nodeName'' = JStr ''n1'')"
proof -
  from demo_plan_Inr obtain pl where pl: "demo_plan ''10.42.0.7'' = Inr pl" by blast
  have p: "JObj [(''nodePort'', JInt 30080), (''port'', JInt 80)] \<in> set (items (at proxy_service [''spec'', ''ports'']))"
    unfolding demo_service(7) by simp
  have svc: "proxy_service \<in> set [proxy_service]" by simp
  from node_port_stays_local [OF pl svc demo_service(1,5,6) p] obtain f where "f \<in> set (fronts pl)" "\<not> local_only f"
    "\<forall>b \<in> set (backends f). \<exists>es \<in> set [proxy_slice ''10.42.0.7'']. \<exists>e \<in> set (items (idx es ''endpoints'')). idx e ''nodeName'' = JStr ''n1''"
    by blast
  with pl show ?thesis by auto
qed

end
