(* ===== verification/Proxy_Run.thy ===== *)
theory Proxy_Run
  imports Proxy_Laws "HOL-Library.Word"
begin

text \<open>
  The rest of the service proxy: the nftables text of a plan (\<^verbatim>\<open>plan.rs\<close>, \<open>render\<close>), the complete
  listing over pages (\<^verbatim>\<open>api.rs\<close>), the owned kernel table (\<^verbatim>\<open>nft.rs\<close>) and one round of the loop
  (\<^verbatim>\<open>lib.rs\<close>).  The HTTP client, the nft program, the private files and the parser of its JSON are
  arguments over an arbitrary outside state.
\<close>

definition proxy_fail :: "string \<Rightarrow> (proxy_error, 'a) result" where
  "proxy_fail m = Inl (Invalid m)"

lemma proxy_fail_simps [simp]: "proxy_fail m \<noteq> Inr x" "proxy_fail m = Inl e \<longleftrightarrow> e = Invalid m"
  by (auto simp: proxy_fail_def)

subsection \<open>The text of a plan\<close>

definition TABLE :: string where
  "TABLE = ''h3s_proxy''"

definition MAX_RULESET :: nat where
  "MAX_RULESET = 2 * 1024 * 1024"

definition line :: "string list \<Rightarrow> string" where
  "line parts = concat parts @ [CHR 0x0A]"

fun separated :: "string \<Rightarrow> string list \<Rightarrow> string" where
  "separated sep [] = []"
| "separated sep [x] = x"
| "separated sep (x # y # xs) = x @ sep @ separated sep (y # xs)"

definition endpoint_chain :: "(string \<Rightarrow> string) \<Rightarrow> frontend \<Rightarrow> backend \<Rightarrow> string" where
  "endpoint_chain sha f b = ''ep_'' @ sha (chain f @ '':'' @ show_ipv4 (fst b) @ '':'' @ show_nat (snd b))"

definition nat_chain :: "string \<Rightarrow> string" where
  "nat_chain hook = line ['' chain nat_'', hook, '' { type nat hook '', hook, '' priority -100; policy accept; jump services; }'']"

definition jump_rule :: "frontend \<Rightarrow> string" where
  "jump_rule f = (if backends f = [] then []
     else line [''  ip daddr '', show_ipv4 (front_ip f), '' '', nft_name (proto f), '' dport '', show_nat (front_port f), '' counter jump '', chain f])"

definition reject_rule :: "frontend \<Rightarrow> string" where
  "reject_rule f = (if backends f \<noteq> [] then []
     else line [''  ip daddr '', show_ipv4 (front_ip f), '' '', nft_name (proto f), '' dport '', show_nat (front_port f), '' counter '',
       if local_only f then ''drop'' else ''reject''])"

definition reject_chain :: "frontend list \<Rightarrow> string \<Rightarrow> string" where
  "reject_chain fs hook =
     line ['' chain reject_'', hook, '' { type filter hook '', hook, '' priority -10; policy accept;''] @ concat (map reject_rule fs) @ line ['' }'']"

definition original_match :: "frontend \<Rightarrow> string" where
  "original_match f = ''ct status dnat ct original ip daddr '' @ show_ipv4 (front_ip f) @ '' meta l4proto '' @ nft_name (proto f)
     @ '' ct original proto-dst '' @ show_nat (front_port f)"

definition masquerade_rules :: "string \<Rightarrow> frontend \<Rightarrow> string" where
  "masquerade_rules cidrs f = (if backends f = [] then []
     else line [''  '', original_match f, '' ip saddr != { '', cidrs, '' } counter masquerade'']
       @ concat (map (\<lambda>b. line [''  '', original_match f, '' ip saddr '', show_ipv4 (fst b), '' ip daddr '', show_ipv4 (fst b), '' '',
           nft_name (proto f), '' dport '', show_nat (snd b), '' counter masquerade'']) (backends f)))"

definition spread_rule :: "(string \<Rightarrow> string) \<Rightarrow> frontend \<Rightarrow> string" where
  "spread_rule sha f = (case backends f of
      [b] \<Rightarrow> line [''  jump '', endpoint_chain sha f b]
    | bs \<Rightarrow> line [''  numgen random mod '', show_nat (length bs), '' vmap { '',
        separated '', '' (map (\<lambda>(i, b). show_nat i @ '' : jump '' @ endpoint_chain sha f b) (zip [0..<length bs] bs)), '' }''])"

definition service_chain :: "(string \<Rightarrow> string) \<Rightarrow> frontend \<Rightarrow> string" where
  "service_chain sha f =
     line ['' chain '', chain f, '' {''] @ spread_rule sha f @ line ['' }'']
     @ concat (map (\<lambda>b. line ['' chain '', endpoint_chain sha f b, '' { meta l4proto '', nft_name (proto f), '' counter dnat to '',
         show_ipv4 (fst b), '':'', show_nat (snd b), ''; }'']) (backends f))"

text \<open>The chains of the Services, with the limit checked after each.\<close>

definition chain_step :: "(string \<Rightarrow> string) \<Rightarrow> string \<Rightarrow> frontend \<Rightarrow> (proxy_error, string) result" where
  "chain_step sha out f =
     (if backends f = [] then Inr out
      else if length (out @ service_chain sha f) > MAX_RULESET then proxy_fail ''ruleset exceeds byte limit''
      else Inr (out @ service_chain sha f))"

definition render_head :: "'n ipnet \<Rightarrow> 'n plan \<Rightarrow> string \<Rightarrow> string" where
  "render_head ip pl owner =
     line [''add table ip '', TABLE] @ line [''delete table ip '', TABLE] @ line [''table ip '', TABLE, '' {'']
     @ line ['' comment '', [CHR 0x22], ''hedronetes.io/service-proxy/v1:'', owner, [CHR 0x22]]
     @ concat (map nat_chain [''prerouting'', ''output''])
     @ line ['' chain services {''] @ concat (map jump_rule (fronts pl)) @ line ['' }'']
     @ concat (map (reject_chain (fronts pl)) [''input'', ''forward'', ''output''])
     @ line ['' chain postrouting { type nat hook postrouting priority 90; policy accept;'']
     @ concat (map (masquerade_rules (separated '', '' (map (show_net ip) (pod_cidrs pl)))) (fronts pl)) @ line ['' }'']"

definition render :: "'n ipnet \<Rightarrow> (string \<Rightarrow> string) \<Rightarrow> 'n plan \<Rightarrow> string \<Rightarrow> (proxy_error, string) result" where
  "render ip sha pl owner =
     (if length owner \<noteq> 64 \<or> \<not> list_all is_hexdigit owner then proxy_fail ''invalid table ownership digest''
      else andThen (try_fold (chain_step sha) (render_head ip pl owner) (fronts pl)) (\<lambda>out.
        let out = out @ line [''}''] in
        if length out > MAX_RULESET then proxy_fail ''ruleset exceeds byte limit'' else Inr out))"

subsection \<open>A complete listing\<close>

definition MAX_BYTES :: nat where
  "MAX_BYTES = 16 * 1024 * 1024"

definition MAX_ITEMS :: nat where
  "MAX_ITEMS = 8192"

record pages =
  page_items :: "json list"
  page_revision :: "string option"
  continuation :: string
  cursors :: "string list"

definition no_pages :: pages where
  "no_pages = \<lparr>page_items = [], page_revision = None, continuation = [], cursors = []\<rparr>"

text \<open>\<^verbatim>\<open>Pages::push\<close>: whether the listing is complete, and the pages with this one.\<close>

definition push_page :: "pages \<Rightarrow> json \<Rightarrow> (proxy_error, bool \<times> pages) result" where
  "push_page p v =
     (case as_str (at v [''metadata'', ''resourceVersion'']) of
        None \<Rightarrow> proxy_fail ''list resourceVersion missing''
      | Some rv \<Rightarrow>
          if rv = [] \<or> length rv > 128 then proxy_fail ''list resourceVersion missing''
          else if (case page_revision p of None \<Rightarrow> False | Some old \<Rightarrow> old \<noteq> rv) then proxy_fail ''list pagination changed revision''
          else (case as_array (idx v ''items'') of
              None \<Rightarrow> proxy_fail ''list items missing''
            | Some new \<Rightarrow>
                if length (page_items p) + length new > MAX_ITEMS then proxy_fail ''API list exceeds item limit''
                else (case at v [''metadata'', ''continue''] of
                    JNull \<Rightarrow> Inr (True, p\<lparr>page_revision := Some rv, page_items := page_items p @ new, continuation := []\<rparr>)
                  | JStr c \<Rightarrow>
                      let p' = p\<lparr>page_revision := Some rv, page_items := page_items p @ new, continuation := c\<rparr> in
                      if c = [] then Inr (True, p')
                      else if length c > 4096 \<or> c \<in> set (cursors p) \<or> length (cursors p) + 1 > 64
                      then proxy_fail ''invalid or excessive list continuation''
                      else Inr (False, p'\<lparr>cursors := cursors p @ [c]\<rparr>)
                  | _ \<Rightarrow> proxy_fail ''invalid list continuation type'')))"

text \<open>
  One request, with the cursor it continues from: an error, or the length of the body and its JSON.
\<close>

type_synonym 's fetch = "string \<Rightarrow> 's \<Rightarrow> (proxy_error, nat \<times> json option) result \<times> 's"

lemma push_page_more:
  assumes "push_page p v = Inr (False, q)"
  shows "length (cursors q) = Suc (length (cursors p))" "length (cursors q) \<le> 64"
  using assms by (auto simp: push_page_def Let_def split: option.splits if_splits json.splits)

lemma push_page_less: "push_page p v = Inr (False, q) \<Longrightarrow> 64 - length (cursors q) < 64 - length (cursors p)"
  using push_page_more [of p v q] by simp

function list_pages :: "'s fetch \<Rightarrow> nat \<Rightarrow> pages \<Rightarrow> 's \<Rightarrow> (proxy_error, json list \<times> string) result \<times> 's" where
  "list_pages fetch bs p s =
     (case fetch (continuation p) s of
        (Inl e, t) \<Rightarrow> (Inl e, t)
      | (Inr (n, doc), t) \<Rightarrow>
          if bs + n > MAX_BYTES then (proxy_fail ''API list exceeds byte limit'', t)
          else (case doc of
              None \<Rightarrow> (Inl Json_text, t)
            | Some v \<Rightarrow>
                (case push_page p v of
                   Inl e \<Rightarrow> (Inl e, t)
                 | Inr (True, q) \<Rightarrow> (Inr (page_items q, or_default [] (page_revision q)), t)
                 | Inr (False, q) \<Rightarrow> list_pages fetch (bs + n) q t)))"
  by pat_completeness auto

termination
  by (relation "measure (\<lambda>(fetch, bs, p, s). 64 - length (cursors p))") (auto dest: push_page_less)

declare list_pages.simps [simp del]


subsection \<open>The owned table\<close>

text \<open>What a run of the nft program answers: its output as JSON text.\<close>

record 's nft_tool =
  nft_command :: "string list \<Rightarrow> string option \<Rightarrow> 's \<Rightarrow> (proxy_error, string) result \<times> 's"
  json_text :: "string \<Rightarrow> json option"

record nft_backend =
  table_owner :: string
  applied :: "string option"
  observed :: "json option"

definition new_backend :: "string \<Rightarrow> nft_backend" where
  "new_backend owner = \<lparr>table_owner = ''hedronetes.io/service-proxy/v1:'' @ owner, applied = None, observed = None\<rparr>"

definition VOLATILE :: "string list" where
  "VOLATILE = [''handle'', ''packets'', ''bytes'', ''metainfo'']"

fun normalize :: "json \<Rightarrow> json" where
  "normalize (JObj m) = JObj (map (\<lambda>(k, v). (k, normalize v)) (filter (\<lambda>(k, v). k \<notin> set VOLATILE) m))"
| "normalize (JArr xs) = JArr (map normalize xs)"
| "normalize v = v"

definition is_table :: "json \<Rightarrow> bool" where
  "is_table v \<longleftrightarrow> at v [''table'', ''family''] = JStr ''ip'' \<and> at v [''table'', ''name''] = JStr TABLE"

definition run_json :: "'s nft_tool \<Rightarrow> string list \<Rightarrow> 's \<Rightarrow> (proxy_error, json) result \<times> 's" where
  "run_json tool args s =
     (case nft_command tool args None s of
        (Inl e, t) \<Rightarrow> (Inl e, t)
      | (Inr out, t) \<Rightarrow> (case json_text tool out of None \<Rightarrow> (Inl Json_text, t) | Some v \<Rightarrow> (Inr v, t)))"

definition inspect :: "'s nft_tool \<Rightarrow> nft_backend \<Rightarrow> 's \<Rightarrow> (proxy_error, json option) result \<times> 's" where
  "inspect tool b s =
     (case run_json tool [''--json'', ''list'', ''tables''] s of
        (Inl e, t) \<Rightarrow> (Inl e, t)
      | (Inr l, t) \<Rightarrow>
          (case as_array (idx l ''nftables'') of
             None \<Rightarrow> (proxy_fail ''invalid nft table inventory'', t)
           | Some objs \<Rightarrow>
               if \<not> list_ex is_table objs then (Inr None, t)
               else (case run_json tool [''--json'', ''--stateless'', ''list'', ''table'', ''ip'', TABLE] t of
                   (Inl e, u) \<Rightarrow> (Inl e, u)
                 | (Inr table, u) \<Rightarrow>
                     (case as_array (idx table ''nftables'') of
                        None \<Rightarrow> (proxy_fail ''invalid nft table state'', u)
                      | Some objs \<Rightarrow>
                          if \<not> list_ex (\<lambda>v. is_table v \<and> at v [''table'', ''comment''] = JStr (table_owner b)) objs
                          then (proxy_fail ''refusing to modify a foreign nftables table'', u)
                          else (Inr (Some (normalize table)), u)))))"

definition reconcile :: "'s nft_tool \<Rightarrow> nft_backend \<Rightarrow> string \<Rightarrow> 's \<Rightarrow> (proxy_error, bool) result \<times> nft_backend \<times> 's" where
  "reconcile tool b rules s =
     (if length rules > MAX_RULESET then (proxy_fail ''ruleset exceeds byte limit'', b, s)
      else (case inspect tool b s of
          (Inl e, t) \<Rightarrow> (Inl e, b, t)
        | (Inr seen, t) \<Rightarrow>
            if applied b = Some rules \<and> seen \<noteq> None \<and> observed b = seen then (Inr False, b, t)
            else (case nft_command tool [''--file'', ''-''] (Some rules) t of
                (Inl e, u) \<Rightarrow> (Inl e, b, u)
              | (Inr _, u) \<Rightarrow>
                  (case inspect tool b u of
                     (Inl e, w) \<Rightarrow> (Inl e, b, w)
                   | (Inr now, w) \<Rightarrow>
                       if now = None then (proxy_fail ''applied proxy table is missing'', b\<lparr>observed := now\<rparr>, w)
                       else (Inr True, b\<lparr>observed := now, applied := Some rules\<rparr>, w)))))"

subsection \<open>The loop\<close>

record snapshot =
  snap_services :: "json list"
  snap_slices :: "json list"
  snap_nodes :: "json list"

record ('n, 's) proxy_world =
  net_lib :: "'n ipnet"
  sha_lib :: "string \<Rightarrow> string"
  nft_lib :: "'s nft_tool"
  take_snapshot :: "'s \<Rightarrow> (proxy_error, snapshot) result \<times> 's"
  write_file :: "string \<Rightarrow> string \<Rightarrow> 's \<Rightarrow> (proxy_error, unit) result \<times> 's"
  status_text :: "snapshot \<Rightarrow> 'n plan \<Rightarrow> string"
  pause :: "'s \<Rightarrow> 's"

record config =
  node_name :: string
  config_owner :: string

record 's proxy =
  kernel :: nft_backend
  desired :: "string option"
  desired_valid :: bool
  ready :: bool
  applies :: "64 word"
  surroundings :: 's

text \<open>The error of a plan: a panic ends the process, any other error is reported and the rules are kept.\<close>

definition plan_rules :: "('n, 's) proxy_world \<Rightarrow> config \<Rightarrow> snapshot \<Rightarrow> ('n plan \<times> string) planned" where
  "plan_rules w cfg snap =
     andThen (make_plan (net_lib w) (sha_lib w) (snap_services snap) (snap_slices snap) (snap_nodes snap) (node_name cfg)) (\<lambda>pl.
     andThen (safely (render (net_lib w) (sha_lib w) pl (config_owner cfg))) (\<lambda>rules. Inr (pl, rules)))"

text \<open>After a change of the kernel: the status file (its failure is ignored), the counter, the rules file.\<close>

definition record_change ::
  "('n, 's) proxy_world \<Rightarrow> snapshot \<Rightarrow> 'n plan \<Rightarrow> string \<Rightarrow> 's proxy \<Rightarrow> (proxy_error, unit) result \<times> 's proxy" where
  "record_change w snap pl rules p =
     (let (_, t) = write_file w ''status.json'' (status_text w snap pl) (surroundings p);
          p = p\<lparr>applies := applies p + 1\<rparr>;
          (r, t) = write_file w ''rules.nft'' rules t
      in (r, p\<lparr>surroundings := t\<rparr>))"

text \<open>Installing the rules of a plan; the flag tells whether the round replanned.\<close>

definition install_rules ::
  "('n, 's) proxy_world \<Rightarrow> snapshot \<Rightarrow> 'n plan \<Rightarrow> string \<Rightarrow> 's proxy \<Rightarrow> (proxy_error, bool) result \<times> 's proxy" where
  "install_rules w snap pl rules p =
     (case write_file w ''attempted.nft'' rules (surroundings p) of
        (Inl e, t) \<Rightarrow> (Inl e, p\<lparr>surroundings := t\<rparr>)
      | (Inr _, t) \<Rightarrow>
          (case reconcile (nft_lib w) (kernel p) rules t of
             (Inl e, k, u) \<Rightarrow> (Inr False, p\<lparr>kernel := k, surroundings := u, ready := False\<rparr>)
           | (Inr changed, k, u) \<Rightarrow>
               (let p = p\<lparr>kernel := k, surroundings := u\<rparr> in
                case (if changed then record_change w snap pl rules p else (Inr (), p)) of
                  (Inl e, p) \<Rightarrow> (Inl e, p)
                | (Inr _, p) \<Rightarrow> (Inr True, p\<lparr>desired := Some rules, desired_valid := True, ready := True\<rparr>))))"

text \<open>The repair at the end of a round that installed nothing.\<close>

definition repair :: "('n, 's) proxy_world \<Rightarrow> 's proxy \<Rightarrow> 's proxy" where
  "repair w p =
     (case desired p of
        None \<Rightarrow> p
      | Some rules \<Rightarrow>
          (case reconcile (nft_lib w) (kernel p) rules (surroundings p) of
             (Inr _, k, t) \<Rightarrow> p\<lparr>kernel := k, surroundings := t, ready := desired_valid p\<rparr>
           | (Inl _, k, t) \<Rightarrow> p\<lparr>kernel := k, surroundings := t, ready := False\<rparr>))"

text \<open>One round: an error ends the process (\<open>None\<close> for a panic).\<close>

definition proxy_round :: "('n, 's) proxy_world \<Rightarrow> config \<Rightarrow> 's proxy \<Rightarrow> (proxy_error, unit) checked \<times> 's proxy" where
  "proxy_round w cfg p =
     (case take_snapshot w (surroundings p) of
        (Inl e, t) \<Rightarrow> (Inr (), p\<lparr>surroundings := pause w t\<rparr>)
      | (Inr snap, t) \<Rightarrow>
          (let p = p\<lparr>surroundings := t\<rparr> in
           case plan_rules w cfg snap of
             Inl None \<Rightarrow> (Inl None, p)
           | Inl (Some e) \<Rightarrow>
               (let p = p\<lparr>desired_valid := False, ready := False\<rparr> in (Inr (), repair w (p\<lparr>surroundings := pause w (surroundings p)\<rparr>)))
           | Inr (pl, rules) \<Rightarrow>
               (case install_rules w snap pl rules p of
                  (Inl e, p) \<Rightarrow> (Inl (Some e), p)
                | (Inr replanned, p) \<Rightarrow>
                    (let p = p\<lparr>surroundings := pause w (surroundings p)\<rparr> in (Inr (), if replanned then p else repair w p)))))"

text \<open>The state a process starts in.\<close>

definition start_proxy :: "config \<Rightarrow> 's \<Rightarrow> 's proxy" where
  "start_proxy cfg s = \<lparr>kernel = new_backend (config_owner cfg), desired = None, desired_valid = False, ready = False, applies = 0, surroundings = s\<rparr>"


subsection \<open>The listing ends, and is complete\<close>

text \<open>A server whose requests are counted.\<close>

definition counted :: "'s fetch \<Rightarrow> (nat \<times> 's) fetch" where
  "counted fetch c p = (case fetch c (snd p) of (r, t) \<Rightarrow> (r, (Suc (fst p), t)))"

text \<open>The documents \<open>vs\<close> are what the server answers along its own cursors, from the cursor \<open>c\<close> on.\<close>

fun served :: "'s fetch \<Rightarrow> string \<Rightarrow> 's \<Rightarrow> json list \<Rightarrow> 's \<Rightarrow> bool" where
  "served fetch c s [] t \<longleftrightarrow> False"
| "served fetch c s (v # vs) t \<longleftrightarrow> (\<exists>n u. fetch c s = (Inr (n, Some v), u)
     \<and> (if vs = [] then at v [''metadata'', ''continue''] \<in> {JNull, JStr []} \<and> u = t
        else \<exists>c'. c' \<noteq> [] \<and> at v [''metadata'', ''continue''] = JStr c' \<and> served fetch c' u vs t))"

lemma push_page_Inr:
  assumes "push_page p v = Inr (d, q)"
  obtains rv new where "at v [''metadata'', ''resourceVersion''] = JStr rv" "page_revision q = Some rv"
    "page_revision p = None \<or> page_revision p = Some rv" "idx v ''items'' = JArr new" "page_items q = page_items p @ new"
    "length (page_items q) \<le> MAX_ITEMS"
    "if d then at v [''metadata'', ''continue''] \<in> {JNull, JStr []}
     else continuation q \<noteq> [] \<and> at v [''metadata'', ''continue''] = JStr (continuation q) \<and> length (cursors q) = Suc (length (cursors p))"
  using assms unfolding push_page_def Let_def
  by (auto simp: as_str_Some_iff as_array_Some_iff split: option.splits if_splits json.splits)

lemma list_pages_counted:
  "snd (snd (list_pages (counted fetch) bs p (n, s))) = snd (list_pages fetch bs p s)
   \<and> fst (list_pages (counted fetch) bs p (n, s)) = fst (list_pages fetch bs p s)
   \<and> fst (snd (list_pages (counted fetch) bs p (n, s))) \<le> n + 65 - length (cursors p)"
  if "length (cursors p) \<le> 64"
  using that
proof (induction "64 - length (cursors p)" arbitrary: bs p s n rule: less_induct)
  case less
  note [simp] = list_pages.simps [of fetch bs p s] list_pages.simps [of "counted fetch" bs p "(n, s)"]
  obtain r t where f: "fetch (continuation p) s = (r, t)" by fastforce
  then have c: "counted fetch (continuation p) (n, s) = (r, (Suc n, t))" by (simp add: counted_def)
  show ?case
  proof (cases "\<exists>m v q. r = Inr (m, Some v) \<and> \<not> bs + m > MAX_BYTES \<and> push_page p v = Inr (False, q)")
    case True
    then obtain m v q where r: "r = Inr (m, Some v)" "\<not> bs + m > MAX_BYTES" "push_page p v = Inr (False, q)" by blast
    note more = push_page_more [OF r(3)]
    have "snd (snd (list_pages (counted fetch) (bs + m) q (Suc n, t))) = snd (list_pages fetch (bs + m) q t)
       \<and> fst (list_pages (counted fetch) (bs + m) q (Suc n, t)) = fst (list_pages fetch (bs + m) q t)
       \<and> fst (snd (list_pages (counted fetch) (bs + m) q (Suc n, t))) \<le> Suc n + 65 - length (cursors q)"
      by (rule less.hyps [OF push_page_less [OF r(3)] more(2)])
    then show ?thesis using f c r more by auto
  next
    case False
    then show ?thesis using f c less.prems by (auto split: sum.splits option.splits prod.splits bool.splits)
  qed
qed

lemma list_pages_served:
  assumes "list_pages fetch bs p s = (Inr (items', rv), t)"
  shows "\<exists>vs. served fetch (continuation p) s vs t \<and> items' = page_items p @ concat (map (\<lambda>v. items (idx v ''items'')) vs)
     \<and> (\<forall>v \<in> set vs. at v [''metadata'', ''resourceVersion''] = JStr rv)
     \<and> (page_revision p = None \<or> page_revision p = Some rv) \<and> length items' \<le> MAX_ITEMS"
  using assms
proof (induction "64 - length (cursors p)" arbitrary: bs p s rule: less_induct)
  case less
  from less.prems obtain n v u d q where f: "fetch (continuation p) s = (Inr (n, Some v), u)" "\<not> bs + n > MAX_BYTES" "push_page p v = Inr (d, q)"
    and next_: "if d then items' = page_items q \<and> rv = or_default [] (page_revision q) \<and> u = t else list_pages fetch (bs + n) q u = (Inr (items', rv), t)"
    by (subst (asm) list_pages.simps) (auto split: prod.splits sum.splits option.splits if_splits bool.splits)
  from f(3) obtain rv' new where pg: "at v [''metadata'', ''resourceVersion''] = JStr rv'" "page_revision q = Some rv'"
    "page_revision p = None \<or> page_revision p = Some rv'" "idx v ''items'' = JArr new" "page_items q = page_items p @ new"
    "length (page_items q) \<le> MAX_ITEMS"
    "if d then at v [''metadata'', ''continue''] \<in> {JNull, JStr []}
     else continuation q \<noteq> [] \<and> at v [''metadata'', ''continue''] = JStr (continuation q) \<and> length (cursors q) = Suc (length (cursors p))"
    by (rule push_page_Inr)
  show ?case
  proof (cases d)
    case True
    then show ?thesis using f next_ pg by (intro exI [of _ "[v]"]) (auto simp del: at.simps)
  next
    case False
    have "\<exists>vs. served fetch (continuation q) u vs t \<and> items' = page_items q @ concat (map (\<lambda>v. items (idx v ''items'')) vs)
       \<and> (\<forall>v \<in> set vs. at v [''metadata'', ''resourceVersion''] = JStr rv)
       \<and> (page_revision q = None \<or> page_revision q = Some rv) \<and> length items' \<le> MAX_ITEMS"
      by (rule less.hyps) (use f(3) next_ False push_page_less in auto)
    then obtain vs where vs: "served fetch (continuation q) u vs t" "items' = page_items q @ concat (map (\<lambda>v. items (idx v ''items'')) vs)"
       "\<forall>v \<in> set vs. at v [''metadata'', ''resourceVersion''] = JStr rv" "rv' = rv" "length items' \<le> MAX_ITEMS"
      using pg(2) by auto
    have "vs \<noteq> []" using vs(1) by (cases vs) auto
    then show ?thesis using f vs pg False by (intro exI [of _ "v # vs"]) (auto simp del: at.simps)
  qed
qed


text \<open>
  C16: a listing ends.  Whatever the server answers, the loop makes at most 65 requests: every page
  but the last adds a new cursor and there are at most 64.  A listing that succeeds holds, in order,
  exactly the items of all pages the server gave along its own cursors, all of one revision, at most
  8192.
\<close>

theorem listing_ends:
  "case list_pages (counted fetch) 0 no_pages (0, s) of (r, n, t) \<Rightarrow>
     n \<le> 65 \<and> list_pages fetch 0 no_pages s = (r, t)
     \<and> (\<forall>its rv. r = Inr (its, rv) \<longrightarrow> length its \<le> 8192
          \<and> (\<exists>vs. served fetch [] s vs t \<and> its = concat (map (\<lambda>v. items (idx v ''items'')) vs)
               \<and> (\<forall>v \<in> set vs. at v [''metadata'', ''resourceVersion''] = JStr rv)))"
proof -
  obtain r n t where run: "list_pages (counted fetch) 0 no_pages (0, s) = (r, n, t)" by (metis prod.collapse)
  have "length (cursors no_pages) \<le> 64" by (simp add: no_pages_def)
  from list_pages_counted [OF this, of fetch 0 0 s] run
  have plain: "list_pages fetch 0 no_pages s = (r, t)" and few: "n \<le> 65"
    by (simp_all add: no_pages_def prod_eq_iff)
  have "length its \<le> 8192 \<and> (\<exists>vs. served fetch [] s vs t \<and> its = concat (map (\<lambda>v. items (idx v ''items'')) vs)
               \<and> (\<forall>v \<in> set vs. at v [''metadata'', ''resourceVersion''] = JStr rv))" if "r = Inr (its, rv)" for its rv
    using list_pages_served [OF plain [unfolded that]] by (auto simp: no_pages_def MAX_ITEMS_def simp del: at.simps)
  then show ?thesis unfolding run using few plain by simp
qed

definition two_pages :: "unit fetch" where
  "two_pages c s = (Inr (40, Some (if c = [] then JObj [(''items'', JArr [JInt 1]),
       (''metadata'', JObj [(''continue'', JStr ''next''), (''resourceVersion'', JStr ''7'')])]
     else JObj [(''items'', JArr [JInt 2]), (''metadata'', JObj [(''resourceVersion'', JStr ''7'')])])), s)"

lemma listing_ends_witness:
  "fst (list_pages two_pages 0 no_pages ()) = Inr ([JInt 1, JInt 2], ''7'')
   \<and> (\<exists>vs. served two_pages [] () vs () \<and> concat (map (\<lambda>v. items (idx v ''items'')) vs) = [JInt 1, JInt 2])"
proof -
  have run: "list_pages two_pages 0 no_pages () = (Inr ([JInt 1, JInt 2], ''7''), ())"
    by (simp add: list_pages.simps two_pages_def no_pages_def push_page_def Let_def MAX_BYTES_def MAX_ITEMS_def)
  from listing_ends [of two_pages "()"] run
  have "\<exists>vs. served two_pages [] () vs () \<and> [JInt 1, JInt 2] = concat (map (\<lambda>v. items (idx v ''items'')) vs)"
    by (auto split: prod.splits)
  with run show ?thesis by auto
qed

subsection \<open>What readiness means\<close>

lemma try_fold_length:
  assumes "try_fold (chain_step sha) out fs = Inr out'"
  shows "length out \<le> length out'"
  using assms by (induction fs arbitrary: out) (force simp: chain_step_def split: if_splits sum.splits)+

lemma render_bounded:
  assumes "render ip sha pl owner = Inr rules"
  shows "length rules \<le> MAX_RULESET"
  using assms by (auto simp: render_def andThen_Inr_iff Let_def split: if_splits)

lemma reconcile_Inr:
  assumes "reconcile tool b rules s = (Inr ch, b', t)"
  shows "applied b' = Some rules \<and> observed b' \<noteq> None \<and> table_owner b' = table_owner b"
  using assms unfolding reconcile_def by (auto split: if_splits prod.splits sum.splits)

inductive proxy_reaches :: "('n, 's) proxy_world \<Rightarrow> config \<Rightarrow> 's proxy \<Rightarrow> bool" for w cfg where
  proxy_start: "proxy_reaches w cfg (start_proxy cfg s)"
| proxy_next: "proxy_reaches w cfg p \<Longrightarrow> proxy_round w cfg p = (Inr (), p') \<Longrightarrow> proxy_reaches w cfg p'"

text \<open>The rules in the state come from a plan; ready rules are the ones last seen in the kernel.\<close>

definition proxy_ok :: "('n, 's) proxy_world \<Rightarrow> config \<Rightarrow> 's proxy \<Rightarrow> bool" where
  "proxy_ok w cfg p \<longleftrightarrow>
     (\<forall>rules. desired p = Some rules \<longrightarrow> (\<exists>snap pl. plan_rules w cfg snap = Inr (pl, rules)))
     \<and> (ready p \<longrightarrow> desired_valid p \<and> desired p \<noteq> None \<and> applied (kernel p) = desired p \<and> observed (kernel p) \<noteq> None)"

lemma repair_ok:
  assumes "\<forall>rules. desired p = Some rules \<longrightarrow> (\<exists>snap pl. plan_rules w cfg snap = Inr (pl, rules))" and "\<not> ready p"
  shows "proxy_ok w cfg (repair w p)"
  using assms by (auto simp: repair_def proxy_ok_def split: option.splits prod.splits sum.splits dest: reconcile_Inr)

lemma record_change_keeps:
  assumes "record_change w snap pl rules p = (r, q)"
  shows "kernel q = kernel p"
  using assms by (auto simp: record_change_def Let_def split: prod.splits)

lemma install_rules_cases:
  assumes "install_rules w snap pl rules p = (Inr replanned, q)"
  shows "if replanned then ready q \<and> desired_valid q \<and> desired q = Some rules \<and> applied (kernel q) = Some rules \<and> observed (kernel q) \<noteq> None
         else \<not> ready q \<and> desired q = desired p"
  using assms unfolding install_rules_def Let_def
  by (auto split: prod.splits sum.splits if_splits dest!: reconcile_Inr record_change_keeps)

lemma proxy_round_ok:
  assumes "proxy_round w cfg p = (Inr (), p')" and "proxy_ok w cfg p"
  shows "proxy_ok w cfg p'"
proof (cases "take_snapshot w (surroundings p)")
  case (Pair r t)
  show ?thesis
  proof (cases r)
    case (Inl e)
    then show ?thesis using assms Pair by (auto simp: proxy_round_def proxy_ok_def)
  next
    case (Inr snap)
    show ?thesis
    proof (cases "plan_rules w cfg snap")
      case (Inl e)
      with assms(1) Pair Inr have "p' = repair w (p\<lparr>desired_valid := False, ready := False, surroundings := pause w t\<rparr>)"
        by (auto simp: proxy_round_def Let_def split: option.splits)
      moreover have "proxy_ok w cfg (repair w (p\<lparr>desired_valid := False, ready := False, surroundings := pause w t\<rparr>))"
        by (rule repair_ok) (use assms(2) in \<open>auto simp: proxy_ok_def\<close>)
      ultimately show ?thesis by simp
    next
      case plan: (Inr pr)
      obtain pl rules where pr: "pr = (pl, rules)" by fastforce
      from assms(1) Pair Inr plan pr obtain replanned q where q: "install_rules w snap pl rules (p\<lparr>surroundings := t\<rparr>) = (Inr replanned, q)"
        and p': "p' = (if replanned then q\<lparr>surroundings := pause w (surroundings q)\<rparr> else repair w (q\<lparr>surroundings := pause w (surroundings q)\<rparr>))"
        by (auto simp: proxy_round_def Let_def split: prod.splits sum.splits if_splits)
      note c = install_rules_cases [OF q]
      show ?thesis
      proof (cases replanned)
        case True
        then show ?thesis using c p' plan pr unfolding proxy_ok_def by auto
      next
        case False
        have "proxy_ok w cfg (repair w (q\<lparr>surroundings := pause w (surroundings q)\<rparr>))"
          by (rule repair_ok) (use c False assms(2) in \<open>auto simp: proxy_ok_def\<close>)
        then show ?thesis using False p' by simp
      qed
    qed
  qed
qed


text \<open>
  C17: readiness is not honest about the plan.  When the rules of a new plan fail to install, the
  round goes on to repair the previous rules, and reports ready again with these.
\<close>

theorem ready_with_stale_rules:
  assumes "take_snapshot w (surroundings p) = (Inr snap, t)" and "plan_rules w cfg snap = Inr (pl, rules)"
    and "write_file w ''attempted.nft'' rules t = (Inr (), t1)" and "reconcile (nft_lib w) (kernel p) rules t1 = (Inl e, k, u)"
    and "desired p = Some old" and "desired_valid p" and "reconcile (nft_lib w) k old (pause w u) = (Inr ch, k', u')"
  shows "\<exists>p'. proxy_round w cfg p = (Inr (), p') \<and> ready p' \<and> desired p' = Some old \<and> applied (kernel p') = Some old"
  using assms reconcile_Inr [OF assms(7)]
  by (simp add: proxy_round_def install_rules_def repair_def Let_def)


subsection \<open>A kernel that refuses\<close>

text \<open>The tool lists the owned table as it stands and refuses every new rule set.\<close>

definition owner_digest :: string where
  "owner_digest = replicate 64 CHR ''a''"

definition owned_table :: json where
  "owned_table = JObj [(''nftables'', JArr [JObj [(''table'', JObj [(''comment'', JStr (''hedronetes.io/service-proxy/v1:'' @ owner_digest)),
     (''family'', JStr ''ip''), (''name'', JStr ''h3s_proxy'')])]])]"

definition stuck_world :: "(nat \<times> nat, unit) proxy_world" where
  "stuck_world = \<lparr>net_lib = block_networks, sha_lib = (\<lambda>s. s),
     nft_lib = \<lparr>nft_command = (\<lambda>args _ s. (if hd args = ''--file'' then Inl (Nft ''busy'') else Inr ''table'', s)), json_text = (\<lambda>_. Some owned_table)\<rparr>,
     take_snapshot = (\<lambda>s. (Inr \<lparr>snap_services = [proxy_service], snap_slices = [proxy_slice ''10.42.0.7''], snap_nodes = [proxy_node]\<rparr>, s)),
     write_file = (\<lambda>_ _ s. (Inr (), s)), status_text = (\<lambda>_ _. []), pause = (\<lambda>s. s)\<rparr>"

definition old_state :: "unit proxy" where
  "old_state = \<lparr>kernel = (new_backend owner_digest)\<lparr>applied := Some [], observed := Some (normalize owned_table)\<rparr>,
     desired = Some [], desired_valid = True, ready = True, applies = 1, surroundings = ()\<rparr>"

lemma stuck_inspect:
  "inspect (nft_lib stuck_world) (kernel old_state) s = (Inr (Some (normalize owned_table)), s)"
  by (simp add: inspect_def run_json_def stuck_world_def old_state_def owned_table_def is_table_def TABLE_def new_backend_def)

lemma stuck_reconcile:
  assumes "length rules \<le> MAX_RULESET" and "rules \<noteq> []"
  shows "reconcile (nft_lib stuck_world) (kernel old_state) rules s = (Inl (Nft ''busy''), kernel old_state, s)"
  unfolding reconcile_def stuck_inspect using assms by (simp add: stuck_world_def old_state_def)

lemma stuck_repair: "reconcile (nft_lib stuck_world) (kernel old_state) [] s = (Inr False, kernel old_state, s)"
  unfolding reconcile_def stuck_inspect by (simp add: old_state_def MAX_RULESET_def)

lemma stuck_plan:
  "is_ok (plan_rules stuck_world \<lparr>node_name = ''n1'', config_owner = owner_digest\<rparr>
     \<lparr>snap_services = [proxy_service], snap_slices = [proxy_slice ''10.42.0.7''], snap_nodes = [proxy_node]\<rparr>)"
  by code_simp


lemma plan_rules_text:
  assumes "plan_rules w cfg snap = Inr (pl, rules)"
  shows "length rules \<le> MAX_RULESET" and "rules \<noteq> []"
  using assms by (auto simp: plan_rules_def andThen_Inr_iff render_def Let_def line_def split: if_splits)

lemma ready_with_stale_rules_witness:
  "\<exists>rules p'. rules \<noteq> [] \<and> proxy_round stuck_world \<lparr>node_name = ''n1'', config_owner = owner_digest\<rparr> old_state = (Inr (), p')
     \<and> ready p' \<and> desired p' = Some [] \<and> (\<exists>snap pl. plan_rules stuck_world \<lparr>node_name = ''n1'', config_owner = owner_digest\<rparr> snap = Inr (pl, rules))"
proof -
  let ?cfg = "\<lparr>node_name = ''n1'', config_owner = owner_digest\<rparr>"
  let ?snap = "\<lparr>snap_services = [proxy_service], snap_slices = [proxy_slice ''10.42.0.7''], snap_nodes = [proxy_node]\<rparr>"
  from stuck_plan obtain pl rules where pl: "plan_rules stuck_world ?cfg ?snap = Inr (pl, rules)"
    unfolding is_ok_iff by (elim exE) (metis prod.collapse)
  note tx = plan_rules_text [OF pl]
  have "take_snapshot stuck_world (surroundings old_state) = (Inr ?snap, ())" "write_file stuck_world ''attempted.nft'' rules () = (Inr (), ())"
    "desired old_state = Some []" "desired_valid old_state"
    by (simp_all add: stuck_world_def old_state_def)
  from ready_with_stale_rules [OF this(1) pl this(2) stuck_reconcile [OF tx] this(3,4) stuck_repair]
  show ?thesis using pl tx(2) by blast
qed

text \<open>A tool that takes every rule set, from the start of the process.\<close>

definition open_world :: "(nat \<times> nat, unit) proxy_world" where
  "open_world = stuck_world\<lparr>nft_lib := \<lparr>nft_command = (\<lambda>_ _ s. (Inr ''table'', s)), json_text = (\<lambda>_. Some owned_table)\<rparr>\<rparr>"

lemma open_inspect: "inspect (nft_lib open_world) (new_backend owner_digest) s = (Inr (Some (normalize owned_table)), s)"
  by (simp add: inspect_def run_json_def open_world_def owned_table_def is_table_def TABLE_def new_backend_def)


end
