(* ===== verification/Workload.thy ===== *)
theory Workload
  imports Json
begin

text \<open>
  What the workload controllers share (\<^verbatim>\<open>crates/h3s-controllers/src/workload/mod.rs\<close>): the state of a
  Pod, ownership, selectors, bounded reads and guarded writes through the API, and the collection of
  orphans.  The API server, the typed documents of k8s-openapi and the clock are the argument \<open>api\<close>,
  over an arbitrary outside state; a check that reads the clock takes the reading as an argument.
\<close>

subsection \<open>Actions\<close>

datatype workload_error = Api_code nat | Api_lost | Bad_json | Bad_workload string | Stopped | Panicked

type_synonym ('s, 'a) act = "'s \<Rightarrow> (workload_error, 'a) result \<times> 's"

definition thenA :: "('s, 'a) act \<Rightarrow> ('a \<Rightarrow> ('s, 'b) act) \<Rightarrow> ('s, 'b) act" where
  "thenA m k s = (case m s of (Inl e, t) \<Rightarrow> (Inl e, t) | (Inr x, t) \<Rightarrow> k x t)"

definition doneA :: "'a \<Rightarrow> ('s, 'a) act" where
  "doneA x s = (Inr x, s)"

definition failA :: "workload_error \<Rightarrow> ('s, 'a) act" where
  "failA e s = (Inl e, s)"

definition liftA :: "(workload_error, 'a) result \<Rightarrow> ('s, 'a) act" where
  "liftA r s = (r, s)"

definition readC :: "('s \<Rightarrow> 'a \<times> 's) \<Rightarrow> ('s, 'a) act" where
  "readC f s = (case f s of (x, t) \<Rightarrow> (Inr x, t))"

lemma thenA_Inr_iff: "thenA m k s = (Inr y, u) \<longleftrightarrow> (\<exists>x t. m s = (Inr x, t) \<and> k x t = (Inr y, u))"
  by (auto simp: thenA_def split: prod.splits sum.splits)

lemma doneA_iff [simp]: "doneA x s = (r, t) \<longleftrightarrow> r = Inr x \<and> t = s"
  by (auto simp: doneA_def)

lemma failA_iff [simp]: "failA e s = (r, t) \<longleftrightarrow> r = Inl e \<and> t = s"
  by (auto simp: failA_def)

lemma liftA_iff [simp]: "liftA x s = (r, t) \<longleftrightarrow> r = x \<and> t = s"
  by (auto simp: liftA_def)

record 's workload_api =
  wl_list :: "string \<Rightarrow> string option \<Rightarrow> ('s, json list \<times> string option) act"
  wl_get :: "string \<Rightarrow> string \<Rightarrow> string \<Rightarrow> ('s, json option) act"
  wl_create :: "string \<Rightarrow> string \<Rightarrow> json \<Rightarrow> ('s, json) act"
  wl_replace :: "string \<Rightarrow> string \<Rightarrow> string \<Rightarrow> json \<Rightarrow> ('s, json) act"
  wl_status :: "string \<Rightarrow> string \<Rightarrow> string \<Rightarrow> json \<Rightarrow> ('s, json) act"
  wl_delete :: "string \<Rightarrow> string \<Rightarrow> string \<Rightarrow> string \<Rightarrow> string \<Rightarrow> ('s, unit) act"
  wl_typed :: "string \<Rightarrow> json \<Rightarrow> json option"
  wl_clock :: "'s \<Rightarrow> int \<times> 's"
  wl_instant :: "string \<Rightarrow> int option"
  wl_stamp :: "int \<Rightarrow> string"
  wl_hash :: "json \<Rightarrow> string"

definition LIMIT :: nat where
  "LIMIT = 4096"

definition BURST :: nat where
  "BURST = 8"

definition required_text :: "json \<Rightarrow> string \<Rightarrow> (workload_error, string) result" where
  "required_text v k = ok_or (Bad_workload ''workload identity is incomplete'') (filled (as_str (idx v k)))"

definition identity_of :: "json \<Rightarrow> (workload_error, string \<times> string \<times> string) result" where
  "identity_of v =
     andThen (required_text (idx v ''metadata'') ''namespace'') (\<lambda>ns.
     andThen (required_text (idx v ''metadata'') ''name'') (\<lambda>name.
     andThen (required_text (idx v ''metadata'') ''uid'') (\<lambda>uid. Inr (ns, name, uid))))"

subsection \<open>Pods\<close>

definition active :: "json \<Rightarrow> bool" where
  "active p \<longleftrightarrow> is_null (at p [''metadata'', ''deletionTimestamp''])
     \<and> as_str (at p [''status'', ''phase'']) \<notin> {Some ''Succeeded'', Some ''Failed''}"

definition ready_condition :: "json \<Rightarrow> bool" where
  "ready_condition c \<longleftrightarrow> idx c ''type'' = JStr ''Ready'' \<and> idx c ''status'' = JStr ''True''"

definition pod_ready :: "json \<Rightarrow> bool" where
  "pod_ready p \<longleftrightarrow> active p \<and> list_ex ready_condition (items (at p [''status'', ''conditions'']))"

text \<open>Division towards zero, and \<^verbatim>\<open>num_seconds\<close> of a difference in nanoseconds.\<close>

definition quotient :: "int \<Rightarrow> int \<Rightarrow> int" where
  "quotient a b = (if a \<ge> 0 then a div b else - ((- a) div b))"

definition whole_seconds :: "int \<Rightarrow> int" where
  "whole_seconds d = quotient d 1000000000"

definition pod_available :: "(string \<Rightarrow> int option) \<Rightarrow> int \<Rightarrow> json \<Rightarrow> int \<Rightarrow> bool" where
  "pod_available inst now p seconds \<longleftrightarrow> pod_ready p \<and> (seconds = 0 \<or>
     (case Option.bind (Option.bind (List.find ready_condition (items (at p [''status'', ''conditions''])))
         (\<lambda>c. as_str (idx c ''lastTransitionTime''))) inst of
        None \<Rightarrow> False | Some t \<Rightarrow> whole_seconds (now - t) \<ge> seconds))"

subsection \<open>Ownership\<close>

definition is_controller :: "json \<Rightarrow> bool" where
  "is_controller r \<longleftrightarrow> idx r ''controller'' = JBool True"

definition owners :: "json \<Rightarrow> json list" where
  "owners v = items (at v [''metadata'', ''ownerReferences''])"

text \<open>The controller reference, when there is exactly one.\<close>

definition controller_ref :: "json \<Rightarrow> json option" where
  "controller_ref v = (case filter is_controller (owners v) of [r] \<Rightarrow> Some r | _ \<Rightarrow> None)"

definition refers_to :: "json \<Rightarrow> json \<Rightarrow> bool" where
  "refers_to r parent \<longleftrightarrow> idx r ''uid'' = at parent [''metadata'', ''uid''] \<and> idx r ''name'' = at parent [''metadata'', ''name'']
     \<and> idx r ''kind'' = idx parent ''kind'' \<and> idx r ''apiVersion'' = idx parent ''apiVersion''"

definition owned :: "json \<Rightarrow> json \<Rightarrow> bool" where
  "owned child parent \<longleftrightarrow> (case controller_ref child of None \<Rightarrow> False | Some r \<Rightarrow> refers_to r parent)
     \<and> at child [''metadata'', ''namespace''] = at parent [''metadata'', ''namespace'']"

definition owner_ref :: "json \<Rightarrow> json" where
  "owner_ref parent = JObj [(''apiVersion'', idx parent ''apiVersion''), (''blockOwnerDeletion'', JBool True), (''controller'', JBool True),
     (''kind'', idx parent ''kind''), (''name'', at parent [''metadata'', ''name'']), (''uid'', at parent [''metadata'', ''uid''])]"

definition requirement_matches :: "json \<Rightarrow> json \<Rightarrow> bool" where
  "requirement_matches labels r =
     (case filled (as_str (idx r ''key'')) of
        None \<Rightarrow> False
      | Some key \<Rightarrow>
          let present = (getf labels key \<noteq> None); vals = items (idx r ''values''); v = idx labels key in
          (case as_str (idx r ''operator'') of
             None \<Rightarrow> False
           | Some oper \<Rightarrow>
               if oper = ''In'' then vals \<noteq> [] \<and> present \<and> v \<in> set vals
               else if oper = ''NotIn'' then vals \<noteq> [] \<and> (\<not> present \<or> v \<notin> set vals)
               else if oper = ''Exists'' then vals = [] \<and> present
               else if oper = ''DoesNotExist'' then vals = [] \<and> \<not> present
               else False))"

definition workload_matches :: "json \<Rightarrow> json \<Rightarrow> bool" where
  "workload_matches selector labels \<longleftrightarrow>
     (let pairs = or_default [] (as_object (idx selector ''matchLabels'')); exprs = items (idx selector ''matchExpressions'') in
      length pairs + length exprs > 0 \<and> list_all (\<lambda>(k, v). idx labels k = v) pairs \<and> list_all (requirement_matches labels) exprs)"

definition has_controller :: "json \<Rightarrow> bool" where
  "has_controller v \<longleftrightarrow> list_ex is_controller (owners v)"

text \<open>
  Adoption and release, the same loop body for Pods and ReplicaSets: what becomes of the references of
  one active child, none when it is left alone.
\<close>

definition claim_refs :: "json \<Rightarrow> json \<Rightarrow> json list option" where
  "claim_refs parent child =
     (let hit = workload_matches (at parent [''spec'', ''selector'']) (at child [''metadata'', ''labels'']);
          orphan = \<not> has_controller child in
      if (owned child parent \<and> \<not> hit) \<or> (orphan \<and> hit) then
        let refs = filter (\<lambda>r. idx r ''uid'' \<noteq> at parent [''metadata'', ''uid'']) (owners child)
        in Some (if orphan \<and> hit then refs @ [owner_ref parent] else refs)
      else None)"

subsection \<open>Numbers and templates\<close>

definition replicas :: "json \<Rightarrow> (workload_error, int) result" where
  "replicas v =
     (case as_i64 (at v [''spec'', ''replicas'']) of
        None \<Rightarrow> Inl (Bad_workload ''replica count exceeds the current bounded controller range'')
      | Some n \<Rightarrow> if 0 \<le> n \<and> n \<le> int LIMIT then Inr n
                  else Inl (Bad_workload ''replica count exceeds the current bounded controller range''))"

definition minimum_ready :: "json \<Rightarrow> (workload_error, int) result" where
  "minimum_ready v =
     (let n = or_default 0 (as_i64 (at v [''spec'', ''minReadySeconds''])) in
      if 0 \<le> n \<and> n < 2 ^ 32 then Inr n else Inl (Bad_workload ''invalid minReadySeconds''))"

definition template_metadata :: "json \<Rightarrow> (workload_error, json) result" where
  "template_metadata template =
     (if list_ex (\<lambda>(k, v). \<not> is_null v \<and> k \<notin> {''labels'', ''annotations''}) (or_default [] (as_object (idx template ''metadata'')))
      then Inl (Bad_workload ''unsupported Pod template metadata'')
      else Inr (JObj [(''annotations'', at template [''metadata'', ''annotations'']), (''labels'', at template [''metadata'', ''labels''])]))"

record condition_spec =
  cs_kind :: string
  cs_status :: string
  cs_reason :: string
  cs_message :: string
  cs_update :: bool
  cs_deployment :: bool

definition condition_of :: "string \<Rightarrow> json \<Rightarrow> condition_spec \<Rightarrow> json" where
  "condition_of time old spec =
     (let previous = List.find (\<lambda>c. idx c ''type'' = JStr (cs_kind spec)) (items (idx old ''conditions''));
          same = (\<lambda>c. idx c ''status'' = JStr (cs_status spec));
          transition = or_default time (Option.bind (Option.bind previous (\<lambda>c. if same c then Some c else None))
            (\<lambda>c. as_str (idx c ''lastTransitionTime'')));
          updated = or_default time (Option.bind (Option.bind previous
              (\<lambda>c. if \<not> cs_update spec \<and> same c \<and> idx c ''reason'' = JStr (cs_reason spec) then Some c else None))
            (\<lambda>c. as_str (idx c ''lastUpdateTime'')));
          base = [(''lastTransitionTime'', JStr transition), (''message'', JStr (cs_message spec)), (''reason'', JStr (cs_reason spec)),
            (''status'', JStr (cs_status spec)), (''type'', JStr (cs_kind spec))]
      in JObj (if cs_deployment spec then put ''lastUpdateTime'' (JStr updated) base else base))"

definition failure_text :: "workload_error \<Rightarrow> string" where
  "failure_text e = (case e of
      Api_code n \<Rightarrow> ''workload API operation failed with status '' @ show_nat n
    | Bad_workload m \<Rightarrow> m
    | _ \<Rightarrow> ''workload API operation did not complete'')"

subsection \<open>Reads and writes\<close>

definition list_all_of :: "'s workload_api \<Rightarrow> string \<Rightarrow> string option \<Rightarrow> ('s, json list) act" where
  "list_all_of api kind ns =
     thenA (wl_list api kind ns) (\<lambda>(xs, cont).
       if length xs > LIMIT \<or> filled cont \<noteq> None then failA (Bad_workload ''workload controller requires complete bounded LIST'')
       else doneA xs)"

text \<open>Whether the object read is still the stored one: same uid, not being deleted, same generation.\<close>

definition still_the_same :: "json \<Rightarrow> string \<Rightarrow> json option \<Rightarrow> bool" where
  "still_the_same obj uid found \<longleftrightarrow> (case found of
        None \<Rightarrow> False
      | Some p \<Rightarrow> at p [''metadata'', ''uid''] = JStr uid \<and> is_null (at p [''metadata'', ''deletionTimestamp''])
          \<and> as_i64 (at p [''metadata'', ''generation'']) = as_i64 (at obj [''metadata'', ''generation'']))"

definition is_live :: "'s workload_api \<Rightarrow> string \<Rightarrow> string \<Rightarrow> json \<Rightarrow> ('s, bool) act" where
  "is_live api kind ns obj =
     thenA (liftA (identity_of obj)) (\<lambda>(_, name, uid).
     thenA (wl_get api kind ns name) (\<lambda>found. doneA (still_the_same obj uid found)))"

definition forgiving :: "('s, 'a) act \<Rightarrow> ('s, unit) act" where
  "forgiving m s = (case m s of
      (Inr _, t) \<Rightarrow> (Inr (), t)
    | (Inl e, t) \<Rightarrow> (if e \<in> {Api_code 404, Api_code 409} then Inr () else Inl e, t))"

definition write_status :: "'s workload_api \<Rightarrow> string \<Rightarrow> string \<Rightarrow> json \<Rightarrow> json \<Rightarrow> ('s, unit) act" where
  "write_status api kind ns obj wanted =
     (if idx obj ''status'' = wanted then doneA ()
      else thenA (liftA (ok_or Panicked (set_at obj [''status''] wanted))) (\<lambda>v.
        thenA (liftA (required_text (idx v ''metadata'') ''name'')) (\<lambda>name.
        forgiving (wl_status api kind ns name v))))"

definition replace_object :: "'s workload_api \<Rightarrow> string \<Rightarrow> string \<Rightarrow> json \<Rightarrow> ('s, unit) act" where
  "replace_object api kind ns obj =
     thenA (liftA (ok_or Bad_json (wl_typed api kind obj))) (\<lambda>v.
     thenA (liftA (required_text (idx obj ''metadata'') ''name'')) (\<lambda>name.
     thenA (wl_replace api kind ns name v) (\<lambda>_. doneA ())))"

definition delete_object :: "'s workload_api \<Rightarrow> string \<Rightarrow> string \<Rightarrow> json \<Rightarrow> ('s, bool) act" where
  "delete_object api kind ns obj =
     thenA (liftA (required_text (idx obj ''metadata'') ''uid'')) (\<lambda>uid.
     thenA (liftA (required_text (idx obj ''metadata'') ''resourceVersion'')) (\<lambda>rv.
     thenA (liftA (required_text (idx obj ''metadata'') ''name'')) (\<lambda>name s.
       case wl_delete api kind ns name uid rv s of
         (Inr _, t) \<Rightarrow> (Inr True, t)
       | (Inl e, t) \<Rightarrow> (if e \<in> {Api_code 404, Api_code 409} then Inr False else Inl e, t))))"

subsection \<open>The collection of orphans\<close>

definition gc_object :: "'s workload_api \<Rightarrow> string \<Rightarrow> string \<Rightarrow> nat \<Rightarrow> json \<Rightarrow> ('s, nat) act" where
  "gc_object api child_kind owner_kind deleted obj =
     (if length (owners obj) \<noteq> 1 then doneA deleted
      else case controller_ref obj of
          None \<Rightarrow> doneA deleted
        | Some r \<Rightarrow>
            if idx r ''apiVersion'' \<noteq> JStr ''apps/v1'' \<or> idx r ''kind'' \<noteq> JStr owner_kind then doneA deleted
            else thenA (liftA (identity_of obj)) (\<lambda>(ns, _, _).
              thenA (liftA (required_text r ''name'')) (\<lambda>name.
              thenA (liftA (required_text r ''uid'')) (\<lambda>uid.
              thenA (wl_get api owner_kind ns name) (\<lambda>found.
                if (case found of None \<Rightarrow> False | Some p \<Rightarrow> at p [''metadata'', ''uid''] = JStr uid) then doneA deleted
                else thenA (delete_object api child_kind ns obj) (\<lambda>removed. doneA (if removed then deleted + 1 else deleted)))))))"

fun foldA :: "('b \<Rightarrow> 'a \<Rightarrow> ('s, 'b) act) \<Rightarrow> 'b \<Rightarrow> 'a list \<Rightarrow> ('s, 'b) act" where
  "foldA f b [] = doneA b"
| "foldA f b (x # xs) = thenA (f b x) (\<lambda>c. foldA f c xs)"

definition gc_once :: "'s workload_api \<Rightarrow> ('s, nat) act" where
  "gc_once api =
     thenA (list_all_of api ''ReplicaSet'' None) (\<lambda>sets.
     thenA (list_all_of api ''Pod'' None) (\<lambda>pods.
     thenA (foldA (gc_object api ''ReplicaSet'' ''Deployment'') 0 sets) (\<lambda>n.
     foldA (gc_object api ''Pod'' ''ReplicaSet'') n pods)))"


subsection \<open>The requests a controller makes\<close>

text \<open>
  \<open>traced api\<close> answers as \<open>api\<close> does and keeps the requests it was sent, a read with its answer.  What a
  controller may send is stated over this log, for every API server.
\<close>

datatype api_call =
    Listed string "string option" "(workload_error, json list \<times> string option) result"
  | Got string string string "(workload_error, json option) result"
  | Created string string json
  | Replaced string string string json
  | Stated string string string json
  | Deleted string string string string string

definition note_call :: "((workload_error, 'a) result \<Rightarrow> api_call) \<Rightarrow> ('s, 'a) act \<Rightarrow> ('s \<times> api_call list, 'a) act" where
  "note_call f m = (\<lambda>(s, log). case m s of (r, t) \<Rightarrow> (r, t, log @ [f r]))"

definition traced :: "'s workload_api \<Rightarrow> ('s \<times> api_call list) workload_api" where
  "traced api = \<lparr>
     wl_list = (\<lambda>kind ns. note_call (Listed kind ns) (wl_list api kind ns)),
     wl_get = (\<lambda>kind ns name. note_call (Got kind ns name) (wl_get api kind ns name)),
     wl_create = (\<lambda>kind ns v. note_call (\<lambda>_. Created kind ns v) (wl_create api kind ns v)),
     wl_replace = (\<lambda>kind ns name v. note_call (\<lambda>_. Replaced kind ns name v) (wl_replace api kind ns name v)),
     wl_status = (\<lambda>kind ns name v. note_call (\<lambda>_. Stated kind ns name v) (wl_status api kind ns name v)),
     wl_delete = (\<lambda>kind ns name uid rv. note_call (\<lambda>_. Deleted kind ns name uid rv) (wl_delete api kind ns name uid rv)),
     wl_typed = wl_typed api,
     wl_clock = (\<lambda>(s, log). case wl_clock api s of (x, t) \<Rightarrow> (x, t, log)),
     wl_instant = wl_instant api, wl_stamp = wl_stamp api, wl_hash = wl_hash api\<rparr>"

text \<open>\<open>emits m P\<close>: every run of \<open>m\<close> only adds requests to the log, and \<open>P\<close> holds of its result and of what it added.\<close>

definition emits :: "('s \<times> api_call list, 'a) act \<Rightarrow> ((workload_error, 'a) result \<Rightarrow> api_call list \<Rightarrow> bool) \<Rightarrow> bool" where
  "emits m P \<longleftrightarrow> (\<forall>s log r t log'. m (s, log) = (r, t, log') \<longrightarrow> (\<exists>new. log' = log @ new \<and> P r new))"

named_theorems emit_rules \<open>which requests the actions send\<close>

lemma emits_weaken: "emits m P \<Longrightarrow> (\<And>r new. P r new \<Longrightarrow> Q r new) \<Longrightarrow> emits m Q"
  unfolding emits_def by meson

lemma emits_run: "emits m P \<Longrightarrow> m (s, []) = (r, t, log) \<Longrightarrow> P r log"
  unfolding emits_def by (metis append_Nil)

lemma emits_thenA:
  assumes "emits m P" and "\<And>x. emits (k x) (Q x)"
    and "\<And>e new. P (Inl e) new \<Longrightarrow> R (Inl e) new"
    and "\<And>x r new later. P (Inr x) new \<Longrightarrow> Q x r later \<Longrightarrow> R r (new @ later)"
  shows "emits (thenA m k) R"
  unfolding emits_def
proof (intro allI impI)
  fix s log r t log'
  assume run: "thenA m k (s, log) = (r, t, log')"
  obtain r1 s1 log1 where one: "m (s, log) = (r1, s1, log1)" by (metis prod.exhaust)
  with assms(1) obtain new where new: "log1 = log @ new" "P r1 new" unfolding emits_def by blast
  show "\<exists>new. log' = log @ new \<and> R r new"
  proof (cases r1)
    case (Inl e)
    with run one new assms(3) show ?thesis by (auto simp: thenA_def)
  next
    case (Inr x)
    with run one have "k x (s1, log1) = (r, t, log')" by (simp add: thenA_def)
    with assms(2) [of x] obtain later where "log' = log1 @ later" "Q x r later" unfolding emits_def by blast
    with new Inr assms(4) show ?thesis by auto
  qed
qed

lemma emits_doneA: "P (Inr x) [] \<Longrightarrow> emits (doneA x) P"
  by (simp add: emits_def doneA_def)

lemma emits_failA: "P (Inl e) [] \<Longrightarrow> emits (failA e) P"
  by (simp add: emits_def failA_def)

lemma emits_liftA: "P x [] \<Longrightarrow> emits (liftA x) P"
  by (simp add: emits_def liftA_def)

lemma emits_note_call: "(\<And>r. P r [f r]) \<Longrightarrow> emits (note_call f m) P"
  by (auto simp: emits_def note_call_def split: prod.splits)

text \<open>
  The shape all three controllers keep: every request that alters an object comes straight after a read
  that found the controlling object unchanged.
\<close>

definition alters :: "api_call \<Rightarrow> bool" where
  "alters c = (case c of Created _ _ _ \<Rightarrow> True | Replaced _ _ _ _ \<Rightarrow> True | Deleted _ _ _ _ _ \<Rightarrow> True | _ \<Rightarrow> False)"

fun allowed_after :: "(api_call option \<Rightarrow> api_call \<Rightarrow> bool) \<Rightarrow> api_call option \<Rightarrow> api_call list \<Rightarrow> bool" where
  "allowed_after ok prev [] = True"
| "allowed_after ok prev (c # cs) = ((alters c \<longrightarrow> ok prev c) \<and> allowed_after ok (Some c) cs)"

lemma allowed_after_append:
  "allowed_after ok prev (xs @ ys) \<longleftrightarrow> allowed_after ok prev xs \<and> allowed_after ok (if xs = [] then prev else Some (last xs)) ys"
  by (induction xs arbitrary: prev) auto

lemma allowed_after_prev: "allowed_after ok None xs \<Longrightarrow> (\<And>c. ok None c \<Longrightarrow> ok prev c) \<Longrightarrow> allowed_after ok prev xs"
  by (cases xs) auto

text \<open>What the log says at one point: a changing request at position \<open>i\<close> is allowed after the request before it.\<close>

lemma allowed_after_nth:
  "allowed_after ok prev xs \<Longrightarrow> i < length xs \<Longrightarrow> alters (xs ! i) \<Longrightarrow> ok (if i = 0 then prev else Some (xs ! (i - 1))) (xs ! i)"
proof (induction xs arbitrary: prev i)
  case (Cons c cs)
  show ?case
  proof (cases i)
    case 0
    with Cons.prems show ?thesis by simp
  next
    case (Suc j)
    with Cons.prems have "ok (if j = 0 then Some c else Some (cs ! (j - 1))) (cs ! j)" by (intro Cons.IH) auto
    with Suc show ?thesis by (cases j) simp_all
  qed
qed simp

definition live_answer :: "string \<Rightarrow> string \<Rightarrow> json \<Rightarrow> api_call option \<Rightarrow> api_call \<Rightarrow> bool" where
  "live_answer kind ns obj prev c \<longleftrightarrow> (case prev of
     Some (Got k n name (Inr found)) \<Rightarrow> k = kind \<and> n = ns
       \<and> (case identity_of obj of Inr (_, name', uid) \<Rightarrow> name = name' \<and> still_the_same obj uid found | Inl _ \<Rightarrow> False)
   | _ \<Rightarrow> False)"

lemma live_answer_None [simp]: "\<not> live_answer kind ns obj None c"
  by (simp add: live_answer_def)


text \<open>
  \<open>sends ok b m\<close>: the changing requests of \<open>m\<close> are allowed after their predecessors; \<open>b\<close> says that the
  request before \<open>m\<close> already allows one.
\<close>

definition sends :: "(api_call option \<Rightarrow> api_call \<Rightarrow> bool) \<Rightarrow> bool \<Rightarrow> ('s \<times> api_call list, 'a) act \<Rightarrow> bool" where
  "sends ok b m \<longleftrightarrow> emits m (\<lambda>_ new. \<forall>prev. (b \<longrightarrow> (\<forall>c. ok prev c)) \<longrightarrow> allowed_after ok prev new)"

lemma sends_doneA [emit_rules]: "sends ok b (doneA x)"
  unfolding sends_def by (rule emits_doneA) simp

lemma sends_failA [emit_rules]: "sends ok b (failA e)"
  unfolding sends_def by (rule emits_failA) simp

lemma sends_liftA [emit_rules]: "sends ok b (liftA x)"
  unfolding sends_def by (rule emits_liftA) simp

lemma sends_weaken: "sends ok False m \<Longrightarrow> sends ok b m"
  unfolding sends_def by (erule emits_weaken) blast

lemma sends_thenA [emit_rules]: "sends ok b m \<Longrightarrow> (\<And>x. sends ok False (k x)) \<Longrightarrow> sends ok b (thenA m k)"
  unfolding sends_def
  by (erule emits_thenA [where Q = "\<lambda>_ _ new. \<forall>prev. allowed_after ok prev new"]) (auto simp: allowed_after_append)

lemma sends_liftA_then [emit_rules]: "(\<And>x. r = Inr x \<Longrightarrow> sends ok b (k x)) \<Longrightarrow> sends ok b (thenA (liftA r) k)"
  by (cases r) (auto simp: sends_def emits_def thenA_def liftA_def)

lemma sends_read [emit_rules]: "(\<And>r. \<not> alters (f r)) \<Longrightarrow> sends ok b (note_call f m)"
  unfolding sends_def by (rule emits_note_call) simp

lemma sends_change [emit_rules]: "sends ok True (note_call f m)"
  unfolding sends_def by (rule emits_note_call) simp

lemma sends_if [emit_rules]: "(p \<Longrightarrow> sends ok b m) \<Longrightarrow> (\<not> p \<Longrightarrow> sends ok b n) \<Longrightarrow> sends ok b (if p then m else n)"
  by simp

lemma sends_option [emit_rules]:
  "(x = None \<Longrightarrow> sends ok b m) \<Longrightarrow> (\<And>y. x = Some y \<Longrightarrow> sends ok b (k y)) \<Longrightarrow> sends ok b (case x of None \<Rightarrow> m | Some y \<Rightarrow> k y)"
  by (cases x) auto

lemma sends_pair [emit_rules]: "(\<And>x y. sends ok b (k x y)) \<Longrightarrow> sends ok b (case p of (x, y) \<Rightarrow> k x y)"
  by (cases p) auto

lemma sends_foldA [emit_rules]: "(\<And>x y. y \<in> set xs \<Longrightarrow> sends ok False (f x y)) \<Longrightarrow> sends ok False (foldA f z xs)"
proof (induction xs arbitrary: z)
  case Nil
  show ?case by (simp add: sends_doneA)
next
  case (Cons x xs)
  then show ?case unfolding foldA.simps by (intro sends_thenA) auto
qed

lemma sends_map_result:
  assumes "sends ok b m" and "\<And>s. snd (n s) = snd (m s)"
  shows "sends ok b n"
  unfolding sends_def emits_def
proof (intro allI impI)
  fix s log r t log'
  assume "n (s, log) = (r, t, log')"
  with assms(2) [of "(s, log)"] have "m (s, log) = (fst (m (s, log)), t, log')" by (simp add: prod_eq_iff)
  with assms(1) show "\<exists>new. log' = log @ new \<and> (\<forall>prev. (b \<longrightarrow> (\<forall>c. ok prev c)) \<longrightarrow> allowed_after ok prev new)"
    unfolding sends_def emits_def by blast
qed

lemma sends_list [emit_rules]: "sends ok b (list_all_of (traced api) kind ns)"
  unfolding list_all_of_def traced_def workload_api.simps
  by (intro emit_rules) (simp add: alters_def)

lemma emits_live:
  "emits (is_live (traced api) kind ns obj) (\<lambda>r new. (\<forall>prev. allowed_after (live_answer kind ns obj) prev new)
     \<and> (r = Inr True \<longrightarrow> new \<noteq> [] \<and> (\<forall>c. live_answer kind ns obj (Some (last new)) c)))"
proof (cases "identity_of obj")
  case (Inl e)
  then show ?thesis by (simp add: is_live_def thenA_def liftA_def emits_def)
next
  case (Inr x)
  then show ?thesis
    by (cases x) (auto simp: is_live_def emits_def thenA_def liftA_def traced_def note_call_def live_answer_def alters_def
        split: prod.splits sum.splits)
qed

lemma sends_live_then:
  assumes "sends (live_answer kind ns obj) True (k True)" and "sends (live_answer kind ns obj) False (k False)"
  shows "sends (live_answer kind ns obj) b (thenA (is_live (traced api) kind ns obj) k)"
  unfolding sends_def
proof (rule emits_thenA [OF emits_live])
  let ?ok = "live_answer kind ns obj"
  show "emits (k x) (\<lambda>_ new. \<forall>prev. (x \<longrightarrow> (\<forall>c. ?ok prev c)) \<longrightarrow> allowed_after ?ok prev new)" for x
    using assms unfolding sends_def by (cases x) simp_all
qed (auto simp: allowed_after_append)

lemma sends_replace [emit_rules]: "sends ok True (replace_object (traced api) kind ns obj)"
  unfolding replace_object_def traced_def workload_api.simps by (intro emit_rules)

lemma sends_delete [emit_rules]: "sends ok True (delete_object (traced api) kind ns obj)"
proof -
  have "sends ok True (\<lambda>s. case wl_delete (traced api) kind ns name uid rv s of
      (Inr _, t) \<Rightarrow> (Inr True, t) | (Inl e, t) \<Rightarrow> (if e \<in> {Api_code 404, Api_code 409} then Inr False else Inl e, t))" for name uid rv
    by (rule sends_map_result [of _ _ "wl_delete (traced api) kind ns name uid rv"])
      (simp_all add: traced_def sends_change split: prod.splits sum.splits)
  then show ?thesis unfolding delete_object_def by (intro emit_rules)
qed

lemma sends_status [emit_rules]: "sends ok b (write_status (traced api) kind ns obj wanted)"
proof -
  have "sends ok b (forgiving (wl_status (traced api) kind ns name v))" for name v
    by (rule sends_map_result [of _ _ "wl_status (traced api) kind ns name v"])
      (auto simp: traced_def forgiving_def alters_def intro!: sends_read split: prod.splits sum.splits)
  then show ?thesis unfolding write_status_def by (intro emit_rules)
qed


subsection \<open>The collector deletes orphans only\<close>

text \<open>
  A deletion is justified by an object of \<open>objs\<close> and the read before it: the object has one owner
  reference, the read of that owner found none, or one with another uid.
\<close>

definition orphaned :: "json list \<Rightarrow> api_call option \<Rightarrow> api_call \<Rightarrow> bool" where
  "orphaned objs prev c \<longleftrightarrow> (case (prev, c) of
     (Some (Got owner_kind ns owner_name (Inr found)), Deleted child_kind ns' name uid _) \<Rightarrow>
       ns' = ns \<and> (child_kind, owner_kind) \<in> {(''ReplicaSet'', ''Deployment''), (''Pod'', ''ReplicaSet'')}
       \<and> (\<exists>obj \<in> set objs. \<exists>r. identity_of obj = Inr (ns, name, uid) \<and> owners obj = [r] \<and> is_controller r
           \<and> idx r ''apiVersion'' = JStr ''apps/v1'' \<and> idx r ''kind'' = JStr owner_kind \<and> idx r ''name'' = JStr owner_name
           \<and> (case found of None \<Rightarrow> True | Some p \<Rightarrow> at p [''metadata'', ''uid''] \<noteq> idx r ''uid''))
   | _ \<Rightarrow> False)"

lemma required_text_Inr: "required_text v k = Inr x \<longleftrightarrow> idx v k = JStr x \<and> x \<noteq> []"
  by (cases "idx v k") (auto simp: required_text_def ok_or_def)

lemma emits_delete:
  "emits (delete_object (traced api) kind ns obj) (\<lambda>_ new. new = []
     \<or> (\<exists>name uid rv. new = [Deleted kind ns name uid rv] \<and> required_text (idx obj ''metadata'') ''uid'' = Inr uid
          \<and> required_text (idx obj ''metadata'') ''name'' = Inr name))"
  by (auto simp: emits_def delete_object_def thenA_def liftA_def traced_def note_call_def split: prod.splits sum.splits)

lemma emits_get: "emits (wl_get (traced api) kind ns name) (\<lambda>r new. new = [Got kind ns name r])"
  by (simp add: traced_def) (rule emits_note_call, simp)

lemma controller_ref_single: "controller_ref obj = Some r \<Longrightarrow> length (owners obj) = 1 \<Longrightarrow> owners obj = [r] \<and> is_controller r"
  by (cases "owners obj") (auto simp: controller_ref_def split: if_splits)

lemma sends_triple: "(\<And>x y z. p = (x, y, z) \<Longrightarrow> sends ok b (k x y z)) \<Longrightarrow> sends ok b (case p of (x, y, z) \<Rightarrow> k x y z)"
  by (cases p) auto

lemma sends_gc_object:
  assumes obj: "obj \<in> set objs" and kinds: "(child_kind, owner_kind) \<in> {(''ReplicaSet'', ''Deployment''), (''Pod'', ''ReplicaSet'')}"
  shows "sends (orphaned objs) False (gc_object (traced api) child_kind owner_kind n obj)"
proof -
  have step: "sends (orphaned objs) False (thenA (wl_get (traced api) owner_kind ns name) (\<lambda>found.
      if (case found of None \<Rightarrow> False | Some p \<Rightarrow> at p [''metadata'', ''uid''] = JStr uid) then doneA n
      else thenA (delete_object (traced api) child_kind ns obj) (\<lambda>removed. doneA (if removed then n + 1 else n))))"
    if r: "owners obj = [r]" "is_controller r" "idx r ''apiVersion'' = JStr ''apps/v1''" "idx r ''kind'' = JStr owner_kind"
      and "identity_of obj = Inr (ns, x, y)" "required_text r ''name'' = Inr name" "required_text r ''uid'' = Inr uid" for r ns x y name uid
    unfolding sends_def
  proof (rule emits_thenA [OF emits_get])
    fix found
    let ?kept = "case found of None \<Rightarrow> False | Some p \<Rightarrow> at p [''metadata'', ''uid''] = JStr uid"
    let ?Q = "\<lambda>_ new. new = [] \<or> \<not> ?kept \<and> (\<exists>rv. new = [Deleted child_kind ns x y rv])"
    have "emits (thenA (delete_object (traced api) child_kind ns obj) (\<lambda>removed. doneA (if removed then n + 1 else n)))
        (\<lambda>_ new. new = [] \<or> (\<exists>rv. new = [Deleted child_kind ns x y rv]))"
      by (rule emits_thenA [OF emits_delete, where Q = "\<lambda>_ _ new. new = []"], rule emits_doneA)
        (use that(5) in \<open>auto simp: identity_of_def andThen_Inr_iff\<close>)
    then show "emits (if ?kept then doneA n else thenA (delete_object (traced api) child_kind ns obj) (\<lambda>removed. doneA (if removed then n + 1 else n))) ?Q"
      by (cases ?kept) (auto intro: emits_doneA elim!: emits_weaken)
  next
    fix found res new later
    assume "new = [Got owner_kind ns name (Inr found)]"
      and "later = [] \<or> \<not> (case found of None \<Rightarrow> False | Some p \<Rightarrow> at p [''metadata'', ''uid''] = JStr uid)
          \<and> (\<exists>rv. later = [Deleted child_kind ns x y rv])"
    then show "\<forall>prev. (False \<longrightarrow> (\<forall>c. orphaned objs prev c)) \<longrightarrow> allowed_after (orphaned objs) prev (new @ later)"
      using r that(5-7) obj kinds
      by (auto simp: alters_def orphaned_def required_text_Inr split: option.splits intro!: bexI [of _ obj])
  qed (simp add: alters_def)
  show ?thesis
    unfolding gc_object_def
  proof (intro sends_if sends_doneA sends_option sends_liftA_then sends_triple)
  qed (auto intro!: step dest: controller_ref_single)
qed

definition listed_in :: "json list \<Rightarrow> api_call list \<Rightarrow> bool" where
  "listed_in objs log \<longleftrightarrow> (\<forall>obj \<in> set objs. \<exists>k xs cont. Listed k None (Inr (xs, cont)) \<in> set log \<and> obj \<in> set xs)"

lemma listed_in_simps [simp]: "listed_in [] log" "listed_in (xs @ ys) log \<longleftrightarrow> listed_in xs log \<and> listed_in ys log"
  by (auto simp: listed_in_def)

lemma listed_in_later: "listed_in objs later \<Longrightarrow> listed_in objs (new @ later)"
  by (force simp: listed_in_def)

lemma listed_in_new: "new = [Listed k None (Inr (objs, cont))] \<Longrightarrow> listed_in objs (new @ later)"
  by (force simp: listed_in_def)

definition list_outcome :: "string \<Rightarrow> (workload_error, json list) result \<Rightarrow> api_call list \<Rightarrow> bool" where
  "list_outcome k r new \<longleftrightarrow> (case r of
     Inr xs \<Rightarrow> \<exists>cont. new = [Listed k None (Inr (xs, cont))] | Inl _ \<Rightarrow> \<exists>a. new = [Listed k None a])"

lemma list_outcome_simps [simp]:
  "list_outcome k (Inl e) new \<longleftrightarrow> (\<exists>a. new = [Listed k None a])"
  "list_outcome k (Inr xs) new \<longleftrightarrow> (\<exists>cont. new = [Listed k None (Inr (xs, cont))])"
  by (simp_all add: list_outcome_def)

lemma emits_listing: "emits (list_all_of (traced api) k None) (list_outcome k)"
  by (auto simp: list_all_of_def emits_def thenA_def traced_def note_call_def failA_def doneA_def split: prod.splits sum.splits)

definition collects :: "json list \<Rightarrow> api_call list \<Rightarrow> bool" where
  "collects objs new \<longleftrightarrow> (\<forall>prev. allowed_after (orphaned objs) prev new)"

lemma collects_listed: "list_outcome k r new \<Longrightarrow> collects objs new \<and> (collects objs later \<longrightarrow> collects objs (new @ later))"
  by (auto simp: collects_def list_outcome_def alters_def split: sum.splits)

lemma emits_collecting:
  "emits (thenA (foldA (gc_object (traced api) ''ReplicaSet'' ''Deployment'') 0 sets) (\<lambda>n. foldA (gc_object (traced api) ''Pod'' ''ReplicaSet'') n pods))
     (\<lambda>_. collects (sets @ pods))"
proof -
  have "sends (orphaned (sets @ pods)) False
      (thenA (foldA (gc_object (traced api) ''ReplicaSet'' ''Deployment'') 0 sets) (\<lambda>n. foldA (gc_object (traced api) ''Pod'' ''ReplicaSet'') n pods))"
    by (intro sends_thenA sends_foldA sends_gc_object) auto
  then show ?thesis by (simp add: sends_def collects_def [abs_def])
qed

lemma emits_gc_once: "emits (gc_once (traced api)) (\<lambda>_ new. \<exists>objs. listed_in objs new \<and> collects objs new)"
  unfolding gc_once_def
proof (rule emits_thenA [OF emits_listing])
  show "emits (thenA (list_all_of (traced api) ''Pod'' None) (\<lambda>pods.
      thenA (foldA (gc_object (traced api) ''ReplicaSet'' ''Deployment'') 0 sets) (\<lambda>n. foldA (gc_object (traced api) ''Pod'' ''ReplicaSet'') n pods)))
    (\<lambda>_ new. \<exists>pods. listed_in pods new \<and> collects (sets @ pods) new)" for sets
    by (rule emits_thenA [OF emits_listing emits_collecting])
      (metis collects_listed listed_in_simps(1), metis collects_listed listed_in_new list_outcome_simps(2))
next
  show "\<exists>objs. listed_in objs new \<and> collects objs new" if "list_outcome ''ReplicaSet'' (Inl e) new" for e new
    using that by (metis collects_listed listed_in_simps(1))
next
  fix sets :: "json list" and r new later
  assume new: "list_outcome ''ReplicaSet'' (Inr sets) new" and "\<exists>pods. listed_in pods later \<and> collects (sets @ pods) later"
  then obtain pods where "listed_in pods later" "collects (sets @ pods) later" by blast
  with new collects_listed [OF new] listed_in_new [of new "''ReplicaSet''" sets _ later] listed_in_later
  show "\<exists>objs. listed_in objs (new @ later) \<and> collects objs (new @ later)"
    by (intro exI [of _ "sets @ pods"]) auto
qed

text \<open>
  C39: The collector of orphans deletes a ReplicaSet or Pod only when a list it took just named one owner
  for it, its controlling Deployment or ReplicaSet, and the request right before the deletion read that
  owner from the same namespace and found none, or one with another uid: no error of the API server, and
  no object with further owners, leads to a deletion.
\<close>

theorem gc_deletes_orphans_only:
  assumes "gc_once (traced api) (s, []) = (r, t, log)" and "i < length log" and "log ! i = Deleted kind ns name uid rv"
  shows "\<exists>objs. listed_in objs log \<and> i > 0 \<and> orphaned objs (Some (log ! (i - 1))) (Deleted kind ns name uid rv)"
proof -
  from emits_run [OF emits_gc_once assms(1)] obtain objs where objs: "listed_in objs log" "allowed_after (orphaned objs) None log"
    unfolding collects_def by blast
  have "orphaned objs (if i = 0 then None else Some (log ! (i - 1))) (log ! i)"
    by (rule allowed_after_nth [OF objs(2) assms(2)]) (simp add: assms(3) alters_def)
  moreover from this have "i > 0" by (cases i) (auto simp: orphaned_def)
  ultimately show ?thesis using objs(1) assms(3) by auto
qed


definition demo_orphan :: json where
  "demo_orphan = JObj [(''metadata'', JObj [(''name'', JStr ''p''), (''namespace'', JStr ''d''),
     (''ownerReferences'', JArr [JObj [(''apiVersion'', JStr ''apps/v1''), (''controller'', JBool True), (''kind'', JStr ''ReplicaSet''),
        (''name'', JStr ''r''), (''uid'', JStr ''u1'')]]),
     (''resourceVersion'', JStr ''7''), (''uid'', JStr ''u2'')])]"

definition demo_server :: "unit workload_api" where
  "demo_server = \<lparr>
     wl_list = (\<lambda>kind ns. doneA (if kind = ''Pod'' then [demo_orphan] else [], None)),
     wl_get = (\<lambda>kind ns name. doneA None), wl_create = (\<lambda>kind ns v. doneA v),
     wl_replace = (\<lambda>kind ns name v. doneA v), wl_status = (\<lambda>kind ns name v. doneA v),
     wl_delete = (\<lambda>kind ns name uid rv. doneA ()), wl_typed = (\<lambda>kind v. Some v),
     wl_clock = (\<lambda>s. (0, s)), wl_instant = (\<lambda>_. None), wl_stamp = (\<lambda>_. []), wl_hash = (\<lambda>_. [])\<rparr>"

lemma gc_deletes_orphans_only_witness:
  "\<exists>objs. listed_in objs (snd (snd (gc_once (traced demo_server) ((), []))))
     \<and> orphaned objs (Some (Got ''ReplicaSet'' ''d'' ''r'' (Inr None))) (Deleted ''Pod'' ''d'' ''p'' ''u2'' ''7'')"
proof -
  have "gc_once (traced demo_server) ((), []) = (Inr 1, (), [Listed ''ReplicaSet'' None (Inr ([], None)), Listed ''Pod'' None (Inr ([demo_orphan], None)),
      Got ''ReplicaSet'' ''d'' ''r'' (Inr None), Deleted ''Pod'' ''d'' ''p'' ''u2'' ''7''])"
    by code_simp
  from gc_deletes_orphans_only [OF this, of 3 "''Pod''" "''d''" "''p''" "''u2''" "''7''"] this show ?thesis by auto
qed

subsection \<open>Claims\<close>

lemma set_refs_owners: "set_at child [''metadata'', ''ownerReferences''] (JArr refs) = Some c \<Longrightarrow> owners c = refs"
  by (drule at_set_at) (simp add: owners_def)

lemma set_refs_other:
  assumes "set_at child [''metadata'', ''ownerReferences''] x = Some c"
  shows "k \<noteq> ''ownerReferences'' \<Longrightarrow> at c (''metadata'' # k # ks) = at child (''metadata'' # k # ks)"
  using at_set_at_diverge [of child "[''metadata'']" "''ownerReferences''" "[]" x c k ks] assms by simp

lemma idx_owner_ref [simp]:
  "idx (owner_ref p) ''uid'' = at p [''metadata'', ''uid'']" "idx (owner_ref p) ''name'' = at p [''metadata'', ''name'']"
  "idx (owner_ref p) ''kind'' = idx p ''kind''" "idx (owner_ref p) ''apiVersion'' = idx p ''apiVersion''"
  "idx (owner_ref p) ''controller'' = JBool True"
  by (simp_all add: owner_ref_def)

lemma owned_controllers:
  "owned child parent \<longleftrightarrow> (\<exists>r. filter is_controller (owners child) = [r] \<and> refers_to r parent)
     \<and> at child [''metadata'', ''namespace''] = at parent [''metadata'', ''namespace'']"
  by (auto simp: owned_def controller_ref_def split: list.splits)

lemma has_controller_filter: "has_controller v \<longleftrightarrow> filter is_controller (owners v) \<noteq> []"
  by (auto simp: has_controller_def list_ex_iff filter_empty_conv)

text \<open>
  C40: Adoption and release: a child that another object controls is left alone, and where a child of the
  same namespace is claimed, the references to other objects stay, the parent's controller
  reference is there exactly when the selector matches, and the claim is settled, a second pass claims
  nothing.
\<close>

theorem claim_settles:
  assumes "claim_refs parent child = Some refs" and "set_at child [''metadata'', ''ownerReferences''] (JArr refs) = Some c"
    and "at child [''metadata'', ''namespace''] = at parent [''metadata'', ''namespace'']"
  shows "\<not> (\<exists>r \<in> set (owners child). is_controller r \<and> idx r ''uid'' \<noteq> at parent [''metadata'', ''uid''])
    \<and> (\<forall>r \<in> set (owners child). idx r ''uid'' \<noteq> at parent [''metadata'', ''uid''] \<longrightarrow> r \<in> set (owners c))
    \<and> owned c parent = workload_matches (at parent [''spec'', ''selector'']) (at c [''metadata'', ''labels''])
    \<and> claim_refs parent c = None"
proof -
  let ?uid = "at parent [''metadata'', ''uid'']"
  let ?hit = "workload_matches (at parent [''spec'', ''selector'']) (at child [''metadata'', ''labels''])"
  let ?rest = "filter (\<lambda>r. idx r ''uid'' \<noteq> ?uid) (owners child)"
  have labels: "at c [''metadata'', ''labels''] = at child [''metadata'', ''labels'']"
    and ns: "at c [''metadata'', ''namespace''] = at parent [''metadata'', ''namespace'']"
    using set_refs_other [OF assms(2), of "''labels''" "[]"] set_refs_other [OF assms(2), of "''namespace''" "[]"] assms(3)
    by simp_all
  note refs = set_refs_owners [OF assms(2)]
  from assms(1) consider
    (release) "owned child parent" "\<not> ?hit" "refs = ?rest"
  | (adopt) "\<not> has_controller child" "?hit" "refs = ?rest @ [owner_ref parent]"
    by (cases ?hit; cases "has_controller child") (auto simp: claim_refs_def Let_def split: if_splits)
  then show ?thesis
  proof cases
    case release
    then obtain r where r: "filter is_controller (owners child) = [r]" "refers_to r parent" by (auto simp: owned_controllers)
    from arg_cong [OF r(1), of set] have only: "is_controller x \<Longrightarrow> x \<in> set (owners child) \<Longrightarrow> x = r" for x by auto
    have "idx r ''uid'' = ?uid" using r(2) by (simp add: refers_to_def)
    with only have "filter is_controller ?rest = []" by (auto simp: filter_empty_conv)
    with refs release have none: "\<not> has_controller c" by (simp add: has_controller_filter)
    then have "\<not> owned c parent" by (auto simp: owned_controllers has_controller_filter)
    with none release labels only \<open>idx r ''uid'' = ?uid\<close> refs show ?thesis by (auto simp: claim_refs_def)
  next
    case adopt
    then have "filter is_controller ?rest = []" by (auto simp: has_controller_filter filter_empty_conv)
    with refs adopt have "filter is_controller (owners c) = [owner_ref parent]" by (simp add: is_controller_def)
    with ns have own: "owned c parent" "has_controller c" by (auto simp: owned_controllers refers_to_def has_controller_filter)
    with adopt labels refs show ?thesis by (auto simp: claim_refs_def has_controller_filter filter_empty_conv)
  qed
qed

definition demo_parent :: json where
  "demo_parent = JObj [(''apiVersion'', JStr ''apps/v1''), (''kind'', JStr ''ReplicaSet''),
     (''metadata'', JObj [(''name'', JStr ''r''), (''namespace'', JStr ''d''), (''uid'', JStr ''u1'')]),
     (''spec'', JObj [(''selector'', JObj [(''matchLabels'', JObj [(''app'', JStr ''web'')])])])]"

definition demo_child :: json where
  "demo_child = JObj [(''metadata'', JObj [(''labels'', JObj [(''app'', JStr ''web'')]), (''name'', JStr ''p''), (''namespace'', JStr ''d'')])]"

lemma claim_settles_witness:
  "\<exists>c. set_at demo_child [''metadata'', ''ownerReferences''] (JArr [owner_ref demo_parent]) = Some c \<and> claim_refs demo_parent c = None"
proof -
  have c: "claim_refs demo_parent demo_child = Some [owner_ref demo_parent]"
    "at demo_child [''metadata'', ''namespace''] = at demo_parent [''metadata'', ''namespace'']"
    by code_simp+
  obtain c where "set_at demo_child [''metadata'', ''ownerReferences''] (JArr [owner_ref demo_parent]) = Some c"
    by (simp add: demo_child_def)
  with claim_settles [OF c(1) this c(2)] show ?thesis by blast
qed

end
