(* ===== verification/Rollout.thy ===== *)
theory Rollout
  imports Workload "HOL-Library.Product_Lexorder"
begin

text \<open>
  The Deployment controller (\<^verbatim>\<open>crates/h3s-controllers/src/workload/deployment.rs\<close>): the choice of the
  next change of a rollout.  The lemmas bound what a rolling update asks for and keeps available, and
  show that a rollout whose ReplicaSets catch up comes to its end.
\<close>

subsection \<open>Templates, counts and fractions\<close>

definition HASH :: string where
  "HASH = ''pod-template-hash''"

definition REVISION :: string where
  "REVISION = ''deployment.kubernetes.io/revision''"

text \<open>
  \<^verbatim>\<open>t["metadata"]["labels"]\<close> is reached through \<^verbatim>\<open>IndexMut\<close>, which inserts the members it does not find;
  a value on the way that is neither an object nor null panics (\<open>None\<close>).
\<close>

definition template_without_hash :: "json \<Rightarrow> json option" where
  "template_without_hash t = set_at t [''metadata'', ''labels''] (remove_member (at t [''metadata'', ''labels'']) HASH)"

fun current :: "json list \<Rightarrow> json \<Rightarrow> nat option option" where
  "current [] d = Some None"
| "current (r # rs) d =
     (case (template_without_hash (at r [''spec'', ''template'']), template_without_hash (at d [''spec'', ''template''])) of
        (Some a, Some b) \<Rightarrow> if a = b then Some (Some 0) else map_option (map_option Suc) (current rs d)
      | _ \<Rightarrow> None)"

definition observed :: "json \<Rightarrow> bool" where
  "observed r \<longleftrightarrow> at r [''status'', ''observedGeneration''] = at r [''metadata'', ''generation'']"

definition count :: "json \<Rightarrow> string \<Rightarrow> int" where
  "count r field = max 0 (or_default 0 (as_i64 (at r [''status'', field])))"

definition natural :: "int option \<Rightarrow> int option" where
  "natural x = (case x of Some n \<Rightarrow> if n \<ge> 0 then Some n else None | None \<Rightarrow> None)"

lemma natural_Some_iff [simp]: "natural x = Some n \<longleftrightarrow> x = Some n \<and> 0 \<le> n"
  by (auto simp: natural_def split: option.splits)

definition fraction :: "json \<Rightarrow> int \<Rightarrow> bool \<Rightarrow> (workload_error, int) result" where
  "fraction v desired ceil =
     (case natural (as_i64 v) of
        Some n \<Rightarrow> Inr n
      | None \<Rightarrow>
          (case natural (Option.bind (Option.bind (as_str v) (strip_suffix ''%'')) parse_i64) of
             None \<Rightarrow> Inl (Bad_workload ''invalid rollout percentage'')
           | Some percent \<Rightarrow>
               (case checked_i64 (desired * percent) of
                  None \<Rightarrow> Inl (Bad_workload ''rollout percentage overflow'')
                | Some p \<Rightarrow> Inr (quotient p 100 + (if ceil \<and> p mod 100 \<noteq> 0 then 1 else 0)))))"

definition bounds :: "json \<Rightarrow> (workload_error, int \<times> int) result" where
  "bounds d =
     andThen (replicas d) (\<lambda>desired.
     let update = at d [''spec'', ''strategy'', ''rollingUpdate''] in
     andThen (fraction (idx update ''maxSurge'') desired True) (\<lambda>surge.
     andThen (map_sum id (\<lambda>n. min n desired) (fraction (idx update ''maxUnavailable'') desired False)) (\<lambda>unavailable.
     if desired > 0 \<and> surge = 0 \<and> unavailable = 0 then Inl (Bad_workload ''rollout requires nonzero maxSurge or maxUnavailable'')
     else if checked_i64 (desired + surge) = None then Inl (Bad_workload ''rollout capacity overflow'')
     else Inr (surge, unavailable))))"

subsection \<open>The next change\<close>

definition recreate :: "json \<Rightarrow> bool" where
  "recreate d \<longleftrightarrow> at d [''spec'', ''strategy'', ''type''] = JStr ''Recreate''"

definition paused :: "json \<Rightarrow> bool" where
  "paused d \<longleftrightarrow> at d [''spec'', ''paused''] = JBool True"

fun sum_replicas :: "int \<Rightarrow> json list \<Rightarrow> (workload_error, int) result" where
  "sum_replicas n [] = Inr n"
| "sum_replicas n (r # rs) = andThen (replicas r) (\<lambda>k.
     case checked_i64 (n + k) of None \<Rightarrow> Inl (Bad_workload ''replica sum overflow'') | Some m \<Rightarrow> sum_replicas m rs)"

text \<open>The loops over the old sets: \<open>i\<close> counts the sets passed.\<close>

fun old_running :: "nat \<Rightarrow> nat \<Rightarrow> json list \<Rightarrow> (workload_error, nat option) result" where
  "old_running i new [] = Inr None"
| "old_running i new (r # rs) =
     (if i = new then old_running (Suc i) new rs
      else andThen (replicas r) (\<lambda>k. if k > 0 then Inr (Some i) else old_running (Suc i) new rs))"

definition removable :: "int \<Rightarrow> json \<Rightarrow> int \<Rightarrow> int" where
  "removable old r excess = min old (max 0 (old - count r ''availableReplicas'') + excess)"

fun shrink_old :: "nat \<Rightarrow> nat \<Rightarrow> int \<Rightarrow> json list \<Rightarrow> (workload_error, (nat \<times> int) option) result" where
  "shrink_old i new excess [] = Inr None"
| "shrink_old i new excess (r # rs) =
     (if i = new then shrink_old (Suc i) new excess rs
      else andThen (replicas r) (\<lambda>old. let remove = removable old r excess in
        if remove > 0 then Inr (Some (i, old - remove)) else shrink_old (Suc i) new excess rs))"

definition available_sum :: "json list \<Rightarrow> int" where
  "available_sum rs = sum_list (map (\<lambda>r. count r ''availableReplicas'') rs)"

definition plan_recreate :: "int \<Rightarrow> int \<Rightarrow> json list \<Rightarrow> nat \<Rightarrow> (workload_error, (nat \<times> int) option) result" where
  "plan_recreate desired new_desired sets new =
     andThen (old_running 0 new sets) (\<lambda>first.
       case first of
         Some i \<Rightarrow> Inr (Some (i, 0))
       | None \<Rightarrow>
           if list_ex (\<lambda>(i, r). i \<noteq> new \<and> count r ''replicas'' > 0) (zip [0..<length sets] sets) then Inr None
           else Inr (if new_desired \<noteq> desired then Some (new, desired) else None))"

definition plan_rolling :: "json \<Rightarrow> int \<Rightarrow> int \<Rightarrow> json list \<Rightarrow> nat \<Rightarrow> (workload_error, (nat \<times> int) option) result" where
  "plan_rolling d desired new_desired sets new =
     andThen (bounds d) (\<lambda>(surge, unavailable).
     if new_desired > desired then Inr (Some (new, desired))
     else andThen (sum_replicas 0 sets) (\<lambda>total.
       if new_desired < desired \<and> total < desired + surge
       then Inr (Some (new, new_desired + min (desired - new_desired) (desired + surge - total)))
       else shrink_old 0 new (max 0 (available_sum sets - (desired - unavailable))) sets))"

text \<open>
  \<open>new\<close> is an index that \<open>current\<close> found; an index out of range panics.  The sums of status counts are
  exact: the documents come from typed ReplicaSets, whose counts are \<^verbatim>\<open>i32\<close>, at most \<open>LIMIT\<close> of them.
\<close>

definition rollout_plan :: "json \<Rightarrow> json list \<Rightarrow> nat \<Rightarrow> (workload_error, (nat \<times> int) option) result" where
  "rollout_plan d sets new =
     andThen (replicas d) (\<lambda>desired.
     if paused d then Inr None
     else if list_ex (\<lambda>r. \<not> observed r) sets then Inr None
     else if new \<ge> length sets then Inl Panicked
     else andThen (replicas (sets ! new)) (\<lambda>new_desired.
       if recreate d then plan_recreate desired new_desired sets new
       else plan_rolling d desired new_desired sets new))"


subsection \<open>What a change does to the counts\<close>

definition wanted :: "json \<Rightarrow> int" where
  "wanted r = (case replicas r of Inr n \<Rightarrow> n | Inl _ \<Rightarrow> 0)"

lemma replicas_range: "replicas r = Inr n \<Longrightarrow> 0 \<le> n \<and> n \<le> int LIMIT"
  by (auto simp: replicas_def split: option.splits if_splits)

lemma wanted_nonneg [simp]: "0 \<le> wanted r"
  using replicas_range by (auto simp: wanted_def split: sum.splits)

lemma wanted_replicas: "replicas r = Inr n \<Longrightarrow> wanted r = n"
  by (simp add: wanted_def)

lemma count_nonneg [simp]: "0 \<le> count r f"
  by (simp add: count_def)

definition total_wanted :: "json list \<Rightarrow> int" where
  "total_wanted rs = sum_list (map wanted rs)"

lemma total_wanted_simps [simp]: "total_wanted [] = 0" "total_wanted (r # rs) = wanted r + total_wanted rs"
  by (simp_all add: total_wanted_def)

lemma sum_replicas_Inr: "sum_replicas n rs = Inr m \<Longrightarrow> m = n + total_wanted rs"
proof (induction rs arbitrary: n)
  case (Cons r rs)
  then obtain k where k: "replicas r = Inr k" "sum_replicas (n + k) rs = Inr m"
    by (auto simp: andThen_Inr_iff checked_i64_def split: if_splits)
  with Cons.IH [OF k(2)] show ?case by (simp add: wanted_replicas)
qed simp

lemma sum_list_nth_update:
  fixes f :: "'a \<Rightarrow> int"
  assumes "i < length xs"
  shows "sum_list (map f (xs[i := y])) = sum_list (map f xs) - f (xs ! i) + f y"
proof -
  have "xs[i := y] = take i xs @ y # drop (Suc i) xs" "xs = take i xs @ xs ! i # drop (Suc i) xs"
    using assms by (simp_all add: upd_conv_take_nth_drop id_take_nth_drop)
  then have "sum_list (map f (xs[i := y])) = sum_list (map f (take i xs)) + f y + sum_list (map f (drop (Suc i) xs))"
    and "sum_list (map f xs) = sum_list (map f (take i xs)) + f (xs ! i) + sum_list (map f (drop (Suc i) xs))"
    by (metis (no_types, lifting) list.simps(9) map_append sum_list.Cons sum_list.append add.assoc)+
  then show ?thesis by simp
qed

lemma shrink_old_Some:
  "shrink_old i new excess rs = Inr (Some (j, k)) \<Longrightarrow>
   \<exists>p old. p < length rs \<and> j = i + p \<and> j \<noteq> new \<and> replicas (rs ! p) = Inr old
     \<and> removable old (rs ! p) excess > 0 \<and> k = old - removable old (rs ! p) excess"
proof (induction rs arbitrary: i)
  case Nil
  then show ?case by simp
next
  case (Cons r rs)
  have later: ?case if "shrink_old (Suc i) new excess rs = Inr (Some (j, k))"
    using Cons.IH [OF that] by (metis Suc_less_eq add_Suc_shift length_Cons nth_Cons_Suc)
  show ?case
  proof (cases "i = new")
    case True
    with Cons.prems later show ?thesis by simp
  next
    case False
    with Cons.prems obtain old where old: "replicas r = Inr old" by (auto simp: andThen_def split: sum.splits)
    show ?thesis
    proof (cases "removable old r excess > 0")
      case True
      with Cons.prems False old have "j = i" "k = old - removable old r excess" by auto
      with True False old show ?thesis by (intro exI [of _ 0] exI [of _ old]) simp
    next
      case no: False
      with Cons.prems False old later show ?thesis by simp
    qed
  qed
qed


text \<open>The three kinds of change of a rolling update, each with the conditions it was chosen under.\<close>

lemma plan_rolling_Some:
  assumes "rollout_plan d sets new = Inr (Some (i, k))" and "\<not> recreate d"
    and "replicas d = Inr desired" and "bounds d = Inr (surge, unavailable)"
  obtains (shrink_new) "i = new" "new < length sets" "k = desired" "wanted (sets ! new) > desired"
  | (grow_new) "i = new" "new < length sets" "wanted (sets ! new) < desired" "total_wanted sets < desired + surge"
      "k = wanted (sets ! new) + min (desired - wanted (sets ! new)) (desired + surge - total_wanted sets)"
  | (shrink_old) "i \<noteq> new" "i < length sets" "k = wanted (sets ! i) - removable (wanted (sets ! i)) (sets ! i)
        (max 0 (available_sum sets - (desired - unavailable)))"
      "removable (wanted (sets ! i)) (sets ! i) (max 0 (available_sum sets - (desired - unavailable))) > 0"
proof -
  from assms obtain nd where new: "new < length sets" "replicas (sets ! new) = Inr nd"
    and rolling: "plan_rolling d desired nd sets new = Inr (Some (i, k))"
    by (auto simp: rollout_plan_def andThen_Inr_iff split: if_splits)
  show thesis
  proof (cases "nd > desired")
    case True
    with rolling assms(4) new show thesis by (intro shrink_new) (auto simp: plan_rolling_def wanted_replicas)
  next
    case False
    with rolling assms(4) obtain total where "sum_replicas 0 sets = Inr total"
      by (auto simp: plan_rolling_def andThen_Inr_iff)
    moreover from this have "total = total_wanted sets" using sum_replicas_Inr by force
    ultimately have rest: "(if nd < desired \<and> total_wanted sets < desired + surge
        then Inr (Some (new, nd + min (desired - nd) (desired + surge - total_wanted sets)))
        else shrink_old 0 new (max 0 (available_sum sets - (desired - unavailable))) sets) = Inr (Some (i, k))"
      using rolling False assms(4) by (simp add: plan_rolling_def)
    show thesis
    proof (cases "nd < desired \<and> total_wanted sets < desired + surge")
      case True
      with rest new show thesis by (intro grow_new) (auto simp: wanted_replicas)
    next
      case no: False
      with rest have "shrink_old 0 new (max 0 (available_sum sets - (desired - unavailable))) sets = Inr (Some (i, k))"
        by (simp only: if_False)
      from shrink_old_Some [OF this] show thesis by (auto intro!: shrink_old simp: wanted_replicas)
    qed
  qed
qed

text \<open>
  What is left available once the set \<open>i\<close> is at \<open>k\<close> replicas, when its controller removes the unavailable
  Pods first.
\<close>

definition kept_available :: "json list \<Rightarrow> nat \<Rightarrow> int \<Rightarrow> int" where
  "kept_available sets i k = available_sum sets - count (sets ! i) ''availableReplicas'' + min (count (sets ! i) ''availableReplicas'') k"

definition total_after :: "json list \<Rightarrow> nat \<Rightarrow> int \<Rightarrow> int" where
  "total_after sets i k = total_wanted sets - wanted (sets ! i) + k"

lemma nth_le_sum_list:
  fixes f :: "'a \<Rightarrow> int"
  assumes "i < length xs" and "\<forall>x \<in> set xs. 0 \<le> f x"
  shows "f (xs ! i) \<le> sum_list (map f xs)"
  using assms
proof (induction xs arbitrary: i)
  case (Cons x xs)
  then have "0 \<le> sum_list (map f xs)" by (auto intro!: sum_list_nonneg)
  with Cons show ?case by (cases i) force+
qed simp

lemma fraction_nonneg: "fraction v desired c = Inr n \<Longrightarrow> 0 \<le> desired \<Longrightarrow> 0 \<le> n"
  by (auto simp: fraction_def quotient_def mult_nonneg_nonneg pos_imp_zdiv_nonneg_iff intro!: add_nonneg_nonneg split: option.splits if_splits)

lemma map_sum_Inr_iff: "map_sum f g x = Inr y \<longleftrightarrow> (\<exists>z. x = Inr z \<and> y = g z)"
  by (cases x) auto

lemma bounds_range: "bounds d = Inr (surge, unavailable) \<Longrightarrow> replicas d = Inr desired \<Longrightarrow>
    0 \<le> surge \<and> 0 \<le> unavailable \<and> unavailable \<le> desired \<and> (desired > 0 \<longrightarrow> surge > 0 \<or> unavailable > 0)"
proof -
  assume b: "bounds d = Inr (surge, unavailable)" and r: "replicas d = Inr desired"
  have pos: "0 \<le> desired" using replicas_range [OF r] by simp
  from b r obtain un where f: "fraction (idx (at d [''spec'', ''strategy'', ''rollingUpdate'']) ''maxSurge'') desired True = Inr surge"
      "fraction (idx (at d [''spec'', ''strategy'', ''rollingUpdate'']) ''maxUnavailable'') desired False = Inr un"
      "unavailable = min un desired" "\<not> (desired > 0 \<and> surge = 0 \<and> unavailable = 0)"
    unfolding bounds_def by (fastforce simp: andThen_Inr_iff Let_def map_sum_Inr_iff split: if_splits)
  with fraction_nonneg [OF f(1) pos] fraction_nonneg [OF f(2) pos] pos show ?thesis by auto
qed

text \<open>
  C35: A step of a rolling update never asks for more replicas in total than were asked for or than
  desired plus maxSurge, and it leaves available what was available or desired minus maxUnavailable,
  whichever is less, provided no set reports more available Pods than it asks for; the count it sets
  lies between zero and the bound.
\<close>

theorem rollout_within_budget:
  assumes step: "rollout_plan d sets new = Inr (Some (i, k))" and rolling: "\<not> recreate d"
    and d: "replicas d = Inr desired" "bounds d = Inr (surge, unavailable)"
    and settled: "\<forall>r \<in> set sets. count r ''availableReplicas'' \<le> wanted r"
  shows "i < length sets \<and> 0 \<le> k \<and> k \<le> max (wanted (sets ! i)) desired
    \<and> total_after sets i k \<le> max (total_wanted sets) (desired + surge)
    \<and> kept_available sets i k \<ge> min (available_sum sets) (desired - unavailable)"
  using step rolling d
proof (cases rule: plan_rolling_Some)
  case shrink_new
  have "count (sets ! new) ''availableReplicas'' \<le> available_sum sets"
    unfolding available_sum_def by (rule nth_le_sum_list) (use shrink_new in auto)
  with shrink_new replicas_range [OF d(1)] bounds_range [OF d(2,1)] show ?thesis
    by (auto simp: total_after_def kept_available_def)
next
  case grow_new
  from grow_new have "sets ! new \<in> set sets" by simp
  with settled have "count (sets ! new) ''availableReplicas'' \<le> wanted (sets ! new)" by blast
  with grow_new replicas_range [OF d(1)] wanted_nonneg [of "sets ! new"] show ?thesis
    by (auto simp: total_after_def kept_available_def)
next
  case shrink_old
  from shrink_old have "sets ! i \<in> set sets" by simp
  with settled have "count (sets ! i) ''availableReplicas'' \<le> wanted (sets ! i)" by blast
  with shrink_old count_nonneg [of "sets ! i" "''availableReplicas''"] wanted_nonneg [of "sets ! i"] show ?thesis
    by (auto simp: total_after_def kept_available_def removable_def)
qed

subsection \<open>A rollout comes to its end\<close>

text \<open>
  Sets whose controllers have caught up: the generation is observed, and every replica asked for
  exists and is available.
\<close>

definition settled_set :: "json \<Rightarrow> bool" where
  "settled_set r \<longleftrightarrow> observed r \<and> replicas r = Inr (wanted r)
     \<and> count r ''replicas'' = wanted r \<and> count r ''availableReplicas'' = wanted r"

definition strategy_valid :: "json \<Rightarrow> int \<Rightarrow> bool" where
  "strategy_valid d desired \<longleftrightarrow> replicas d = Inr desired \<and> (recreate d \<or> (case bounds d of Inr _ \<Rightarrow> True | Inl _ \<Rightarrow> False))"

definition rolled_out :: "int \<Rightarrow> nat \<Rightarrow> int list \<Rightarrow> bool" where
  "rolled_out desired new ws \<longleftrightarrow> ws ! new = desired \<and> (\<forall>i < length ws. i \<noteq> new \<longrightarrow> ws ! i = 0)"

definition distance :: "int \<Rightarrow> nat \<Rightarrow> int list \<Rightarrow> nat" where
  "distance desired new ws = nat (abs (desired - ws ! new) + (sum_list ws - ws ! new))"

lemma sum_replicas_total:
  assumes "\<forall>r \<in> set rs. settled_set r" and "0 \<le> n" and "n + int (length rs) * 4096 < 2 ^ 63"
  shows "sum_replicas n rs = Inr (n + total_wanted rs)"
  using assms
proof (induction rs arbitrary: n)
  case (Cons r rs)
  have r: "replicas r = Inr (wanted r)" using Cons.prems(1) by (simp add: settled_set_def)
  from replicas_range [OF this] have w: "0 \<le> wanted r" "wanted r \<le> 4096" by (simp_all add: LIMIT_def)
  have sum: "n + wanted r + int (length rs) * 4096 < 2 ^ 63" using Cons.prems(3) w by simp
  then have "in_i64 (n + wanted r)" using Cons.prems(2) w unfolding in_i64_def by linarith
  with Cons.IH [of "n + wanted r"] sum Cons.prems w r show ?case by (simp add: checked_i64_def)
qed simp

text \<open>The first old set that still runs, with its count.\<close>

fun first_old :: "nat \<Rightarrow> nat \<Rightarrow> json list \<Rightarrow> (nat \<times> int) option" where
  "first_old i new [] = None"
| "first_old i new (r # rs) = (if i \<noteq> new \<and> wanted r > 0 then Some (i, wanted r) else first_old (Suc i) new rs)"

lemma first_old_Some:
  "first_old i new rs = Some (j, w) \<Longrightarrow> \<exists>p < length rs. j = i + p \<and> j \<noteq> new \<and> w = wanted (rs ! p) \<and> w > 0"
proof (induction rs arbitrary: i)
  case (Cons r rs)
  show ?case
  proof (cases "i \<noteq> new \<and> wanted r > 0")
    case True
    with Cons.prems show ?thesis by (intro exI [of _ 0]) auto
  next
    case False
    with Cons.prems have "first_old (Suc i) new rs = Some (j, w)" by simp
    from Cons.IH [OF this] obtain p where "p < length rs" "j = Suc i + p" "j \<noteq> new" "w = wanted (rs ! p)" "w > 0" by blast
    then show ?thesis by (intro exI [of _ "Suc p"]) simp
  qed
qed simp

lemma first_old_None:
  "first_old i new rs = None \<Longrightarrow> p < length rs \<Longrightarrow> i + p \<noteq> new \<Longrightarrow> wanted (rs ! p) = 0"
proof (induction rs arbitrary: i p)
  case (Cons r rs)
  show ?case
  proof (cases p)
    case 0
    with Cons.prems have "\<not> wanted r > 0" by (auto split: if_splits)
    then have "wanted r = 0" using wanted_nonneg [of r] by linarith
    with 0 show ?thesis by simp
  next
    case (Suc q)
    from Cons.prems(1) have "first_old (Suc i) new rs = None" by (simp split: if_splits)
    from Cons.IH [OF this, of q] Cons.prems(2,3) Suc show ?thesis by simp
  qed
qed simp

lemma old_running_first:
  "\<forall>r \<in> set rs. settled_set r \<Longrightarrow> old_running i new rs = Inr (map_option fst (first_old i new rs))"
proof (induction rs arbitrary: i)
  case (Cons r rs)
  then have "replicas r = Inr (wanted r)" by (simp add: settled_set_def)
  with Cons.IH [of "Suc i"] Cons.prems show ?case by (cases "i = new") simp_all
qed simp

lemma shrink_old_first:
  "\<forall>r \<in> set rs. settled_set r \<Longrightarrow> 0 < e \<or> e = 0 \<and> first_old i new rs = None
   \<Longrightarrow> shrink_old i new e rs = Inr (map_option (\<lambda>(j, w). (j, w - min w e)) (first_old i new rs))"
proof (induction rs arbitrary: i)
  case (Cons r rs)
  then have r: "replicas r = Inr (wanted r)" "count r ''availableReplicas'' = wanted r"
    by (simp_all add: settled_set_def)
  then have rem: "removable (wanted r) r e = min (wanted r) e" using Cons.prems(2) by (auto simp: removable_def)
  have "0 < e \<or> e = 0 \<and> first_old (Suc i) new rs = None" if "\<not> (i \<noteq> new \<and> wanted r > 0)"
    using Cons.prems(2) that by auto
  with Cons.IH [of "Suc i"] Cons.prems r rem show ?case by (cases "i \<noteq> new \<and> wanted r > 0") auto
qed simp

lemma zero_sum: "\<forall>w \<in> set ws. w = (0::int) \<Longrightarrow> sum_list ws = 0"
  by (induction ws) auto

lemma sum_only:
  fixes ws :: "int list"
  assumes "new < length ws" and "\<forall>j < length ws. j \<noteq> new \<longrightarrow> ws ! j = 0"
  shows "sum_list ws = ws ! new"
proof -
  have "\<forall>w \<in> set (ws[new := 0]). w = 0" using assms by (auto simp: in_set_conv_nth nth_list_update)
  then have "sum_list (ws[new := 0]) = 0"
    using zero_sum by blast
  with sum_list_nth_update [of new ws id 0] assms(1) show ?thesis by simp
qed

lemma old_sum:
  fixes ws :: "int list"
  assumes "new < length ws" and "\<forall>w \<in> set ws. 0 \<le> w"
  shows "0 \<le> sum_list ws - ws ! new"
    and "j < length ws \<Longrightarrow> j \<noteq> new \<Longrightarrow> ws ! j \<le> sum_list ws - ws ! new"
proof -
  show "0 \<le> sum_list ws - ws ! new"
    using nth_le_sum_list [of new ws id] assms by simp
  assume j: "j < length ws" "j \<noteq> new"
  from sum_list_nth_update [of new ws id 0] assms(1)
  have "sum_list (ws[new := 0]) = sum_list ws - ws ! new" by simp
  moreover have "(ws[new := 0]) ! j \<le> sum_list (map id (ws[new := 0]))"
    using nth_le_sum_list [of j "ws[new := 0]" id] j(1) assms(2) by (auto dest!: set_update_subset_insert [THEN subsetD])
  ultimately show "ws ! j \<le> sum_list ws - ws ! new" using j by simp
qed

lemma distance_update:
  assumes "new < length ws" and "\<forall>w \<in> set ws. 0 \<le> w" and "i < length ws" and "0 \<le> k"
    and "if i = new then abs (desired - k) < abs (desired - ws ! new) else k < ws ! i"
  shows "distance desired new (ws[i := k]) < distance desired new ws"
proof -
  have sum: "sum_list (ws[i := k]) = sum_list ws - ws ! i + k"
    using sum_list_nth_update [of i ws id k] assms(3) by simp
  have rest: "0 \<le> sum_list ws - ws ! new" and "i \<noteq> new \<Longrightarrow> ws ! i \<le> sum_list ws - ws ! new"
    using old_sum [OF assms(1,2)] assms(3) by blast+
  then show ?thesis using assms(1,3,4,5) sum by (cases "i = new") (auto simp: distance_def)
qed

text \<open>In a settled state the next change brings the rollout nearer, or there is none and it is complete.\<close>

definition nearer :: "int \<Rightarrow> nat \<Rightarrow> int list \<Rightarrow> nat \<Rightarrow> int \<Rightarrow> bool" where
  "nearer desired new ws i k \<longleftrightarrow> i < length ws \<and> 0 \<le> k
     \<and> (if i = new then abs (desired - k) < abs (desired - ws ! new) else k < ws ! i)"

lemma recreate_progress:
  assumes settled: "\<forall>r \<in> set sets. settled_set r" and new: "new < length sets" and desired: "0 \<le> desired"
    and p: "p = plan_recreate desired (wanted (sets ! new)) sets new"
  shows "p = Inr None \<and> rolled_out desired new (map wanted sets)
    \<or> (\<exists>i k. p = Inr (Some (i, k)) \<and> nearer desired new (map wanted sets) i k)"
proof (cases "first_old 0 new sets")
  case (Some jw)
  then obtain j w where jw: "first_old 0 new sets = Some (j, w)" by (cases jw) simp
  from first_old_Some [OF this] have "j < length sets" "j \<noteq> new" "0 < wanted (sets ! j)" by auto
  moreover have "p = Inr (Some (j, 0))" using p settled jw by (simp add: plan_recreate_def old_running_first)
  ultimately show ?thesis by (auto simp: nearer_def)
next
  case None
  note gone = first_old_None [OF None, simplified]
  have quiet: "\<not> list_ex (\<lambda>(i, r). i \<noteq> new \<and> count r ''replicas'' > 0) (zip [0..<length sets] sets)"
    using gone settled by (auto simp: list_ex_iff set_zip settled_set_def)
  have "p = Inr (if wanted (sets ! new) \<noteq> desired then Some (new, desired) else None)"
    using p None quiet settled by (simp add: plan_recreate_def old_running_first)
  then show ?thesis using gone new desired by (auto simp: nearer_def rolled_out_def)
qed

lemma rolling_progress:
  assumes settled: "\<forall>r \<in> set sets. settled_set r" and new: "new < length sets" and few: "length sets \<le> LIMIT"
    and d: "replicas d = Inr desired" "bounds d = Inr (surge, unavailable)"
    and p: "p = plan_rolling d desired (wanted (sets ! new)) sets new"
  shows "p = Inr None \<and> rolled_out desired new (map wanted sets)
    \<or> (\<exists>i k. p = Inr (Some (i, k)) \<and> nearer desired new (map wanted sets) i k)"
proof -
  let ?n = "wanted (sets ! new)" and ?t = "total_wanted sets"
  have total: "sum_replicas 0 sets = Inr ?t"
    using sum_replicas_total [OF settled, of 0] few by (simp add: LIMIT_def)
  have avail: "available_sum sets = ?t"
    using settled unfolding available_sum_def total_wanted_def by (auto simp: settled_set_def intro!: arg_cong [where f = sum_list])
  have range: "0 \<le> surge" "0 \<le> unavailable" "unavailable \<le> desired" "desired > 0 \<longrightarrow> surge > 0 \<or> unavailable > 0" "0 \<le> desired"
    using bounds_range [OF d(2,1)] replicas_range [OF d(1)] by auto
  consider (shrink) "?n > desired" | (grow) "?n < desired" "?t < desired + surge"
    | (old) "?n \<le> desired" "\<not> (?n < desired \<and> ?t < desired + surge)" by linarith
  then show ?thesis
  proof cases
    case shrink
    then have "p = Inr (Some (new, desired))" by (simp add: p plan_rolling_def d)
    with shrink new range show ?thesis by (auto simp: nearer_def)
  next
    case grow
    then have "p = Inr (Some (new, ?n + min (desired - ?n) (desired + surge - ?t)))" by (simp add: p plan_rolling_def d total)
    with grow new wanted_nonneg [of "sets ! new"] show ?thesis by (auto simp: nearer_def)
  next
    case old
    let ?e = "max 0 (?t - (desired - unavailable))"
    have pe: "p = shrink_old 0 new ?e sets" using old by (auto simp: p plan_rolling_def d total avail)
    have rest: "0 \<le> ?t - ?n" "\<And>j. j < length sets \<Longrightarrow> j \<noteq> new \<Longrightarrow> wanted (sets ! j) \<le> ?t - ?n"
      using old_sum [of new "map wanted sets"] new by (auto simp: total_wanted_def)
    show ?thesis
    proof (cases "first_old 0 new sets")
      case (Some jw)
      then obtain j w where jw: "first_old 0 new sets = Some (j, w)" by (cases jw) simp
      from first_old_Some [OF this] have j: "j < length sets" "j \<noteq> new" "w = wanted (sets ! j)" "0 < w" by auto
      have "desired - unavailable < ?t"
        using rest(2) [OF j(1,2)] j(3,4) old range wanted_nonneg [of "sets ! new"] by (cases "?n < desired") linarith+
      then have "0 < ?e" by simp
      with pe settled jw have "p = Inr (Some (j, w - min w ?e))" by (simp add: shrink_old_first)
      with j \<open>0 < ?e\<close> show ?thesis by (auto simp: nearer_def)
    next
      case None
      note gone = first_old_None [OF None, simplified]
      have sum: "?t = ?n"
        unfolding total_wanted_def using sum_only [of new "map wanted sets"] gone new by simp
      then have "?n = desired" using old range by linarith
      moreover have "0 < ?e \<or> ?e = 0 \<and> first_old 0 new sets = None" using None by auto
      from shrink_old_first [OF settled this] None have "p = Inr None" by (simp only: pe option.map)
      ultimately show ?thesis using gone new by (auto simp: rolled_out_def)
    qed
  qed
qed

definition target_list :: "json list \<Rightarrow> int list" where
  "target_list sets = map wanted sets"

lemma plan_progress:
  assumes "\<forall>r \<in> set sets. settled_set r" and "new < length sets" and "length sets \<le> LIMIT"
    and "strategy_valid d desired" and "\<not> paused d"
  shows "rollout_plan d sets new = Inr None \<and> rolled_out desired new (target_list sets)
    \<or> (\<exists>i k. rollout_plan d sets new = Inr (Some (i, k)) \<and> nearer desired new (target_list sets) i k)"
proof -
  have "replicas (sets ! new) = Inr (wanted (sets ! new))" "\<not> list_ex (\<lambda>r. \<not> observed r) sets"
    using assms(1,2) by (auto simp: settled_set_def list_ex_iff)
  with assms have p: "rollout_plan d sets new = (if recreate d then plan_recreate desired (wanted (sets ! new)) sets new
      else plan_rolling d desired (wanted (sets ! new)) sets new)"
    by (simp add: rollout_plan_def strategy_valid_def)
  have d: "replicas d = Inr desired" "0 \<le> desired"
    using assms(4) replicas_range by (auto simp: strategy_valid_def)
  show ?thesis
  proof (cases "recreate d")
    case True
    with recreate_progress [OF assms(1,2) d(2) refl] p show ?thesis by (simp add: target_list_def)
  next
    case False
    with assms(4) obtain surge unavailable where "bounds d = Inr (surge, unavailable)"
      by (auto simp: strategy_valid_def split: sum.splits)
    with rolling_progress [OF assms(1-3) d(1) _ refl] False p show ?thesis by (simp add: target_list_def)
  qed
qed

text \<open>
  One turn of the loop between the controllers: a planned change is written, and the ReplicaSets catch
  up with it before the next pass.
\<close>

definition turn :: "json \<Rightarrow> nat \<Rightarrow> json list \<Rightarrow> json list \<Rightarrow> bool" where
  "turn d new sets sets' \<longleftrightarrow> (case rollout_plan d sets new of
     Inr (Some (i, k)) \<Rightarrow> list_all settled_set sets' \<and> target_list sets' = (target_list sets)[i := k]
   | _ \<Rightarrow> sets' = sets)"

text \<open>
  C36: A rollout ends: when the ReplicaSets catch up with each change, a Deployment that is not paused
  and whose strategy is valid reaches, after no more changes than replicas are out of place, the state
  where the new set has the desired replicas, the old sets have none, and nothing is left to change.
\<close>

theorem rollout_ends:
  assumes "list_all settled_set (f 0)" and "new < length (f 0)" and "length (f 0) \<le> LIMIT"
    and "strategy_valid d desired" and "\<not> paused d"
    and "\<forall>n. turn d new (f n) (f (Suc n))"
  shows "\<exists>n \<le> distance desired new (target_list (f 0)).
    rollout_plan d (f n) new = Inr None \<and> rolled_out desired new (target_list (f n))"
  using assms
proof (induction "distance desired new (target_list (f 0))" arbitrary: f rule: less_induct)
  case less
  have settled: "\<forall>r \<in> set (f 0). settled_set r" using less.prems(1) by (simp add: list_all_iff)
  from plan_progress [OF settled less.prems(2-5)] show ?case
  proof (elim disjE exE conjE)
    assume "rollout_plan d (f 0) new = Inr None" "rolled_out desired new (target_list (f 0))"
    then show ?thesis by blast
  next
    fix i k
    assume p: "rollout_plan d (f 0) new = Inr (Some (i, k))" and near: "nearer desired new (target_list (f 0)) i k"
    from less.prems(6) have "turn d new (f 0) (f (Suc 0))" by blast
    with p have s: "list_all settled_set (f (Suc 0))" and t: "target_list (f (Suc 0)) = (target_list (f 0))[i := k]"
      by (simp_all add: turn_def)
    from arg_cong [OF t, of length] have len: "length (f (Suc 0)) = length (f 0)" by (simp add: target_list_def)
    have dec: "distance desired new (target_list (f (Suc 0))) < distance desired new (target_list (f 0))"
      unfolding t by (rule distance_update) (use near less.prems(2) in \<open>auto simp: nearer_def target_list_def\<close>)
    from less.hyps [of "\<lambda>n. f (Suc n)"] dec s len less.prems obtain n where
      "n \<le> distance desired new (target_list (f (Suc 0)))" "rollout_plan d (f (Suc n)) new = Inr None"
      "rolled_out desired new (target_list (f (Suc n)))" by auto
    with dec show ?thesis by (intro exI [of _ "Suc n"]) auto
  qed
qed

definition demo_set :: "int \<Rightarrow> int \<Rightarrow> json" where
  "demo_set n available = JObj [(''metadata'', JObj [(''generation'', JInt 1)]), (''spec'', JObj [(''replicas'', JInt n)]),
     (''status'', JObj [(''availableReplicas'', JInt available), (''observedGeneration'', JInt 1), (''replicas'', JInt available)])]"

definition demo_rollout :: "int \<Rightarrow> json \<Rightarrow> json \<Rightarrow> json" where
  "demo_rollout n surge unavailable = JObj [(''spec'', JObj [(''replicas'', JInt n),
     (''strategy'', JObj [(''rollingUpdate'', JObj [(''maxSurge'', surge), (''maxUnavailable'', unavailable)]), (''type'', JStr ''RollingUpdate'')])])]"

definition demo_run :: "nat \<Rightarrow> json list" where
  "demo_run n = (if n = 0 then [demo_set 1 1, demo_set 0 0] else if n = 1 then [demo_set 1 1, demo_set 1 1] else [demo_set 0 0, demo_set 1 1])"

lemma rollout_ends_witness:
  "\<exists>n \<le> distance 1 1 [1, 0]. rollout_plan (demo_rollout 1 (JStr ''25%'') (JStr ''25%'')) (demo_run n) 1 = Inr None
     \<and> rolled_out 1 1 (target_list (demo_run n))"
proof -
  let ?d = "demo_rollout 1 (JStr ''25%'') (JStr ''25%'')"
  have first: "turn ?d 1 (demo_run 0) (demo_run 1)" and second: "turn ?d 1 (demo_run 1) (demo_run 2)"
    and last: "turn ?d 1 (demo_run 2) (demo_run 2)"
    by code_simp+
  have run: "\<forall>n. turn ?d 1 (demo_run n) (demo_run (Suc n))"
  proof
    fix n :: nat
    consider "n = 0" | "n = 1" | "n \<ge> 2" by linarith
    then show "turn ?d 1 (demo_run n) (demo_run (Suc n))"
    proof cases
      case 3
      then have "demo_run n = demo_run 2" "demo_run (Suc n) = demo_run 2" by (simp_all add: demo_run_def)
      with last show ?thesis by simp
    qed (use first second in \<open>simp_all add: numeral_2_eq_2\<close>)
  qed
  have start: "list_all settled_set (demo_run 0)" "1 < length (demo_run 0)" "length (demo_run 0) \<le> LIMIT"
      "strategy_valid ?d 1" "\<not> paused ?d"
    and target: "target_list (demo_run 0) = [1, 0]"
    by code_simp+
  from rollout_ends [OF start run] show ?thesis by (simp only: target)
qed

lemma rollout_within_budget_witness:
  "total_after [demo_set 2 1, demo_set 1 0] 0 1 \<le> 3 \<and> kept_available [demo_set 2 1, demo_set 1 0] 0 1 \<ge> 1"
proof -
  let ?d = "demo_rollout 2 (JInt 1) (JInt 0)" and ?s = "[demo_set 2 1, demo_set 1 0]"
  have "rollout_plan ?d ?s 1 = Inr (Some (0, 1))" "\<not> recreate ?d" "replicas ?d = Inr 2" "bounds ?d = Inr (1, 0)"
      "\<forall>r \<in> set ?s. count r ''availableReplicas'' \<le> wanted r" "total_wanted ?s = 3" "available_sum ?s = 1"
    by code_simp+
  then show ?thesis using rollout_within_budget [of ?d ?s 1 0 1 2 1 0] by simp
qed

text \<open>
  The premise on the reported counts matters.  A ReplicaSet deletes at most \<open>BURST\<close> Pods in a pass and
  then reports its generation as observed, with the Pods that are left: an old set scaled from 20 to 10
  reports 12 available.  The two are counted as surplus, and 8 are kept where 10 of 20 must stay available.
\<close>

lemma unfinished_scale_down_breaks_the_budget:
  "rollout_plan (demo_rollout 20 (JInt 0) (JStr ''50%'')) [demo_set 20 20, demo_set 0 0] 1 = Inr (Some (0, 10))
   \<and> observed (demo_set 10 12)
   \<and> rollout_plan (demo_rollout 20 (JInt 0) (JStr ''50%'')) [demo_set 10 12, demo_set 10 0] 1 = Inr (Some (0, 8))
   \<and> bounds (demo_rollout 20 (JInt 0) (JStr ''50%'')) = Inr (0, 10)
   \<and> kept_available [demo_set 10 12, demo_set 10 0] 0 8 < 20 - 10"
  by code_simp

end
