(* ===== verification/Workload_Sync.thy ===== *)
theory Workload_Sync
  imports Rollout
begin

text \<open>
  The passes of the two workload controllers: a ReplicaSet claims, creates and deletes Pods
  (\<^verbatim>\<open>workload/replicaset.rs\<close>), a Deployment claims, creates, scales and prunes ReplicaSets
  (\<^verbatim>\<open>workload/deployment.rs\<close>), and both report their status.  The lemmas speak of the requests a pass
  sends: each change directly follows a read that found the controlling object unchanged, and a pass
  over Pods stays within its burst.
\<close>

subsection \<open>Claims and order\<close>

text \<open>The first active child to adopt or release, with its new references.\<close>

fun claim_target :: "nat \<Rightarrow> json \<Rightarrow> json list \<Rightarrow> (nat \<times> json \<times> json list) option" where
  "claim_target i parent [] = None"
| "claim_target i parent (c # cs) =
     (case (if active c then claim_refs parent c else None) of
        Some refs \<Rightarrow> Some (i, c, refs)
      | None \<Rightarrow> claim_target (Suc i) parent cs)"

definition with_owners :: "json \<Rightarrow> json list \<Rightarrow> (workload_error, json) result" where
  "with_owners child refs = ok_or Panicked (set_at child [''metadata'', ''ownerReferences''] (JArr refs))"

definition age_key :: "json \<Rightarrow> string \<times> string" where
  "age_key r = (or_default [] (as_str (at r [''metadata'', ''creationTimestamp''])), or_default [] (as_str (at r [''metadata'', ''uid''])))"

text \<open>\<^verbatim>\<open>std::cmp::Reverse\<close>.\<close>

datatype reversed = Reversed (unreversed: string)

instantiation reversed :: linorder
begin

definition less_eq_reversed :: "reversed \<Rightarrow> reversed \<Rightarrow> bool" where
  "less_eq_reversed a b \<longleftrightarrow> unreversed b \<le> unreversed a"

definition less_reversed :: "reversed \<Rightarrow> reversed \<Rightarrow> bool" where
  "less_reversed a b \<longleftrightarrow> unreversed b < unreversed a"

instance
  by standard (auto simp: less_eq_reversed_def less_reversed_def reversed.expand)

end

definition has_node :: "json \<Rightarrow> bool" where
  "has_node p \<longleftrightarrow> filled (as_str (at p [''spec'', ''nodeName''])) \<noteq> None"

definition deletion_key :: "json \<Rightarrow> bool \<times> bool \<times> reversed \<times> string" where
  "deletion_key p = (pod_ready p, has_node p, Reversed (fst (age_key p)), snd (age_key p))"

definition victims :: "nat \<Rightarrow> json list \<Rightarrow> json list" where
  "victims desired pods = take (min BURST (length pods - desired)) (sort_key deletion_key pods)"

subsection \<open>A pass of a ReplicaSet\<close>

definition tryA :: "('s, 'a) act \<Rightarrow> ('s, (workload_error, 'a) result) act" where
  "tryA m s = (case m s of (r, t) \<Rightarrow> (Inr r, t))"

definition new_pod :: "'s workload_api \<Rightarrow> json \<Rightarrow> json \<Rightarrow> (workload_error, json) result" where
  "new_pod api rs meta =
     andThen (required_text (idx rs ''metadata'') ''name'') (\<lambda>name.
     andThen (ok_or Panicked (set_at meta [''generateName''] (JStr (take 54 name @ ''-'')))) (\<lambda>m.
     andThen (ok_or Panicked (set_at m [''namespace''] (at rs [''metadata'', ''namespace'']))) (\<lambda>m.
     andThen (ok_or Panicked (set_at m [''ownerReferences''] (JArr [owner_ref rs]))) (\<lambda>m.
     ok_or Bad_json (wl_typed api ''Pod'' (JObj [(''metadata'', m), (''spec'', at rs [''spec'', ''template'', ''spec''])]))))))"

fun create_pods :: "'s workload_api \<Rightarrow> string \<Rightarrow> json \<Rightarrow> json \<Rightarrow> nat \<Rightarrow> json list
    \<Rightarrow> ('s, (workload_error, unit) result \<times> json list) act" where
  "create_pods api ns rs meta 0 pods = doneA (Inr (), pods)"
| "create_pods api ns rs meta (Suc n) pods =
     thenA (tryA (is_live api ''ReplicaSet'' ns rs)) (\<lambda>l. case l of
       Inl e \<Rightarrow> doneA (Inl e, pods)
     | Inr alive \<Rightarrow>
         if \<not> alive then doneA (Inr (), pods)
         else (case new_pod api rs meta of
             Inl e \<Rightarrow> doneA (Inl e, pods)
           | Inr pod \<Rightarrow> thenA (tryA (wl_create api ''Pod'' ns pod)) (\<lambda>r. case r of
               Inl e \<Rightarrow> doneA (Inl e, pods)
             | Inr made \<Rightarrow> create_pods api ns rs meta n (pods @ [made]))))"

fun delete_pods :: "'s workload_api \<Rightarrow> string \<Rightarrow> json \<Rightarrow> json list \<Rightarrow> ('s, unit) act" where
  "delete_pods api ns rs [] = doneA ()"
| "delete_pods api ns rs (p # ps) =
     thenA (is_live api ''ReplicaSet'' ns rs) (\<lambda>alive.
       if \<not> alive then doneA ()
       else thenA (delete_object api ''Pod'' ns p) (\<lambda>_. delete_pods api ns rs ps))"

text \<open>The result of the pass and the Pods the status is computed from, which the pass changes in place.\<close>

definition adopt_pod :: "'s workload_api \<Rightarrow> string \<Rightarrow> json \<Rightarrow> json list \<Rightarrow> nat \<Rightarrow> json \<Rightarrow> json list
    \<Rightarrow> ('s, (workload_error, unit) result \<times> json list) act" where
  "adopt_pod api ns rs pods i p refs =
     thenA (tryA (is_live api ''ReplicaSet'' ns rs)) (\<lambda>l. case l of
       Inl e \<Rightarrow> doneA (Inl e, pods)
     | Inr alive \<Rightarrow>
         if \<not> alive then doneA (Inr (), pods)
         else (case with_owners p refs of
             Inl e \<Rightarrow> doneA (Inl e, pods)
           | Inr q \<Rightarrow> thenA (tryA (replace_object api ''Pod'' ns q)) (\<lambda>r. doneA (r, pods[i := q]))))"

definition scale_pods :: "'s workload_api \<Rightarrow> string \<Rightarrow> json \<Rightarrow> nat \<Rightarrow> json \<Rightarrow> json list
    \<Rightarrow> ('s, (workload_error, unit) result \<times> json list) act" where
  "scale_pods api ns rs desired meta pods =
     (let selected = filter (\<lambda>p. owned p rs \<and> active p) pods in
      if length selected < desired then create_pods api ns rs meta (min BURST (desired - length selected)) pods
      else if length selected > desired then
        thenA (tryA (delete_pods api ns rs (victims desired selected))) (\<lambda>r. case r of
          Inl e \<Rightarrow> doneA (Inl e, pods)
        | Inr _ \<Rightarrow> thenA (tryA (list_all_of api ''Pod'' (Some ns))) (\<lambda>r. case r of
            Inl e \<Rightarrow> doneA (Inl e, pods)
          | Inr fresh \<Rightarrow> doneA (Inr (), fresh)))
      else doneA (Inr (), pods))"

definition replica_checks :: "json \<Rightarrow> (workload_error, nat \<times> json) result" where
  "replica_checks rs =
     andThen (replicas rs) (\<lambda>desired. andThen (minimum_ready rs) (\<lambda>_.
     andThen (template_metadata (at rs [''spec'', ''template''])) (\<lambda>meta. Inr (nat desired, meta))))"

definition replica_sync :: "'s workload_api \<Rightarrow> string \<Rightarrow> json \<Rightarrow> json list \<Rightarrow> ('s, (workload_error, unit) result \<times> json list) act" where
  "replica_sync api ns rs pods =
     (case replica_checks rs of
        Inl e \<Rightarrow> doneA (Inl e, pods)
      | Inr (desired, meta) \<Rightarrow>
          (case claim_target 0 rs pods of
             Some (i, p, refs) \<Rightarrow> adopt_pod api ns rs pods i p refs
           | None \<Rightarrow> scale_pods api ns rs desired meta pods))"

definition labelled :: "json \<Rightarrow> json \<Rightarrow> bool" where
  "labelled rs p \<longleftrightarrow> (case as_object (at rs [''spec'', ''template'', ''metadata'', ''labels'']) of
     None \<Rightarrow> True | Some m \<Rightarrow> list_all (\<lambda>(k, v). idx (at p [''metadata'', ''labels'']) k = v) m)"

definition number :: "'a list \<Rightarrow> json" where
  "number xs = JInt (int (length xs))"

definition replica_status :: "'s workload_api \<Rightarrow> int \<Rightarrow> json \<Rightarrow> json list \<Rightarrow> (workload_error, unit) result \<Rightarrow> json" where
  "replica_status api now rs pods res =
     (let selected = filter (\<lambda>p. owned p rs \<and> active p) pods;
          minimum = (case minimum_ready rs of Inr n \<Rightarrow> n | Inl _ \<Rightarrow> 0);
          base = [(''availableReplicas'', number (filter (\<lambda>p. pod_available (wl_instant api) now p minimum) selected)),
            (''fullyLabeledReplicas'', number (filter (labelled rs) selected)),
            (''observedGeneration'', at rs [''metadata'', ''generation'']),
            (''readyReplicas'', number (filter pod_ready selected)),
            (''replicas'', number selected)]
      in JObj (case res of
          Inr _ \<Rightarrow> base
        | Inl e \<Rightarrow> put ''conditions'' (JArr [condition_of (wl_stamp api now) (idx rs ''status'')
            \<lparr>cs_kind = ''ReplicaFailure'', cs_status = ''True'', cs_reason = ''FailedManageReplicas'', cs_message = failure_text e,
             cs_update = False, cs_deployment = False\<rparr>]) base))"

definition replicaset_once :: "'s workload_api \<Rightarrow> string \<Rightarrow> string \<Rightarrow> ('s, unit) act" where
  "replicaset_once api ns name =
     thenA (wl_get api ''ReplicaSet'' ns name) (\<lambda>found. case found of
       None \<Rightarrow> doneA ()
     | Some rs \<Rightarrow>
         if \<not> active rs then doneA ()
         else thenA (list_all_of api ''Pod'' (Some ns)) (\<lambda>pods.
           thenA (replica_sync api ns rs pods) (\<lambda>(res, pods).
           thenA (readC (wl_clock api)) (\<lambda>now.
           thenA (write_status api ''ReplicaSet'' ns rs (replica_status api now rs pods res)) (\<lambda>_. liftA res)))))"


subsection \<open>A pass of a Deployment\<close>

definition uses_hash :: "json \<Rightarrow> bool" where
  "uses_hash d \<longleftrightarrow> getf (at d [''spec'', ''template'', ''metadata'', ''labels'']) HASH \<noteq> None
     \<or> getf (at d [''spec'', ''selector'', ''matchLabels'']) HASH \<noteq> None
     \<or> list_ex (\<lambda>r. idx r ''key'' = JStr HASH) (items (at d [''spec'', ''selector'', ''matchExpressions'']))"

definition revision_of :: "json \<Rightarrow> int option" where
  "revision_of r = Option.bind (as_str (at r [''metadata'', ''annotations'', REVISION])) parse_i64"

definition next_revision :: "json list \<Rightarrow> (workload_error, int) result" where
  "next_revision sets =
     (let revs = List.map_filter revision_of sets; top = (if revs = [] then 0 else Max (set revs)) in
      ok_or (Bad_workload ''Deployment revision overflow'') (checked_i64 (top + 1)))"

definition new_set :: "'s workload_api \<Rightarrow> json \<Rightarrow> json list \<Rightarrow> int \<Rightarrow> (workload_error, json) result" where
  "new_set api d sets minimum =
     andThen (required_text (idx d ''metadata'') ''name'') (\<lambda>name.
     andThen (required_text (idx d ''metadata'') ''uid'') (\<lambda>uid.
     let template = at d [''spec'', ''template''];
         hash = take 16 (wl_hash api (JArr [JStr uid, template])) in
     andThen (ok_or Panicked (set_at template [''metadata'', ''labels'', HASH] (JStr hash))) (\<lambda>template.
     andThen (ok_or Panicked (set_at (at d [''spec'', ''selector'']) [''matchLabels'', HASH] (JStr hash))) (\<lambda>selector.
     andThen (next_revision sets) (\<lambda>revision.
     ok_or Bad_json (wl_typed api ''ReplicaSet'' (JObj [
       (''metadata'', JObj [(''annotations'', JObj [(REVISION, JStr (show_int revision))]), (''labels'', at template [''metadata'', ''labels'']),
          (''name'', JStr (take 46 name @ ''-'' @ hash)), (''namespace'', at d [''metadata'', ''namespace'']), (''ownerReferences'', JArr [owner_ref d])]),
       (''spec'', JObj [(''minReadySeconds'', JInt minimum), (''replicas'', JInt 0), (''selector'', selector), (''template'', template)])])))))))"

text \<open>A change written to one of the sets, if the Deployment is still the one that was read.\<close>

definition write_set :: "'s workload_api \<Rightarrow> string \<Rightarrow> json \<Rightarrow> json \<Rightarrow> string \<Rightarrow> json \<Rightarrow> ('s, unit) act" where
  "write_set api ns d r field v =
     thenA (is_live api ''Deployment'' ns d) (\<lambda>alive.
       if \<not> alive then doneA ()
       else thenA (liftA (ok_or Panicked (set_at r [''spec'', field] v))) (replace_object api ''ReplicaSet'' ns))"

fun prune_sets :: "'s workload_api \<Rightarrow> string \<Rightarrow> json \<Rightarrow> json list \<Rightarrow> json list \<Rightarrow> ('s, unit) act" where
  "prune_sets api ns d pods [] = doneA ()"
| "prune_sets api ns d pods (r # rs) =
     (if list_ex (\<lambda>p. owned p r) pods then prune_sets api ns d pods rs
      else thenA (is_live api ''Deployment'' ns d) (\<lambda>alive.
        if alive then thenA (delete_object api ''ReplicaSet'' ns r) (\<lambda>_. prune_sets api ns d pods rs)
        else prune_sets api ns d pods rs))"

definition others :: "nat \<Rightarrow> 'a list \<Rightarrow> 'a list" where
  "others new xs = take new xs @ drop (Suc new) xs"

definition rollout_complete :: "json list \<Rightarrow> nat \<Rightarrow> int \<Rightarrow> (workload_error, bool) result" where
  "rollout_complete sets new desired =
     (if count (sets ! new) ''availableReplicas'' < desired then Inr False
      else map_sum id (\<lambda>n. n = desired \<and> list_all (\<lambda>r. replicas r = Inr 0) (others new sets)) (replicas (sets ! new)))"

definition prunable :: "json list \<Rightarrow> nat \<Rightarrow> json list" where
  "prunable sets new = filter (\<lambda>r. observed r \<and> count r ''replicas'' = 0) (others new sets)"

definition finish_rollout :: "'s workload_api \<Rightarrow> string \<Rightarrow> json \<Rightarrow> json list \<Rightarrow> nat \<Rightarrow> int \<Rightarrow> ('s, unit) act" where
  "finish_rollout api ns d sets new desired =
     thenA (liftA (rollout_complete sets new desired)) (\<lambda>complete.
       if \<not> complete then doneA ()
       else
         let keep = nat (or_default 10 (as_u64 (at d [''spec'', ''revisionHistoryLimit'']))); old = prunable sets new in
         if length old > keep
         then thenA (list_all_of api ''Pod'' (Some ns)) (\<lambda>pods. prune_sets api ns d pods (take (length old - keep) old))
         else doneA ())"

definition scale_sets :: "'s workload_api \<Rightarrow> string \<Rightarrow> json \<Rightarrow> json list \<Rightarrow> nat \<Rightarrow> int \<Rightarrow> ('s, unit) act" where
  "scale_sets api ns d sets new desired =
     thenA (liftA (rollout_plan d sets new)) (\<lambda>p. case p of
       None \<Rightarrow> finish_rollout api ns d sets new desired
     | Some (i, k) \<Rightarrow>
         if recreate d \<and> i = new \<and> k > 0
         then thenA (list_all_of api ''Pod'' (Some ns)) (\<lambda>pods.
           if list_ex (\<lambda>p. active p \<and> list_ex (owned p) (others new sets)) pods then doneA ()
           else write_set api ns d (sets ! i) ''replicas'' (JInt k))
         else write_set api ns d (sets ! i) ''replicas'' (JInt k))"

definition create_set :: "'s workload_api \<Rightarrow> string \<Rightarrow> json \<Rightarrow> json list \<Rightarrow> int \<Rightarrow> ('s, unit) act" where
  "create_set api ns d sets minimum =
     thenA (is_live api ''Deployment'' ns d) (\<lambda>alive.
       if \<not> alive then doneA ()
       else thenA (liftA (new_set api d sets minimum)) (\<lambda>v. thenA (wl_create api ''ReplicaSet'' ns v) (\<lambda>_. doneA ())))"

definition roll_sets :: "'s workload_api \<Rightarrow> string \<Rightarrow> json \<Rightarrow> json list \<Rightarrow> int \<Rightarrow> int \<Rightarrow> ('s, unit) act" where
  "roll_sets api ns d sets desired minimum =
     thenA (liftA (ok_or Panicked (current sets d))) (\<lambda>cur. case cur of
       None \<Rightarrow> create_set api ns d sets minimum
     | Some new \<Rightarrow>
         if or_default 0 (as_i64 (at (sets ! new) [''spec'', ''minReadySeconds''])) \<noteq> minimum
         then write_set api ns d (sets ! new) ''minReadySeconds'' (JInt minimum)
         else scale_sets api ns d sets new desired)"

definition adopt_set :: "'s workload_api \<Rightarrow> string \<Rightarrow> json \<Rightarrow> json \<Rightarrow> json list \<Rightarrow> ('s, unit) act" where
  "adopt_set api ns d r refs =
     thenA (is_live api ''Deployment'' ns d) (\<lambda>alive.
       if \<not> alive then doneA () else thenA (liftA (with_owners r refs)) (replace_object api ''ReplicaSet'' ns))"

definition own_sets :: "json \<Rightarrow> json list \<Rightarrow> json list" where
  "own_sets d xs = sort_key age_key (filter (\<lambda>r. owned r d \<and> active r) xs)"

definition deployment_sync :: "'s workload_api \<Rightarrow> string \<Rightarrow> json \<Rightarrow> json list \<Rightarrow> ('s, unit) act" where
  "deployment_sync api ns d xs =
     thenA (liftA (replicas d)) (\<lambda>desired.
     thenA (liftA (minimum_ready d)) (\<lambda>minimum.
     thenA (liftA (template_metadata (at d [''spec'', ''template'']))) (\<lambda>_.
     if uses_hash d then failA (Bad_workload ''Deployment cannot supply the controller-owned pod-template-hash label'')
     else case claim_target 0 d xs of
         Some (_, r, refs) \<Rightarrow> adopt_set api ns d r refs
       | None \<Rightarrow> if paused d then doneA () else roll_sets api ns d (own_sets d xs) desired minimum)))"

subsection \<open>The status of a Deployment\<close>

definition status_int :: "json \<Rightarrow> string \<Rightarrow> int" where
  "status_int old field = or_default 0 (as_i64 (idx old field))"

definition sum_of :: "json list \<Rightarrow> string \<Rightarrow> int" where
  "sum_of sets field = sum_list (map (\<lambda>r. count r field) sets)"

definition progressed :: "json \<Rightarrow> json list \<Rightarrow> int \<Rightarrow> bool" where
  "progressed d sets updated \<longleftrightarrow>
     (let old = idx d ''status'' in
      idx old ''observedGeneration'' \<noteq> at d [''metadata'', ''generation'']
      \<or> updated > status_int old ''updatedReplicas'' \<or> sum_of sets ''availableReplicas'' > status_int old ''availableReplicas''
      \<or> sum_of sets ''readyReplicas'' > status_int old ''readyReplicas''
      \<or> sum_of sets ''replicas'' - updated < status_int old ''replicas'' - status_int old ''updatedReplicas'')"

definition past_deadline :: "(string \<Rightarrow> int option) \<Rightarrow> int \<Rightarrow> json \<Rightarrow> bool" where
  "past_deadline inst now d \<longleftrightarrow>
     (case List.find (\<lambda>c. idx c ''type'' = JStr ''Progressing'') (items (at d [''status'', ''conditions''])) of
        None \<Rightarrow> False
      | Some c \<Rightarrow> idx c ''reason'' = JStr ''ProgressDeadlineExceeded''
          \<or> (case Option.bind (as_str (idx c ''lastUpdateTime'')) inst of
               None \<Rightarrow> False
             | Some t \<Rightarrow> whole_seconds (now - t) \<ge> or_default 600 (as_i64 (at d [''spec'', ''progressDeadlineSeconds'']))))"

definition progress_state :: "(string \<Rightarrow> int option) \<Rightarrow> int \<Rightarrow> json \<Rightarrow> bool \<Rightarrow> bool \<Rightarrow> string \<times> string" where
  "progress_state inst now d complete moved =
     (if paused d then (''Unknown'', ''DeploymentPaused'')
      else if complete then (''True'', ''NewReplicaSetAvailable'')
      else if \<not> moved \<and> past_deadline inst now d then (''False'', ''ProgressDeadlineExceeded'')
      else (''True'', ''ReplicaSetUpdated''))"

definition failed_create :: "json list \<Rightarrow> json option" where
  "failed_create sets = List.find (\<lambda>c. idx c ''type'' = JStr ''ReplicaFailure'' \<and> idx c ''status'' = JStr ''True'')
     (concat (map (\<lambda>r. items (at r [''status'', ''conditions''])) sets))"

definition failure_condition :: "string \<Rightarrow> json \<Rightarrow> json list \<Rightarrow> workload_error option \<Rightarrow> json list" where
  "failure_condition time old sets err =
     (let c = (\<lambda>reason message. condition_of time old \<lparr>cs_kind = ''ReplicaFailure'', cs_status = ''True'', cs_reason = reason,
          cs_message = message, cs_update = False, cs_deployment = True\<rparr>) in
      case err of
        Some e \<Rightarrow> [c ''FailedManageReplicaSets'' (failure_text e)]
      | None \<Rightarrow> (case failed_create sets of
          None \<Rightarrow> []
        | Some f \<Rightarrow> [c ''FailedCreate'' (or_default ''ReplicaSet reconciliation failed'' (as_str (idx f ''message'')))]))"

definition deployment_status :: "'s workload_api \<Rightarrow> int \<Rightarrow> json \<Rightarrow> json list \<Rightarrow> workload_error option \<Rightarrow> json option" where
  "deployment_status api now d sets err =
     map_option (\<lambda>new.
       let desired = (case replicas d of Inr n \<Rightarrow> n | Inl _ \<Rightarrow> 0); old = idx d ''status''; time = wl_stamp api now;
           total = sum_of sets ''replicas''; ready = sum_of sets ''readyReplicas''; available = sum_of sets ''availableReplicas'';
           updated = (case new of None \<Rightarrow> 0 | Some i \<Rightarrow> count (sets ! i) ''replicas'');
           complete = (updated = desired \<and> total = desired \<and> available \<ge> desired);
           unavailable = (if recreate d then 0 else case bounds d of Inr (_, n) \<Rightarrow> n | Inl _ \<Rightarrow> 0);
           moved = progressed d sets updated;
           (state, reason) = progress_state (wl_instant api) now d complete moved;
           enough = available \<ge> desired - unavailable;
           conditions = [
             condition_of time old \<lparr>cs_kind = ''Available'', cs_status = (if enough then ''True'' else ''False''),
               cs_reason = (if enough then ''MinimumReplicasAvailable'' else ''MinimumReplicasUnavailable''),
               cs_message = ''observed ReplicaSet availability'', cs_update = False, cs_deployment = True\<rparr>,
             condition_of time old \<lparr>cs_kind = ''Progressing'', cs_status = state, cs_reason = reason,
               cs_message = ''native Deployment reconciliation'', cs_update = moved, cs_deployment = True\<rparr>]
       in JObj [(''availableReplicas'', JInt available), (''conditions'', JArr (conditions @ failure_condition time old sets err)),
         (''observedGeneration'', at d [''metadata'', ''generation'']), (''readyReplicas'', JInt ready), (''replicas'', JInt total),
         (''unavailableReplicas'', JInt (max 0 (desired - available))), (''updatedReplicas'', JInt updated)])
     (current sets d)"

definition deployment_once :: "'s workload_api \<Rightarrow> string \<Rightarrow> string \<Rightarrow> ('s, unit) act" where
  "deployment_once api ns name =
     thenA (wl_get api ''Deployment'' ns name) (\<lambda>found. case found of
       None \<Rightarrow> doneA ()
     | Some d \<Rightarrow>
         if \<not> active d then doneA ()
         else thenA (list_all_of api ''ReplicaSet'' (Some ns)) (\<lambda>xs.
           thenA (tryA (deployment_sync api ns d xs)) (\<lambda>res.
           thenA (list_all_of api ''ReplicaSet'' (Some ns)) (\<lambda>sets.
           thenA (readC (wl_clock api)) (\<lambda>now.
           thenA (liftA (ok_or Panicked (deployment_status api now d (filter (\<lambda>r. owned r d) sets) (case res of Inl e \<Rightarrow> Some e | Inr _ \<Rightarrow> None)))) (\<lambda>wanted.
           thenA (write_status api ''Deployment'' ns d wanted) (\<lambda>_. liftA res)))))))"


subsection \<open>Every change follows a live read\<close>

lemma emits_tryA: "emits m P \<Longrightarrow> emits (tryA m) (\<lambda>r new. \<exists>x. r = Inr x \<and> P x new)"
  by (fastforce simp: emits_def tryA_def split: prod.splits)

lemma sends_tryA [emit_rules]: "sends ok b m \<Longrightarrow> sends ok b (tryA m)"
  by (erule sends_map_result) (simp add: tryA_def split: prod.splits)

lemma sends_sum [emit_rules]:
  "(\<And>e. r = Inl e \<Longrightarrow> sends ok b (f e)) \<Longrightarrow> (\<And>x. r = Inr x \<Longrightarrow> sends ok b (g x)) \<Longrightarrow> sends ok b (case r of Inl e \<Rightarrow> f e | Inr x \<Rightarrow> g x)"
  by (cases r) auto

lemma sends_clock [emit_rules]: "sends ok b (readC (wl_clock (traced api)))"
  by (auto simp: sends_def emits_def readC_def traced_def split: prod.splits)

lemma sends_try_live:
  assumes "\<And>e. sends (live_answer kind ns obj) False (k (Inl e))"
    and "sends (live_answer kind ns obj) True (k (Inr True))" and "sends (live_answer kind ns obj) False (k (Inr False))"
  shows "sends (live_answer kind ns obj) b (thenA (tryA (is_live (traced api) kind ns obj)) k)"
  unfolding sends_def
proof (rule emits_thenA [OF emits_tryA [OF emits_live]])
  let ?ok = "live_answer kind ns obj"
  show "emits (k x) (\<lambda>_ new. \<forall>prev. (x = Inr True \<longrightarrow> (\<forall>c. ?ok prev c)) \<longrightarrow> allowed_after ?ok prev new)" for x
    using assms unfolding sends_def by (cases x; cases "x = Inr True") (auto simp: sum.case)
qed (auto simp: allowed_after_append)

lemma sends_create_pods: "sends (live_answer ''ReplicaSet'' ns rs) b (create_pods (traced api) ns rs meta n pods)"
proof (induction n arbitrary: pods b)
  case 0
  show ?case by (simp add: sends_doneA)
next
  case (Suc n)
  have create: "sends ok True (wl_create (traced api) ''Pod'' ns v)" for ok v by (simp add: traced_def sends_change)
  show ?case unfolding create_pods.simps
    by (rule sends_try_live) (auto intro!: sends_doneA sends_sum sends_thenA sends_tryA create Suc)
qed

lemma sends_delete_pods: "sends (live_answer ''ReplicaSet'' ns rs) b (delete_pods (traced api) ns rs ps)"
proof (induction ps arbitrary: b)
  case Nil
  show ?case by (simp add: sends_doneA)
next
  case (Cons p ps)
  show ?case unfolding delete_pods.simps
    by (rule sends_live_then) (auto intro!: sends_doneA sends_thenA sends_delete Cons)
qed

lemma sends_replica_sync: "sends (live_answer ''ReplicaSet'' ns rs) False (replica_sync (traced api) ns rs pods)"
proof -
  have claim: "sends (live_answer ''ReplicaSet'' ns rs) False (adopt_pod (traced api) ns rs pods i p refs)" for i p refs
    unfolding adopt_pod_def
    by (rule sends_try_live) (auto intro!: sends_doneA sends_sum sends_thenA sends_tryA sends_replace)
  have scale: "sends (live_answer ''ReplicaSet'' ns rs) False (scale_pods (traced api) ns rs n meta pods)" for n meta
    unfolding scale_pods_def Let_def
    by (intro sends_if sends_create_pods sends_thenA sends_tryA sends_delete_pods sends_sum sends_doneA sends_list)
  show ?thesis unfolding replica_sync_def
    by (intro sends_sum sends_pair sends_option sends_triple sends_doneA claim scale)
qed

lemma sends_write_set: "sends (live_answer ''Deployment'' ns d) b (write_set (traced api) ns d r field v)"
  unfolding write_set_def by (rule sends_live_then) (auto intro!: sends_doneA sends_liftA_then sends_replace)

lemma sends_prune_sets: "sends (live_answer ''Deployment'' ns d) False (prune_sets (traced api) ns d pods rs)"
proof (induction rs)
  case Nil
  show ?case by (simp add: sends_doneA)
next
  case (Cons r rs)
  have "sends (live_answer ''Deployment'' ns d) False (thenA (is_live (traced api) ''Deployment'' ns d) (\<lambda>alive.
      if alive then thenA (delete_object (traced api) ''ReplicaSet'' ns r) (\<lambda>_. prune_sets (traced api) ns d pods rs)
      else prune_sets (traced api) ns d pods rs))"
    by (rule sends_live_then) (auto intro!: sends_thenA sends_delete Cons)
  with Cons show ?case by (simp add: sends_if)
qed

lemma sends_roll_sets: "sends (live_answer ''Deployment'' ns d) False (roll_sets (traced api) ns d sets desired minimum)"
proof -
  have create: "sends (live_answer ''Deployment'' ns d) False (create_set (traced api) ns d sets minimum)"
    unfolding create_set_def
    by (rule sends_live_then) (auto intro!: sends_doneA sends_liftA_then sends_thenA simp: traced_def sends_change)
  have finish: "sends (live_answer ''Deployment'' ns d) False (finish_rollout (traced api) ns d sets new desired)" for new
    unfolding finish_rollout_def Let_def by (intro sends_if sends_thenA sends_liftA sends_doneA sends_list sends_prune_sets)
  have scale: "sends (live_answer ''Deployment'' ns d) False (scale_sets (traced api) ns d sets new desired)" for new
    unfolding scale_sets_def
    by (intro sends_thenA sends_liftA sends_option finish sends_pair sends_if sends_list sends_doneA sends_write_set)
  show ?thesis unfolding roll_sets_def
    by (intro sends_thenA sends_liftA sends_option create sends_if sends_write_set scale)
qed

lemma sends_deployment_sync: "sends (live_answer ''Deployment'' ns d) False (deployment_sync (traced api) ns d xs)"
proof -
  have "sends (live_answer ''Deployment'' ns d) False (adopt_set (traced api) ns d r refs)" for r refs
    unfolding adopt_set_def by (rule sends_live_then) (auto intro!: sends_doneA sends_liftA_then sends_replace)
  then show ?thesis unfolding deployment_sync_def
    by (intro sends_thenA sends_liftA sends_if sends_failA sends_option sends_triple sends_doneA sends_roll_sets)
qed


text \<open>A pass as a whole: it reads its object first.\<close>

lemma sends_pass:
  assumes "\<And>x. found = Some x \<Longrightarrow> active x \<Longrightarrow> sends (live_answer kind ns x) False (k x)"
  shows "emits (case found of None \<Rightarrow> doneA () | Some x \<Rightarrow> if \<not> active x then doneA () else k x)
    (\<lambda>_ new. new = [] \<or> (\<exists>x. found = Some x \<and> active x \<and> (\<forall>prev. allowed_after (live_answer kind ns x) prev new)))"
  using assms by (auto simp: sends_def intro!: emits_doneA elim!: emits_weaken split: option.splits)

lemma pass_changes:
  assumes pass: "\<And>found. emits (k found)
      (\<lambda>_ new. new = [] \<or> (\<exists>x. found = Some x \<and> good x \<and> (\<forall>prev. allowed_after (ok x) prev new)))"
    and run: "thenA (wl_get (traced api) kind ns name) k (s, []) = (r, t, log)" and i: "i < length log" "alters (log ! i)"
  shows "\<exists>x. log ! 0 = Got kind ns name (Inr (Some x)) \<and> good x \<and> i > 0 \<and> ok x (Some (log ! (i - 1))) (log ! i)"
proof -
  have "emits (thenA (wl_get (traced api) kind ns name) k) (\<lambda>_ new. \<exists>a later. new = Got kind ns name a # later
      \<and> (later = [] \<or> (\<exists>x. a = Inr (Some x) \<and> good x \<and> (\<forall>prev. allowed_after (ok x) prev later))))"
    by (rule emits_thenA [OF emits_get pass]) auto
  from emits_run [OF this run] obtain a later where log: "log = Got kind ns name a # later"
    and later: "later = [] \<or> (\<exists>x. a = Inr (Some x) \<and> good x \<and> (\<forall>prev. allowed_after (ok x) prev later))" by blast
  from i log have pos: "i > 0" by (cases i) (auto simp: alters_def)
  with i log later obtain x where x: "a = Inr (Some x)" "good x" "\<forall>prev. allowed_after (ok x) prev later" by auto
  then have "allowed_after (ok x) None log" by (simp add: log alters_def)
  from allowed_after_nth [OF this i] pos x log show ?thesis by simp
qed

text \<open>
  Every object that a pass of a ReplicaSet creates, replaces or deletes is changed right after a
  read of that ReplicaSet which found the uid and generation the pass started from and no deletion under
  way.
\<close>

theorem replica_set_changes_are_current:
  assumes "replicaset_once (traced api) ns name (s, []) = (r, t, log)" and "i < length log" and "alters (log ! i)"
  shows "\<exists>rs. log ! 0 = Got ''ReplicaSet'' ns name (Inr (Some rs)) \<and> active rs
    \<and> i > 0 \<and> live_answer ''ReplicaSet'' ns rs (Some (log ! (i - 1))) (log ! i)"
  by (rule pass_changes [OF sends_pass assms(1) [unfolded replicaset_once_def] assms(2,3)])
    (intro sends_thenA sends_list sends_replica_sync sends_pair sends_clock sends_status sends_liftA)

text \<open>
  C38: Every ReplicaSet that a pass of a Deployment creates, adopts, scales or prunes is changed right
  after a read of that Deployment which found the uid and generation the pass started from and no
  deletion under way.
\<close>

theorem deployment_changes_are_current:
  assumes "deployment_once (traced api) ns name (s, []) = (r, t, log)" and "i < length log" and "alters (log ! i)"
  shows "\<exists>d. log ! 0 = Got ''Deployment'' ns name (Inr (Some d)) \<and> active d
    \<and> i > 0 \<and> live_answer ''Deployment'' ns d (Some (log ! (i - 1))) (log ! i)"
  by (rule pass_changes [OF sends_pass assms(1) [unfolded deployment_once_def] assms(2,3)])
    (intro sends_thenA sends_list sends_tryA sends_deployment_sync sends_clock sends_status sends_liftA)

subsection \<open>A pass stays within its burst\<close>

text \<open>Properties of single requests, and their number, along an action.\<close>

definition only_sends :: "(api_call \<Rightarrow> bool) \<Rightarrow> ('s \<times> api_call list, 'a) act \<Rightarrow> bool" where
  "only_sends P m \<longleftrightarrow> emits m (\<lambda>_ new. \<forall>c \<in> set new. P c)"

definition at_most :: "nat \<Rightarrow> (api_call \<Rightarrow> bool) \<Rightarrow> ('s \<times> api_call list, 'a) act \<Rightarrow> bool" where
  "at_most n P m \<longleftrightarrow> emits m (\<lambda>_ new. length (filter P new) \<le> n)"

lemma only_sends_at_most: "only_sends (\<lambda>c. \<not> P c) m \<Longrightarrow> at_most n P m"
  unfolding only_sends_def at_most_def by (erule emits_weaken) (simp add: filter_empty_conv)

lemma at_most_mono: "at_most n P m \<Longrightarrow> n \<le> k \<Longrightarrow> at_most k P m"
  unfolding at_most_def by (erule emits_weaken) simp

lemma at_most_thenA: "at_most a P m \<Longrightarrow> (\<And>x. at_most b P (k x)) \<Longrightarrow> at_most (a + b) P (thenA m k)"
  unfolding at_most_def
  by (erule emits_thenA [where Q = "\<lambda>_ _ new. length (filter P new) \<le> b"]) auto

lemma only_sends_thenA: "only_sends P m \<Longrightarrow> (\<And>x. only_sends P (k x)) \<Longrightarrow> only_sends P (thenA m k)"
  unfolding only_sends_def by (erule emits_thenA [where Q = "\<lambda>_ _ new. \<forall>c \<in> set new. P c"]) auto

lemma only_sends_quiet: "only_sends P (doneA x)" "only_sends P (liftA y)" "only_sends P (failA e)"
  by (simp_all add: only_sends_def emits_doneA emits_liftA emits_failA)

lemma only_sends_note: "(\<And>r. P (f r)) \<Longrightarrow> only_sends P (note_call f m)"
  unfolding only_sends_def by (rule emits_note_call) simp

lemma only_sends_tryA: "only_sends P m \<Longrightarrow> only_sends P (tryA m)"
  unfolding only_sends_def by (drule emits_tryA) (erule emits_weaken, blast)

lemma only_sends_cases:
  "(p \<Longrightarrow> only_sends P m) \<Longrightarrow> (\<not> p \<Longrightarrow> only_sends P n) \<Longrightarrow> only_sends P (if p then m else n)"
  "(\<And>e. r = Inl e \<Longrightarrow> only_sends P (f e)) \<Longrightarrow> (\<And>x. r = Inr x \<Longrightarrow> only_sends P (g x))
     \<Longrightarrow> only_sends P (case r of Inl e \<Rightarrow> f e | Inr x \<Rightarrow> g x)"
  by (auto split: sum.splits)

lemma only_sends_live: "(\<And>r. P (Got kind ns (fst (snd (projr (identity_of obj)))) r)) \<Longrightarrow> only_sends P (is_live (traced api) kind ns obj)"
  by (cases "identity_of obj") (auto simp: is_live_def only_sends_def emits_def thenA_def liftA_def traced_def note_call_def
      split: prod.splits sum.splits)

lemma only_sends_list: "(\<And>r. P (Listed kind ns r)) \<Longrightarrow> only_sends P (list_all_of (traced api) kind ns)"
  unfolding list_all_of_def traced_def workload_api.simps
  by (intro only_sends_thenA only_sends_note) (auto intro!: only_sends_quiet only_sends_cases split: prod.splits)

lemma only_sends_replace: "(\<And>name v. P (Replaced kind ns name v)) \<Longrightarrow> only_sends P (replace_object (traced api) kind ns obj)"
  unfolding replace_object_def traced_def workload_api.simps
  by (intro only_sends_thenA only_sends_note only_sends_quiet)

definition is_creation :: "api_call \<Rightarrow> bool" where
  "is_creation c = (case c of Created _ _ _ \<Rightarrow> True | _ \<Rightarrow> False)"

definition is_deletion :: "api_call \<Rightarrow> bool" where
  "is_deletion c = (case c of Deleted _ _ _ _ _ \<Rightarrow> True | _ \<Rightarrow> False)"

lemma calls_simps [simp]:
  "is_creation (Created a b v)" "\<not> is_creation (Got a b c g)" "\<not> is_creation (Listed a d l)" "\<not> is_creation (Replaced a b c v)" "\<not> is_creation (Deleted a b c e f)"
  "is_deletion (Deleted a b c e f)" "\<not> is_deletion (Got a b c g)" "\<not> is_deletion (Listed a d l)" "\<not> is_deletion (Replaced a b c v)" "\<not> is_deletion (Created a b v)"
  by (simp_all add: is_creation_def is_deletion_def)


lemma at_most_zero: "only_sends (\<lambda>c. \<not> P c) m \<Longrightarrow> at_most 0 P m"
  by (rule only_sends_at_most)

lemma at_most_doneA: "at_most n P (doneA x)"
  by (simp add: at_most_def emits_doneA)

lemma create_pods_at_most: "at_most n is_creation (create_pods (traced api) ns rs meta n pods)"
proof (induction n arbitrary: pods)
  case 0
  show ?case by (simp add: at_most_doneA)
next
  case (Suc n)
  have live: "at_most 0 is_creation (tryA (is_live (traced api) ''ReplicaSet'' ns rs))"
    by (intro at_most_zero only_sends_tryA only_sends_live) simp
  have made: "at_most (1 + n) is_creation (thenA (tryA (wl_create (traced api) ''Pod'' ns v)) (\<lambda>r. case r of
      Inl e \<Rightarrow> doneA (Inl e, pods) | Inr p \<Rightarrow> create_pods (traced api) ns rs meta n (pods @ [p])))" for v pods
  proof (rule at_most_thenA)
    have "at_most 1 is_creation (wl_create (traced api) ''Pod'' ns v)"
      by (simp add: traced_def at_most_def emits_note_call)
    then show "at_most 1 is_creation (tryA (wl_create (traced api) ''Pod'' ns v))"
      unfolding at_most_def by (drule_tac emits_tryA) (erule emits_weaken, auto)
  qed (auto intro: at_most_doneA Suc split: sum.splits)
  show ?case unfolding create_pods.simps
    by (rule at_most_mono [OF at_most_thenA [OF live, of "1 + n"]]) (auto intro: at_most_doneA made [simplified] split: sum.splits)
qed

lemma create_pods_no_deletion: "only_sends (\<lambda>c. \<not> is_deletion c) (create_pods (traced api) ns rs meta n pods)"
proof (induction n arbitrary: pods)
  case 0
  show ?case by (simp add: only_sends_quiet)
next
  case (Suc n)
  have create: "only_sends (\<lambda>c. \<not> is_deletion c) (wl_create (traced api) ''Pod'' ns v)" for v
    by (simp add: traced_def only_sends_note)
  show ?case unfolding create_pods.simps
    by (intro only_sends_thenA only_sends_tryA only_sends_live only_sends_cases only_sends_quiet create Suc) simp_all
qed

lemma only_sends_delete:
  assumes "\<And>kind ns name uid rv. at p [''metadata'', ''uid''] = JStr uid \<Longrightarrow> P (Deleted kind ns name uid rv)"
  shows "only_sends P (delete_object (traced api) kind ns p)"
  unfolding only_sends_def by (rule emits_weaken [OF emits_delete]) (auto simp: required_text_Inr intro!: assms)

lemma delete_pods_only:
  assumes "\<And>p kind ns name uid rv. p \<in> set ps \<Longrightarrow> at p [''metadata'', ''uid''] = JStr uid \<Longrightarrow> P (Deleted kind ns name uid rv)"
    and "\<And>kind ns name r. P (Got kind ns name r)"
  shows "only_sends P (delete_pods (traced api) ns rs ps)"
  using assms(1)
proof (induction ps)
  case Nil
  show ?case by (simp add: only_sends_quiet)
next
  case (Cons p ps)
  have first: "only_sends P (delete_object (traced api) ''Pod'' ns p)"
    by (rule only_sends_delete, rule Cons.prems) simp_all
  have others: "only_sends P (delete_pods (traced api) ns rs ps)"
    by (rule Cons.IH, rule Cons.prems) simp_all
  show ?case unfolding delete_pods.simps
    by (intro only_sends_thenA only_sends_live only_sends_cases only_sends_quiet first others assms(2))
qed

lemma delete_pods_at_most: "at_most (length ps) is_deletion (delete_pods (traced api) ns rs ps)"
proof (induction ps)
  case Nil
  show ?case by (simp add: at_most_doneA)
next
  case (Cons p ps)
  have live: "at_most 0 is_deletion (is_live (traced api) ''ReplicaSet'' ns rs)"
    by (intro at_most_zero only_sends_live) simp
  have "at_most 1 is_deletion (delete_object (traced api) ''Pod'' ns p)"
    unfolding at_most_def by (rule emits_weaken [OF emits_delete]) auto
  from at_most_thenA [OF this Cons] have "at_most (1 + length ps) is_deletion
      (thenA (delete_object (traced api) ''Pod'' ns p) (\<lambda>_. delete_pods (traced api) ns rs ps))" .
  then show ?case unfolding delete_pods.simps
    by (intro at_most_mono [OF at_most_thenA [OF live, of "1 + length ps"]]) (auto intro: at_most_doneA)
qed

text \<open>What one pass over \<open>pods\<close> may send: at most a burst of the missing Pods, or a burst of the surplus ones.\<close>

definition within_burst :: "nat \<Rightarrow> json list \<Rightarrow> api_call list \<Rightarrow> bool" where
  "within_burst desired selected log \<longleftrightarrow>
     length (filter is_creation log) \<le> min BURST (desired - length selected)
     \<and> length (filter is_deletion log) \<le> min BURST (length selected - desired)
     \<and> (\<forall>kind ns name uid rv. Deleted kind ns name uid rv \<in> set log
          \<longrightarrow> (\<exists>p \<in> set (victims desired selected). at p [''metadata'', ''uid''] = JStr uid))"

lemma within_burst_still: "(\<forall>c \<in> set log. \<not> is_creation c \<and> \<not> is_deletion c) \<Longrightarrow> within_burst desired selected log"
  by (force simp: within_burst_def filter_empty_conv)

lemma emits_conj: "emits m P \<Longrightarrow> emits m Q \<Longrightarrow> emits m (\<lambda>r new. P r new \<and> Q r new)"
  unfolding emits_def by (metis same_append_eq)

lemma only_sends_weaken: "only_sends P m \<Longrightarrow> (\<And>c. P c \<Longrightarrow> Q c) \<Longrightarrow> only_sends Q m"
  unfolding only_sends_def by (erule emits_weaken) blast

definition victim_call :: "json list \<Rightarrow> api_call \<Rightarrow> bool" where
  "victim_call vs c \<longleftrightarrow> \<not> is_creation c \<and> (\<forall>kind ns name uid rv. c = Deleted kind ns name uid rv
     \<longrightarrow> (\<exists>p \<in> set vs. at p [''metadata'', ''uid''] = JStr uid))"

lemma scale_down_within_burst:
  assumes "desired < length sel"
    and rest: "\<And>r. only_sends (\<lambda>c. \<not> is_creation c \<and> \<not> is_deletion c) (rest r)"
  shows "emits (thenA (tryA (delete_pods (traced api) ns rs (victims desired sel))) rest) (\<lambda>_. within_burst desired sel)"
proof -
  let ?n = "min BURST (length sel - desired)" and ?v = "victims desired sel"
  have "length ?v \<le> ?n" by (simp add: victims_def)
  note del = at_most_mono [OF delete_pods_at_most this]
  have "at_most (?n + 0) is_deletion (thenA (tryA (delete_pods (traced api) ns rs ?v)) rest)"
  proof (rule at_most_thenA)
    show "at_most ?n is_deletion (tryA (delete_pods (traced api) ns rs ?v))"
      using emits_tryA [OF del [unfolded at_most_def]] unfolding at_most_def by (rule emits_weaken) blast
    show "at_most 0 is_deletion (rest r)" for r
      by (rule at_most_zero, rule only_sends_weaken [OF rest]) simp
  qed
  moreover have "only_sends (victim_call ?v) (thenA (tryA (delete_pods (traced api) ns rs ?v)) rest)"
  proof (rule only_sends_thenA [OF only_sends_tryA])
    show "only_sends (victim_call ?v) (delete_pods (traced api) ns rs ?v)"
      by (rule delete_pods_only) (auto simp: victim_call_def)
    show "only_sends (victim_call ?v) (rest r)" for r
      by (rule only_sends_weaken [OF rest]) (auto simp: victim_call_def)
  qed
  ultimately show ?thesis
    unfolding at_most_def only_sends_def
  proof (rule emits_weaken [OF emits_conj])
    fix new
    assume "length (filter is_deletion new) \<le> ?n + 0 \<and> (\<forall>c \<in> set new. victim_call ?v c)"
    then show "within_burst desired sel new"
      by (auto simp: within_burst_def victim_call_def filter_empty_conv)
  qed
qed

lemma scale_pods_within_burst:
  "emits (scale_pods (traced api) ns rs desired meta pods)
     (\<lambda>_. within_burst desired (filter (\<lambda>p. owned p rs \<and> active p) pods))"
proof -
  let ?sel = "filter (\<lambda>p. owned p rs \<and> active p) pods"
  consider (less) "length ?sel < desired" | (more) "desired < length ?sel" | (same) "length ?sel = desired" by linarith
  then show ?thesis
  proof cases
    case less
    then have s: "scale_pods (traced api) ns rs desired meta pods
        = create_pods (traced api) ns rs meta (min BURST (desired - length ?sel)) pods" by (simp add: scale_pods_def)
    show ?thesis unfolding s
      by (rule emits_weaken [OF emits_conj [OF create_pods_at_most [unfolded at_most_def] create_pods_no_deletion [unfolded only_sends_def]]])
        (force simp: within_burst_def filter_empty_conv)
  next
    case more
    then show ?thesis
      unfolding scale_pods_def Let_def
      by (simp, intro scale_down_within_burst only_sends_cases only_sends_quiet only_sends_thenA only_sends_tryA only_sends_list) simp_all
  next
    case same
    then show ?thesis by (simp add: scale_pods_def emits_doneA within_burst_still)
  qed
qed


lemma calm_within_burst: "only_sends (\<lambda>c. \<not> is_creation c \<and> \<not> is_deletion c) m \<Longrightarrow> emits m (\<lambda>_. within_burst n sel)"
  unfolding only_sends_def by (erule emits_weaken) (rule within_burst_still)

lemma replica_sync_within_burst:
  assumes "replicas rs = Inr n"
  shows "emits (replica_sync (traced api) ns rs pods) (\<lambda>_. within_burst (nat n) (filter (\<lambda>p. owned p rs \<and> active p) pods))"
proof -
  let ?calm = "\<lambda>c. \<not> is_creation c \<and> \<not> is_deletion c"
  have claim: "only_sends ?calm (adopt_pod (traced api) ns rs pods i p refs)" for i p refs
    unfolding adopt_pod_def
    by (intro only_sends_thenA only_sends_tryA only_sends_live only_sends_cases only_sends_quiet only_sends_replace) simp_all
  show ?thesis
  proof (cases "replica_checks rs")
    case (Inl e)
    then show ?thesis by (simp add: replica_sync_def calm_within_burst only_sends_quiet)
  next
    case (Inr x)
    with assms obtain meta where x: "replica_checks rs = Inr (nat n, meta)"
      by (auto simp: replica_checks_def andThen_Inr_iff)
    show ?thesis
    proof (cases "claim_target 0 rs pods")
      case None
      with x show ?thesis by (simp add: replica_sync_def scale_pods_within_burst)
    next
      case (Some y)
      with x claim show ?thesis by (cases y) (simp add: replica_sync_def calm_within_burst)
    qed
  qed
qed

lemma victims_unready_first:
  assumes "p \<in> set (victims n pods)" and "pod_ready p" and "q \<in> set pods" and "\<not> pod_ready q"
  shows "q \<in> set (victims n pods)"
proof -
  let ?xs = "sort_key deletion_key pods" and ?k = "min BURST (length pods - n)"
  from assms(1) obtain i where i: "i < ?k" "i < length ?xs" "?xs ! i = p" by (auto simp: victims_def in_set_conv_nth)
  from assms(3) have "q \<in> set ?xs" by simp
  then obtain j where j: "j < length ?xs" "?xs ! j = q" unfolding in_set_conv_nth by blast
  have "\<not> i \<le> j"
  proof
    assume "i \<le> j"
    with j have "deletion_key (?xs ! i) \<le> deletion_key (?xs ! j)"
      using sorted_nth_mono [OF sorted_sort_key, of i j deletion_key pods] by simp
    with i j assms(2,4) show False by (simp add: deletion_key_def less_eq_prod_def)
  qed
  with i j have "j < length (victims n pods)" "victims n pods ! j = q" by (simp_all add: victims_def)
  then show ?thesis by (metis nth_mem)
qed


definition demo_replica_set :: "int \<Rightarrow> json" where
  "demo_replica_set n = JObj [(''apiVersion'', JStr ''apps/v1''), (''kind'', JStr ''ReplicaSet''),
     (''metadata'', JObj [(''generation'', JInt 1), (''name'', JStr ''r''), (''namespace'', JStr ''d''), (''uid'', JStr ''u1'')]),
     (''spec'', JObj [(''replicas'', JInt n), (''selector'', JObj [(''matchLabels'', JObj [(''app'', JStr ''web'')])]),
        (''template'', JObj [(''metadata'', JObj [(''labels'', JObj [(''app'', JStr ''web'')])]), (''spec'', JObj [])])])]"

definition workload_server :: "json \<Rightarrow> unit workload_api" where
  "workload_server x = demo_server\<lparr>wl_get := (\<lambda>kind ns name. doneA (Some x)), wl_list := (\<lambda>kind ns. doneA ([], None))\<rparr>"


lemma replica_set_changes_are_current_witness:
  "\<exists>log i. i < length log \<and> alters (log ! i) \<and> live_answer ''ReplicaSet'' ''d'' (demo_replica_set 1) (Some (log ! (i - 1))) (log ! i)"
proof -
  let ?run = "replicaset_once (traced (workload_server (demo_replica_set 1))) ''d'' ''r'' ((), [])"
  obtain r t log where run: "?run = (r, t, log)" by (cases ?run)
  have "3 < length (snd (snd ?run)) \<and> alters (snd (snd ?run) ! 3) \<and> snd (snd ?run) ! 0 = Got ''ReplicaSet'' ''d'' ''r'' (Inr (Some (demo_replica_set 1)))"
    by code_simp
  then have log: "3 < length log" "alters (log ! 3)" "log ! 0 = Got ''ReplicaSet'' ''d'' ''r'' (Inr (Some (demo_replica_set 1)))"
    by (simp_all only: run snd_conv)
  from replica_set_changes_are_current [OF run log(1,2)] log show ?thesis by (intro exI [of _ log] exI [of _ 3]) auto
qed

definition demo_deployment :: json where
  "demo_deployment = JObj [(''apiVersion'', JStr ''apps/v1''), (''kind'', JStr ''Deployment''),
     (''metadata'', JObj [(''generation'', JInt 1), (''name'', JStr ''w''), (''namespace'', JStr ''d''), (''uid'', JStr ''u1'')]),
     (''spec'', JObj [(''replicas'', JInt 2), (''selector'', JObj [(''matchLabels'', JObj [(''app'', JStr ''web'')])]),
        (''template'', JObj [(''metadata'', JObj [(''labels'', JObj [(''app'', JStr ''web'')])]), (''spec'', JObj [])])])]"

lemma deployment_changes_are_current_witness:
  "\<exists>log i. i < length log \<and> alters (log ! i) \<and> live_answer ''Deployment'' ''d'' demo_deployment (Some (log ! (i - 1))) (log ! i)"
proof -
  let ?run = "deployment_once (traced (workload_server demo_deployment)) ''d'' ''w'' ((), [])"
  obtain r t log where run: "?run = (r, t, log)" by (cases ?run)
  have "3 < length (snd (snd ?run)) \<and> alters (snd (snd ?run) ! 3) \<and> snd (snd ?run) ! 0 = Got ''Deployment'' ''d'' ''w'' (Inr (Some demo_deployment))"
    by code_simp
  then have log: "3 < length log" "alters (log ! 3)" "log ! 0 = Got ''Deployment'' ''d'' ''w'' (Inr (Some demo_deployment))"
    by (simp_all only: run snd_conv)
  from deployment_changes_are_current [OF run log(1,2)] log show ?thesis by (intro exI [of _ log] exI [of _ 3]) auto
qed

end
