(* ===== verification/Tokens.thy ===== *)
theory Tokens
  imports Api_Actions Node_Cidrs
begin

text \<open>
  Credentials of the API server: the bearer header (\<^verbatim>\<open>crates/h3s-apiserver/src/authn.rs\<close>) and the bound
  tokens of service accounts (\<^verbatim>\<open>token.rs\<close>).  A token is a random secret; its claims are a record of the
  registry under the digest of the secret.  SHA-256, the random source, the clock and the printing of a
  time are the record \<open>token_world\<close>; the body of the request comes decoded.
\<close>

subsection \<open>Presenting a credential\<close>

type_synonym headers = "(string \<times> string) list"

definition forbid_impersonation :: "headers \<Rightarrow> unit answer" where
  "forbid_impersonation hs =
     (if list_ex (\<lambda>h. starts_with ''impersonate-'' (fst h)) hs then fail 403 ''Forbidden'' ''impersonation is not enabled'' else Inr ())"

definition unauthorized :: "string \<Rightarrow> 'a answer" where
  "unauthorized m = fail 401 ''Unauthorized'' m"

text \<open>\<^verbatim>\<open>HeaderValue::to_str\<close> accepts visible ASCII, space and tab.\<close>

definition header_text :: "string \<Rightarrow> string option" where
  "header_text s = (if list_all (\<lambda>c. is_graphic c \<or> c = CHR '' '' \<or> c = CHR 0x09) s then Some s else None)"

definition credential :: "headers \<Rightarrow> string option answer" where
  "credential hs =
     (case map snd (filter (\<lambda>h. fst h = ''authorization'') hs) of
        [] \<Rightarrow> Inr None
      | h # rest \<Rightarrow>
          (case header_text h of None \<Rightarrow> unauthorized ''invalid bound token'' | Some v \<Rightarrow>
          (case strip_prefix ''Bearer '' v of None \<Rightarrow> unauthorized ''credentials must use Bearer'' | Some token \<Rightarrow>
             if rest \<noteq> [] then unauthorized ''exactly one credential is accepted''
             else if length token < 32 then unauthorized ''invalid bound token''
             else Inr (Some token))))"

subsection \<open>Records\<close>

record token_world =
  token_digest :: "string \<Rightarrow> string"
  random_secret :: "string option"
  unix_now :: int
  expiry_text :: "int \<Rightarrow> string option"

definition API_AUDIENCE :: string where
  "API_AUDIENCE = ''https://kubernetes.default.svc''"

definition TOKEN_PREFIX :: string where
  "TOKEN_PREFIX = ''/registry/h3s-bound-tokens/''"

definition bounded_text :: "string \<Rightarrow> bool" where
  "bounded_text s \<longleftrightarrow> 1 \<le> length s \<and> length s \<le> 256 \<and> list_all (\<lambda>c. of_char c \<ge> (32::nat) \<and> of_char c \<noteq> (127::nat)) s"

definition record_key :: "token_world \<Rightarrow> string \<Rightarrow> string answer" where
  "record_key w token = api_key (TOKEN_PREFIX @ token_digest w token)"

definition account_key :: "string \<Rightarrow> string \<Rightarrow> string answer" where
  "account_key ns name = api_key (''/registry/serviceaccounts/'' @ ns @ ''/'' @ name)"

definition invalid_token :: "'a answer" where
  "invalid_token = unauthorized ''bound token is not valid''"

subsection \<open>Issuing\<close>

record bound_ref =
  bound_kind :: string
  bound_name :: string
  bound_uid :: string

definition invalid :: "string \<Rightarrow> 'a answer" where
  "invalid m = fail 422 ''Invalid'' m"

fun read_audiences :: "string list \<Rightarrow> json list \<Rightarrow> string list answer" where
  "read_audiences seen [] = Inr seen"
| "read_audiences seen (x # xs) =
     (case as_str x of
        None \<Rightarrow> invalid ''token audiences must be non-empty printable strings up to 256 bytes''
      | Some a \<Rightarrow>
          if \<not> bounded_text a then invalid ''token audiences must be non-empty printable strings up to 256 bytes''
          else read_audiences (if a \<in> set seen then seen else seen @ [a]) xs)"

definition token_audiences :: "json \<Rightarrow> string list answer" where
  "token_audiences spec =
     andThen (read_audiences [] (items (idx spec ''audiences''))) (\<lambda>xs.
     let xs = (if xs = [] then [API_AUDIENCE] else xs) in
     if length xs > 10 then invalid ''a token may name at most 10 audiences'' else Inr xs)"

definition token_expiration :: "json \<Rightarrow> int answer" where
  "token_expiration spec =
     (let v = idx spec ''expirationSeconds'' in
      case as_i64 v of
        Some n \<Rightarrow> if 600 \<le> n \<and> n \<le> 86400 then Inr n else invalid ''expirationSeconds must be between 600 and 86400''
      | None \<Rightarrow> if is_null v then Inr 3607 else invalid ''expirationSeconds must be between 600 and 86400'')"

definition only_members :: "string set \<Rightarrow> json \<Rightarrow> bool" where
  "only_members ks v \<longleftrightarrow> (case as_object v of None \<Rightarrow> False | Some m \<Rightarrow> list_all (\<lambda>(k, _). k \<in> ks) m)"

definition text_or_empty :: "json \<Rightarrow> string \<Rightarrow> string" where
  "text_or_empty v k = or_default [] (as_str (idx v k))"

definition token_bound :: "json \<Rightarrow> bound_ref option answer" where
  "token_bound spec =
     (let r = idx spec ''boundObjectRef'' in
      if r = JNull then Inr None
      else if \<not> only_members {''apiVersion'', ''kind'', ''name'', ''uid''} r then invalid ''unsupported boundObjectRef field''
      else
        let b = \<lparr>bound_kind = text_or_empty r ''kind'', bound_name = text_or_empty r ''name'', bound_uid = text_or_empty r ''uid''\<rparr> in
        if bound_kind b \<noteq> ''Pod'' \<or> \<not> valid_node_name (bound_name b) \<or> bound_uid b = [] \<or> length (bound_uid b) > 128
           \<or> CHR 0x00 \<in> set (bound_uid b)
        then invalid ''boundObjectRef must name a Pod with kind, name and uid''
        else Inr (Some b))"

record token_claims =
  claim_audiences :: "string list"
  claim_seconds :: int
  claim_bound :: "bound_ref option"

definition token_spec :: "json \<Rightarrow> token_claims answer" where
  "token_spec v =
     (if idx v ''kind'' \<noteq> JStr ''TokenRequest'' \<or> idx v ''apiVersion'' \<noteq> JStr ''authentication.k8s.io/v1''
      then invalid ''a bound token requires an authentication.k8s.io/v1 TokenRequest''
      else let spec = idx v ''spec'' in
        if \<not> only_members {''audiences'', ''expirationSeconds'', ''boundObjectRef''} spec then invalid ''unsupported TokenRequest spec field''
        else andThen (token_audiences spec) (\<lambda>auds. andThen (token_expiration spec) (\<lambda>n. andThen (token_bound spec) (\<lambda>b.
          Inr \<lparr>claim_audiences = auds, claim_seconds = n, claim_bound = b\<rparr>))))"

definition not_running :: "'a answer" where
  "not_running = deny ''a node may only mint a token bound to a Pod it is running''"

definition node_may_mint :: "env \<Rightarrow> registry \<Rightarrow> user \<Rightarrow> string \<Rightarrow> token_claims \<Rightarrow> unit answer" where
  "node_may_mint a db u ns c =
     (case node_name u of None \<Rightarrow> Inr () | Some node \<Rightarrow>
     (case claim_bound c of None \<Rightarrow> not_running | Some b \<Rightarrow>
        andThen (api_key (''/registry/pods/'' @ ns @ ''/'' @ bound_name b)) (\<lambda>k.
        andThen (api_get a db k) (\<lambda>found. case found of None \<Rightarrow> not_running | Some ob \<Rightarrow>
        andThen (object a ob) (\<lambda>pod.
          if as_str (at pod [''metadata'', ''uid'']) \<noteq> Some (bound_uid b) \<or> as_str (at pod [''spec'', ''nodeName'']) \<noteq> Some node
          then not_running else Inr ())))))"

definition minting_account :: "env \<Rightarrow> registry \<Rightarrow> string \<Rightarrow> string \<Rightarrow> json answer" where
  "minting_account a db ns name =
     andThen (account_key ns name) (\<lambda>k. andThen (api_get a db k) (\<lambda>found.
     case found of None \<Rightarrow> fail 404 ''NotFound'' ''service account not found'' | Some ob \<Rightarrow>
     andThen (object a ob) (\<lambda>v.
       if \<not> is_null (at v [''metadata'', ''deletionTimestamp'']) then deny ''service account is terminating'' else Inr v)))"

definition bound_json :: "bound_ref option \<Rightarrow> json" where
  "bound_json b = (case b of None \<Rightarrow> JNull | Some r \<Rightarrow>
     JObj [(''kind'', JStr (bound_kind r)), (''name'', JStr (bound_name r)), (''uid'', JStr (bound_uid r))])"

definition token_record :: "string \<Rightarrow> string \<Rightarrow> json \<Rightarrow> token_claims \<Rightarrow> int \<Rightarrow> json" where
  "token_record ns name account c expires = JObj [(''audiences'', JArr (map JStr (claim_audiences c))), (''bound'', bound_json (claim_bound c)),
     (''expiration'', JInt expires), (''namespace'', JStr ns), (''service_account'', JStr name),
     (''uid'', at account [''metadata'', ''uid'']), (''version'', JInt 1)]"

definition token_reply :: "json \<Rightarrow> token_claims \<Rightarrow> string \<Rightarrow> string \<Rightarrow> json" where
  "token_reply v c issued until = JObj [(''apiVersion'', JStr ''authentication.k8s.io/v1''), (''kind'', JStr ''TokenRequest''),
     (''metadata'', idx v ''metadata''),
     (''spec'', JObj [(''audiences'', JArr (map JStr (claim_audiences c))), (''boundObjectRef'', at v [''spec'', ''boundObjectRef'']),
        (''expirationSeconds'', JInt (claim_seconds c))]),
     (''status'', JObj [(''expirationTimestamp'', JStr until), (''token'', JStr issued)])]"

record token_request =
  request_method :: string
  request_params :: "string list"
  request_body :: "json answer"

definition token_target :: "token_request \<Rightarrow> target \<Rightarrow> (string \<times> string) answer" where
  "token_target q t =
     (if request_method q \<noteq> ''POST'' then fail 405 ''MethodNotAllowed'' ''a bound token requires POST''
      else if list_ex (\<lambda>k. k \<noteq> ''timeout'') (request_params q)
      then fail 400 ''BadRequest'' ''a bound token accepts only the client timeout parameter''
      else case namespace t of None \<Rightarrow> invalid ''a bound token requires a namespace'' | Some ns \<Rightarrow>
        (case tname t of None \<Rightarrow> invalid ''a bound token requires a service account'' | Some name \<Rightarrow> Inr (ns, name)))"

definition issue_token :: "env \<Rightarrow> token_world \<Rightarrow> string \<Rightarrow> string \<Rightarrow> json \<Rightarrow> token_claims \<Rightarrow> json \<Rightarrow> json action" where
  "issue_token a w ns name v c account =
     bindA (pureA (no_panic (case random_secret w of None \<Rightarrow> fail 500 ''InternalError'' ''token generation unavailable'' | Some s \<Rightarrow> Inr s))) (\<lambda>issued.
     bindA (pureA (no_panic (case checked_i64 (unix_now w + claim_seconds c) of None \<Rightarrow> invalid ''invalid token lifetime'' | Some e \<Rightarrow> Inr e))) (\<lambda>expires.
     bindA (pureA (no_panic (record_key w issued))) (\<lambda>k.
     bindA (api_create a (stored a k (token_record ns name account c expires))) (\<lambda>_.
     pureA (no_panic (case expiry_text w expires of None \<Rightarrow> invalid ''invalid token lifetime'' | Some t \<Rightarrow> Inr (token_reply v c issued t)))))))"

definition token_create :: "env \<Rightarrow> rbac_codec \<Rightarrow> token_world \<Rightarrow> user \<Rightarrow> target \<Rightarrow> token_request \<Rightarrow> json action" where
  "token_create a rc w u t q =
     bindA (pureA (no_panic (token_target q t))) (\<lambda>(ns, name).
     bindA (pureA (parse_selection [] [] (kind (resource t)))) (\<lambda>sel.
     bindA (\<lambda>db. (authorize a rc db u t ''create'' sel, db)) (\<lambda>_.
     bindA (pureA (no_panic (request_body q))) (\<lambda>v.
     bindA (pureA (no_panic (token_spec v))) (\<lambda>c.
     bindA (readA (\<lambda>db. node_may_mint a db u ns c)) (\<lambda>_.
     bindA (readA (\<lambda>db. minting_account a db ns name)) (\<lambda>account.
     issue_token a w ns name v c account)))))))"

subsection \<open>Verifying\<close>

definition presentable :: "string \<Rightarrow> bool" where
  "presentable token \<longleftrightarrow> 32 \<le> length token \<and> length token \<le> 512 \<and> list_all is_graphic token"

definition valid_name_at :: "json \<Rightarrow> string \<Rightarrow> string answer" where
  "valid_name_at v k = (case as_str (idx v k) of None \<Rightarrow> invalid_token | Some n \<Rightarrow> if valid_node_name n then Inr n else invalid_token)"

definition account_user :: "string \<Rightarrow> string \<Rightarrow> user" where
  "account_user ns name = \<lparr>user_name = ''system:serviceaccount:'' @ ns @ '':'' @ name,
     user_groups = [''system:serviceaccounts'', ''system:serviceaccounts:'' @ ns, ''system:authenticated'']\<rparr>"

definition live_record :: "token_world \<Rightarrow> json \<Rightarrow> bool" where
  "live_record w v \<longleftrightarrow> idx v ''version'' = JInt 1 \<and> (case as_i64 (idx v ''expiration'') of None \<Rightarrow> False | Some e \<Rightarrow> unix_now w \<le> e)"

definition record_user :: "env \<Rightarrow> token_world \<Rightarrow> registry \<Rightarrow> json \<Rightarrow> user answer" where
  "record_user a w db v =
     (if \<not> live_record w v then invalid_token
      else andThen (valid_name_at v ''namespace'') (\<lambda>ns. andThen (valid_name_at v ''service_account'') (\<lambda>name.
        andThen (account_key ns name) (\<lambda>k. andThen (api_get a db k) (\<lambda>found.
        case found of None \<Rightarrow> invalid_token | Some ob \<Rightarrow>
        andThen (object a ob) (\<lambda>account.
          if at account [''metadata'', ''uid''] \<noteq> idx v ''uid'' then invalid_token else Inr (account_user ns name)))))))"

definition token_authenticate :: "env \<Rightarrow> token_world \<Rightarrow> registry \<Rightarrow> string \<Rightarrow> user answer" where
  "token_authenticate a w db token =
     (if \<not> presentable token then unauthorized ''invalid bound token''
      else andThen (record_key w token) (\<lambda>k. andThen (api_get a db k) (\<lambda>found.
        case found of None \<Rightarrow> invalid_token | Some ob \<Rightarrow>
        (case from_slice a (ovalue ob) of None \<Rightarrow> invalid_token | Some v \<Rightarrow> record_user a w db v))))"

definition authenticate :: "env \<Rightarrow> token_world \<Rightarrow> registry \<Rightarrow> user option \<Rightarrow> string option \<Rightarrow> user answer" where
  "authenticate a w db peer cred =
     (case cred of
        Some token \<Rightarrow> token_authenticate a w db token
      | None \<Rightarrow> (case peer of None \<Rightarrow> unauthorized ''a trusted client certificate or bound token is required'' | Some u \<Rightarrow> Inr u))"


subsection \<open>What an issued token proves\<close>

lemma record_key_Inr: "record_key w tok = Inr k \<longleftrightarrow> k = TOKEN_PREFIX @ token_digest w tok \<and> valid_key (TOKEN_PREFIX @ token_digest w tok)"
  by (simp add: record_key_def api_key_Inr_iff)

lemma account_key_Inr: "account_key ns name = Inr k \<longleftrightarrow> k = ''/registry/serviceaccounts/'' @ ns @ ''/'' @ name \<and> valid_key k"
  by (auto simp: account_key_def api_key_Inr_iff)

lemma account_not_record: "account_key ns name = Inr k \<Longrightarrow> record_key w tok = Inr k' \<Longrightarrow> k \<noteq> k'"
  by (auto simp: account_key_Inr record_key_Inr TOKEN_PREFIX_def)

lemma read_audiences_wf: "list_all wf_json (map JStr xs)"
  by (simp add: list_all_iff)

lemma wf_token_record:
  assumes "wf_json (at account [''metadata'', ''uid''])" and "in_i64 e"
  shows "wf_json (token_record ns name account c e)"
  using assms by (cases "claim_bound c")
    (simp_all add: token_record_def bound_json_def key_sorted_def list_all_iff in_i64_def)

lemma issue_token_outcome:
  assumes "issue_token a w ns name v c account db = (Inr reply, db')"
  obtains tok e k ob until where "random_secret w = Some tok" "e = unix_now w + claim_seconds c" "in_i64 e" "record_key w tok = Inr k"
    "api_create a (stored a k (token_record ns name account c e)) db = (Inr ob, db')"
    "reply = token_reply v c tok until"
  using assms unfolding issue_token_def
  by (auto simp: action_simps no_panic_simps fail_def invalid_def checked_i64_def split: option.splits if_splits)

lemma token_expiration_range: "token_expiration spec = Inr n \<Longrightarrow> 600 \<le> n \<and> n \<le> 86400"
  by (auto simp: token_expiration_def Let_def invalid_def fail_def split: option.splits if_splits)

lemma token_spec_range: "token_spec v = Inr c \<Longrightarrow> 600 \<le> claim_seconds c \<and> claim_seconds c \<le> 86400"
  by (auto simp: token_spec_def Let_def andThen_Inr_iff invalid_def fail_def dest: token_expiration_range split: if_splits)

lemma token_create_outcome:
  assumes "token_create a rc w u t q db = (Inr reply, db')"
  obtains ns name v c account where "namespace t = Some ns" "tname t = Some name" "request_body q = Inr v" "token_spec v = Inr c"
    "node_may_mint a db u ns c = Inr ()" "minting_account a db ns name = Inr account"
    "issue_token a w ns name v c account db = (Inr reply, db')"
  using assms unfolding token_create_def token_target_def
  by (auto simp: action_simps no_panic_simps fail_def invalid_def bindA_def pureA_def readA_def split: prod.splits sum.splits option.splits if_splits)

lemma minting_account_stored:
  "minting_account a db ns name = Inr account \<Longrightarrow> \<exists>k ob. account_key ns name = Inr k \<and> api_get a db k = Inr (Some ob) \<and> object a ob = Inr account"
  by (auto simp: minting_account_def andThen_Inr_iff fail_def deny_def split: option.splits if_splits)

text \<open>
  C25: A bound token that was issued authenticates: until at least ten minutes after its issue, and as
  long as the registry is the one the issue left, the token of the reply is accepted and gives the
  user of the service account it was issued for, and no other.
\<close>

theorem issued_token_authenticates:
  assumes env: "custody a = Unsealed" "text_law (to_vec a) (from_slice a)" "wf_registry db"
    and create: "token_create a rc w u t q db = (Inr reply, db')"
    and names: "namespace t = Some ns" "tname t = Some name" "valid_node_name ns" "valid_node_name name"
    and account: "minting_account a db ns name = Inr account" "is_string (at account [''metadata'', ''uid''])"
    and token: "at reply [''status'', ''token''] = JStr tok" "presentable tok"
    and later: "token_digest w' = token_digest w" "unix_now w' \<le> unix_now w + 600"
  shows "token_authenticate a w' db' tok = Inr (account_user ns name)"
proof -
  from token_create_outcome [OF create] names account(1) obtain v c where c: "token_spec v = Inr c"
    and issue: "issue_token a w ns name v c account db = (Inr reply, db')" by (metis Inr_inject option.inject)
  from issue_token_outcome [OF issue] obtain tok' e k ob until where issued: "e = unix_now w + claim_seconds c" "in_i64 e"
      "record_key w tok' = Inr k" "api_create a (stored a k (token_record ns name account c e)) db = (Inr ob, db')"
      "reply = token_reply v c tok' until" .
  have tok: "tok' = tok" using token(1) issued(5) by (simp add: token_reply_def)
  let ?rec = "token_record ns name account c e"
  have key: "valid_key k" using issued(3) by (simp add: record_key_Inr)
  note commit = api_create_commit [OF env(1,3) key issued(4)]
  obtain uid where uid: "at account [''metadata'', ''uid''] = JStr uid" using account(2) by (cases "at account [''metadata'', ''uid'']") auto
  then have "wf_json ?rec" using issued(2) by (intro wf_token_record) simp_all
  with env(2) have decode: "from_slice a (to_vec a ?rec) = Some ?rec" by (simp add: text_law_def)
  have live: "live_record w' ?rec"
    using later(2) issued(1,2) token_spec_range [OF c] by (simp add: live_record_def token_record_def)
  from minting_account_stored [OF account(1)] obtain ak aob where stored: "account_key ns name = Inr ak" "api_get a db ak = Inr (Some aob)"
    "object a aob = Inr account" by blast
  have "api_get a db' ak = Inr (Some aob)"
    using stored(2) account_not_record [OF stored(1) issued(3)] commit(2) by (simp add: api_get_Unsealed [OF env(1)])
  with stored names(3,4) live uid have user: "record_user a w' db' ?rec = Inr (account_user ns name)"
    by (simp add: record_user_def valid_name_at_def token_record_def)
  have "record_key w' tok = Inr k" using issued(3) tok later(1) by (simp add: record_key_def)
  with token(2) user decode commit(1,2) show ?thesis
    by (simp add: token_authenticate_def api_get_Unsealed [OF env(1)])
qed

text \<open>
  C26: An accepted token is current: a record of it is in the registry and has not expired, and the
  service account it names is in the registry with the uid of the record; the user is that account's.
  So the deletion of the record or of the account, the account's replacement by one of another uid, and
  the expiry each end the token.
\<close>

theorem accepted_token_is_current:
  assumes "token_authenticate a w db tok = Inr u"
  shows "\<exists>k ob v ns name ak aob account. record_key w tok = Inr k \<and> api_get a db k = Inr (Some ob) \<and> from_slice a (ovalue ob) = Some v
    \<and> (\<exists>e. idx v ''expiration'' = JInt e \<and> unix_now w \<le> e)
    \<and> idx v ''namespace'' = JStr ns \<and> idx v ''service_account'' = JStr name
    \<and> account_key ns name = Inr ak \<and> api_get a db ak = Inr (Some aob) \<and> object a aob = Inr account
    \<and> at account [''metadata'', ''uid''] = idx v ''uid'' \<and> u = account_user ns name"
proof -
  from assms obtain k ob v where v: "record_key w tok = Inr k" "api_get a db k = Inr (Some ob)" "from_slice a (ovalue ob) = Some v"
      "record_user a w db v = Inr u"
    by (auto simp: token_authenticate_def andThen_Inr_iff unauthorized_def invalid_token_def fail_def split: if_splits option.splits)
  from v(4) obtain ns name ak aob account where "live_record w v" "idx v ''namespace'' = JStr ns" "idx v ''service_account'' = JStr name"
      "account_key ns name = Inr ak" "api_get a db ak = Inr (Some aob)" "object a aob = Inr account"
      "at account [''metadata'', ''uid''] = idx v ''uid''" "u = account_user ns name"
    by (auto simp: record_user_def valid_name_at_def andThen_Inr_iff invalid_token_def unauthorized_def fail_def as_str_Some_iff
        split: if_splits option.splits simp del: at.simps)
  moreover from this(1) have "\<exists>e. idx v ''expiration'' = JInt e \<and> unix_now w \<le> e"
    by (auto simp: live_record_def as_i64_Some_iff split: option.splits)
  ultimately show ?thesis using v by blast
qed

text \<open>
  Nothing else of the record is looked at: a token for another audience, or bound to a Pod that is gone,
  is accepted by this API.
\<close>

lemma audience_and_binding_are_not_checked:
  assumes "\<And>k. k \<in> {''version'', ''expiration'', ''namespace'', ''service_account'', ''uid''} \<Longrightarrow> idx v k = idx v' k"
  shows "record_user a w db v = record_user a w db v'"
  using assms by (simp add: record_user_def live_record_def valid_name_at_def del: at.simps)

subsection \<open>A node and the accounts of a namespace\<close>

definition token_rule :: policy_rule where
  "token_rule = \<lparr>verbs = [''create''], api_groups = Some [''''], rule_resources = Some [''serviceaccounts/token''],
     resource_names = None, non_resource_urls = None\<rparr>"

text \<open>The grant the server seeds for every node.\<close>

definition token_codec :: rbac_codec where
  "token_codec = demo_codec [(''R'', \<lparr>role_ns = None, role_name = Some ''t'', role_rules = Some [token_rule]\<rparr>)]
     [(''B'', \<lparr>binding_ns = None, binding_name = Some ''t'',
         binding_ref = \<lparr>ref_group = ''rbac.authorization.k8s.io'', ref_kind = ''ClusterRole'', ref_name = ''t''\<rparr>,
         binding_subjects = Some [\<lparr>subject_kind = ''Group'', subject_group = Some ''rbac.authorization.k8s.io'',
           subject_name = ''system:nodes'', subject_ns = None\<rparr>]\<rparr>)]"

definition web_pod_of_n1 :: json where
  "web_pod_of_n1 = JObj [(''metadata'', JObj [(''name'', JStr ''p''), (''uid'', JStr ''u9'')]),
     (''spec'', JObj [(''nodeName'', JStr ''n1''), (''serviceAccountName'', JStr ''web'')])]"

definition admin_account :: json where
  "admin_account = JObj [(''metadata'', JObj [(''name'', JStr ''admin''), (''uid'', JStr ''u1'')])]"

definition token_registry :: registry where
  "token_registry = foldl store_text empty_registry
     [(''/registry/clusterroles/t'', ''R''), (''/registry/clusterrolebindings/t'', ''B''),
      (''/registry/pods/shop/p'', frame_json web_pod_of_n1), (''/registry/serviceaccounts/shop/admin'', frame_json admin_account)]"

definition admin_token_target :: target where
  "admin_token_target = \<lparr>resource = res '''' ''serviceaccounts'' ''ServiceAccount'' True, namespace = Some ''shop'',
     tname = Some ''admin'', subresource = Some ''token''\<rparr>"

definition demo_secret :: string where
  "demo_secret = ''0123456789abcdef0123456789abcdef''"

definition token_demo :: "int \<Rightarrow> token_world" where
  "token_demo now = \<lparr>token_digest = id, random_secret = Some demo_secret, unix_now = now, expiry_text = (\<lambda>_. Some ''then'')\<rparr>"

definition pod_token_request :: token_request where
  "pod_token_request = \<lparr>request_method = ''POST'', request_params = [],
     request_body = Inr (JObj [(''apiVersion'', JStr ''authentication.k8s.io/v1''), (''kind'', JStr ''TokenRequest''),
       (''spec'', JObj [(''audiences'', JArr [JStr ''vault'']), (''boundObjectRef'', JObj [(''kind'', JStr ''Pod''), (''name'', JStr ''p''), (''uid'', JStr ''u9'')])])])\<rparr>"

definition minted :: "json guarded \<times> registry" where
  "minted = token_create framed_env token_codec (token_demo 0) node_user admin_token_target pod_token_request token_registry"

lemma minted_token:
  "is_ok (fst minted)" "at (projr (fst minted)) [''status'', ''token''] = JStr demo_secret"
  by code_simp+

text \<open>
  A node that runs a Pod of the account web gets a token of the account admin of the same namespace,
  which the API accepts as admin: only the Pod's node is looked at, not its account; nor is the
  audience vault.
\<close>

lemma node_mints_for_any_account:
  "at web_pod_of_n1 [''spec'', ''serviceAccountName''] = JStr ''web''
   \<and> token_authenticate framed_env (token_demo 0) (snd minted) demo_secret = Inr (account_user ''shop'' ''admin'')"
  by code_simp

lemma token_registry_wf: "wf_registry token_registry"
  unfolding token_registry_def by (rule wf_store_texts [OF _ wf_empty]) code_simp

lemma issued_token_authenticates_witness:
  "token_authenticate framed_env (token_demo 600) (snd minted) demo_secret = Inr (account_user ''shop'' ''admin'')"
proof -
  obtain reply db' where m: "minted = (Inr reply, db')" using minted_token(1) by (metis is_ok_iff prod.collapse)
  have tok: "at reply [''status'', ''token''] = JStr demo_secret"
    using minted_token(2) by (simp only: m fst_conv sum.sel)
  have env: "custody framed_env = Unsealed" by (simp add: framed_env_def)
  have names: "namespace admin_token_target = Some ''shop''" "tname admin_token_target = Some ''admin''"
      "valid_node_name ''shop''" "valid_node_name ''admin''" "presentable demo_secret"
    by code_simp+
  have world: "token_digest (token_demo 600) = token_digest (token_demo 0)" "unix_now (token_demo 600) \<le> unix_now (token_demo 0) + 600"
    by (simp_all add: token_demo_def)
  have "is_ok (minting_account framed_env token_registry ''shop'' ''admin'')"
      "is_string (at (projr (minting_account framed_env token_registry ''shop'' ''admin'')) [''metadata'', ''uid''])"
    by code_simp+
  then obtain account where account: "minting_account framed_env token_registry ''shop'' ''admin'' = Inr account"
      "is_string (at account [''metadata'', ''uid''])" by (metis is_ok_iff sum.sel(2))
  from issued_token_authenticates [OF env framed_env_law token_registry_wf m [unfolded minted_def] names(1-4) account tok names(5) world]
  show ?thesis by (simp add: m)
qed

lemma accepted_token_is_current_witness:
  "\<exists>k ob. record_key (token_demo 0) demo_secret = Inr k \<and> api_get framed_env (snd minted) k = Inr (Some ob)"
  using accepted_token_is_current [OF conjunct2 [OF node_mints_for_any_account]] by blast

end
