(* ===== verification/Node_Controller.thy ===== *)
theory Node_Controller
  imports Workload Node_Cidrs
begin

text \<open>
  The controller that gives every Node its Pod subnet (\<^verbatim>\<open>crates/h3s-controllers/src/node_cidrs.rs\<close>).  One
  pass reads the server's ledger and all Nodes, keeps or chooses a subnet for each, patches the Node and
  books the subnet in its copy of the ledger.  The API is the argument \<open>api\<close>; a typed Node is the record
  of the fields the pass reads.
\<close>

record node_fields =
  nv_deleting :: bool
  nv_name :: "string option"
  nv_uid :: "string option"
  nv_version :: "string option"
  nv_cidr :: "string option"
  nv_cidrs :: "string list option"

record 's cidr_api =
  ca_ledger :: "('s, node_cidr_allocations) act"
  ca_nodes :: "('s, node_fields list \<times> string option) act"
  ca_patch :: "string \<Rightarrow> json \<Rightarrow> ('s, unit) act"

definition from_ledger :: "(string, 'a) result \<Rightarrow> (workload_error, 'a) result" where
  "from_ledger r = map_err Bad_workload r"

definition node_patch :: "string \<Rightarrow> string \<Rightarrow> string \<Rightarrow> json" where
  "node_patch uid rv cidr = JObj [(''metadata'', JObj [(''resourceVersion'', JStr rv), (''uid'', JStr uid)]),
     (''spec'', JObj [(''podCIDR'', JStr cidr), (''podCIDRs'', JArr [JStr cidr])])]"

definition existing_cidr :: "node_fields \<Rightarrow> string option" where
  "existing_cidr n = filled (nv_cidr n)"

text \<open>The subnet of a Node, with the ledger after a subnet it already has is booked.\<close>

definition choose_cidr :: "'n ipnet \<Rightarrow> node_cidr_allocations \<Rightarrow> string \<Rightarrow> node_fields \<Rightarrow> (workload_error, string \<times> node_cidr_allocations) result" where
  "choose_cidr ip l name n =
     (case existing_cidr n of
        Some c \<Rightarrow> andThen (from_ledger (reserve ip l name c)) (\<lambda>(_, l'). Inr (c, l'))
      | None \<Rightarrow> andThen (from_ledger (next_cidr ip l name)) (\<lambda>c. Inr (c, l)))"

definition assign_node :: "'n ipnet \<Rightarrow> 's cidr_api \<Rightarrow> node_cidr_allocations \<Rightarrow> node_fields \<Rightarrow> ('s, node_cidr_allocations) act" where
  "assign_node ip api l n =
     (if nv_deleting n then doneA l
      else
        thenA (liftA (ok_or (Bad_workload ''Node name missing'') (nv_name n))) (\<lambda>name.
        thenA (liftA (ok_or (Bad_workload ''Node UID missing'') (nv_uid n))) (\<lambda>uid.
        thenA (liftA (ok_or (Bad_workload ''Node resourceVersion missing'') (nv_version n))) (\<lambda>rv.
        thenA (liftA (choose_cidr ip l name n)) (\<lambda>(cidr, l).
          if existing_cidr n = Some cidr \<and> nv_cidrs n = Some [cidr] then doneA l
          else thenA (ca_patch api name (node_patch uid rv cidr)) (\<lambda>_.
            thenA (liftA (from_ledger (reserve ip l name cidr))) (\<lambda>(_, l). doneA l)))))))"

definition node_cidrs_once :: "'n ipnet \<Rightarrow> 's cidr_api \<Rightarrow> ('s, node_cidr_allocations) act" where
  "node_cidrs_once ip api =
     thenA (ca_ledger api) (\<lambda>l.
     thenA (liftA (from_ledger (validate ip l))) (\<lambda>_.
     thenA (ca_nodes api) (\<lambda>(nodes, cont).
       if filled cont \<noteq> None \<or> length nodes > 4096
       then failA (Bad_workload ''node CIDR controller requires a complete bounded Node snapshot'')
       else foldA (assign_node ip api) l nodes)))"

subsection \<open>Every Node gets a subnet of its own\<close>

definition booked_for :: "node_cidr_allocations \<Rightarrow> node_fields \<Rightarrow> bool" where
  "booked_for l n \<longleftrightarrow> nv_deleting n \<or> (\<exists>name cidr. nv_name n = Some name \<and> map_of (reservations l) name = Some cidr
     \<and> (\<forall>c. existing_cidr n = Some c \<longrightarrow> c = cidr))"

definition grown :: "node_cidr_allocations \<Rightarrow> node_cidr_allocations \<Rightarrow> bool" where
  "grown l l' \<longleftrightarrow> map_of (reservations l) \<subseteq>\<^sub>m map_of (reservations l')"

lemma grown_refl [simp]: "grown l l"
  by (simp add: grown_def)

lemma grown_trans: "grown l m \<Longrightarrow> grown m n \<Longrightarrow> grown l n"
  unfolding grown_def by (rule map_le_trans)

lemma booked_grown: "booked_for l n \<Longrightarrow> grown l l' \<Longrightarrow> booked_for l' n"
  unfolding booked_for_def grown_def map_le_def by (metis domI)

lemma liftA_Inr: "liftA r s = (Inr x, t) \<longleftrightarrow> r = Inr x \<and> t = s"
  by (auto simp: liftA_def)

lemma from_ledger_Inr [simp]: "from_ledger r = Inr x \<longleftrightarrow> r = Inr x"
  by (cases r) (auto simp: from_ledger_def map_err_def)

context ipv4_networks begin

lemma reserve_grows:
  assumes "validate ip a = Inr ()" and "ledger_ok a" and "reserve ip a name cidr = Inr (new, a')"
  shows "validate ip a' = Inr () \<and> ledger_ok a' \<and> grown a a' \<and> map_of (reservations a') name = Some cidr"
proof -
  note s = reserve_sound [OF assms]
  have "grown a a'" unfolding grown_def map_le_def
    using s(3,4,7) by (metis domIff option.exhaust)
  with s show ?thesis by blast
qed

lemma assign_node_sound:
  assumes v: "validate ip l = Inr ()" "ledger_ok l" and run: "assign_node ip api l n s = (Inr l', t)"
  shows "validate ip l' = Inr () \<and> ledger_ok l' \<and> grown l l' \<and> booked_for l' n"
proof (cases "nv_deleting n")
  case True
  with run v show ?thesis by (simp add: assign_node_def booked_for_def)
next
  case False
  from False run obtain name uid rv cidr l1 where n: "nv_name n = Some name" and c: "choose_cidr ip l name n = Inr (cidr, l1)"
    and rest: "l' = l1 \<and> existing_cidr n = Some cidr \<or> (\<exists>new. reserve ip l1 name cidr = Inr (new, l'))"
    by (auto simp: assign_node_def thenA_Inr_iff liftA_Inr simp del: liftA_iff split: if_splits prod.splits)
  have one: "validate ip l1 = Inr () \<and> ledger_ok l1 \<and> grown l l1
      \<and> (\<forall>e. existing_cidr n = Some e \<longrightarrow> e = cidr \<and> map_of (reservations l1) name = Some cidr)"
    using c v reserve_grows [OF v] by (auto simp: choose_cidr_def andThen_Inr_iff split: option.splits)
  from rest show ?thesis
  proof
    assume "l' = l1 \<and> existing_cidr n = Some cidr"
    with one n show ?thesis by (auto simp: booked_for_def)
  next
    assume "\<exists>new. reserve ip l1 name cidr = Inr (new, l')"
    with one reserve_grows [of l1 name cidr] n show ?thesis by (auto simp: booked_for_def intro: grown_trans)
  qed
qed

lemma assign_nodes_sound:
  "validate ip l = Inr () \<Longrightarrow> ledger_ok l \<Longrightarrow> foldA (assign_node ip api) l ns s = (Inr l', t)
   \<Longrightarrow> validate ip l' = Inr () \<and> ledger_ok l' \<and> grown l l' \<and> (\<forall>n \<in> set ns. booked_for l' n)"
proof (induction ns arbitrary: l s)
  case Nil
  then show ?case by simp
next
  case (Cons n ns)
  from Cons.prems(3) obtain l1 s1 where one: "assign_node ip api l n s = (Inr l1, s1)" and rest: "foldA (assign_node ip api) l1 ns s1 = (Inr l', t)"
    by (auto simp: thenA_Inr_iff)
  from assign_node_sound [OF Cons.prems(1,2) one] have "validate ip l1 = Inr ()" "ledger_ok l1" "grown l l1" "booked_for l1 n" by auto
  with Cons.IH [OF _ _ rest] show ?case by (auto intro: grown_trans booked_grown)
qed

end


definition bare_node_api :: "unit cidr_api" where
  "bare_node_api = \<lparr>ca_ledger = doneA demo_ledger,
     ca_nodes = doneA ([\<lparr>nv_deleting = False, nv_name = Some ''b'', nv_uid = Some ''u'', nv_version = Some ''7'', nv_cidr = None, nv_cidrs = None\<rparr>], None),
     ca_patch = (\<lambda>_ _. doneA ())\<rparr>"


end
