(* ===== verification/Endpoints.thy ===== *)
theory Endpoints
  imports Workload_Sync Ipv4 Ipv6 "HOL-Library.Multiset"
begin

text \<open>
  The EndpointSlice controller (\<^verbatim>\<open>crates/h3s-controllers/src/workload/endpoints.rs\<close>): the Pods a Service
  selects, their addresses and resolved ports, the partition of the endpoints into slices, the pass
  that writes them, and the collection of slices whose Service is gone.  The lemmas show that a plan
  holds every endpoint once, in slices of bounded size, and that a pass writes only after it found the
  Service unchanged.  The text of a document is the argument \<open>txt\<close>.
\<close>

subsection \<open>Addresses\<close>

datatype ip_addr = V4 nat | V6 "nat list"

definition hex_digit :: "char \<Rightarrow> nat" where
  "hex_digit c = (if is_digit c then digit_val c else if is_lower c then of_char c - 87 else of_char c - 55)"

definition hex_value :: "string \<Rightarrow> nat" where
  "hex_value s = foldl (\<lambda>n c. 16 * n + hex_digit c) 0 s"

definition piece_groups :: "string \<Rightarrow> nat list" where
  "piece_groups p = (if CHR ''.'' \<in> set p
     then (case parse_ipv4 p of None \<Rightarrow> [] | Some n \<Rightarrow> [n div 65536, n mod 65536]) else [hex_value p])"

definition part_groups :: "string \<Rightarrow> nat list" where
  "part_groups s = (if s = [] then [] else concat (map piece_groups (split_on CHR '':'' s)))"

fun split_double :: "string \<Rightarrow> (string \<times> string) option" where
  "split_double (a # b # s) =
     (if a = CHR '':'' \<and> b = CHR '':'' then Some ([], s) else map_option (\<lambda>(x, y). (a # x, y)) (split_double (b # s)))"
| "split_double _ = None"

text \<open>The eight groups of a valid IPv6 text; \<^verbatim>\<open>::\<close> stands for the missing ones.\<close>

definition ipv6_groups :: "string \<Rightarrow> nat list" where
  "ipv6_groups s = (case split_double s of
     None \<Rightarrow> part_groups s
   | Some (l, r) \<Rightarrow> part_groups l @ replicate (8 - length (part_groups l) - length (part_groups r)) 0 @ part_groups r)"

definition parse_ip :: "string \<Rightarrow> ip_addr option" where
  "parse_ip s = (case parse_ipv4 s of
     Some n \<Rightarrow> Some (V4 n) | None \<Rightarrow> if valid_ipv6 s then Some (V6 (ipv6_groups s)) else None)"

definition hex_char :: "nat \<Rightarrow> char" where
  "hex_char d = (if d < 10 then digit_char d else char_of (87 + d))"

fun show_hex :: "nat \<Rightarrow> string" where
  "show_hex n = (if n < 16 then [hex_char n] else show_hex (n div 16) @ [hex_char (n mod 16)])"

declare show_hex.simps [simp del]

fun colons :: "nat list \<Rightarrow> string" where
  "colons [] = []"
| "colons [g] = show_hex g"
| "colons (g # gs) = show_hex g @ '':'' @ colons gs"

text \<open>The first of the longest runs of zeros, as start and length; \<open>cur\<close> is the run being read.\<close>

fun longest_run :: "nat \<Rightarrow> nat \<times> nat \<Rightarrow> nat \<times> nat \<Rightarrow> nat list \<Rightarrow> nat \<times> nat" where
  "longest_run i cur best [] = best"
| "longest_run i cur best (g # gs) =
     (if g = 0 then
        let cur = (if snd cur = 0 then i else fst cur, snd cur + 1) in
        longest_run (Suc i) cur (if snd cur > snd best then cur else best) gs
      else longest_run (Suc i) (0, 0) best gs)"

definition ipv4_mapped :: "nat list \<Rightarrow> bool" where
  "ipv4_mapped gs \<longleftrightarrow> take 6 gs = [0, 0, 0, 0, 0, 65535]"

definition show_ip :: "ip_addr \<Rightarrow> string" where
  "show_ip x = (case x of
     V4 n \<Rightarrow> show_ipv4 n
   | V6 gs \<Rightarrow>
       if ipv4_mapped gs then ''::ffff:'' @ show_ipv4 (gs ! 6 * 65536 + gs ! 7)
       else (case longest_run 0 (0, 0) (0, 0) gs of (start, n) \<Rightarrow>
         if n > 1 then colons (take start gs) @ ''::'' @ colons (drop (start + n) gs) else colons gs))"

definition is_v4 :: "ip_addr \<Rightarrow> bool" where
  "is_v4 x = (case x of V4 _ \<Rightarrow> True | V6 _ \<Rightarrow> False)"

text \<open>Not loopback, unspecified, multicast, broadcast, link-local or IPv4-mapped.\<close>

definition routable :: "ip_addr \<Rightarrow> bool" where
  "routable x = (case x of
     V4 n \<Rightarrow> n div 2 ^ 24 \<noteq> 127 \<and> n \<noteq> 0 \<and> \<not> (224 \<le> n div 2 ^ 24 \<and> n div 2 ^ 24 < 240) \<and> n \<noteq> 2 ^ 32 - 1 \<and> n div 2 ^ 16 \<noteq> 169 * 256 + 254
   | V6 gs \<Rightarrow> gs \<noteq> [0, 0, 0, 0, 0, 0, 0, 1] \<and> gs \<noteq> replicate 8 0 \<and> gs ! 0 div 256 \<noteq> 255
       \<and> gs ! 0 div 64 \<noteq> 65152 div 64 \<and> \<not> ipv4_mapped gs)"

subsection \<open>Selection and ports\<close>

definition MANAGER :: string where
  "MANAGER = ''hedronetes.io/endpointslice-controller''"

definition MANAGED_BY :: string where
  "MANAGED_BY = ''endpointslice.kubernetes.io/managed-by''"

definition SERVICE_NAME :: string where
  "SERVICE_NAME = ''kubernetes.io/service-name''"

definition managed :: "json \<Rightarrow> bool" where
  "managed slc \<longleftrightarrow> at slc [''metadata'', ''labels'', MANAGED_BY] = JStr MANAGER"

definition own_slice :: "json \<Rightarrow> json \<Rightarrow> bool" where
  "own_slice slc service \<longleftrightarrow> managed slc \<and> length (owners slc) = 1 \<and> owned slc service"

fun read_families :: "bool \<Rightarrow> bool \<Rightarrow> json list \<Rightarrow> (workload_error, bool \<times> bool) result" where
  "read_families a b [] = Inr (a, b)"
| "read_families a b (f # fs) =
     (if as_str f = Some ''IPv4'' then read_families True b fs
      else if as_str f = Some ''IPv6'' then read_families a True fs
      else Inl (Bad_workload ''invalid Service IP family''))"

definition families :: "json \<Rightarrow> (workload_error, string list) result" where
  "families service =
     andThen (read_families False False (items (at service [''spec'', ''ipFamilies'']))) (\<lambda>(a, b).
     if a \<or> b then Inr ((if a then [''IPv4''] else []) @ (if b then [''IPv6''] else []))
     else (case as_str (at service [''spec'', ''clusterIP'']) of
         None \<Rightarrow> Inr [''IPv4'']
       | Some ip \<Rightarrow>
           if ip = ''None'' then Inr [''IPv4'']
           else (case parse_ip ip of
               None \<Rightarrow> Inl (Bad_workload ''invalid Service IP'')
             | Some x \<Rightarrow> Inr [if is_v4 x then ''IPv4'' else ''IPv6'']))) "

definition selected :: "json \<Rightarrow> json \<Rightarrow> bool" where
  "selected service p \<longleftrightarrow> at p [''metadata'', ''namespace''] = at service [''metadata'', ''namespace'']
     \<and> (case as_object (at service [''spec'', ''selector'']) of
          None \<Rightarrow> False | Some m \<Rightarrow> m \<noteq> [] \<and> list_all (\<lambda>(k, v). idx (at p [''metadata'', ''labels'']) k = v) m)
     \<and> as_str (at p [''status'', ''phase'']) \<notin> {Some ''Succeeded'', Some ''Failed''}
     \<and> has_node p"

definition protocol_of :: "json \<Rightarrow> string" where
  "protocol_of p = or_default ''TCP'' (as_str (idx p ''protocol''))"

definition container_port :: "json \<Rightarrow> string \<Rightarrow> string \<Rightarrow> int option" where
  "container_port pod name protocol =
     Option.bind (List.find (\<lambda>v. idx v ''name'' = JStr name \<and> protocol_of v = protocol)
       (concat (map (\<lambda>c. items (idx c ''ports'')) (items (at pod [''spec'', ''containers''])))))
     (\<lambda>v. as_i64 (idx v ''containerPort''))"

text \<open>The number of one Service port: \<open>None\<close> skips the port, \<open>Some None\<close> is a port left open.\<close>

definition target_number :: "json option \<Rightarrow> json \<Rightarrow> string \<Rightarrow> (workload_error, int option option) result" where
  "target_number pod p protocol =
     (case as_str (idx p ''targetPort'') of
        Some name \<Rightarrow> (case pod of
            None \<Rightarrow> Inr (Some None)
          | Some pd \<Rightarrow> Inr (map_option Some (container_port pd name protocol)))
      | None \<Rightarrow> (case or_else (as_i64 (idx p ''targetPort'')) (as_i64 (idx p ''port'')) of
            None \<Rightarrow> Inl (Bad_workload ''invalid Service target port'')
          | Some n \<Rightarrow> Inr (Some (Some n))))"

definition slice_port :: "json \<Rightarrow> string \<Rightarrow> int option \<Rightarrow> json" where
  "slice_port p protocol port =
     (let m = [(''name'', JStr (or_default [] (as_str (idx p ''name'')))), (''port'', case port of None \<Rightarrow> JNull | Some n \<Rightarrow> JInt n),
        (''protocol'', JStr protocol)]
      in JObj (if idx p ''appProtocol'' = JNull then m else put ''appProtocol'' (idx p ''appProtocol'') m))"

fun resolve_ports :: "json option \<Rightarrow> json list \<Rightarrow> (workload_error, json list) result" where
  "resolve_ports pod [] = Inr []"
| "resolve_ports pod (p # ps) =
     (let protocol = protocol_of p in
      if protocol \<notin> {''TCP'', ''UDP'', ''SCTP''} then Inl (Bad_workload ''invalid Service port protocol'')
      else andThen (target_number pod p protocol) (\<lambda>r. case r of
          None \<Rightarrow> resolve_ports pod ps
        | Some port \<Rightarrow>
            if (case port of None \<Rightarrow> False | Some n \<Rightarrow> \<not> (1 \<le> n \<and> n \<le> 65535)) then Inl (Bad_workload ''invalid endpoint port'')
            else andThen (resolve_ports pod ps) (\<lambda>rest. Inr (slice_port p protocol port # rest))))"

definition port_set :: "(json \<Rightarrow> string) \<Rightarrow> json \<Rightarrow> json option \<Rightarrow> (workload_error, json list) result" where
  "port_set txt service pod = andThen (resolve_ports pod (items (at service [''spec'', ''ports'']))) (\<lambda>ps. Inr (sort_key txt ps))"

definition pod_ips :: "json \<Rightarrow> string list" where
  "pod_ips p = List.map_filter (\<lambda>x. as_str (idx x ''ip'')) (items (at p [''status'', ''podIPs'']))
     @ (case as_str (at p [''status'', ''podIP'']) of None \<Rightarrow> [] | Some s \<Rightarrow> [s])"

definition pod_address :: "json \<Rightarrow> string \<Rightarrow> ip_addr option" where
  "pod_address p family = List.find (\<lambda>x. is_v4 x = (family = ''IPv4'') \<and> routable x) (List.map_filter parse_ip (pod_ips p))"

subsection \<open>The slices of a Service\<close>

type_synonym group = "json list \<times> json list"

definition endpoint_of :: "json \<Rightarrow> string \<Rightarrow> string \<Rightarrow> json \<Rightarrow> ip_addr \<Rightarrow> string \<Rightarrow> string \<Rightarrow> json" where
  "endpoint_of service ns name p ip pod_name pod_uid =
     (let serving = list_ex ready_condition (items (at p [''status'', ''conditions'']));
          terminating = \<not> is_null (at p [''metadata'', ''deletionTimestamp'']);
          ready = at service [''spec'', ''publishNotReadyAddresses''] = JBool True \<or> (serving \<and> \<not> terminating);
          m = [(''addresses'', JArr [JStr (show_ip ip)]),
            (''conditions'', JObj [(''ready'', JBool ready), (''serving'', JBool serving), (''terminating'', JBool terminating)]),
            (''nodeName'', at p [''spec'', ''nodeName'']),
            (''targetRef'', JObj [(''apiVersion'', JStr ''v1''), (''kind'', JStr ''Pod''), (''name'', JStr pod_name), (''namespace'', JStr ns), (''uid'', JStr pod_uid)])]
      in JObj (if at p [''spec'', ''subdomain''] = JStr name \<and> filled (as_str (at p [''spec'', ''hostname''])) \<noteq> None
               then put ''hostname'' (at p [''spec'', ''hostname'']) m else m))"

text \<open>The contribution of one Pod, none where it has no address of the family or none of the ports.\<close>

definition pod_endpoint :: "(json \<Rightarrow> string) \<Rightarrow> json \<Rightarrow> string \<Rightarrow> string \<Rightarrow> string \<Rightarrow> json \<Rightarrow> (workload_error, (json list \<times> json) option) result" where
  "pod_endpoint txt service ns name family p =
     (case pod_address p family of
        None \<Rightarrow> Inr None
      | Some ip \<Rightarrow> andThen (port_set txt service (Some p)) (\<lambda>ports.
          if ports = [] then Inr None
          else andThen (identity_of p) (\<lambda>(_, pod_name, pod_uid). Inr (Some (ports, endpoint_of service ns name p ip pod_name pod_uid)))))"

definition group_endpoint :: "(json \<Rightarrow> string) \<Rightarrow> (string \<times> group) list \<Rightarrow> json list \<Rightarrow> json \<Rightarrow> (string \<times> group) list" where
  "group_endpoint txt groups ports e =
     (let key = txt (JArr ports) in
      case map_of groups key of
        None \<Rightarrow> put key (ports, [e]) groups
      | Some (ps, es) \<Rightarrow> put key (ps, es @ [e]) groups)"

fun group_pods :: "(json \<Rightarrow> string) \<Rightarrow> json \<Rightarrow> string \<Rightarrow> string \<Rightarrow> string \<Rightarrow> (string \<times> group) list \<Rightarrow> json list
    \<Rightarrow> (workload_error, (string \<times> group) list) result" where
  "group_pods txt service ns name family groups [] = Inr groups"
| "group_pods txt service ns name family groups (p # ps) =
     andThen (pod_endpoint txt service ns name family p) (\<lambda>r.
       group_pods txt service ns name family (case r of None \<Rightarrow> groups | Some (ports, e) \<Rightarrow> group_endpoint txt groups ports e) ps)"

definition SLICE_SIZE :: nat where
  "SLICE_SIZE = 100"

definition slice_count :: "nat \<Rightarrow> nat" where
  "slice_count n = max 1 ((n + (SLICE_SIZE - 1)) div SLICE_SIZE)"

text \<open>\<^verbatim>\<open>name.get(..n)\<close> fails inside a character.\<close>

definition name_prefix :: "string \<Rightarrow> string" where
  "name_prefix name =
     (let cut = min (length name) 34;
          p = (if cut < length name \<and> of_char (name ! cut) \<ge> (128::nat) \<and> of_char (name ! cut) < (192::nat) then ''service'' else take cut name)
      in rev (dropWhile (\<lambda>c. c = CHR ''-'' \<or> c = CHR ''.'') (rev p)))"

definition slice_name :: "(json \<Rightarrow> string) \<Rightarrow> string \<Rightarrow> string \<Rightarrow> string \<Rightarrow> string \<Rightarrow> nat \<Rightarrow> string" where
  "slice_name hash name uid family key chunk =
     name_prefix name @ ''-'' @ take 20 (hash (JArr [JStr uid, JStr family, JStr key, JInt (int chunk)]))"

definition endpoint_order :: "(json \<Rightarrow> string) \<Rightarrow> json \<Rightarrow> string \<times> string" where
  "endpoint_order txt e = (txt (at e [''targetRef'', ''uid'']), txt (idx e ''addresses''))"

definition slice_of :: "json \<Rightarrow> string \<Rightarrow> string \<Rightarrow> string \<Rightarrow> string \<Rightarrow> json list \<Rightarrow> json list \<Rightarrow> json" where
  "slice_of service ns name family slc ports es =
     JObj [(''addressType'', JStr family), (''apiVersion'', JStr ''discovery.k8s.io/v1''), (''endpoints'', JArr es), (''kind'', JStr ''EndpointSlice''),
       (''metadata'', JObj [(''labels'', JObj [(MANAGED_BY, JStr MANAGER), (SERVICE_NAME, JStr name)]), (''name'', JStr slc), (''namespace'', JStr ns),
          (''ownerReferences'', JArr [owner_ref service])]),
       (''ports'', JArr ports)]"

definition group_slices :: "(json \<Rightarrow> string) \<Rightarrow> (json \<Rightarrow> string) \<Rightarrow> json \<Rightarrow> string \<Rightarrow> string \<Rightarrow> string \<Rightarrow> string \<Rightarrow> string \<times> group \<Rightarrow> json list" where
  "group_slices txt hash service ns name uid family g =
     (case g of (key, ports, es) \<Rightarrow>
        let es = sort_key (endpoint_order txt) es in
        map (\<lambda>c. slice_of service ns name family (slice_name hash name uid family key c) ports
          (take SLICE_SIZE (drop (c * SLICE_SIZE) es))) [0..<slice_count (length es)])"

definition family_slices :: "(json \<Rightarrow> string) \<Rightarrow> (json \<Rightarrow> string) \<Rightarrow> json \<Rightarrow> json list \<Rightarrow> string \<Rightarrow> string \<Rightarrow> string \<Rightarrow> string
    \<Rightarrow> (workload_error, json list) result" where
  "family_slices txt hash service pods ns name uid family =
     andThen (group_pods txt service ns name family [] (filter (selected service) pods)) (\<lambda>groups.
     andThen (if groups = [] then andThen (port_set txt service None) (\<lambda>ports. Inr [(txt (JArr ports), ports, [])]) else Inr groups) (\<lambda>groups.
     Inr (concat (map (group_slices txt hash service ns name uid family) groups))))"

fun all_slices :: "('f \<Rightarrow> (workload_error, json list) result) \<Rightarrow> 'f list \<Rightarrow> (workload_error, json list) result" where
  "all_slices f [] = Inr []"
| "all_slices f (x # xs) = andThen (f x) (\<lambda>a. andThen (all_slices f xs) (\<lambda>b. Inr (a @ b)))"

definition slice_plan :: "(json \<Rightarrow> string) \<Rightarrow> (json \<Rightarrow> string) \<Rightarrow> json \<Rightarrow> json list \<Rightarrow> (workload_error, json list) result" where
  "slice_plan txt hash service pods =
     andThen (identity_of service) (\<lambda>(ns, name, uid).
     if at service [''spec'', ''type''] = JStr ''ExternalName'' \<or> or_default [] (as_object (at service [''spec'', ''selector''])) = [] then Inr []
     else andThen (families service) (\<lambda>fs.
       andThen (all_slices (family_slices txt hash service pods ns name uid) fs) (\<lambda>wanted.
       if length wanted > LIMIT then Inl (Bad_workload ''too many desired EndpointSlices'') else Inr wanted)))"


subsection \<open>A pass over the slices\<close>

definition same_service :: "json \<Rightarrow> string \<Rightarrow> json option \<Rightarrow> bool" where
  "same_service old uid found \<longleftrightarrow> (case found of
     None \<Rightarrow> False
   | Some s \<Rightarrow> at s [''metadata'', ''uid''] = JStr uid \<and> is_null (at s [''metadata'', ''deletionTimestamp''])
       \<and> as_str (at s [''metadata'', ''resourceVersion'']) = as_str (at old [''metadata'', ''resourceVersion'']))"

definition unchanged :: "'s workload_api \<Rightarrow> string \<Rightarrow> json \<Rightarrow> ('s, bool) act" where
  "unchanged api ns old =
     thenA (liftA (identity_of old)) (\<lambda>(_, name, uid).
     thenA (wl_get api ''Service'' ns name) (\<lambda>found. doneA (same_service old uid found)))"

fun set_all :: "json \<Rightarrow> (string list \<times> json) list \<Rightarrow> json option" where
  "set_all v [] = Some v"
| "set_all v ((path, x) # rest) = Option.bind (set_at v path x) (\<lambda>w. set_all w rest)"

definition next_slice :: "json \<Rightarrow> json \<Rightarrow> (workload_error, json) result" where
  "next_slice existing v = ok_or Panicked (set_all existing
     (map (\<lambda>f. ([f], idx v f)) [''addressType'', ''endpoints'', ''ports'']
      @ map (\<lambda>l. ([''metadata'', ''labels'', l], at v [''metadata'', ''labels'', l])) [MANAGED_BY, SERVICE_NAME]))"

text \<open>One slice of the plan; the answer is whether the pass goes on.\<close>

definition publish_slice :: "'s workload_api \<Rightarrow> string \<Rightarrow> json \<Rightarrow> json list \<Rightarrow> json \<Rightarrow> ('s, bool) act" where
  "publish_slice api ns service slices v =
     thenA (liftA (required_text (idx v ''metadata'') ''name'')) (\<lambda>name.
     case List.find (\<lambda>s. at s [''metadata'', ''name''] = JStr name) slices of
       Some existing \<Rightarrow>
         if \<not> own_slice existing service then failA (Bad_workload ''EndpointSlice name is owned by another manager or Service'')
         else thenA (liftA (next_slice existing v)) (\<lambda>nxt.
           if nxt = existing then doneA True
           else thenA (unchanged api ns service) (\<lambda>ok.
             if \<not> ok then doneA False
             else thenA (replace_object api ''EndpointSlice'' ns nxt) (\<lambda>_. doneA True)))
     | None \<Rightarrow> thenA (unchanged api ns service) (\<lambda>ok.
         if \<not> ok then doneA False
         else thenA (liftA (ok_or Bad_json (wl_typed api ''EndpointSlice'' v))) (\<lambda>w.
           thenA (wl_create api ''EndpointSlice'' ns w) (\<lambda>_. doneA True))))"

definition collect_slice :: "'s workload_api \<Rightarrow> string \<Rightarrow> json \<Rightarrow> string list \<Rightarrow> json \<Rightarrow> ('s, bool) act" where
  "collect_slice api ns service names slc =
     (if \<not> own_slice slc service then doneA True
      else thenA (liftA (required_text (idx slc ''metadata'') ''name'')) (\<lambda>name.
        if name \<in> set names then doneA True
        else thenA (unchanged api ns service) (\<lambda>ok.
          if \<not> ok then doneA False
          else thenA (delete_object api ''EndpointSlice'' ns slc) (\<lambda>_. doneA True))))"

fun while_ok :: "('a \<Rightarrow> ('s, bool) act) \<Rightarrow> 'a list \<Rightarrow> ('s, bool) act" where
  "while_ok f [] = doneA True"
| "while_ok f (x # xs) = thenA (f x) (\<lambda>ok. if ok then while_ok f xs else doneA False)"

definition write_slices :: "'s workload_api \<Rightarrow> string \<Rightarrow> json \<Rightarrow> json list \<Rightarrow> json list \<Rightarrow> ('s, unit) act" where
  "write_slices api ns service slices vs =
     thenA (liftA (try_map (\<lambda>v. required_text (idx v ''metadata'') ''name'') vs)) (\<lambda>names.
     thenA (while_ok (publish_slice api ns service slices) vs) (\<lambda>ok.
     if \<not> ok then doneA ()
     else thenA (while_ok (collect_slice api ns service names) slices) (\<lambda>_. doneA ())))"

definition endpoints_once :: "(json \<Rightarrow> string) \<Rightarrow> 's workload_api \<Rightarrow> string \<Rightarrow> string \<Rightarrow> ('s, unit) act" where
  "endpoints_once txt api ns name =
     thenA (wl_get api ''Service'' ns name) (\<lambda>found. case found of
       None \<Rightarrow> doneA ()
     | Some service \<Rightarrow>
         if \<not> is_null (at service [''metadata'', ''deletionTimestamp'']) then doneA ()
         else thenA (list_all_of api ''Pod'' (Some ns)) (\<lambda>pods.
           thenA (list_all_of api ''EndpointSlice'' (Some ns)) (\<lambda>slices.
           thenA (liftA (slice_plan txt (wl_hash api) service pods)) (\<lambda>vs.
           write_slices api ns service slices vs))))"

definition gc_slice :: "'s workload_api \<Rightarrow> nat \<Rightarrow> json \<Rightarrow> ('s, nat) act" where
  "gc_slice api removed slc =
     (if \<not> managed slc \<or> length (owners slc) \<noteq> 1 then doneA removed
      else case controller_ref slc of
          None \<Rightarrow> doneA removed
        | Some r \<Rightarrow>
            if idx r ''kind'' \<noteq> JStr ''Service'' \<or> idx r ''apiVersion'' \<noteq> JStr ''v1'' then doneA removed
            else thenA (liftA (identity_of slc)) (\<lambda>(ns, _, _).
              thenA (liftA (required_text r ''name'')) (\<lambda>name.
              thenA (wl_get api ''Service'' ns name) (\<lambda>found.
                if (case found of None \<Rightarrow> False | Some s \<Rightarrow> as_str (at s [''metadata'', ''uid'']) = as_str (idx r ''uid'')) then doneA removed
                else thenA (delete_object api ''EndpointSlice'' ns slc) (\<lambda>gone. doneA (if gone then removed + 1 else removed))))))"

definition endpoint_gc_once :: "'s workload_api \<Rightarrow> ('s, nat) act" where
  "endpoint_gc_once api = thenA (list_all_of api ''EndpointSlice'' None) (foldA (gc_slice api) 0)"

subsection \<open>A plan holds every endpoint once\<close>

definition endpoints_in :: "json list \<Rightarrow> json list" where
  "endpoints_in slices = concat (map (\<lambda>s. items (idx s ''endpoints'')) slices)"

lemma endpoints_in_simps [simp]: "endpoints_in [] = []" "endpoints_in (xs @ ys) = endpoints_in xs @ endpoints_in ys"
  by (simp_all add: endpoints_in_def)

lemma idx_slice_of [simp]: "idx (slice_of service ns name family n ports es) ''endpoints'' = JArr es"
  by (simp add: slice_of_def)

lemma slice_of_name: "at (slice_of service ns name family n ports es) [''metadata'', ''name''] = JStr n"
  by (simp add: slice_of_def)

lemma concat_chunks: "concat (map (\<lambda>c. take n (drop (c * n) xs)) [0..<m]) = take (m * n) xs"
proof (induction m)
  case (Suc m)
  have "take (Suc m * n) xs = take (m * n) xs @ take n (drop (m * n) xs)" using take_add [of "m * n" n xs] by (simp add: add.commute)
  with Suc show ?case by simp
qed simp

lemma enough_chunks: "n \<le> slice_count n * SLICE_SIZE"
proof -
  have "n \<le> (n + 99) div 100 * 100"
    using div_mult_mod_eq [of "n + 99" 100] mod_less_divisor [of 100 "n + 99"] by linarith
  also have "\<dots> \<le> slice_count n * SLICE_SIZE" by (simp add: slice_count_def SLICE_SIZE_def)
  finally show ?thesis .
qed

lemma group_slices_endpoints:
  "endpoints_in (group_slices txt hash service ns name uid family (key, ports, es)) = sort_key (endpoint_order txt) es"
proof -
  let ?es = "sort_key (endpoint_order txt) es"
  have "endpoints_in (group_slices txt hash service ns name uid family (key, ports, es))
      = concat (map (\<lambda>c. take SLICE_SIZE (drop (c * SLICE_SIZE) ?es)) [0..<slice_count (length es)])"
    by (simp add: endpoints_in_def group_slices_def Let_def o_def)
  also have "\<dots> = take (slice_count (length es) * SLICE_SIZE) ?es" by (rule concat_chunks)
  also have "\<dots> = ?es" using enough_chunks [of "length es"] by simp
  finally show ?thesis .
qed

definition group_content :: "(string \<times> group) list \<Rightarrow> json multiset" where
  "group_content groups = mset (concat (map (\<lambda>(_, _, es). es) groups))"

lemma group_content_simps [simp]:
  "group_content [] = {#}" "group_content ((k, ps, es) # gs) = mset es + group_content gs"
  by (simp_all add: group_content_def)

lemma group_content_sub: "map_of groups k = Some (qs, ds) \<Longrightarrow> mset ds \<subseteq># group_content groups"
proof (induction groups)
  case (Cons g groups)
  obtain j ps es where g: "g = (j, ps, es)" by (cases g) auto
  show ?case
  proof (cases "j = k")
    case True
    with Cons.prems g show ?thesis by simp
  next
    case False
    with Cons g have "mset ds \<subseteq># group_content groups" by simp
    then show ?thesis unfolding g group_content_simps by (rule subset_mset.order_trans) simp
  qed
qed simp

lemma group_content_put:
  "key_sorted groups \<Longrightarrow> group_content (put k (ps, es @ [e]) groups)
     = (case map_of groups k of None \<Rightarrow> mset es + {#e#} + group_content groups
        | Some (qs, ds) \<Rightarrow> mset es + {#e#} + (group_content groups - mset ds))"
proof (induction groups)
  case Nil
  then show ?case by simp
next
  case (Cons g groups)
  obtain j qs ds where g: "g = (j, qs, ds)" by (cases g) auto
  have tail: "key_sorted groups" and low: "\<forall>x \<in> fst ` set groups. j < x"
    using Cons.prems by (auto simp: g key_sorted_def)
  show ?case
  proof (cases "k < j")
    case True
    with low have "map_of groups k = None" by (auto simp: map_of_eq_None_iff)
    with True g show ?thesis by auto
  next
    case False
    with Cons.IH [OF tail] g show ?thesis
      by (auto split: option.splits simp: subset_mset.add_diff_assoc dest: group_content_sub)
  qed
qed

lemma group_endpoint_content:
  "key_sorted groups \<Longrightarrow> group_content (group_endpoint txt groups ports e) = add_mset e (group_content groups)
     \<and> key_sorted (group_endpoint txt groups ports e)"
  using group_content_put [of groups "txt (JArr ports)" ports "[]" e]
  by (auto simp: group_endpoint_def Let_def group_content_put dest!: group_content_sub split: option.splits)


definition contribution :: "(json \<Rightarrow> string) \<Rightarrow> json \<Rightarrow> string \<Rightarrow> string \<Rightarrow> string \<Rightarrow> json \<Rightarrow> json option" where
  "contribution txt service ns name family p =
     (case pod_endpoint txt service ns name family p of Inr (Some (_, e)) \<Rightarrow> Some e | _ \<Rightarrow> None)"

definition service_endpoints :: "(json \<Rightarrow> string) \<Rightarrow> json \<Rightarrow> string \<Rightarrow> string \<Rightarrow> json list \<Rightarrow> string \<Rightarrow> json list" where
  "service_endpoints txt service ns name pods family =
     List.map_filter (contribution txt service ns name family) (filter (selected service) pods)"

lemma group_pods_content:
  "group_pods txt service ns name family groups ps = Inr gs \<Longrightarrow> key_sorted groups
   \<Longrightarrow> group_content gs = group_content groups + mset (List.map_filter (contribution txt service ns name family) ps)"
proof (induction ps arbitrary: groups)
  case Nil
  then show ?case by simp
next
  case (Cons p ps)
  from Cons.prems(1) obtain r where r: "pod_endpoint txt service ns name family p = Inr r"
    and rest: "group_pods txt service ns name family (case r of None \<Rightarrow> groups | Some (ports, e) \<Rightarrow> group_endpoint txt groups ports e) ps = Inr gs"
    by (auto simp: andThen_Inr_iff)
  show ?case
  proof (cases r)
    case None
    with Cons.IH [OF rest] Cons.prems(2) r show ?thesis by (simp add: contribution_def)
  next
    case (Some pe)
    obtain ports e where pe: "pe = (ports, e)" by (cases pe)
    from group_endpoint_content [OF Cons.prems(2), of "txt" ports e] Cons.IH [OF rest] r Some pe show ?thesis
      by (simp add: contribution_def)
  qed
qed

lemma groups_slices_content:
  "mset (endpoints_in (concat (map (group_slices txt hash service ns name uid family) groups))) = group_content groups"
proof (induction groups)
  case (Cons g groups)
  obtain key ports es where "g = (key, ports, es)" by (cases g)
  with Cons show ?case by (simp add: group_slices_endpoints)
qed simp

lemma family_slices_content:
  assumes "family_slices txt hash service pods ns name uid family = Inr slices"
  shows "mset (endpoints_in slices) = mset (service_endpoints txt service ns name pods family)"
proof -
  from assms obtain groups groups' where g: "group_pods txt service ns name family [] (filter (selected service) pods) = Inr groups"
    and g': "(if groups = [] then andThen (port_set txt service None) (\<lambda>ports. Inr [(txt (JArr ports), ports, [])]) else Inr groups) = Inr groups'"
    and slices: "slices = concat (map (group_slices txt hash service ns name uid family) groups')"
    by (auto simp: family_slices_def andThen_Inr_iff)
  have "group_content groups' = group_content groups" using g' by (auto simp: andThen_Inr_iff split: if_splits)
  moreover have "group_content groups = mset (service_endpoints txt service ns name pods family)"
    using group_pods_content [OF g] by (simp add: service_endpoints_def)
  ultimately show ?thesis by (simp add: slices groups_slices_content)
qed

lemma group_slices_size: "s \<in> set (group_slices txt hash service ns name uid family g) \<Longrightarrow> length (items (idx s ''endpoints'')) \<le> SLICE_SIZE"
  by (cases g) (auto simp: group_slices_def Let_def)

lemma family_slices_size:
  "family_slices txt hash service pods ns name uid family = Inr slices \<Longrightarrow> \<forall>s \<in> set slices. length (items (idx s ''endpoints'')) \<le> SLICE_SIZE"
  using group_slices_size by (fastforce simp: family_slices_def andThen_Inr_iff)

lemma all_slices_content:
  assumes "\<And>x a. f x = Inr a \<Longrightarrow> mset (endpoints_in a) = mset (g x) \<and> (\<forall>s \<in> set a. P s)"
  shows "all_slices f xs = Inr slices \<Longrightarrow> mset (endpoints_in slices) = mset (concat (map g xs)) \<and> (\<forall>s \<in> set slices. P s)"
proof (induction xs arbitrary: slices)
  case (Cons x xs)
  then obtain a b where "f x = Inr a" "all_slices f xs = Inr b" "slices = a @ b" by (auto simp: andThen_Inr_iff)
  with Cons.IH [of b] assms [of x a] show ?case by auto
qed simp

text \<open>
  C18: The plan of a Service partitions its endpoints: over its address families, the slices hold
  exactly the endpoints of the selected Pods that have an address of the family and a port, each once;
  no slice holds more than a hundred, and there are no more slices than a listing can return.
\<close>

theorem slice_plan_partitions:
  assumes "slice_plan txt hash service pods = Inr slices" and "identity_of service = Inr (ns, name, uid)"
    and "at service [''spec'', ''type''] \<noteq> JStr ''ExternalName''" and "families service = Inr fs"
  shows "mset (endpoints_in slices) = mset (concat (map (service_endpoints txt service ns name pods) fs))
    \<and> (\<forall>s \<in> set slices. length (items (idx s ''endpoints'')) \<le> SLICE_SIZE) \<and> length slices \<le> LIMIT"
proof (cases "or_default [] (as_object (at service [''spec'', ''selector''])) = []")
  case True
  then have "\<not> selected service p" for p by (auto simp: selected_def split: option.splits simp del: at.simps)
  then have "service_endpoints txt service ns name pods f = []" for f by (simp add: service_endpoints_def)
  moreover have "slices = []" using assms True by (simp add: slice_plan_def)
  ultimately show ?thesis by (simp add: concat_eq_Nil_conv [THEN iffD2])
next
  case False
  with assms have s: "all_slices (family_slices txt hash service pods ns name uid) fs = Inr slices" "length slices \<le> LIMIT"
    by (auto simp: slice_plan_def andThen_Inr_iff split: if_splits simp del: at.simps)
  from all_slices_content [OF _ s(1), of "service_endpoints txt service ns name pods" "\<lambda>s. length (items (idx s ''endpoints'')) \<le> SLICE_SIZE"]
  show ?thesis using s(2) family_slices_content family_slices_size by blast
qed

subsection \<open>Every write follows a read of the Service\<close>

definition service_answer :: "string \<Rightarrow> json \<Rightarrow> api_call option \<Rightarrow> api_call \<Rightarrow> bool" where
  "service_answer ns service prev c \<longleftrightarrow> (case prev of
     Some (Got k n name (Inr found)) \<Rightarrow> k = ''Service'' \<and> n = ns
       \<and> (case identity_of service of Inr (_, name', uid) \<Rightarrow> name = name' \<and> same_service service uid found | Inl _ \<Rightarrow> False)
   | _ \<Rightarrow> False)"

lemma emits_unchanged:
  "emits (unchanged (traced api) ns service) (\<lambda>r new. (\<forall>prev. allowed_after (service_answer ns service) prev new)
     \<and> (r = Inr True \<longrightarrow> new \<noteq> [] \<and> (\<forall>c. service_answer ns service (Some (last new)) c)))"
proof (cases "identity_of service")
  case (Inl e)
  then show ?thesis by (simp add: unchanged_def thenA_def liftA_def emits_def)
next
  case (Inr x)
  then show ?thesis
    by (cases x) (auto simp: unchanged_def emits_def thenA_def liftA_def traced_def note_call_def service_answer_def alters_def
        split: prod.splits sum.splits)
qed

lemma sends_unchanged_then:
  assumes "sends (service_answer ns service) True m" and "sends (service_answer ns service) False n"
  shows "sends (service_answer ns service) b (thenA (unchanged (traced api) ns service) (\<lambda>ok. if \<not> ok then n else m))"
  unfolding sends_def
proof (rule emits_thenA [OF emits_unchanged])
  let ?ok = "service_answer ns service"
  show "emits (if \<not> x then n else m) (\<lambda>_ new. \<forall>prev. (x \<longrightarrow> (\<forall>c. ?ok prev c)) \<longrightarrow> allowed_after ?ok prev new)" for x
    using assms unfolding sends_def by (cases x) simp_all
qed (auto simp: allowed_after_append)

lemma sends_while_ok: "(\<And>x. x \<in> set xs \<Longrightarrow> sends ok False (f x)) \<Longrightarrow> sends ok False (while_ok f xs)"
proof (induction xs)
  case Nil
  show ?case by (simp add: sends_doneA)
next
  case (Cons x xs)
  then show ?case unfolding while_ok.simps by (intro sends_thenA sends_if sends_doneA) auto
qed

lemma sends_write_slices: "sends (service_answer ns service) False (write_slices (traced api) ns service slices vs)"
proof -
  have create: "sends ok True (wl_create (traced api) ''EndpointSlice'' ns v)" for ok v by (simp add: traced_def sends_change)
  have "sends (service_answer ns service) False (publish_slice (traced api) ns service slices v)" for v
    unfolding publish_slice_def
    by (intro sends_liftA_then sends_option sends_if sends_failA sends_doneA sends_unchanged_then sends_thenA sends_replace create)
  moreover have "sends (service_answer ns service) False (collect_slice (traced api) ns service names s)" for names s
    unfolding collect_slice_def
    by (intro sends_liftA_then sends_if sends_doneA sends_unchanged_then sends_thenA sends_delete)
  ultimately show ?thesis unfolding write_slices_def
    by (intro sends_thenA sends_liftA sends_while_ok sends_if sends_doneA)
qed

text \<open>
  Every EndpointSlice a pass creates, updates or deletes is changed right after a read of the Service
  which found the uid and resource version the slices were computed from and no deletion under way.
\<close>

theorem endpoint_changes_are_current:
  assumes "endpoints_once txt (traced api) ns name (s, []) = (r, t, log)" and "i < length log" and "alters (log ! i)"
  shows "\<exists>service. log ! 0 = Got ''Service'' ns name (Inr (Some service))
    \<and> i > 0 \<and> service_answer ns service (Some (log ! (i - 1))) (log ! i)"
proof -
  let ?k = "\<lambda>service. thenA (list_all_of (traced api) ''Pod'' (Some ns)) (\<lambda>pods.
      thenA (list_all_of (traced api) ''EndpointSlice'' (Some ns)) (\<lambda>slices.
      thenA (liftA (slice_plan txt (wl_hash (traced api)) service pods)) (\<lambda>vs.
      write_slices (traced api) ns service slices vs)))"
  have pass: "emits (case found of None \<Rightarrow> doneA () | Some service \<Rightarrow>
        if \<not> is_null (at service [''metadata'', ''deletionTimestamp'']) then doneA () else ?k service)
      (\<lambda>_ new. new = [] \<or> (\<exists>x. found = Some x \<and> True \<and> (\<forall>prev. allowed_after (service_answer ns x) prev new)))" for found
  proof (cases found)
    case None
    then show ?thesis by (simp add: emits_doneA)
  next
    case (Some service)
    have "sends (service_answer ns service) False
        (if \<not> is_null (at service [''metadata'', ''deletionTimestamp'']) then doneA () else ?k service)"
      by (intro sends_if sends_doneA sends_thenA sends_list sends_liftA sends_write_slices)
    with Some show ?thesis unfolding sends_def by (auto elim!: emits_weaken simp del: at.simps is_null_iff)
  qed
  from pass_changes [OF pass assms(1) [unfolded endpoints_once_def] assms(2,3)] show ?thesis by simp
qed


definition web_service :: json where
  "web_service = JObj [(''apiVersion'', JStr ''v1''), (''kind'', JStr ''Service''),
     (''metadata'', JObj [(''name'', JStr ''w''), (''namespace'', JStr ''d''), (''resourceVersion'', JStr ''3''), (''uid'', JStr ''u1'')]),
     (''spec'', JObj [(''clusterIP'', JStr ''10.43.0.9''), (''ports'', JArr [JObj [(''port'', JInt 80)]]), (''selector'', JObj [(''app'', JStr ''web'')])])]"

definition serving_pod :: "string \<Rightarrow> string \<Rightarrow> json" where
  "serving_pod name ip = JObj [(''metadata'', JObj [(''labels'', JObj [(''app'', JStr ''web'')]), (''name'', JStr name), (''namespace'', JStr ''d''), (''uid'', JStr name)]),
     (''spec'', JObj [(''nodeName'', JStr ''n1'')]), (''status'', JObj [(''podIP'', JStr ip)])]"

definition service_pods :: "json list" where
  "service_pods = [serving_pod ''a'' ''10.42.0.5'', serving_pod ''b'' ''127.0.0.1'', serving_pod ''c'' ''10.42.0.6'']"

definition fixed_text :: "json \<Rightarrow> string" where
  "fixed_text v = (case v of JStr s \<Rightarrow> s | _ \<Rightarrow> ''0123456789abcdef0123'')"

lemma slice_plan_partitions_witness:
  "\<exists>slices. slice_plan fixed_text fixed_text web_service service_pods = Inr slices
     \<and> mset (endpoints_in slices) = mset (concat (map (service_endpoints fixed_text web_service ''d'' ''w'' service_pods) [''IPv4'']))"
proof -
  have "is_ok (slice_plan fixed_text fixed_text web_service service_pods)" by code_simp
  then obtain slices where s: "slice_plan fixed_text fixed_text web_service service_pods = Inr slices" by (auto simp: is_ok_iff)
  have f: "identity_of web_service = Inr (''d'', ''w'', ''u1'')" "at web_service [''spec'', ''type''] \<noteq> JStr ''ExternalName''"
      "families web_service = Inr [''IPv4'']" by code_simp+
  from slice_plan_partitions [OF s f] s show ?thesis by blast
qed

lemma endpoint_changes_are_current_witness:
  "\<exists>log i. i < length log \<and> alters (log ! i) \<and> service_answer ''d'' web_service (Some (log ! (i - 1))) (log ! i)"
proof -
  let ?run = "endpoints_once fixed_text (traced ((workload_server web_service)\<lparr>wl_hash := fixed_text\<rparr>)) ''d'' ''w'' ((), [])"
  obtain r t log where run: "?run = (r, t, log)" by (cases ?run)
  have "4 < length (snd (snd ?run)) \<and> alters (snd (snd ?run) ! 4) \<and> snd (snd ?run) ! 0 = Got ''Service'' ''d'' ''w'' (Inr (Some web_service))"
    by code_simp
  then have log: "4 < length log" "alters (log ! 4)" "log ! 0 = Got ''Service'' ''d'' ''w'' (Inr (Some web_service))"
    by (simp_all only: run snd_conv)
  from endpoint_changes_are_current [OF run log(1,2)] log show ?thesis by (intro exI [of _ log] exI [of _ 4]) auto
qed

text \<open>Addresses are read and shown as the standard library does; a loopback address is no endpoint.\<close>

lemma address_examples:
  "map_option show_ip (parse_ip ''2001:DB8:0:0:1::9'') = Some ''2001:db8::1:0:0:9''"
  "map_option show_ip (parse_ip ''::ffff:1.2.3.4'') = Some ''::ffff:1.2.3.4''"
  "map_option show_ip (parse_ip ''fd00::'') = Some ''fd00::''"
  "pod_address (serving_pod ''b'' ''127.0.0.1'') ''IPv4'' = None"
  by code_simp+

end
