(* ===== verification/Spec2Isabelle.thy ===== *)
theory Spec2Isabelle
  imports Quantity_Exact Store_Watch Store_Keys Store_Postgres Registry_Api Node_Cidrs Authz Services Cidr_Admission Write_Laws Scheduler Proxy_Run Workload_Sync Tokens Node_Controller Endpoints
begin

text \<open>
  A verification library for h3s, a Kubernetes-compatible cluster in one program.

  The parts and how they interact.  A registry (crate \<^verbatim>\<open>h3s-storage\<close>) keeps every API object as a row of a
  versioned log in SQLite or Postgres, with one revision counter, compaction, leases and watches.  The API
  server (\<^verbatim>\<open>h3s-apiserver\<close>, with \<^verbatim>\<open>h3s-auth\<close> and the shared policies of \<^verbatim>\<open>h3s-api\<close>) is its only
  client: a request is authenticated and parsed into a target, authorized against RBAC objects and node
  relationships, decoded or patched, prepared by the strategy of its kind, admitted (Pod security, service
  accounts, volume claims, addresses, node subnets) and committed with a compare-and-set on the revision it
  read.  The controllers (\<^verbatim>\<open>h3s-controllers\<close>), the scheduler (\<^verbatim>\<open>h3s-scheduler\<close>), the service proxy
  (\<^verbatim>\<open>h3s-proxy\<close>) and the kubelet are clients of the API: they list, decide and write, and rely on the
  server for every conflict.

  The model is a shallow embedding.  A pure function of the source is a function here; a handler of the API
  server is a function of the registry that gives an answer and the registry after it; a client is a
  function of an outside state it reaches only through the operations of its API, so that what it does is
  proved for every server.  An error is the left side of a sum, a panic is a value of its own, and an early
  return is a branch.  Machine integers are integers with the source's checked or wrapping arithmetic written
  out; a string is its sequence of bytes; a JSON object is the list of its members in key order.
\<close>

section \<open>Theories and sources\<close>

text \<open>
  The vocabulary:
  \<open>H3s_Prelude\<close> (results, checked integers, Rust's operations on strings), \<open>Json\<close> (\<open>serde_json::Value\<close>, its accessors
  and updates; the locale \<open>ordered_map\<close>), \<open>Json_Edit\<close> (edits in place, with their panics), \<open>Json_Text\<close> (the text
  codec's law and a codec that has it), \<open>Ipv4\<close> and \<open>Ipv6\<close> (addresses of the standard library; the locale
  \<open>ipv4_networks\<close> for the ipnet crate).

  The registry:
  \<open>Store\<close> models \<^verbatim>\<open>crates/h3s-storage/src/lib.rs\<close> and \<^verbatim>\<open>sqlite.rs\<close>, the tables as the record \<open>registry\<close> and each
  operation as a transaction on it (\<open>mutate\<close>, \<open>compact\<close>, \<open>lease_grant\<close>, \<open>maintain\<close>).  \<open>Store_Laws\<close> has the table invariant, the
  outcome of a write on every branch and the refinement by snapshots; \<open>Store_Keys\<close> the keys, prefixes and
  custody; \<open>Store_Watch\<close> the lists and watches: a watch is in step with the registry under every interleaving.
  \<open>Store_Postgres\<close> is \<^verbatim>\<open>postgres.rs\<close>: a statement at read committed takes the tables as they are when it runs, so a
  concurrent writer may come between two statements; alone, the operations are those of SQLite, and the
  interleaving that loses an update is shown.

  The API server:
  \<open>Resources\<close> (\<^verbatim>\<open>resources.rs\<close>, \<^verbatim>\<open>rest.rs\<close>: failures, the catalogue, targets, verbs), \<open>Api\<close> and \<open>Api_Actions\<close>
  (\<^verbatim>\<open>lib.rs\<close>: decoding, page loops, handlers as actions), \<open>Registry_Api\<close> (a read-modify-write over the
  registry), \<open>Auth\<close> (\<^verbatim>\<open>crates/h3s-auth\<close>: identities, RBAC evaluation, node authorizer), \<open>Authz\<close> (\<^verbatim>\<open>authz.rs\<close>,
  \<^verbatim>\<open>nodes.rs\<close>), \<open>Selectors\<close> (\<^verbatim>\<open>selectors.rs\<close>), \<open>Patches\<close> (\<^verbatim>\<open>patch.rs\<close>), \<open>Strategic\<close> (\<^verbatim>\<open>patch/strategic.rs\<close>),
  \<open>Server_Side_Apply\<close> (\<^verbatim>\<open>apply.rs\<close>), \<open>Strategy_Kinds\<close> and \<open>Strategy\<close> (\<^verbatim>\<open>strategy.rs\<close>), \<open>Pod_Profile\<close>
  (\<^verbatim>\<open>crates/h3s-api/src/pod_profile.rs\<close>), \<open>Pod_Security\<close> (\<^verbatim>\<open>admission.rs\<close>), \<open>Service_Accounts\<close> (\<^verbatim>\<open>serviceaccounts.rs\<close>),
  \<open>Volume_Claims\<close> (\<^verbatim>\<open>pvc.rs\<close>), \<open>Services\<close> (\<^verbatim>\<open>services.rs\<close>), \<open>Node_Cidrs\<close> (\<^verbatim>\<open>crates/h3s-api/src/network.rs\<close>), \<open>Cidr_Admission\<close>
  (\<^verbatim>\<open>node_cidrs.rs\<close>), \<open>Tokens\<close> (\<^verbatim>\<open>authn.rs\<close>, \<^verbatim>\<open>token.rs\<close>), \<open>Quantity\<close> and \<open>Quantity_Exact\<close> (\<^verbatim>\<open>crates/h3s-api/src/quantity.rs\<close>), and \<open>Write\<close> with \<open>Write_Laws\<close>
  (\<^verbatim>\<open>write.rs\<close>), which composes them into \<open>execute\<close>.

  The clients:
  \<open>Placement\<close> and \<open>Scheduler\<close> (\<^verbatim>\<open>crates/h3s-scheduler/src\<close>), \<open>Service_Forwarding\<close>
  (\<^verbatim>\<open>crates/h3s-api/src/service_forwarding.rs\<close>), \<open>Proxy_Plan\<close>, \<open>Proxy_Laws\<close> and \<open>Proxy_Run\<close> (\<^verbatim>\<open>crates/h3s-proxy/src\<close>),
  \<open>Workload\<close> (\<^verbatim>\<open>crates/h3s-controllers/src/workload/mod.rs\<close>), \<open>Rollout\<close> and \<open>Workload_Sync\<close> (\<^verbatim>\<open>deployment.rs\<close>,
  \<^verbatim>\<open>replicaset.rs\<close>).
  \<open>Node_Controller\<close> (\<^verbatim>\<open>crates/h3s-controllers/src/node_cidrs.rs\<close>) allocates the Pod subnets of the Nodes.
  \<open>Endpoints\<close> (\<^verbatim>\<open>workload/endpoints.rs\<close>) keeps the EndpointSlices of a Service.
\<close>

section \<open>What the lemmas show\<close>

text \<open>
  Of the registry: every reachable state satisfies the invariant of the tables; a compare-and-set succeeds
  exactly on the revision it names; a client that lists and watches holds the registry's contents at its
  cursor; Postgres without a concurrent writer refines SQLite.

  Of the API server: however a write request ends, the registry changes by valid steps only; an update
  commits what it was computed from; a Pod is bound once; a Namespace is deleted in two phases; a node reads
  and writes only what is related to it; a role cannot grant more than its author holds, as far as the
  escalation check looks; ownership of fields decides conflicts of server-side apply exactly; allocated
  addresses, ports and subnets are fresh and their ledger stays valid; an issued token authenticates as its
  service account, and an accepted one has a live record and an account that still exists.

  Of the clients: the scheduler never overcommits a node within a cycle and chooses exactly among the
  feasible nodes; the proxy's plan has exactly the frontends and backends of the forwarded Services, and
  readiness means installed rules; a rollout keeps its surge and availability bounds and ends; a pass of a
  controller changes an object only right after it read its controlling object unchanged, stays within its
  burst, and the collector deletes only what a read just showed to be orphaned.
  A pass of the subnet controller gives every Node it writes a subnet of its own.
  The slices of a Service hold each of its endpoints once and at most a hundred of them.

  Where the code falls short of what it means to do, the lemma states what it does; the counterexamples are
  lemmas too (for example \<open>postgres_lost_update\<close>, \<open>escalation_misses_urls\<close>, \<open>node_mints_for_any_account\<close>, \<open>ready_with_stale_rules\<close>,
  \<open>unfinished_scale_down_breaks_the_budget\<close>).
\<close>

section \<open>Interfaces\<close>

text \<open>
  A locale stands where one component relies on another and is interpreted on the model's own definitions in
  the theory of the component that provides it: \<open>ordered_map\<close> on the members of JSON objects, \<open>ipv4_networks\<close> on
  the block arithmetic, \<open>custody\<close> on the sealers, \<open>registry_api\<close> on the registry, \<open>first_fit\<close> on the address
  and port ranges.

  Code that is not in the repository is an argument of the definitions that use it: the sealer of secrets,
  the ipnet crate, the text codec of JSON documents, the typed documents of k8s-openapi (normalization,
  protobuf, RBAC objects, bindings), base64, the json_patch library, the generated schema of strategic merge, the
  parser of RFC 3339 times, SHA-256, the nft program and the kernel's tables, and the API server as its
  clients see it.  Their laws are hypotheses of the lemmas that need them, and an instance shows that each
  can hold.  Where the source reads the clock several times within one decision, the model takes one
  reading.
\<close>

section \<open>Bounds and fuel\<close>

text \<open>
  Loops are recursions on what they consume.  Where the source counts, so does the model: pages of a listing
  end because the keys after the cursor decrease (\<open>page_loop\<close>) or because at most 64 continuations are accepted
  (\<open>list_pages\<close>); the strategic merge has 65 levels and a budget of 1,000,000 units, as in the source, and a call with
  none left is the source's error.  \<open>read_pages\<close> takes its number of rounds as fuel, and the lemma on watches holds
  for every number.  The rollout has no fuel: the replicas out of place bound the number of changes.
\<close>

section \<open>Not modelled\<close>

text \<open>
  The kubelet, the container runtime client, certificates, the supervisor tunnel, HTTP, TLS and protobuf
  transport, the command line and packaging drive other programs, the file system and the network: the
  logic they share with the rest (the Pod profile, the node authorizer) is modelled where it is defined.
  The backup of the registry and the external custody program are input and output.  Authentication by
  certificate is cryptography of third-party crates; the identity that results is where \<open>Auth\<close> begins.
  The read handlers are the listing and watching of \<open>Store_Watch\<close> behind the authorization of \<open>Authz\<close>, with the
  selectors of \<open>Selectors\<close>; their rendering as tables and streams is transport.  The controllers of
  namespaces, load balancers and the ingress, and the endless loops around each controller's pass, are not
  modelled.
\<close>

end
